(* ===== verification/Prelude.thy ===== *)
theory Prelude
  imports Main "HOL-Library.Word"
begin

unbundle bit_operations_syntax

text \<open>
  What every component shares: the machine integer types of the program with the saturating and
  checked operations of the Rust standard library, slices that may be out of range, and the
  native-endian byte codec.

  \<^item> \<open>u8\<close> to \<open>u128\<close> are words; \<open>i32\<close> and \<open>i64\<close> are words of the same width that are read with
    \<^const>\<open>sint\<close>. A \<open>usize\<close> that counts elements of an in-memory collection is a \<^typ>\<open>nat\<close> (the
    program is built for 64-bit targets only, and a collection never has \<open>2 ^ 64\<close> elements); a
    \<open>usize\<close> that is read from untrusted bytes is a \<open>u64\<close>.
  \<^item> \<open>sat_add\<close>, \<open>sat_sub\<close>, \<open>sat_mul\<close> are \<open>saturating_add/sub/mul\<close> on unsigned types,
    \<open>i64_sat_add\<close> is \<open>i64::saturating_add\<close>, \<open>i64_of_u64\<close> and \<open>i64_of_u128\<close> are
    \<open>i64::try_from(x).unwrap_or(i64::MAX)\<close>.
  \<^item> \<open>slice xs a b\<close> is \<open>xs.get(a..b)\<close>.
  \<^item> \<open>word_of_bytes\<close> is \<open>from_ne_bytes\<close> and \<open>bytes_of_word\<close> is \<open>to_ne_bytes\<close>; both supported
    architectures (x86_64 and aarch64 Linux) are little-endian.

  The collection \<open>sat_simps\<close> holds the laws that take the saturating operations to \<^typ>\<open>nat\<close> and
  \<^typ>\<open>int\<close> arithmetic.
\<close>

section \<open>Machine integers\<close>

type_synonym u8 = "8 word"
type_synonym u16 = "16 word"
type_synonym u32 = "32 word"
type_synonym u64 = "64 word"
type_synonym u128 = "128 word"
type_synonym i32 = "32 word"
type_synonym i64 = "64 word"

named_theorems sat_simps

definition sat_add :: "'a::len word \<Rightarrow> 'a word \<Rightarrow> 'a word" where
  "sat_add a b = (if unat a + unat b < 2 ^ LENGTH('a) then a + b else - 1)"

definition sat_sub :: "'a::len word \<Rightarrow> 'a word \<Rightarrow> 'a word" where
  "sat_sub a b = (if b \<le> a then a - b else 0)"

definition sat_mul :: "'a::len word \<Rightarrow> 'a word \<Rightarrow> 'a word" where
  "sat_mul a b = (if unat a * unat b < 2 ^ LENGTH('a) then a * b else - 1)"

definition checked_add :: "'a::len word \<Rightarrow> 'a word \<Rightarrow> 'a word option" where
  "checked_add a b = (if unat a + unat b < 2 ^ LENGTH('a) then Some (a + b) else None)"

definition checked_sub :: "'a::len word \<Rightarrow> 'a word \<Rightarrow> 'a word option" where
  "checked_sub a b = (if b \<le> a then Some (a - b) else None)"

definition i64_max :: i64 where
  "i64_max = 9223372036854775807"

definition i64_sat_add :: "i64 \<Rightarrow> i64 \<Rightarrow> i64" where
  "i64_sat_add a b = word_of_int (max (- (2 ^ 63)) (min (2 ^ 63 - 1) (sint a + sint b)))"

definition i64_of_u64 :: "u64 \<Rightarrow> i64" where
  "i64_of_u64 v = (if v \<le> 9223372036854775807 then v else i64_max)"

definition i64_of_u128 :: "u128 \<Rightarrow> i64" where
  "i64_of_u128 v = (if v \<le> 9223372036854775807 then ucast v else i64_max)"

text \<open>\<open>u64::try_from(v).unwrap_or_default()\<close>.\<close>

definition u64_of_i64 :: "i64 \<Rightarrow> u64" where
  "u64_of_i64 v = (if sint v < 0 then 0 else v)"

lemma unat_minus_one_word: "unat (- 1 :: 'a::len word) = 2 ^ LENGTH('a) - 1"
proof -
  have "unat (- 1 :: 'a word) = nat (uint (- 1 :: 'a word))" by simp
  also have "\<dots> = nat (2 ^ LENGTH('a) - 1)"
    by (simp add: unsigned_minus_1_eq_mask mask_eq_exp_minus_1)
  finally show ?thesis by (simp add: nat_diff_distrib nat_power_eq)
qed

lemma unat_sat_add [sat_simps]:
  "unat (sat_add a b) = min (unat a + unat b) (2 ^ LENGTH('a) - 1)" for a b :: "'a::len word"
  by (simp add: sat_add_def unat_word_ariths unat_minus_one_word)

lemma unat_sat_sub [sat_simps]: "unat (sat_sub a b) = unat a - unat b"
  by (simp add: sat_sub_def unat_sub word_le_nat_alt)

lemma unat_sat_mul [sat_simps]:
  "unat (sat_mul a b) = min (unat a * unat b) (2 ^ LENGTH('a) - 1)" for a b :: "'a::len word"
  by (simp add: sat_mul_def unat_word_ariths unat_minus_one_word)

lemma checked_add_Some:
  "checked_add a b = Some c \<longleftrightarrow> unat a + unat b < 2 ^ LENGTH('a) \<and> c = a + b" for a :: "'a::len word"
  by (auto simp: checked_add_def)

lemma unat_add_no_overflow:
  "unat a + unat b < 2 ^ LENGTH('a) \<Longrightarrow> unat (a + b) = unat a + unat b" for a :: "'a::len word"
  by (simp add: unat_word_ariths)

lemma checked_sub_Some: "checked_sub a b = Some c \<longleftrightarrow> b \<le> a \<and> c = a - b"
  by (auto simp: checked_sub_def)

lemma sat_add_0 [simp]: "sat_add a 0 = a" "sat_add 0 a = a"
  by (simp_all add: sat_add_def)

lemma unat_lt_2p [simp]: "unat (a :: 'a::len word) < 2 ^ LENGTH('a)"
  by (rule unsigned_less)

lemma unat_word_of_nat: "n < 2 ^ LENGTH('a) \<Longrightarrow> unat (word_of_nat n :: 'a::len word) = n"
  by (simp add: unat_of_nat)

lemma word_of_nat_unat: "word_of_nat (unat a) = a"
  by simp

lemma unat_lt_num:
  "unat (a :: u8) < 256" "unat (b :: u16) < 65536" "unat (c :: u32) < 4294967296"
  "unat (d :: u64) < 18446744073709551616"
  using unat_lt_2p [of a] unat_lt_2p [of b] unat_lt_2p [of c] unat_lt_2p [of d] by simp_all

lemma sint_range_i64: "- (2 ^ 63) \<le> sint (a :: i64)" "sint (a :: i64) \<le> 2 ^ 63 - 1"
  using sint_ge [of a] sint_lt [of a] by simp_all

lemma sint_word_of_int_64:
  assumes "- (2 ^ 63) \<le> x" "x \<le> 2 ^ 63 - 1"
  shows "sint (word_of_int x :: i64) = x"
  using assms by (simp add: signed_take_bit_int_eq_self sint_sbintrunc')

lemma sint_i64_sat_add [sat_simps]:
  "sint (i64_sat_add a b) = max (- (2 ^ 63)) (min (2 ^ 63 - 1) (sint a + sint b))"
  unfolding i64_sat_add_def by (rule sint_word_of_int_64) simp_all

lemma sint_i64_max [sat_simps]: "sint i64_max = 2 ^ 63 - 1"
  by (simp add: i64_max_def)

lemma int_le_i64_max: "n < 2 ^ 63 \<Longrightarrow> int n \<le> 2 ^ 63 - 1" for n :: nat
  by simp

lemma min_i64_max: "n \<ge> 2 ^ 63 \<Longrightarrow> min (int n) (2 ^ 63 - 1) = 2 ^ 63 - 1" for n :: nat
  by simp

lemma sint_eq_uint_small:
  assumes "unat (v :: i64) < 2 ^ 63"
  shows "sint v = int (unat v)"
proof -
  have "v = word_of_int (int (unat v))" by simp
  then have "sint v = sint (word_of_int (int (unat v)) :: i64)" by (rule arg_cong)
  also have "\<dots> = int (unat v)"
  proof (rule sint_word_of_int_64)
    show "- (2 ^ 63) \<le> int (unat v)"
      by (rule order_trans [of _ 0]) simp_all
    show "int (unat v) \<le> 2 ^ 63 - 1" using assms by (rule int_le_i64_max)
  qed
  finally show ?thesis .
qed

lemma sint_i64_of_u64 [sat_simps]: "sint (i64_of_u64 v) = min (int (unat v)) (2 ^ 63 - 1)"
proof (cases "v \<le> 9223372036854775807")
  case True
  then have small: "unat v < 2 ^ 63" by (simp add: word_le_nat_alt)
  then have "int (unat v) \<le> 2 ^ 63 - 1" by (rule int_le_i64_max)
  with True small show ?thesis by (simp add: i64_of_u64_def sint_eq_uint_small)
next
  case False
  then have "unat v \<ge> 2 ^ 63" by (simp add: word_le_nat_alt)
  from min_i64_max [OF this] False show ?thesis by (simp add: i64_of_u64_def sint_i64_max)
qed

lemma sint_i64_of_u128 [sat_simps]: "sint (i64_of_u128 v) = min (int (unat v)) (2 ^ 63 - 1)"
proof (cases "v \<le> 9223372036854775807")
  case True
  then have small: "unat v < 2 ^ 63" by (simp add: word_le_nat_alt)
  then have "unat (ucast v :: i64) = unat v"
    by (simp add: unsigned_ucast_eq take_bit_nat_eq_self)
  moreover have "int (unat v) \<le> 2 ^ 63 - 1" using small by (rule int_le_i64_max)
  ultimately show ?thesis
    using True small by (simp add: i64_of_u128_def sint_eq_uint_small)
next
  case False
  then have "unat v \<ge> 2 ^ 63" by (simp add: word_le_nat_alt)
  from min_i64_max [OF this] False show ?thesis by (simp add: i64_of_u128_def sint_i64_max)
qed

text \<open>Non-negative \<open>i64\<close> values as naturals.\<close>

abbreviation i64_nat :: "i64 \<Rightarrow> nat" where
  "i64_nat v \<equiv> nat (sint v)"

lemma nat_min_int: "nat (min (int n) m) = min n (nat m)"
  by (simp add: min_def) linarith

lemma i64_nat_of_u128: "i64_nat (i64_of_u128 v) = min (unat v) (2 ^ 63 - 1)"
  by (simp only: sint_i64_of_u128 nat_min_int) simp

lemma i64_nat_of_u64: "i64_nat (i64_of_u64 v) = min (unat v) (2 ^ 63 - 1)"
  by (simp only: sint_i64_of_u64 nat_min_int) simp

lemma i64_nonneg_of: "0 \<le> sint (i64_of_u128 v)" "0 \<le> sint (i64_of_u64 u)"
  by (simp_all add: sat_simps)

lemma nat_clamp_add:
  "0 \<le> x \<Longrightarrow> 0 \<le> y \<Longrightarrow>
   nat (max (- (2 ^ 63)) (min (2 ^ 63 - 1) (x + y))) = min (nat x + nat y) (2 ^ 63 - 1)" for x y :: int
  by (simp add: max_def min_def) linarith

lemma i64_nat_sat_add:
  "0 \<le> sint a \<Longrightarrow> 0 \<le> sint b \<Longrightarrow> i64_nat (i64_sat_add a b) = min (i64_nat a + i64_nat b) (2 ^ 63 - 1)"
  unfolding sint_i64_sat_add by (rule nat_clamp_add)

lemma i64_nonneg_sat_add: "0 \<le> sint a \<Longrightarrow> 0 \<le> sint b \<Longrightarrow> 0 \<le> sint (i64_sat_add a b)"
  by (simp add: sint_i64_sat_add)

text \<open>Zero-extension, \<open>u128::from(x)\<close> of a \<open>u64\<close>.\<close>

lemma unat_ucast_64_128 [sat_simps]: "unat (ucast (v :: u64) :: u128) = unat v"
proof -
  have "unat v < 2 ^ 128" using unat_lt_2p [of v] by simp
  then show ?thesis by (simp add: unsigned_ucast_eq take_bit_nat_eq_self)
qed

section \<open>Slices\<close>

definition slice :: "'a list \<Rightarrow> nat \<Rightarrow> nat \<Rightarrow> 'a list option" where
  "slice xs a b = (if a \<le> b \<and> b \<le> length xs then Some (take (b - a) (drop a xs)) else None)"

lemma slice_Some_length: "slice xs a b = Some ys \<Longrightarrow> length ys = b - a"
  by (auto simp: slice_def split: if_splits)

lemma slice_append_mid:
  "slice (xs @ ys @ zs) (length xs) (length xs + length ys) = Some ys"
  by (simp add: slice_def)

section \<open>Bytes\<close>

fun nat_of_bytes :: "u8 list \<Rightarrow> nat" where
  "nat_of_bytes [] = 0"
| "nat_of_bytes (b # bs) = unat b + 256 * nat_of_bytes bs"

fun bytes_of_nat :: "nat \<Rightarrow> nat \<Rightarrow> u8 list" where
  "bytes_of_nat 0 n = []"
| "bytes_of_nat (Suc k) n = word_of_nat (n mod 256) # bytes_of_nat k (n div 256)"

definition word_of_bytes :: "u8 list \<Rightarrow> 'a::len word" where
  "word_of_bytes bs = word_of_nat (nat_of_bytes bs)"

definition bytes_of_word :: "'a::len word \<Rightarrow> u8 list" where
  "bytes_of_word w = bytes_of_nat (LENGTH('a) div 8) (unat w)"

lemma length_bytes_of_nat [simp]: "length (bytes_of_nat k n) = k"
  by (induction k arbitrary: n) simp_all

lemma length_bytes_of_word [simp]: "length (bytes_of_word (w :: 'a::len word)) = LENGTH('a) div 8"
  by (simp add: bytes_of_word_def)

lemma bytes_of_nat_numeral:
  "bytes_of_nat (numeral k) n = word_of_nat (n mod 256) # bytes_of_nat (pred_numeral k) (n div 256)"
  by (subst numeral_eq_Suc) (rule bytes_of_nat.simps)

lemma unat_byte: "unat (word_of_nat (n mod 256) :: u8) = n mod 256"
  by (simp add: unat_of_nat)

lemma nat_of_bytes_of_nat: "nat_of_bytes (bytes_of_nat k n) = n mod 256 ^ k"
proof (induction k arbitrary: n)
  case 0
  then show ?case by simp
next
  case (Suc k)
  have "nat_of_bytes (bytes_of_nat (Suc k) n) = n mod 256 + 256 * ((n div 256) mod 256 ^ k)"
    by (simp add: Suc.IH unat_byte)
  also have "\<dots> = n mod 256 ^ Suc k"
    by (simp add: mod_mult2_eq add.commute)
  finally show ?case .
qed

lemma nat_of_bytes_less: "nat_of_bytes bs < 256 ^ length bs"
proof (induction bs)
  case Nil
  then show ?case by simp
next
  case (Cons b bs)
  have "unat b < 256" using unsigned_less [of b] by simp
  with Cons show ?case by simp
qed

lemma word_of_bytes_of_word_u64: "word_of_bytes (bytes_of_word (w :: u64)) = w"
  using unat_lt_2p [of w] by (simp add: word_of_bytes_def bytes_of_word_def nat_of_bytes_of_nat)

lemma word_of_bytes_of_word_u32: "word_of_bytes (bytes_of_word (w :: u32)) = w"
  using unat_lt_2p [of w] by (simp add: word_of_bytes_def bytes_of_word_def nat_of_bytes_of_nat)

end
