(* ===== verification/Tables.thy ===== *)
theory Tables
  imports Prelude "HOL-Library.AList"
begin

text \<open>
  The containers of the program, and the contracts the components rely on.

  \<^item> A \<open>HashMap\<close> (or \<open>HashSet\<close>) is an association list with distinct keys: \<^const>\<open>map_of\<close> is \<open>get\<close>,
    \<^const>\<open>AList.update\<close> is \<open>insert\<close>, \<^const>\<open>AList.delete\<close> is \<open>remove\<close>, \<^const>\<open>length\<close> is \<open>len\<close>.
    The order of the list stands for the table's iteration order, which Rust leaves open: a
    theorem about every well-formed list is a theorem about every iteration order.
  \<^item> A \<open>BTreeMap\<close> is an association list with strictly ascending keys (\<open>bt_put\<close>, \<open>bt_wf\<close>).
  \<^item> \<open>bounded_merge\<close> is the entry idiom \<open>Occupied => update, Vacant if len < cap => insert,
    Vacant => drop\<close>, which four components use to bound their memory.
  \<^item> \<open>tab_sum\<close> adds a measure over the values of a table.

  Locales: \<open>keyed_table\<close> (the map contract, interpreted by both containers) and \<open>fifo_cache\<close> (a
  memo table that evicts its oldest key, interpreted by the symbol cache and the mapping-hash
  cache), each with the lemmas its clients use.
\<close>

section \<open>Hash tables\<close>

type_synonym ('k, 'v) table = "('k \<times> 'v) list"

abbreviation tab_wf :: "('k, 'v) table \<Rightarrow> bool" where
  "tab_wf m \<equiv> distinct (map fst m)"

abbreviation tab_keys :: "('k, 'v) table \<Rightarrow> 'k set" where
  "tab_keys m \<equiv> fst ` set m"

text \<open>\<open>get_key_value\<close>: the stored entry whose key equals the argument.\<close>

definition get_key_value :: "('k, 'v) table \<Rightarrow> 'k \<Rightarrow> ('k \<times> 'v) option" where
  "get_key_value m k = find (\<lambda>p. fst p = k) m"

definition tab_retain :: "('k \<Rightarrow> bool) \<Rightarrow> ('k, 'v) table \<Rightarrow> ('k, 'v) table" where
  "tab_retain P m = filter (\<lambda>p. P (fst p)) m"

lemma get_key_value_Some: "get_key_value m k = Some (k', v) \<Longrightarrow> k' = k"
  by (auto simp: get_key_value_def find_Some_iff) (metis fst_conv)

lemma map_of_eq_None_keys: "map_of m k = None \<longleftrightarrow> k \<notin> tab_keys m"
  by (rule map_of_eq_None_iff)

lemma map_of_update [simp]: "map_of (AList.update k v m) = (map_of m)(k \<mapsto> v)"
  by (rule update_conv')

lemma map_of_delete_upd [simp]: "map_of (AList.delete k m) = (map_of m)(k := None)"
  by (rule delete_conv')

lemma tab_wf_update [simp]: "tab_wf m \<Longrightarrow> tab_wf (AList.update k v m)"
  by (rule distinct_update)

lemma tab_wf_delete [simp]: "tab_wf m \<Longrightarrow> tab_wf (AList.delete k m)"
  by (rule distinct_delete)

lemma tab_wf_retain [simp]: "tab_wf m \<Longrightarrow> tab_wf (tab_retain P m)"
  by (simp add: tab_retain_def distinct_map_filter)

lemma map_of_retain:
  "map_of (tab_retain P m) k = (if P k then map_of m k else None)"
  by (induction m) (auto simp: tab_retain_def)

lemma length_update:
  "length (AList.update k v m) = (if map_of m k = None then Suc (length m) else length m)"
  by (induction m) auto

lemma length_delete:
  assumes "tab_wf m"
  shows "length (AList.delete k m) = (if map_of m k = None then length m else length m - 1)"
  using assms
proof (induction m)
  case Nil
  then show ?case by simp
next
  case (Cons p m)
  then show ?case
    by (cases "fst p = k") (auto simp: map_of_eq_None_keys length_Suc_conv dest!: length_pos_if_in_set)
qed

lemma snd_set_update: "snd ` set (AList.update k v m) \<subseteq> insert v (snd ` set m)"
  by (induction m) auto

lemma snd_set_delete: "snd ` set (AList.delete k m) \<subseteq> snd ` set m"
  by (auto simp: AList.delete_eq)

lemma length_tab_keys: "tab_wf m \<Longrightarrow> length m = card (tab_keys m)"
  by (metis distinct_card length_map set_map)

lemma tab_keys_dom: "tab_keys m = dom (map_of m)"
  by (rule dom_map_of_conv_image_fst [symmetric])

lemma tab_keys_delete: "tab_keys (AList.delete k m) = tab_keys m - {k}"
  unfolding tab_keys_dom by simp

lemma length_tab_dom: "tab_wf m \<Longrightarrow> length m = card (dom (map_of m))"
  by (simp add: length_tab_keys tab_keys_dom)

section \<open>Sums over a table\<close>

definition tab_sum :: "('v \<Rightarrow> nat) \<Rightarrow> ('k, 'v) table \<Rightarrow> nat" where
  "tab_sum g m = (\<Sum>(_, v) \<leftarrow> m. g v)"

lemma tab_sum_simps [simp]:
  "tab_sum g [] = 0" "tab_sum g ((k, v) # m) = g v + tab_sum g m"
  by (simp_all add: tab_sum_def)

definition opt_measure :: "('v \<Rightarrow> nat) \<Rightarrow> 'v option \<Rightarrow> nat" where
  "opt_measure g o' = (case o' of None \<Rightarrow> 0 | Some v \<Rightarrow> g v)"

lemma opt_measure_simps [simp]: "opt_measure g None = 0" "opt_measure g (Some v) = g v"
  by (simp_all add: opt_measure_def)

lemma tab_sum_update:
  "tab_wf m \<Longrightarrow> tab_sum g (AList.update k v m) + opt_measure g (map_of m k) = tab_sum g m + g v"
  by (induction m) (auto simp: map_of_eq_None_keys dest: weak_map_of_SomeI)

lemma tab_sum_delete:
  "tab_wf m \<Longrightarrow> tab_sum g (AList.delete k m) + opt_measure g (map_of m k) = tab_sum g m"
proof (induction m)
  case Nil
  then show ?case by simp
next
  case (Cons p m)
  then show ?case
    by (cases p) (auto simp: map_of_eq_None_keys)
qed

lemma tab_sum_ge: "map_of m k = Some v \<Longrightarrow> g v \<le> tab_sum g m"
  by (induction m) (auto split: if_splits)

lemma tab_sum_le: "(\<And>v. g v \<le> b) \<Longrightarrow> tab_sum g m \<le> length m * b"
proof (induction m)
  case Nil
  then show ?case by simp
next
  case (Cons p m)
  then show ?case by (cases p) (auto intro!: add_mono)
qed

lemma tab_sum_eq_0: "tab_sum g m = 0 \<longleftrightarrow> (\<forall>v \<in> snd ` set m. g v = 0)"
  by (induction m) auto

lemma tab_sum_mono_mem: "(\<And>v. v \<in> snd ` set m \<Longrightarrow> g v \<le> h v) \<Longrightarrow> tab_sum g m \<le> tab_sum h m"
proof (induction m)
  case Nil
  then show ?case by simp
next
  case (Cons p m)
  then show ?case by (cases p) (auto intro!: add_mono)
qed

section \<open>Bounded aggregation\<close>

definition bounded_merge ::
  "nat \<Rightarrow> 'k \<Rightarrow> ('v \<Rightarrow> 'v) \<Rightarrow> 'v \<Rightarrow> ('k, 'v) table \<Rightarrow> ('k, 'v) table option" where
  "bounded_merge cap k f v0 m =
     (case map_of m k of
        Some v \<Rightarrow> Some (AList.update k (f v) m)
      | None \<Rightarrow> if length m < cap then Some (AList.update k v0 m) else None)"

lemma bounded_merge_length:
  "bounded_merge cap k f v0 m = Some m' \<Longrightarrow> length m \<le> cap \<Longrightarrow> length m' \<le> cap"
  by (auto simp: bounded_merge_def length_update split: option.splits if_splits)

lemma bounded_merge_wf: "bounded_merge cap k f v0 m = Some m' \<Longrightarrow> tab_wf m \<Longrightarrow> tab_wf m'"
  by (auto simp: bounded_merge_def split: option.splits if_splits)

lemma bounded_merge_None:
  "bounded_merge cap k f v0 m = None \<longleftrightarrow> map_of m k = None \<and> cap \<le> length m"
  by (auto simp: bounded_merge_def split: option.splits)

lemma bounded_merge_map_of:
  "bounded_merge cap k f v0 m = Some m' \<Longrightarrow>
   map_of m' = (map_of m)(k \<mapsto> (case map_of m k of None \<Rightarrow> v0 | Some v \<Rightarrow> f v))"
  by (auto simp: bounded_merge_def split: option.splits if_splits)

lemma bounded_merge_sum:
  assumes "bounded_merge cap k f v0 m = Some m'" "tab_wf m"
    and "\<And>v. map_of m k = Some v \<Longrightarrow> g (f v) = g v + d" "g v0 = d"
  shows "tab_sum g m' = tab_sum g m + d"
  using assms tab_sum_update [OF assms(2), of g k v0]
    tab_sum_update [OF assms(2), of g k "f (the (map_of m k))"]
  by (auto simp: bounded_merge_def split: option.splits if_splits)

section \<open>Ordered tables\<close>

fun bt_put :: "'k::linorder \<Rightarrow> 'v \<Rightarrow> ('k, 'v) table \<Rightarrow> ('k, 'v) table" where
  "bt_put k v [] = [(k, v)]"
| "bt_put k v (p # m) =
     (if k = fst p then (k, v) # m else if k < fst p then (k, v) # p # m else p # bt_put k v m)"

definition bt_wf :: "('k::linorder, 'v) table \<Rightarrow> bool" where
  "bt_wf m \<longleftrightarrow> sorted_wrt (<) (map fst m)"

lemma bt_wf_simps [simp]:
  "bt_wf []" "bt_wf (p # m) \<longleftrightarrow> (\<forall>q \<in> set m. fst p < fst q) \<and> bt_wf m"
  by (auto simp: bt_wf_def)

lemma bt_wf_tab_wf: "bt_wf m \<Longrightarrow> tab_wf m"
  by (simp add: bt_wf_def strict_sorted_iff)

lemma bt_wf_tl: "bt_wf m \<Longrightarrow> bt_wf (tl m)"
  by (cases m) auto

lemma set_bt_put_keys: "tab_keys (bt_put k v m) = insert k (tab_keys m)"
  by (induction m) auto

lemma bt_wf_put [simp]: "bt_wf m \<Longrightarrow> bt_wf (bt_put k v m)"
proof (induction m)
  case Nil
  then show ?case by simp
next
  case (Cons p m)
  have "fst p < fst q" if "q \<in> set (bt_put k v m)" "fst p < k" for q
  proof -
    from that(1) have "fst q \<in> insert k (tab_keys m)" by (metis imageI set_bt_put_keys)
    with Cons.prems that(2) show ?thesis by auto
  qed
  with Cons show ?case by (auto intro: less_trans)
qed

lemma map_of_bt_put [simp]: "bt_wf m \<Longrightarrow> map_of (bt_put k v m) = (map_of m)(k \<mapsto> v)"
proof (induction m)
  case Nil
  then show ?case by simp
next
  case (Cons p m)
  have "map_of m k = None" if "k < fst p"
    using Cons.prems that by (auto simp: map_of_eq_None_keys dest: order.asym less_trans)
  with Cons show ?case by (cases p) (auto simp: fun_eq_iff)
qed

lemma bt_wf_delete [simp]: "bt_wf m \<Longrightarrow> bt_wf (AList.delete k m)"
  by (induction m) (auto simp: AList.delete_eq)

lemma length_bt_put:
  "bt_wf m \<Longrightarrow> length (bt_put k v m) = (if map_of m k = None then Suc (length m) else length m)"
proof (induction m)
  case Nil
  then show ?case by simp
next
  case (Cons p m)
  have "map_of m k = None" if "k < fst p"
    using Cons.prems that by (auto simp: map_of_eq_None_keys dest: order.asym less_trans)
  with Cons show ?case by (cases p) auto
qed

section \<open>The map contract\<close>

locale keyed_table =
  fixes get :: "'m \<Rightarrow> 'k \<Rightarrow> 'v option"
    and put :: "'k \<Rightarrow> 'v \<Rightarrow> 'm \<Rightarrow> 'm"
    and del :: "'k \<Rightarrow> 'm \<Rightarrow> 'm"
    and len :: "'m \<Rightarrow> nat"
    and wf :: "'m \<Rightarrow> bool"
  assumes get_put: "wf m \<Longrightarrow> get (put k v m) = (get m)(k \<mapsto> v)"
    and get_del: "wf m \<Longrightarrow> get (del k m) = (get m)(k := None)"
    and wf_put: "wf m \<Longrightarrow> wf (put k v m)"
    and wf_del: "wf m \<Longrightarrow> wf (del k m)"
    and len_dom: "wf m \<Longrightarrow> len m = card (dom (get m))"
    and finite_dom: "finite (dom (get m))"
begin

lemma len_put: "wf m \<Longrightarrow> len (put k v m) = (if get m k = None then Suc (len m) else len m)"
  using finite_dom [of m]
  by (auto simp: len_dom wf_put get_put card_insert_if domIff insert_absorb)

lemma len_del: "wf m \<Longrightarrow> len (del k m) = (if get m k = None then len m else len m - 1)"
  using finite_dom [of m]
  by (auto simp: len_dom wf_del get_del domIff card_Diff_singleton)

lemma put_below_capacity:
  assumes "wf m" "len m \<le> cap" "get m k = None \<Longrightarrow> len m < cap"
  shows "len (put k v m) \<le> cap"
  using assms by (auto simp: len_put)

lemma del_put_len:
  assumes "wf m" "get m old = Some w" "get m k = None"
  shows "len (put k v (del old m)) = len m"
proof -
  have "len m > 0"
    using assms finite_dom [of m] by (auto simp: len_dom card_gt_0_iff)
  with assms show ?thesis
    by (auto simp: len_put len_del wf_del get_del)
qed

end

interpretation hash: keyed_table map_of AList.update AList.delete length tab_wf
  by unfold_locales (auto simp: length_tab_dom finite_dom_map_of)

interpretation btree: keyed_table map_of bt_put AList.delete length bt_wf
  by unfold_locales (auto simp: length_tab_dom bt_wf_tab_wf finite_dom_map_of)

section \<open>Memo tables that evict their oldest key\<close>

locale fifo_cache =
  fixes get :: "'s \<Rightarrow> 'k \<Rightarrow> 'v option"
    and order :: "'s \<Rightarrow> 'k list"
    and store :: "'k \<Rightarrow> 'v \<Rightarrow> 's \<Rightarrow> 's"
    and cap :: nat
    and ok :: "'s \<Rightarrow> bool"
  assumes cap_pos: "0 < cap"
    and ok_distinct: "ok s \<Longrightarrow> distinct (order s)"
    and ok_dom: "ok s \<Longrightarrow> dom (get s) = set (order s)"
    and ok_cap: "ok s \<Longrightarrow> length (order s) \<le> cap"
    and store_order: "ok s \<Longrightarrow> get s k = None \<Longrightarrow>
      order (store k v s) = (if cap \<le> length (order s) then tl (order s) else order s) @ [k]"
    and store_get: "ok s \<Longrightarrow> get s k = None \<Longrightarrow>
      get (store k v s) =
        (if cap \<le> length (order s) then (get s)(hd (order s) := None) else get s)(k \<mapsto> v)"
    and store_ok: "ok s \<Longrightarrow> get s k = None \<Longrightarrow> ok (store k v s)"
begin

lemma capacity_kept: "ok s \<Longrightarrow> get s k = None \<Longrightarrow> card (dom (get (store k v s))) \<le> cap"
  by (metis distinct_card ok_cap ok_distinct ok_dom store_ok)

lemma stored_found: "ok s \<Longrightarrow> get s k = None \<Longrightarrow> get (store k v s) k = Some v"
  by (simp add: store_get)

text \<open>What is cached agrees with the function it memoises.\<close>

lemma coherent_kept:
  assumes "ok s" "get s k = None" "\<And>x w. get s x = Some w \<Longrightarrow> w = f x"
    and "get (store k (f k) s) x = Some w"
  shows "w = f x"
  using assms(3) [of x w] assms(4)
  by (auto simp: store_get [OF assms(1,2)] split: if_splits)

text \<open>Only the oldest key leaves, and only when the cache is full.\<close>

lemma eviction:
  assumes "ok s" "get s k = None" "get s x = Some w" "get (store k v s) x = None"
  shows "cap \<le> length (order s) \<and> x = hd (order s)"
  using assms(3,4) by (auto simp: store_get [OF assms(1,2)] split: if_splits)

end

end
