(* ===== verification/Profile.thy ===== *)
theory Profile
  imports Tables
begin

text \<open>
  The data model of \<open>src/src/profile.rs\<close>: frames, call stacks, attributed and timed samples, the
  per-stack counters, and \<open>has_address_cycle\<close>, which clears a scratch set and reports whether an
  address occurs twice. Reference counting (\<open>Arc\<close>) shares equal values and is not visible.
\<close>

datatype frame = Frame (address: u64)

datatype stack = Stack (frames: "frame list")

record attributed_stack =
  as_stack :: stack
  as_pid :: u32
  as_tid :: u32
  as_thread_name :: "string option"

record timed_stack_sample =
  ts_stack :: stack
  ts_pid :: u32
  ts_tid :: u32
  ts_thread_name :: "string option"
  ts_timestamp :: u64
  ts_cpu_delta :: u64

record cpu_values =
  cpu_samples :: i64
  cpu_nanoseconds :: i64

record heap_values =
  hv_alloc_objects :: i64
  hv_alloc_space :: i64
  hv_inuse_objects :: i64
  hv_inuse_space :: i64

record off_cpu_values =
  oc_events :: i64
  oc_nanoseconds :: i64

definition cpu_values_default :: cpu_values where
  "cpu_values_default = \<lparr>cpu_samples = 0, cpu_nanoseconds = 0\<rparr>"

definition heap_values_default :: heap_values where
  "heap_values_default =
     \<lparr>hv_alloc_objects = 0, hv_alloc_space = 0, hv_inuse_objects = 0, hv_inuse_space = 0\<rparr>"

definition off_cpu_values_default :: off_cpu_values where
  "off_cpu_values_default = \<lparr>oc_events = 0, oc_nanoseconds = 0\<rparr>"

text \<open>\<open>Stack::from(addresses.map(Frame))\<close>.\<close>

definition stack_of_addresses :: "u64 list \<Rightarrow> stack" where
  "stack_of_addresses as = Stack (map Frame as)"

definition addresses_of :: "stack \<Rightarrow> u64 list" where
  "addresses_of s = map address (frames s)"

lemma addresses_of_stack [simp]: "addresses_of (stack_of_addresses as) = as"
  by (simp add: addresses_of_def stack_of_addresses_def comp_def)

lemma stack_of_addresses_inj: "stack_of_addresses as = stack_of_addresses bs \<longleftrightarrow> as = bs"
  by (metis addresses_of_stack)

text \<open>
  \<open>frames.iter().all(|a| seen.insert(a))\<close>: stops at the first address that is already in the set,
  and leaves the set as it is then.
\<close>

fun insert_all :: "u64 list \<Rightarrow> u64 list \<Rightarrow> bool \<times> u64 list" where
  "insert_all [] seen = (True, seen)"
| "insert_all (a # as) seen = (if a \<in> set seen then (False, seen) else insert_all as (a # seen))"

definition has_address_cycle :: "u64 list \<Rightarrow> u64 list \<Rightarrow> bool \<times> u64 list" where
  "has_address_cycle fs seen = (let (all_new, seen') = insert_all fs [] in (\<not> all_new, seen'))"

lemma fst_insert_all: "fst (insert_all fs seen) \<longleftrightarrow> distinct fs \<and> set fs \<inter> set seen = {}"
  by (induction fs arbitrary: seen) auto

lemma has_address_cycle_iff: "fst (has_address_cycle fs seen) \<longleftrightarrow> \<not> distinct fs"
  by (simp add: has_address_cycle_def fst_insert_all split: prod.split)
    (metis fst_conv fst_insert_all inf_bot_right list.set(1))

end
