(* ===== verification/Heap_State.thy ===== *)
theory Heap_State
  imports Profile
begin

text \<open>
  The live-allocation state of \<open>src/src/heap/state.rs\<close>: \<open>HeapState\<close> with its live table, the
  allocation counters of the current window, the per-stack totals of live allocations and the
  counters of what the stack limit dropped.

  Lemmas: \<open>heap_inv\<close> (tables are maps, the window table respects its limit, and the totals equal
  the sums over the live table) is kept by every operation. No \<open>u128\<close> addition ever saturates,
  because a live table has at most \<open>2 ^ 64 - 1\<close> entries of at most \<open>2 ^ 64 - 1\<close> each.
\<close>

section \<open>State\<close>

datatype heap_event_kind = Alloc | Free

record heap_event =
  he_kind :: heap_event_kind
  he_pointer :: u64
  he_size :: u64
  he_weight :: u64
  he_frames :: "u64 list"

record live_allocation =
  la_weight :: u64
  la_weighted_space :: u64
  la_stack :: stack

record live_totals =
  lt_objects :: u128
  lt_space :: u128

record heap_aggregation_drops =
  hd_alloc_objects :: i64
  hd_alloc_space :: i64
  hd_inuse_objects :: i64
  hd_inuse_space :: i64

record heap_state =
  hs_live :: "(u64, live_allocation) table"
  hs_window_allocations :: "(stack, heap_values) table"
  hs_live_totals :: "(stack, live_totals) table"
  hs_max_stacks :: nat
  hs_drops :: heap_aggregation_drops

definition live_totals_default :: live_totals where
  "live_totals_default = \<lparr>lt_objects = 0, lt_space = 0\<rparr>"

definition heap_drops_default :: heap_aggregation_drops where
  "heap_drops_default =
     \<lparr>hd_alloc_objects = 0, hd_alloc_space = 0, hd_inuse_objects = 0, hd_inuse_space = 0\<rparr>"

definition heap_state_default :: heap_state where
  "heap_state_default =
     \<lparr>hs_live = [], hs_window_allocations = [], hs_live_totals = [],
      hs_max_stacks = 2 ^ 64 - 1, hs_drops = heap_drops_default\<rparr>"

definition with_max_stacks :: "nat \<Rightarrow> heap_state" where
  "with_max_stacks n = heap_state_default\<lparr>hs_max_stacks := n\<rparr>"

section \<open>Operations\<close>

definition intern_stack :: "heap_state \<Rightarrow> stack \<Rightarrow> stack" where
  "intern_stack st s =
     (case get_key_value (hs_live_totals st) s of
        Some (existing, _) \<Rightarrow> existing
      | None \<Rightarrow>
          (case get_key_value (hs_window_allocations st) s of
             Some (existing, _) \<Rightarrow> existing
           | None \<Rightarrow> s))"

text \<open>
  \<open>totals.entry(stack).or_default()\<close> and the two saturating additions, which \<open>allocate\<close> and
  \<open>rebuild_live_totals\<close> share.
\<close>

definition add_live_totals ::
  "(stack, live_totals) table \<Rightarrow> live_allocation \<Rightarrow> (stack, live_totals) table" where
  "add_live_totals tab a =
     (let t = (case map_of tab (la_stack a) of Some t \<Rightarrow> t | None \<Rightarrow> live_totals_default)
      in AList.update (la_stack a)
           \<lparr>lt_objects = sat_add (lt_objects t) (ucast (la_weight a)),
            lt_space = sat_add (lt_space t) (ucast (la_weighted_space a))\<rparr> tab)"

definition remove_live_totals ::
  "(stack, live_totals) table \<Rightarrow> live_allocation \<Rightarrow> (stack, live_totals) table" where
  "remove_live_totals tab a =
     (case map_of tab (la_stack a) of
        None \<Rightarrow> tab
      | Some t \<Rightarrow>
          (let t' = \<lparr>lt_objects = sat_sub (lt_objects t) (ucast (la_weight a)),
                     lt_space = sat_sub (lt_space t) (ucast (la_weighted_space a))\<rparr>;
               tab' = AList.update (la_stack a) t' tab
           in if lt_objects t' = 0 \<and> lt_space t' = 0 then AList.delete (la_stack a) tab' else tab'))"

text \<open>The window counters of an accepted allocation: present, room for a new stack, or dropped.\<close>

definition record_allocation :: "heap_state \<Rightarrow> stack \<Rightarrow> i64 \<Rightarrow> i64 \<Rightarrow> heap_state" where
  "record_allocation st s alloc_objects alloc_space =
     (case map_of (hs_window_allocations st) s of
        Some v \<Rightarrow>
          st\<lparr>hs_window_allocations := AList.update s
               (v\<lparr>hv_alloc_objects := i64_sat_add (hv_alloc_objects v) alloc_objects,
                  hv_alloc_space := i64_sat_add (hv_alloc_space v) alloc_space\<rparr>)
               (hs_window_allocations st)\<rparr>
      | None \<Rightarrow>
          if length (hs_window_allocations st) < hs_max_stacks st
          then st\<lparr>hs_window_allocations := AList.update s
                    (heap_values_default\<lparr>hv_alloc_objects := alloc_objects,
                                         hv_alloc_space := alloc_space\<rparr>)
                    (hs_window_allocations st)\<rparr>
          else st\<lparr>hs_drops := (hs_drops st)
                    \<lparr>hd_alloc_objects := i64_sat_add (hd_alloc_objects (hs_drops st)) alloc_objects,
                     hd_alloc_space := i64_sat_add (hd_alloc_space (hs_drops st)) alloc_space\<rparr>\<rparr>)"

definition allocate :: "heap_event \<Rightarrow> heap_state \<Rightarrow> heap_state" where
  "allocate ev st =
     (if he_pointer ev = 0 \<or> he_size ev = 0 \<or> he_weight ev = 0 then st
      else
        let s = intern_stack st (stack_of_addresses (he_frames ev));
            weighted_space = sat_mul (he_size ev) (he_weight ev);
            st1 = record_allocation st s (i64_of_u64 (he_weight ev)) (i64_of_u64 weighted_space);
            a = \<lparr>la_weight = he_weight ev, la_weighted_space = weighted_space, la_stack = s\<rparr>;
            previous = map_of (hs_live st1) (he_pointer ev);
            totals = (case previous of
                        Some p \<Rightarrow> remove_live_totals (hs_live_totals st1) p
                      | None \<Rightarrow> hs_live_totals st1)
        in st1\<lparr>hs_live := AList.update (he_pointer ev) a (hs_live st1),
               hs_live_totals := add_live_totals totals a\<rparr>)"

definition heap_apply :: "heap_event \<Rightarrow> heap_state \<Rightarrow> heap_state" where
  "heap_apply ev st =
     (case he_kind ev of
        Alloc \<Rightarrow> allocate ev st
      | Free \<Rightarrow>
          (case map_of (hs_live st) (he_pointer ev) of
             None \<Rightarrow> st
           | Some a \<Rightarrow> st\<lparr>hs_live := AList.delete (he_pointer ev) (hs_live st),
                           hs_live_totals := remove_live_totals (hs_live_totals st) a\<rparr>))"

definition snapshot_step ::
  "nat \<Rightarrow> (stack, heap_values) table \<times> heap_aggregation_drops \<Rightarrow> stack \<times> live_totals \<Rightarrow>
   (stack, heap_values) table \<times> heap_aggregation_drops" where
  "snapshot_step max_stacks acc entry =
     (let (values, drops) = acc; (s, totals) = entry;
          inuse_objects = i64_of_u128 (lt_objects totals);
          inuse_space = i64_of_u128 (lt_space totals)
      in case map_of values s of
           Some v \<Rightarrow>
             (AList.update s (v\<lparr>hv_inuse_objects := inuse_objects, hv_inuse_space := inuse_space\<rparr>)
                values, drops)
         | None \<Rightarrow>
             if length values < max_stacks
             then (AList.update s (heap_values_default\<lparr>hv_inuse_objects := inuse_objects,
                                                       hv_inuse_space := inuse_space\<rparr>) values, drops)
             else (values,
                   drops\<lparr>hd_inuse_objects := i64_sat_add (hd_inuse_objects drops) inuse_objects,
                         hd_inuse_space := i64_sat_add (hd_inuse_space drops) inuse_space\<rparr>))"

definition snapshot_window_with_drops ::
  "heap_state \<Rightarrow> ((stack, heap_values) table \<times> heap_aggregation_drops) \<times> heap_state" where
  "snapshot_window_with_drops st =
     (foldl (snapshot_step (hs_max_stacks st)) (hs_window_allocations st, hs_drops st)
        (hs_live_totals st),
      st\<lparr>hs_window_allocations := [], hs_drops := heap_drops_default\<rparr>)"

definition snapshot_window :: "heap_state \<Rightarrow> (stack, heap_values) table \<times> heap_state" where
  "snapshot_window st = (let ((values, _), st') = snapshot_window_with_drops st in (values, st'))"

definition clear_live :: "heap_state \<Rightarrow> heap_state" where
  "clear_live st = st\<lparr>hs_live := [], hs_live_totals := []\<rparr>"

definition live_sample_count :: "heap_state \<Rightarrow> nat" where
  "live_sample_count st = length (hs_live st)"

definition rebuild_live_totals :: "heap_state \<Rightarrow> heap_state" where
  "rebuild_live_totals st =
     st\<lparr>hs_live_totals := foldl add_live_totals [] (map snd (hs_live st))\<rparr>"

definition retain_live_pointers :: "(u64 \<Rightarrow> bool) \<Rightarrow> heap_state \<Rightarrow> heap_state" where
  "retain_live_pointers pointers st =
     rebuild_live_totals (st\<lparr>hs_live := tab_retain pointers (hs_live st)\<rparr>)"

text \<open>The operations of a session, in any order.\<close>

datatype heap_op =
  Apply heap_event
| Snapshot
| Clear_Live
| Retain_Live "u64 list"

fun heap_step :: "heap_state \<Rightarrow> heap_op \<Rightarrow> heap_state" where
  "heap_step st (Apply ev) = heap_apply ev st"
| "heap_step st Snapshot = snd (snapshot_window_with_drops st)"
| "heap_step st Clear_Live = clear_live st"
| "heap_step st (Retain_Live ps) = retain_live_pointers (\<lambda>p. p \<in> set ps) st"

definition heap_run :: "heap_state \<Rightarrow> heap_op list \<Rightarrow> heap_state" where
  "heap_run = foldl heap_step"

section \<open>What the totals stand for\<close>

definition stack_weight :: "stack \<Rightarrow> live_allocation \<Rightarrow> nat" where
  "stack_weight s a = (if la_stack a = s then unat (la_weight a) else 0)"

definition stack_space :: "stack \<Rightarrow> live_allocation \<Rightarrow> nat" where
  "stack_space s a = (if la_stack a = s then unat (la_weighted_space a) else 0)"

definition live_objects :: "heap_state \<Rightarrow> stack \<Rightarrow> nat" where
  "live_objects st s = tab_sum (stack_weight s) (hs_live st)"

definition live_space :: "heap_state \<Rightarrow> stack \<Rightarrow> nat" where
  "live_space st s = tab_sum (stack_space s) (hs_live st)"

abbreviation objects_at :: "(stack, live_totals) table \<Rightarrow> stack \<Rightarrow> nat" where
  "objects_at tab s \<equiv> opt_measure (\<lambda>t. unat (lt_objects t)) (map_of tab s)"

abbreviation space_at :: "(stack, live_totals) table \<Rightarrow> stack \<Rightarrow> nat" where
  "space_at tab s \<equiv> opt_measure (\<lambda>t. unat (lt_space t)) (map_of tab s)"

definition live_ok :: "(u64, live_allocation) table \<Rightarrow> bool" where
  "live_ok m \<longleftrightarrow>
     tab_wf m \<and> 0 \<notin> tab_keys m \<and>
     (\<forall>a \<in> snd ` set m. la_weight a \<noteq> 0 \<and> la_weighted_space a \<noteq> 0)"

definition totals_ok :: "(stack, live_totals) table \<Rightarrow> (u64, live_allocation) table \<Rightarrow> bool" where
  "totals_ok tab m \<longleftrightarrow>
     tab_wf tab \<and>
     (\<forall>s. objects_at tab s = tab_sum (stack_weight s) m \<and> space_at tab s = tab_sum (stack_space s) m) \<and>
     (\<forall>s t. map_of tab s = Some t \<longrightarrow> lt_objects t \<noteq> 0)"

definition heap_inv :: "heap_state \<Rightarrow> bool" where
  "heap_inv st \<longleftrightarrow>
     live_ok (hs_live st) \<and> totals_ok (hs_live_totals st) (hs_live st) \<and>
     tab_wf (hs_window_allocations st) \<and>
     length (hs_window_allocations st) \<le> hs_max_stacks st"

lemmas heap_inv_defs = heap_inv_def live_ok_def totals_ok_def

section \<open>Bounds: the totals never saturate\<close>

lemma unat_u64_le: "unat (w :: u64) \<le> 2 ^ 64 - 1"
  using unat_lt_2p [of w] by simp

lemma stack_measure_le:
  "stack_weight s a \<le> 2 ^ 64 - 1" "stack_space s a \<le> 2 ^ 64 - 1"
  using unat_u64_le by (simp_all add: stack_weight_def stack_space_def)

lemma live_length: "live_ok m \<Longrightarrow> length m \<le> 2 ^ 64 - 1"
proof -
  assume ok: "live_ok m"
  then have "length m = card (tab_keys m)" by (simp add: live_ok_def length_tab_keys)
  also have "\<dots> \<le> card (UNIV - {0 :: u64})"
    using ok by (intro card_mono) (auto simp: live_ok_def)
  also have "\<dots> = 2 ^ 64 - 1" by (simp add: card_word)
  finally show ?thesis .
qed

lemma live_sums_bounded:
  assumes "live_ok m"
  shows "tab_sum (stack_weight s) m < 2 ^ 128" "tab_sum (stack_space s) m < 2 ^ 128"
proof -
  have "length m * (2 ^ 64 - 1) \<le> (2 ^ 64 - 1) * (2 ^ 64 - 1)"
    using live_length [OF assms] by (rule mult_le_mono1)
  also have "\<dots> < (2 ^ 128 :: nat)" by simp
  finally have "length m * (2 ^ 64 - 1) < (2 ^ 128 :: nat)" .
  then show "tab_sum (stack_weight s) m < 2 ^ 128" "tab_sum (stack_space s) m < 2 ^ 128"
    using tab_sum_le [where g = "stack_weight s", OF stack_measure_le(1), of m]
      tab_sum_le [where g = "stack_space s", OF stack_measure_le(2), of m]
    by linarith+
qed

lemma weight_zero_iff_space_zero:
  assumes "live_ok m"
  shows "tab_sum (stack_weight s) m = 0 \<longleftrightarrow> tab_sum (stack_space s) m = 0"
  using assms
  by (auto simp: tab_sum_eq_0 live_ok_def stack_weight_def stack_space_def unat_eq_0; fastforce)

section \<open>Totals after each change\<close>

lemma unat_u64_le_128: "min (unat (w :: u64)) (2 ^ 128 - 1) = unat w"
  using unat_u64_le [of w] by simp

lemma objects_at_add:
  "objects_at (add_live_totals tab a) s =
     (if s = la_stack a then min (objects_at tab s + unat (la_weight a)) (2 ^ 128 - 1)
      else objects_at tab s)"
  using unat_u64_le_128 [of "la_weight a"] unat_u64_le_128 [of "la_weighted_space a"]
  by (auto simp: add_live_totals_def live_totals_default_def sat_simps split: option.split)

lemma space_at_add:
  "space_at (add_live_totals tab a) s =
     (if s = la_stack a then min (space_at tab s + unat (la_weighted_space a)) (2 ^ 128 - 1)
      else space_at tab s)"
  using unat_u64_le_128 [of "la_weight a"] unat_u64_le_128 [of "la_weighted_space a"]
  by (auto simp: add_live_totals_def live_totals_default_def sat_simps split: option.split)

lemma remove_live_totals_at:
  "objects_at (remove_live_totals tab a) s =
     (if s = la_stack a then objects_at tab s - unat (la_weight a) else objects_at tab s)"
  "space_at (remove_live_totals tab a) s =
     (if s = la_stack a then space_at tab s - unat (la_weighted_space a) else space_at tab s)"
  by (auto simp: remove_live_totals_def Let_def sat_simps unat_eq_0 [symmetric] split: option.split)

lemma totals_wf:
  "tab_wf tab \<Longrightarrow> tab_wf (add_live_totals tab a)"
  "tab_wf tab \<Longrightarrow> tab_wf (remove_live_totals tab a)"
  by (auto simp: add_live_totals_def remove_live_totals_def Let_def split: option.split)

lemma totals_ok_add:
  assumes ok: "totals_ok tab m" and live: "live_ok m'"
    and m': "\<And>s. tab_sum (stack_weight s) m' = tab_sum (stack_weight s) m + stack_weight s a"
      "\<And>s. tab_sum (stack_space s) m' = tab_sum (stack_space s) m + stack_space s a"
    and nz: "la_weight a \<noteq> 0"
  shows "totals_ok (add_live_totals tab a) m'"
  unfolding totals_ok_def
proof (intro conjI allI impI)
  show "tab_wf (add_live_totals tab a)" using ok by (simp add: totals_ok_def totals_wf)
next
  fix s
  show "objects_at (add_live_totals tab a) s = tab_sum (stack_weight s) m'"
    using ok m'(1) [of s] live_sums_bounded(1) [OF live, of s]
    by (auto simp: totals_ok_def objects_at_add stack_weight_def min_def)
next
  fix s
  show "space_at (add_live_totals tab a) s = tab_sum (stack_space s) m'"
    using ok m'(2) [of s] live_sums_bounded(2) [OF live, of s]
    by (auto simp: totals_ok_def space_at_add stack_space_def min_def)
next
  fix s t assume t: "map_of (add_live_totals tab a) s = Some t"
  have "objects_at (add_live_totals tab a) s \<noteq> 0" if "s = la_stack a"
    using that nz by (simp only: objects_at_add) (simp add: unat_gt_0)
  moreover have "map_of tab s = Some t" if "s \<noteq> la_stack a"
    using that t by (simp add: add_live_totals_def Let_def)
  ultimately show "lt_objects t \<noteq> 0"
    using ok t by (cases "s = la_stack a") (auto simp: totals_ok_def)
qed

lemma totals_ok_remove:
  assumes ok: "totals_ok tab m" and live: "live_ok m'"
    and m': "\<And>s. tab_sum (stack_weight s) m' + stack_weight s a = tab_sum (stack_weight s) m"
      "\<And>s. tab_sum (stack_space s) m' + stack_space s a = tab_sum (stack_space s) m"
  shows "totals_ok (remove_live_totals tab a) m'"
  unfolding totals_ok_def
proof (intro conjI allI impI)
  show "tab_wf (remove_live_totals tab a)" using ok by (simp add: totals_ok_def totals_wf)
next
  fix s
  show obj: "objects_at (remove_live_totals tab a) s = tab_sum (stack_weight s) m'"
    using ok m'(1) [of s]
    by (auto simp: totals_ok_def remove_live_totals_at stack_weight_def split: if_splits)
  show space: "space_at (remove_live_totals tab a) s = tab_sum (stack_space s) m'"
    using ok m'(2) [of s]
    by (auto simp: totals_ok_def remove_live_totals_at stack_space_def split: if_splits)
  fix t assume t: "map_of (remove_live_totals tab a) s = Some t"
  show "lt_objects t \<noteq> 0"
  proof (cases "s = la_stack a")
    case True
    with t have "lt_objects t \<noteq> 0 \<or> lt_space t \<noteq> 0"
      by (auto simp: remove_live_totals_def Let_def split: option.splits if_splits)
    with t obj space weight_zero_iff_space_zero [OF live, of s] show ?thesis
      by (auto simp: unat_eq_0)
  next
    case False
    with t have "map_of tab s = Some t"
      by (auto simp: remove_live_totals_def Let_def split: option.splits if_splits)
    with ok show ?thesis by (auto simp: totals_ok_def)
  qed
qed

section \<open>Every operation keeps the invariant\<close>

lemma intern_stack_id [simp]: "intern_stack st s = s"
  by (auto simp: intern_stack_def split: option.split dest: get_key_value_Some)

lemma live_ok_delete: "live_ok m \<Longrightarrow> live_ok (AList.delete p m)"
  by (auto simp: live_ok_def AList.delete_eq distinct_map_filter)

lemma live_ok_update:
  "live_ok m \<Longrightarrow> p \<noteq> 0 \<Longrightarrow> la_weight a \<noteq> 0 \<Longrightarrow> la_weighted_space a \<noteq> 0 \<Longrightarrow>
   live_ok (AList.update p a m)"
  using snd_set_update [of p a m] unfolding live_ok_def dom_update
  by (intro conjI ballI distinct_update) (blast dest: subsetD)+

lemma sat_mul_nonzero: "a \<noteq> 0 \<Longrightarrow> b \<noteq> 0 \<Longrightarrow> sat_mul a b \<noteq> (0 :: u64)"
proof
  assume nz: "a \<noteq> 0" "b \<noteq> 0" and z: "sat_mul a b = 0"
  then have "unat a * unat b \<ge> 1" by (simp add: unat_gt_0 Suc_le_eq)
  then have "unat (sat_mul a b) \<ge> 1" by (simp add: unat_sat_mul)
  with z show False by simp
qed

lemma sums_after_update:
  assumes "live_ok m"
  shows "tab_sum g (AList.update p a m) = tab_sum g (AList.delete p m) + g a"
  using tab_sum_update [of m g p a] tab_sum_delete [of m g p] assms
  by (simp add: live_ok_def)

lemma totals_after_free:
  assumes "live_ok m" "totals_ok tab m" "map_of m p = Some a"
  shows "totals_ok (remove_live_totals tab a) (AList.delete p m)"
proof (rule totals_ok_remove [OF assms(2)])
  show "live_ok (AList.delete p m)" using assms(1) by (rule live_ok_delete)
  have "tab_wf m" using assms(1) by (simp add: live_ok_def)
  from tab_sum_delete [OF this] assms(3)
  show "tab_sum (stack_weight s) (AList.delete p m) + stack_weight s a = tab_sum (stack_weight s) m"
    and "tab_sum (stack_space s) (AList.delete p m) + stack_space s a = tab_sum (stack_space s) m" for s
    by (metis opt_measure_simps(2))+
qed

lemma totals_after_allocate:
  assumes live: "live_ok m" and tot: "totals_ok tab m"
    and a: "p \<noteq> 0" "la_weight a \<noteq> 0" "la_weighted_space a \<noteq> 0"
  shows "totals_ok (add_live_totals
      (case map_of m p of Some q \<Rightarrow> remove_live_totals tab q | None \<Rightarrow> tab) a) (AList.update p a m)"
proof (rule totals_ok_add [where m = "AList.delete p m"])
  show "totals_ok (case map_of m p of Some q \<Rightarrow> remove_live_totals tab q | None \<Rightarrow> tab)
      (AList.delete p m)"
  proof (cases "map_of m p")
    case None
    then have "AList.delete p m = m" by (simp add: map_of_eq_None_keys)
    with None tot show ?thesis by simp
  next
    case (Some q)
    with totals_after_free [OF live tot Some] show ?thesis by simp
  qed
  show "live_ok (AList.update p a m)" using live a by (rule live_ok_update)
qed (use sums_after_update [OF live] a in simp_all)

lemma record_allocation_fields [simp]:
  "hs_live (record_allocation st s x y) = hs_live st"
  "hs_live_totals (record_allocation st s x y) = hs_live_totals st"
  "hs_max_stacks (record_allocation st s x y) = hs_max_stacks st"
  by (simp_all add: record_allocation_def split: option.split)

lemma record_allocation_window:
  assumes "tab_wf (hs_window_allocations st)" "length (hs_window_allocations st) \<le> hs_max_stacks st"
  shows "tab_wf (hs_window_allocations (record_allocation st s x y))"
    "length (hs_window_allocations (record_allocation st s x y)) \<le> hs_max_stacks st"
  using assms by (auto simp: record_allocation_def length_update split: option.split)

lemma heap_inv_allocate: "heap_inv st \<Longrightarrow> heap_inv (allocate ev st)"
  using record_allocation_window [of st]
  by (auto simp: allocate_def Let_def heap_inv_def live_ok_update sat_mul_nonzero
      intro!: totals_after_allocate)

lemma heap_inv_apply: "heap_inv st \<Longrightarrow> heap_inv (heap_apply ev st)"
  by (auto simp: heap_apply_def heap_inv_allocate split: heap_event_kind.split option.split)
    (auto simp: heap_inv_def live_ok_delete totals_after_free)

lemma heap_inv_snapshot: "heap_inv st \<Longrightarrow> heap_inv (snd (snapshot_window_with_drops st))"
  by (simp add: snapshot_window_with_drops_def heap_inv_def)

lemma heap_inv_clear: "heap_inv st \<Longrightarrow> heap_inv (clear_live st)"
  by (simp add: clear_live_def heap_inv_defs)

lemma rebuild_totals_ok:
  assumes "live_ok (ps @ qs)" "totals_ok tab ps"
  shows "totals_ok (foldl add_live_totals tab (map snd qs)) (ps @ qs)"
  using assms
proof (induction qs arbitrary: ps tab)
  case Nil
  then show ?case by simp
next
  case (Cons q qs)
  have live: "live_ok (ps @ [q])" using Cons.prems(1) by (auto simp: live_ok_def)
  have "totals_ok (add_live_totals tab (snd q)) (ps @ [q])"
  proof (rule totals_ok_add [OF Cons.prems(2) live])
    show "la_weight (snd q) \<noteq> 0" using live by (simp add: live_ok_def)
  qed (simp_all add: tab_sum_def split_def)
  with Cons.IH [of "ps @ [q]"] Cons.prems(1) show ?case by simp
qed

lemma heap_inv_retain: "heap_inv st \<Longrightarrow> heap_inv (retain_live_pointers P st)"
proof -
  assume inv: "heap_inv st"
  then have "live_ok (tab_retain P (hs_live st))"
    by (auto simp: heap_inv_def live_ok_def tab_retain_def distinct_map_filter)
  with rebuild_totals_ok [of "[]" "tab_retain P (hs_live st)" "[]"] inv show ?thesis
    by (simp add: heap_inv_def retain_live_pointers_def rebuild_live_totals_def totals_ok_def)
qed

lemma heap_inv_init: "heap_inv (with_max_stacks n)"
  by (simp add: heap_inv_defs with_max_stacks_def heap_state_default_def)

lemma heap_inv_step: "heap_inv st \<Longrightarrow> heap_inv (heap_step st op)"
  by (cases op) (simp_all add: heap_inv_apply heap_inv_snapshot heap_inv_clear heap_inv_retain)

lemma heap_inv_run: "heap_inv st \<Longrightarrow> heap_inv (heap_run st ops)"
  by (induction ops arbitrary: st) (simp_all add: heap_run_def heap_inv_step)

lemma heap_max_stacks_run: "hs_max_stacks (heap_run st ops) = hs_max_stacks st"
proof -
  have "hs_max_stacks (heap_step st op) = hs_max_stacks st" for st op
    by (cases op) (auto simp: heap_apply_def allocate_def Let_def snapshot_window_with_drops_def
        clear_live_def retain_live_pointers_def rebuild_live_totals_def
        split: heap_event_kind.split option.split)
  then show ?thesis
    by (induction ops arbitrary: st) (simp_all add: heap_run_def)
qed

section \<open>Snapshots\<close>

text \<open>Entries of the window table have not been given in-use values yet.\<close>

definition window_fresh :: "heap_state \<Rightarrow> bool" where
  "window_fresh st \<longleftrightarrow>
     (\<forall>s v. map_of (hs_window_allocations st) s = Some v \<longrightarrow>
        hv_inuse_objects v = 0 \<and> hv_inuse_space v = 0) \<and>
     hd_inuse_objects (hs_drops st) = 0 \<and> hd_inuse_space (hs_drops st) = 0"

lemma window_fresh_init: "window_fresh (with_max_stacks n)"
  by (simp add: window_fresh_def with_max_stacks_def heap_state_default_def heap_drops_default_def)

lemma window_fresh_record: "window_fresh st \<Longrightarrow> window_fresh (record_allocation st s x y)"
  by (auto simp: record_allocation_def window_fresh_def heap_values_default_def split: option.split)

lemma window_fresh_frame:
  "hs_window_allocations st' = hs_window_allocations st \<Longrightarrow> hs_drops st' = hs_drops st \<Longrightarrow>
   window_fresh st' = window_fresh st"
  by (simp add: window_fresh_def)

lemma window_fresh_step: "window_fresh st \<Longrightarrow> window_fresh (heap_step st op)"
proof (cases op)
  case (Apply ev)
  assume fresh: "window_fresh st"
  have "window_fresh (allocate ev st)"
    using fresh window_fresh_record [OF fresh]
    by (auto simp: allocate_def Let_def window_fresh_def)
  with fresh Apply show ?thesis
    by (auto simp: heap_apply_def window_fresh_def split: heap_event_kind.split option.split)
qed (auto simp: snapshot_window_with_drops_def clear_live_def retain_live_pointers_def
    rebuild_live_totals_def window_fresh_def heap_drops_default_def)

lemma window_fresh_run: "window_fresh st \<Longrightarrow> window_fresh (heap_run st ops)"
  by (induction ops arbitrary: st) (simp_all add: heap_run_def window_fresh_step)

text \<open>One stack of the snapshot loop: what it sets, and what it leaves alone.\<close>

definition with_inuse :: "live_totals \<Rightarrow> heap_values \<Rightarrow> heap_values" where
  "with_inuse t v = v\<lparr>hv_inuse_objects := i64_of_u128 (lt_objects t),
                       hv_inuse_space := i64_of_u128 (lt_space t)\<rparr>"

abbreviation inuse_sum :: "(stack, heap_values) table \<Rightarrow> nat" where
  "inuse_sum vals \<equiv> tab_sum (\<lambda>v. i64_nat (hv_inuse_objects v)) vals"

lemma snapshot_step_cases:
  obtains (present) v where "map_of vals s = Some v"
      "snapshot_step M (vals, d) (s, t) = (AList.update s (with_inuse t v) vals, d)"
  | (room) "map_of vals s = None" "length vals < M"
      "snapshot_step M (vals, d) (s, t) = (AList.update s (with_inuse t heap_values_default) vals, d)"
  | (dropped) "map_of vals s = None" "M \<le> length vals"
      "snapshot_step M (vals, d) (s, t) =
        (vals, d\<lparr>hd_inuse_objects := i64_sat_add (hd_inuse_objects d) (i64_of_u128 (lt_objects t)),
                 hd_inuse_space := i64_sat_add (hd_inuse_space d) (i64_of_u128 (lt_space t))\<rparr>)"
  by (cases "map_of vals s"; cases "length vals < M")
    (simp_all add: snapshot_step_def Let_def with_inuse_def)

lemma snapshot_fold_bounded:
  assumes "tab_wf vals" "length vals \<le> M"
  shows "tab_wf (fst (foldl (snapshot_step M) (vals, d) ts)) \<and>
    length (fst (foldl (snapshot_step M) (vals, d) ts)) \<le> M"
  using assms
proof (induction ts arbitrary: vals d)
  case Nil
  then show ?case by simp
next
  case (Cons p ts)
  obtain s t where p: "p = (s, t)" by (cases p)
  show ?case
    by (cases rule: snapshot_step_cases [of vals s M d t])
      (use Cons in \<open>auto simp: p length_update\<close>)
qed

lemma snapshot_fold_conserves:
  assumes "tab_wf vals" "tab_wf ts" "0 \<le> sint (hd_inuse_objects d)"
    and "\<And>s v. s \<in> tab_keys ts \<Longrightarrow> map_of vals s = Some v \<Longrightarrow> hv_inuse_objects v = 0"
    and "inuse_sum vals + i64_nat (hd_inuse_objects d) + tab_sum (\<lambda>t. unat (lt_objects t)) ts < 2 ^ 63"
  shows "inuse_sum (fst (foldl (snapshot_step M) (vals, d) ts)) +
      i64_nat (hd_inuse_objects (snd (foldl (snapshot_step M) (vals, d) ts))) =
    inuse_sum vals + i64_nat (hd_inuse_objects d) + tab_sum (\<lambda>t. unat (lt_objects t)) ts"
  using assms
proof (induction ts arbitrary: vals d)
  case Nil
  then show ?case by simp
next
  case (Cons p ts)
  obtain s t where p: "p = (s, t)" by (cases p)
  have t_val: "i64_nat (i64_of_u128 (lt_objects t)) = unat (lt_objects t)"
    using Cons.prems(5) by (simp add: p i64_nat_of_u128)
  have s_new: "s \<notin> tab_keys ts" and ts: "tab_wf ts" using Cons.prems(2) by (simp_all add: p)
  have fresh: "hv_inuse_objects v' = 0"
    if "x \<in> tab_keys ts" "map_of (AList.update s w vals) x = Some v'" for x v' w
    using that Cons.prems(4) [of x v'] s_new by (auto simp: p split: if_splits)
  have old: "opt_measure (\<lambda>v. i64_nat (hv_inuse_objects v)) (map_of vals s) = 0"
    using Cons.prems(4) [of s] by (cases "map_of vals s") (auto simp: p)
  have sum: "inuse_sum (AList.update s (with_inuse t v) vals) = inuse_sum vals + unat (lt_objects t)" for v
    using tab_sum_update [OF Cons.prems(1), of "\<lambda>v. i64_nat (hv_inuse_objects v)" s "with_inuse t v"] old
    by (simp add: with_inuse_def t_val)
  have upd: ?case if "snapshot_step M (vals, d) (s, t) = (AList.update s (with_inuse t v) vals, d)" for v
  proof -
    have wf: "tab_wf (AList.update s (with_inuse t v) vals)" using Cons.prems(1) by simp
    have small: "inuse_sum (AList.update s (with_inuse t v) vals) + i64_nat (hd_inuse_objects d) +
        tab_sum (\<lambda>t. unat (lt_objects t)) ts < 2 ^ 63"
      using Cons.prems(5) by (simp add: sum p)
    from Cons.IH [OF wf ts Cons.prems(3) fresh small] that sum show ?thesis by (simp add: p)
  qed
  show ?case
  proof (cases rule: snapshot_step_cases [of vals s M d t])
    case (present v)
    from present(2) show ?thesis by (rule upd)
  next
    case room
    from room(3) show ?thesis by (rule upd)
  next
    case dropped
    define d' where "d' = d\<lparr>hd_inuse_objects := i64_sat_add (hd_inuse_objects d) (i64_of_u128 (lt_objects t)),
                 hd_inuse_space := i64_sat_add (hd_inuse_space d) (i64_of_u128 (lt_space t))\<rparr>"
    have d': "i64_nat (hd_inuse_objects d') = i64_nat (hd_inuse_objects d) + unat (lt_objects t)"
      using Cons.prems(3,5) by (simp add: d'_def i64_nat_sat_add i64_nonneg_of t_val p)
    have nn: "0 \<le> sint (hd_inuse_objects d')"
      using Cons.prems(3) by (simp add: d'_def i64_nonneg_sat_add i64_nonneg_of)
    have fr: "hv_inuse_objects v' = 0" if "x \<in> tab_keys ts" "map_of vals x = Some v'" for x v'
      using that Cons.prems(4) [of x v'] by (simp add: p)
    have small: "inuse_sum vals + i64_nat (hd_inuse_objects d') + tab_sum (\<lambda>t. unat (lt_objects t)) ts < 2 ^ 63"
      using Cons.prems(5) by (simp add: d' p)
    from Cons.IH [OF Cons.prems(1) ts nn fr small] d' dropped(3)
    show ?thesis by (simp add: p d'_def [symmetric])
  qed
qed

lemma snapshot_fold_complete:
  assumes "tab_wf vals" "tab_wf ts" "card (tab_keys vals \<union> tab_keys ts) \<le> M"
  shows "snd (foldl (snapshot_step M) (vals, d) ts) = d \<and>
    map_of (fst (foldl (snapshot_step M) (vals, d) ts)) s =
      (case map_of ts s of
         None \<Rightarrow> map_of vals s
       | Some t \<Rightarrow> Some (with_inuse t
           (case map_of vals s of None \<Rightarrow> heap_values_default | Some v \<Rightarrow> v)))"
  using assms
proof (induction ts arbitrary: vals)
  case Nil
  then show ?case by simp
next
  case (Cons p ts)
  obtain k t where p: "p = (k, t)" by (cases p)
  have fin: "finite (tab_keys vals \<union> tab_keys (p # ts))" by simp
  have k_new: "map_of ts k = None" using Cons.prems(2) by (simp add: p map_of_eq_None_keys)
  show ?case
  proof (cases rule: snapshot_step_cases [of vals k M d t])
    case (present v)
    then have "k \<in> tab_keys vals" by (metis map_of_eq_None_keys option.distinct(1))
    then have keys: "tab_keys (AList.update k (with_inuse t v) vals) = tab_keys vals"
      by (simp add: dom_update insert_absorb)
    have wf: "tab_wf (AList.update k (with_inuse t v) vals)" "tab_wf ts"
      using Cons.prems(1,2) by (simp_all add: p)
    have le: "card (tab_keys (AList.update k (with_inuse t v) vals) \<union> tab_keys ts) \<le> M"
      using Cons.prems(3) \<open>k \<in> tab_keys vals\<close> unfolding keys by (simp add: p insert_absorb)
    from Cons.IH [OF wf le] present k_new
    show ?thesis by (cases "s = k"; cases "map_of ts s") (simp_all add: p)
  next
    case room
    have wf: "tab_wf (AList.update k (with_inuse t heap_values_default) vals)" "tab_wf ts"
      using Cons.prems(1,2) by (simp_all add: p)
    have le: "card (tab_keys (AList.update k (with_inuse t heap_values_default) vals) \<union> tab_keys ts)
        \<le> M"
      using Cons.prems(3) by (simp add: p dom_update)
    from Cons.IH [OF wf le] room k_new
    show ?thesis by (cases "s = k"; cases "map_of ts s") (simp_all add: p)
  next
    case dropped
    have "Suc (length vals) = card (insert k (tab_keys vals))"
      using Cons.prems(1) dropped(1) by (simp add: length_tab_keys map_of_eq_None_keys)
    also have "\<dots> \<le> card (tab_keys vals \<union> tab_keys (p # ts))"
      by (rule card_mono [OF fin]) (auto simp: p)
    finally have False using dropped(2) Cons.prems(3) by simp
    then show ?thesis ..
  qed
qed

section \<open>Window accounting\<close>

definition accepted_weight :: "heap_event \<Rightarrow> nat" where
  "accepted_weight ev =
     (if he_kind ev = Alloc \<and> he_pointer ev \<noteq> 0 \<and> he_size ev \<noteq> 0 then unat (he_weight ev) else 0)"

text \<open>The weight of the allocations accepted since the last snapshot.\<close>

fun window_weight_step :: "nat \<Rightarrow> heap_op \<Rightarrow> nat" where
  "window_weight_step n (Apply ev) = n + accepted_weight ev"
| "window_weight_step n Snapshot = 0"
| "window_weight_step n _ = n"

definition window_weight :: "heap_op list \<Rightarrow> nat" where
  "window_weight = foldl window_weight_step 0"

abbreviation alloc_sum :: "heap_state \<Rightarrow> nat" where
  "alloc_sum st \<equiv> tab_sum (\<lambda>v. i64_nat (hv_alloc_objects v)) (hs_window_allocations st) +
     i64_nat (hd_alloc_objects (hs_drops st))"

definition alloc_nonneg :: "heap_state \<Rightarrow> bool" where
  "alloc_nonneg st \<longleftrightarrow>
     (\<forall>s v. map_of (hs_window_allocations st) s = Some v \<longrightarrow> 0 \<le> sint (hv_alloc_objects v)) \<and>
     0 \<le> sint (hd_alloc_objects (hs_drops st))"

lemma alloc_nonneg_init: "alloc_nonneg (with_max_stacks n)"
  by (simp add: alloc_nonneg_def with_max_stacks_def heap_state_default_def heap_drops_default_def)

lemma alloc_nonneg_record:
  "alloc_nonneg st \<Longrightarrow> 0 \<le> sint x \<Longrightarrow> alloc_nonneg (record_allocation st s x y)"
  by (auto simp: alloc_nonneg_def record_allocation_def i64_nonneg_sat_add split: option.split)

lemma alloc_nonneg_step: "alloc_nonneg st \<Longrightarrow> alloc_nonneg (heap_step st op)"
proof (cases op)
  case (Apply ev)
  assume nn: "alloc_nonneg st"
  have "alloc_nonneg (allocate ev st)"
    using nn alloc_nonneg_record [OF nn i64_nonneg_of(2)]
    by (auto simp: allocate_def Let_def alloc_nonneg_def)
  with nn Apply show ?thesis
    by (auto simp: heap_apply_def alloc_nonneg_def split: heap_event_kind.split option.split)
qed (auto simp: snapshot_window_with_drops_def clear_live_def retain_live_pointers_def
    rebuild_live_totals_def alloc_nonneg_def heap_drops_default_def)

lemma alloc_nonneg_run: "alloc_nonneg st \<Longrightarrow> alloc_nonneg (heap_run st ops)"
  by (induction ops arbitrary: st) (simp_all add: heap_run_def alloc_nonneg_step)

lemma alloc_sum_record:
  assumes "tab_wf (hs_window_allocations st)" "alloc_nonneg st" "0 \<le> sint x"
    and small: "alloc_sum st + i64_nat x < 2 ^ 63"
  shows "alloc_sum (record_allocation st s x y) = alloc_sum st + i64_nat x"
proof (cases "map_of (hs_window_allocations st) s")
  case (Some v)
  have v: "0 \<le> sint (hv_alloc_objects v)" using assms(2) Some by (auto simp: alloc_nonneg_def)
  have "i64_nat (hv_alloc_objects v) \<le>
      tab_sum (\<lambda>v. i64_nat (hv_alloc_objects v)) (hs_window_allocations st)"
    using tab_sum_ge [OF Some, of "\<lambda>v. i64_nat (hv_alloc_objects v)"] .
  with small v assms(3) have add:
    "i64_nat (i64_sat_add (hv_alloc_objects v) x) = i64_nat (hv_alloc_objects v) + i64_nat x"
    by (simp add: i64_nat_sat_add)
  show ?thesis
    using tab_sum_update [OF assms(1), of "\<lambda>v. i64_nat (hv_alloc_objects v)" s
        "v\<lparr>hv_alloc_objects := i64_sat_add (hv_alloc_objects v) x,
            hv_alloc_space := i64_sat_add (hv_alloc_space v) y\<rparr>"]
    by (simp add: record_allocation_def Some add)
next
  case None
  have "i64_nat (i64_sat_add (hd_alloc_objects (hs_drops st)) x) =
      i64_nat (hd_alloc_objects (hs_drops st)) + i64_nat x"
    using assms(2,3) small by (simp add: i64_nat_sat_add alloc_nonneg_def)
  with None tab_sum_update [OF assms(1), of "\<lambda>v. i64_nat (hv_alloc_objects v)" s
      "heap_values_default\<lparr>hv_alloc_objects := x, hv_alloc_space := y\<rparr>"]
  show ?thesis by (simp add: record_allocation_def)
qed

lemma alloc_sum_allocate:
  assumes "heap_inv st" "alloc_nonneg st" "he_kind ev = Alloc"
    and "alloc_sum st + accepted_weight ev < 2 ^ 63"
  shows "alloc_sum (allocate ev st) = alloc_sum st + accepted_weight ev"
proof (cases "he_pointer ev = 0 \<or> he_size ev = 0 \<or> he_weight ev = 0")
  case True
  then show ?thesis by (auto simp: allocate_def accepted_weight_def)
next
  case False
  then have w: "i64_nat (i64_of_u64 (he_weight ev)) = accepted_weight ev"
    using assms(3,4) by (simp add: i64_nat_of_u64 accepted_weight_def)
  have "alloc_sum (record_allocation st s (i64_of_u64 (he_weight ev)) y) =
      alloc_sum st + accepted_weight ev" for s y
    using alloc_sum_record [OF _ assms(2) i64_nonneg_of(2) [of "he_weight ev"]] assms(1,4)
    by (simp add: w heap_inv_def)
  with False show ?thesis by (simp add: allocate_def Let_def)
qed

lemma alloc_sum_run:
  assumes "window_weight ops < 2 ^ 63"
  shows "alloc_sum (heap_run (with_max_stacks n) ops) = window_weight ops"
  using assms
proof (induction ops rule: rev_induct)
  case Nil
  then show ?case
    by (simp add: heap_run_def window_weight_def with_max_stacks_def heap_state_default_def
        heap_drops_default_def)
next
  case (snoc op ops)
  let ?st = "heap_run (with_max_stacks n) ops"
  have inv: "heap_inv ?st" "alloc_nonneg ?st"
    by (rule heap_inv_run [OF heap_inv_init], rule alloc_nonneg_run [OF alloc_nonneg_init])
  have run: "heap_run (with_max_stacks n) (ops @ [op]) = heap_step ?st op"
    and ww: "window_weight (ops @ [op]) = window_weight_step (window_weight ops) op"
    by (simp_all add: heap_run_def window_weight_def)
  show ?case
  proof (cases op)
    case (Apply ev)
    then have IH: "alloc_sum ?st = window_weight ops" using snoc ww by simp
    show ?thesis
    proof (cases "he_kind ev")
      case Alloc
      have "alloc_sum (allocate ev ?st) = alloc_sum ?st + accepted_weight ev"
        using snoc.prems [unfolded ww] IH by (intro alloc_sum_allocate [OF inv Alloc]) (simp add: Apply)
      with IH Apply Alloc show ?thesis unfolding run ww by (simp add: heap_apply_def)
    next
      case Free
      with IH Apply show ?thesis
        unfolding run ww by (simp add: heap_apply_def accepted_weight_def split: option.split)
    qed
  next
    case Snapshot
    then show ?thesis
      unfolding run ww by (simp add: snapshot_window_with_drops_def heap_drops_default_def)
  next
    case Clear_Live
    then show ?thesis using snoc unfolding run ww by (simp add: clear_live_def)
  next
    case (Retain_Live ps)
    then show ?thesis
      using snoc unfolding run ww by (simp add: retain_live_pointers_def rebuild_live_totals_def)
  qed
qed

section \<open>Refinement: the live table\<close>

text \<open>
  The abstract contract of the live set: a partial map from pointers to what is live there. The
  concrete state reaches it through interning, the window table and the totals.
\<close>

type_synonym live_spec = "u64 \<rightharpoonup> stack \<times> nat \<times> nat"

definition spec_alloc :: "heap_event \<Rightarrow> live_spec \<Rightarrow> live_spec" where
  "spec_alloc ev m =
     (if he_pointer ev = 0 \<or> he_size ev = 0 \<or> he_weight ev = 0 then m
      else m(he_pointer ev \<mapsto>
        (stack_of_addresses (he_frames ev), unat (he_weight ev),
         min (unat (he_size ev) * unat (he_weight ev)) (2 ^ 64 - 1))))"

fun spec_step :: "live_spec \<Rightarrow> heap_op \<Rightarrow> live_spec" where
  "spec_step m (Apply ev) =
     (case he_kind ev of Alloc \<Rightarrow> spec_alloc ev m | Free \<Rightarrow> m(he_pointer ev := None))"
| "spec_step m Snapshot = m"
| "spec_step m Clear_Live = Map.empty"
| "spec_step m (Retain_Live ps) = m |` set ps"

definition abs_live :: "heap_state \<Rightarrow> live_spec" where
  "abs_live st =
     map_option (\<lambda>a. (la_stack a, unat (la_weight a), unat (la_weighted_space a))) \<circ> map_of (hs_live st)"

lemma abs_live_step: "abs_live (heap_step st op) = spec_step (abs_live st) op"
proof (cases op)
  case (Apply ev)
  then show ?thesis
    by (auto simp: abs_live_def heap_apply_def allocate_def spec_alloc_def Let_def fun_eq_iff
        unat_sat_mul split: heap_event_kind.split option.split)
qed (auto simp: abs_live_def snapshot_window_with_drops_def clear_live_def retain_live_pointers_def
    rebuild_live_totals_def map_of_retain fun_eq_iff restrict_map_def)

lemma live_objects_total:
  "heap_inv st \<Longrightarrow> map_of (hs_live_totals st) s = Some t \<Longrightarrow> unat (lt_objects t) = live_objects st s"
  "heap_inv st \<Longrightarrow> map_of (hs_live_totals st) s = Some t \<Longrightarrow> unat (lt_space t) = live_space st s"
  by (auto simp: heap_inv_def totals_ok_def live_objects_def live_space_def
      dest: spec [of _ s])

lemma live_objects_none:
  "heap_inv st \<Longrightarrow> map_of (hs_live_totals st) s = None \<Longrightarrow> live_objects st s = 0 \<and> live_space st s = 0"
  by (auto simp: heap_inv_def totals_ok_def live_objects_def live_space_def dest: spec [of _ s])

lemma sum_by_stack:
  assumes "finite K" "\<forall>a \<in> snd ` set m. la_stack a \<in> K"
  shows "(\<Sum>s\<in>K. tab_sum (stack_weight s) m) = tab_sum (\<lambda>a. unat (la_weight a)) m"
  using assms(2)
proof (induction m)
  case Nil
  then show ?case by simp
next
  case (Cons p m)
  then show ?case
    using assms(1) by (cases p) (auto simp: sum.distrib stack_weight_def)
qed

lemma live_weight_total:
  assumes "heap_inv st"
  shows "tab_sum (\<lambda>t. unat (lt_objects t)) (hs_live_totals st) =
    tab_sum (\<lambda>a. unat (la_weight a)) (hs_live st)"
proof -
  have wf: "tab_wf (hs_live_totals st)" using assms by (simp add: heap_inv_def totals_ok_def)
  let ?K = "tab_keys (hs_live_totals st)"
  have "tab_sum (\<lambda>t. unat (lt_objects t)) (hs_live_totals st) = (\<Sum>s\<in>?K. live_objects st s)"
  proof -
    have "tab_sum (\<lambda>t. unat (lt_objects t)) (hs_live_totals st) =
        (\<Sum>(s, t)\<leftarrow>hs_live_totals st. live_objects st s)"
      unfolding tab_sum_def using live_objects_total(1) [OF assms] map_of_is_SomeI [OF wf]
      by (intro arg_cong [of _ _ sum_list] map_cong) auto
    also have "\<dots> = (\<Sum>s\<leftarrow>map fst (hs_live_totals st). live_objects st s)"
      by (simp add: comp_def split_def)
    also have "\<dots> = (\<Sum>s\<in>?K. live_objects st s)"
      using sum_list_distinct_conv_sum_set [OF wf, of "live_objects st"] by simp
    finally show ?thesis .
  qed
  also have "\<dots> = tab_sum (\<lambda>a. unat (la_weight a)) (hs_live st)"
  proof -
    have "\<forall>a \<in> snd ` set (hs_live st). la_stack a \<in> ?K"
    proof
      fix a assume a: "a \<in> snd ` set (hs_live st)"
      then have "unat (la_weight a) \<noteq> 0"
        using assms by (auto simp: heap_inv_def live_ok_def unat_eq_0)
      with a have "live_objects st (la_stack a) \<noteq> 0"
        by (auto simp: live_objects_def tab_sum_eq_0 stack_weight_def)
      then show "la_stack a \<in> ?K"
        using live_objects_none [OF assms, of "la_stack a"] by (metis map_of_eq_None_keys)
    qed
    then show ?thesis
      unfolding live_objects_def by (intro sum_by_stack) simp_all
  qed
  finally show ?thesis .
qed

section \<open>A small session\<close>

definition sample_event :: "u64 \<Rightarrow> u64 list \<Rightarrow> heap_event" where
  "sample_event w fs = \<lparr>he_kind = Alloc, he_pointer = 16, he_size = 8, he_weight = w, he_frames = fs\<rparr>"

definition sample_ops :: "heap_op list" where
  "sample_ops = [Apply (sample_event 3 [1, 2]), Apply (sample_event 9 [7])]"

definition sample_values :: "i64 \<Rightarrow> i64 \<Rightarrow> heap_values" where
  "sample_values objects space =
     \<lparr>hv_alloc_objects = objects, hv_alloc_space = space, hv_inuse_objects = 0, hv_inuse_space = 0\<rparr>"

definition sample_first :: "nat \<Rightarrow> heap_state" where
  "sample_first n =
     \<lparr>hs_live = [(16, \<lparr>la_weight = 3, la_weighted_space = 24, la_stack = stack_of_addresses [1, 2]\<rparr>)],
      hs_window_allocations = [(stack_of_addresses [1, 2], sample_values 3 24)],
      hs_live_totals = [(stack_of_addresses [1, 2], \<lparr>lt_objects = 3, lt_space = 24\<rparr>)],
      hs_max_stacks = n, hs_drops = heap_drops_default\<rparr>"

definition sample_last :: "nat \<Rightarrow> (stack, heap_values) table \<Rightarrow> heap_aggregation_drops \<Rightarrow> heap_state" where
  "sample_last n window drops =
     \<lparr>hs_live = [(16, \<lparr>la_weight = 9, la_weighted_space = 72, la_stack = stack_of_addresses [7]\<rparr>)],
      hs_window_allocations = window,
      hs_live_totals = [(stack_of_addresses [7], \<lparr>lt_objects = 9, lt_space = 72\<rparr>)],
      hs_max_stacks = n, hs_drops = drops\<rparr>"

lemmas heap_eval = sample_event_def heap_apply_def allocate_def record_allocation_def
  add_live_totals_def remove_live_totals_def heap_values_default_def heap_drops_default_def
  live_totals_default_def sat_mul_def sat_add_def sat_sub_def i64_of_u64_def i64_sat_add_def
  sample_first_def sample_last_def sample_values_def with_max_stacks_def heap_state_default_def

lemma sample_stacks_differ:
  "stack_of_addresses [7] \<noteq> stack_of_addresses [1, 2]"
  "stack_of_addresses [1, 2] \<noteq> stack_of_addresses [7]"
  by (simp_all add: stack_of_addresses_def)

lemma sample_first_step:
  "heap_apply (sample_event 3 [1, 2]) (with_max_stacks (Suc n)) = sample_first (Suc n)"
  by (simp add: heap_eval Let_def)

lemma sample_run_one:
  "heap_run (with_max_stacks 1) sample_ops =
   sample_last 1 [(stack_of_addresses [1, 2], sample_values 3 24)]
     (heap_drops_default\<lparr>hd_alloc_objects := 9, hd_alloc_space := 72\<rparr>)"
proof -
  have "heap_apply (sample_event 9 [7]) (sample_first 1) =
      sample_last 1 [(stack_of_addresses [1, 2], sample_values 3 24)]
        (heap_drops_default\<lparr>hd_alloc_objects := 9, hd_alloc_space := 72\<rparr>)"
    by (simp add: heap_eval sample_stacks_differ Let_def)
  then show ?thesis
    using sample_first_step [of 0] by (simp add: heap_run_def sample_ops_def)
qed

lemma sample_run_two:
  "heap_run (with_max_stacks 2) sample_ops =
   sample_last 2 [(stack_of_addresses [1, 2], sample_values 3 24),
     (stack_of_addresses [7], sample_values 9 72)] heap_drops_default"
proof -
  have "heap_apply (sample_event 9 [7]) (sample_first 2) =
      sample_last 2 [(stack_of_addresses [1, 2], sample_values 3 24),
        (stack_of_addresses [7], sample_values 9 72)] heap_drops_default"
    by (simp add: heap_eval sample_stacks_differ Let_def)
  then show ?thesis
    using sample_first_step [of 1] by (simp add: heap_run_def sample_ops_def numeral_2_eq_2)
qed

section \<open>Properties\<close>

lemma run_snapshot_complete:
  assumes "heap_inv st" "window_fresh st"
    and "card (tab_keys (hs_window_allocations st) \<union> tab_keys (hs_live_totals st)) \<le> hs_max_stacks st"
    and "snapshot_window_with_drops st = ((values, drops), st')"
  shows "hd_inuse_objects drops = 0 \<and> hd_inuse_space drops = 0 \<and>
    (case map_of values s of
       None \<Rightarrow> live_objects st s = 0 \<and> live_space st s = 0
     | Some v \<Rightarrow> sint (hv_inuse_objects v) = min (int (live_objects st s)) (2 ^ 63 - 1) \<and>
                 sint (hv_inuse_space v) = min (int (live_space st s)) (2 ^ 63 - 1))"
proof -
  have wf: "tab_wf (hs_window_allocations st)" "tab_wf (hs_live_totals st)"
    using assms(1) by (simp_all add: heap_inv_def totals_ok_def)
  note run = snapshot_fold_complete [OF wf assms(3), of "hs_drops st" s]
  have vd: "values = fst (foldl (snapshot_step (hs_max_stacks st))
        (hs_window_allocations st, hs_drops st) (hs_live_totals st))"
      "drops = snd (foldl (snapshot_step (hs_max_stacks st))
        (hs_window_allocations st, hs_drops st) (hs_live_totals st))"
    using assms(4) by (simp_all add: snapshot_window_with_drops_def)
  have drops: "drops = hs_drops st" using run vd by simp
  show ?thesis
  proof (cases "map_of (hs_live_totals st) s")
    case None
    with run vd have "map_of values s = map_of (hs_window_allocations st) s" by simp
    with drops assms(2) live_objects_none [OF assms(1) None] show ?thesis
      by (auto simp: window_fresh_def split: option.split)
  next
    case (Some t)
    from run vd Some have "\<exists>v. map_of values s = Some (with_inuse t v)" by (simp, blast)
    with drops assms(2) live_objects_total [OF assms(1) Some] show ?thesis
      by (auto simp: window_fresh_def with_inuse_def sat_simps)
  qed
qed

text \<open>C1: After any sequence of allocations, frees, snapshots, clears and pointer retentions, the
  per-stack live totals are exact: an entry holds the sums of the weights and of the weighted sizes
  of the live allocations of its stack, a stack without an entry has no live allocation, and no
  entry is empty. The saturating 128-bit additions never saturate and a reused pointer never
  leaks its previous allocation.\<close>

theorem heap_totals_exact:
  "case map_of (hs_live_totals (heap_run (with_max_stacks n) ops)) s of
     None \<Rightarrow> live_objects (heap_run (with_max_stacks n) ops) s = 0 \<and>
             live_space (heap_run (with_max_stacks n) ops) s = 0
   | Some t \<Rightarrow> unat (lt_objects t) = live_objects (heap_run (with_max_stacks n) ops) s \<and>
               unat (lt_space t) = live_space (heap_run (with_max_stacks n) ops) s \<and>
               lt_objects t \<noteq> 0"
proof -
  have inv: "heap_inv (heap_run (with_max_stacks n) ops)" by (rule heap_inv_run [OF heap_inv_init])
  then show ?thesis
    by (auto simp: live_objects_total live_objects_none split: option.split)
      (auto simp: heap_inv_def totals_ok_def)
qed

text \<open>C2: The live table refines its contract: over any sequence of operations the table is, pointer
  by pointer, what the abstract partial map becomes when an accepted allocation maps its pointer to
  its stack, weight and clamped weighted size, a free removes its pointer, a clear empties the map
  and a retention restricts it. Interning, window counters, totals and snapshots never affect it.\<close>

theorem heap_live_refines:
  "abs_live (heap_run (with_max_stacks n) ops) = foldl spec_step Map.empty ops"
proof -
  have "abs_live (heap_run st ops) = foldl spec_step (abs_live st) ops" for st
    by (induction ops arbitrary: st) (simp_all add: heap_run_def abs_live_step)
  moreover have "abs_live (with_max_stacks n) = Map.empty"
    by (simp add: abs_live_def with_max_stacks_def heap_state_default_def)
  ultimately show ?thesis by simp
qed

text \<open>A snapshot whose stacks fit the bound is complete: nothing is dropped, every stack with live
  allocations appears with its live totals (clamped to 63 bits), and a stack that does not appear
  has no live allocation.\<close>

theorem heap_snapshot_complete:
  assumes "st = heap_run (with_max_stacks n) ops"
    and "card (tab_keys (hs_window_allocations st) \<union> tab_keys (hs_live_totals st)) \<le> n"
    and "snapshot_window_with_drops st = ((values, drops), st')"
  shows "hd_inuse_objects drops = 0 \<and> hd_inuse_space drops = 0 \<and>
    (case map_of values s of
       None \<Rightarrow> live_objects st s = 0 \<and> live_space st s = 0
     | Some v \<Rightarrow> sint (hv_inuse_objects v) = min (int (live_objects st s)) (2 ^ 63 - 1) \<and>
                 sint (hv_inuse_space v) = min (int (live_space st s)) (2 ^ 63 - 1))"
proof (rule run_snapshot_complete)
  show "heap_inv st" unfolding assms(1) by (rule heap_inv_run [OF heap_inv_init])
  show "window_fresh st" unfolding assms(1) by (rule window_fresh_run [OF window_fresh_init])
  have "hs_max_stacks st = n"
    by (simp add: assms(1) heap_max_stacks_run with_max_stacks_def heap_state_default_def)
  with assms(2) show
    "card (tab_keys (hs_window_allocations st) \<union> tab_keys (hs_live_totals st)) \<le> hs_max_stacks st"
    by simp
  show "snapshot_window_with_drops st = ((values, drops), st')" by (rule assms(3))
qed

theorem heap_snapshot_complete_witness:
  "case map_of (fst (fst (snapshot_window_with_drops (heap_run (with_max_stacks 2) sample_ops))))
      (stack_of_addresses [7]) of
     None \<Rightarrow> False
   | Some v \<Rightarrow> sint (hv_inuse_objects v) = 9"
proof -
  let ?st = "heap_run (with_max_stacks 2) sample_ops"
  have fits: "card (tab_keys (hs_window_allocations ?st) \<union> tab_keys (hs_live_totals ?st)) \<le> 2"
    by (simp add: sample_run_two sample_last_def sample_stacks_differ insert_commute)
  have live: "live_objects ?st (stack_of_addresses [7]) = 9"
    by (simp add: sample_run_two sample_last_def live_objects_def stack_weight_def)
  obtain vs d st' where run: "snapshot_window_with_drops ?st = ((vs, d), st')"
    by (metis prod.exhaust)
  from heap_snapshot_complete [OF refl fits run, of "stack_of_addresses [7]"] show ?thesis
    unfolding run live by (simp split: option.splits)
qed

text \<open>C3: A snapshot loses no in-use weight and respects the bound: it returns at most \<open>n\<close> stacks, and
  while the live weights sum to less than \<open>2 ^ 63\<close>, the in-use objects of its stacks plus those it
  reports as dropped are exactly the weights of all live allocations.\<close>

theorem heap_snapshot_conserves:
  assumes "st = heap_run (with_max_stacks n) ops"
    and "tab_sum (\<lambda>a. unat (la_weight a)) (hs_live st) < 2 ^ 63"
    and "snapshot_window_with_drops st = ((values, drops), st')"
  shows "length values \<le> n \<and>
    tab_sum (\<lambda>v. i64_nat (hv_inuse_objects v)) values + i64_nat (hd_inuse_objects drops) =
    tab_sum (\<lambda>a. unat (la_weight a)) (hs_live st)"
proof -
  have inv: "heap_inv st" unfolding assms(1) by (rule heap_inv_run [OF heap_inv_init])
  have fresh: "window_fresh st" unfolding assms(1) by (rule window_fresh_run [OF window_fresh_init])
  have n: "hs_max_stacks st = n"
    by (simp add: assms(1) heap_max_stacks_run with_max_stacks_def heap_state_default_def)
  have zero: "inuse_sum (hs_window_allocations st) = 0"
    using fresh inv by (auto simp: tab_sum_eq_0 window_fresh_def heap_inv_def)
  have vd: "foldl (snapshot_step n) (hs_window_allocations st, hs_drops st) (hs_live_totals st) =
      (values, drops)"
    using assms(3) by (simp add: snapshot_window_with_drops_def n)
  have wf: "tab_wf (hs_window_allocations st)" "tab_wf (hs_live_totals st)"
      "length (hs_window_allocations st) \<le> n"
    using inv n by (simp_all add: heap_inv_def totals_ok_def)
  show ?thesis
    using snapshot_fold_bounded [OF wf(1,3), of "hs_drops st" "hs_live_totals st"]
      snapshot_fold_conserves [OF wf(1,2), of "hs_drops st" n] zero fresh assms(2)
      live_weight_total [OF inv]
    by (simp add: vd window_fresh_def)
qed

theorem heap_snapshot_conserves_witness:
  "tab_sum (\<lambda>v. i64_nat (hv_inuse_objects v))
      (fst (fst (snapshot_window_with_drops (heap_run (with_max_stacks 1) sample_ops)))) +
    i64_nat (hd_inuse_objects
      (snd (fst (snapshot_window_with_drops (heap_run (with_max_stacks 1) sample_ops))))) = 9"
proof -
  let ?st = "heap_run (with_max_stacks 1) sample_ops"
  have live: "tab_sum (\<lambda>a. unat (la_weight a)) (hs_live ?st) = 9"
    unfolding sample_run_one by (simp add: sample_last_def)
  obtain vs d st' where run: "snapshot_window_with_drops ?st = ((vs, d), st')"
    by (metis prod.exhaust)
  from heap_snapshot_conserves [OF refl _ run] show ?thesis
    unfolding run live by simp
qed

text \<open>C4: The window counters lose no allocation weight: while the weights accepted since the last
  snapshot sum to less than \<open>2 ^ 63\<close>, the allocation counters of the window's stacks plus the counter
  of dropped allocations are exactly that sum, however many stacks were turned away.\<close>

theorem heap_window_conserves:
  assumes "window_weight ops < 2 ^ 63"
  shows "tab_sum (\<lambda>v. i64_nat (hv_alloc_objects v))
      (hs_window_allocations (heap_run (with_max_stacks n) ops)) +
    i64_nat (hd_alloc_objects (hs_drops (heap_run (with_max_stacks n) ops))) = window_weight ops"
  using alloc_sum_run [OF assms] .

theorem heap_window_conserves_witness:
  "tab_sum (\<lambda>v. i64_nat (hv_alloc_objects v))
      (hs_window_allocations (heap_run (with_max_stacks 1) sample_ops)) +
    i64_nat (hd_alloc_objects (hs_drops (heap_run (with_max_stacks 1) sample_ops))) = 12"
proof -
  have "window_weight sample_ops = 12"
    by (simp add: window_weight_def sample_ops_def sample_event_def accepted_weight_def)
  with heap_window_conserves [of sample_ops 1] show ?thesis by simp
qed

end
