(* ===== verification/Text.thy ===== *)
theory Text
  imports Prelude
begin

text \<open>
  The operations on \<open>str\<close> of the Rust standard library that the program uses, on \<^typ>\<open>string\<close> (the
  bytes of the UTF-8 text), and decimal and hexadecimal integers.

  \<^item> \<open>split_on\<close> is \<open>split(char)\<close>, \<open>split_once\<close> is \<open>split_once(char)\<close>, \<open>split_once_str\<close> is \<open>split_once\<close>
    with a string pattern, \<open>split_whitespace\<close> and \<open>trim\<close> separate at and strip the characters with the
    Unicode property White_Space in their UTF-8 encoding, \<open>strip_suffix\<close> and \<open>strip_prefix\<close> are the
    methods of that name.
  \<^item> \<open>parse_radix\<close> is \<open>from_str_radix\<close> (and \<open>str::parse\<close> with radix ten) on an unsigned type: one
    optional plus sign, at least one digit, no overflow.
  \<^item> \<open>show_radix\<close> prints a number without leading zeros, as \<open>Display\<close> and \<open>LowerHex\<close> do.

  The lemmas state that splitting inverts joining, and parsing inverts printing.
\<close>

section \<open>Splitting\<close>

fun split_on :: "char \<Rightarrow> string \<Rightarrow> string list" where
  "split_on c [] = [[]]"
| "split_on c (x # xs) =
     (if x = c then [] # split_on c xs
      else case split_on c xs of [] \<Rightarrow> [[x]] | y # ys \<Rightarrow> (x # y) # ys)"

fun split_once :: "char \<Rightarrow> string \<Rightarrow> (string \<times> string) option" where
  "split_once c [] = None"
| "split_once c (x # xs) =
     (if x = c then Some ([], xs)
      else map_option (\<lambda>(a, b). (x # a, b)) (split_once c xs))"

fun starts_with :: "string \<Rightarrow> string \<Rightarrow> bool" where
  "starts_with [] s = True"
| "starts_with (p # ps) [] = False"
| "starts_with (p # ps) (x # xs) = (p = x \<and> starts_with ps xs)"

fun split_once_str :: "string \<Rightarrow> string \<Rightarrow> (string \<times> string) option" where
  "split_once_str p [] = (if p = [] then Some ([], []) else None)"
| "split_once_str p (x # xs) =
     (if starts_with p (x # xs) then Some ([], drop (length p) (x # xs))
      else map_option (\<lambda>(a, b). (x # a, b)) (split_once_str p xs))"

definition strip_prefix :: "string \<Rightarrow> string \<Rightarrow> string option" where
  "strip_prefix p s = (if starts_with p s then Some (drop (length p) s) else None)"

definition ends_with :: "string \<Rightarrow> string \<Rightarrow> bool" where
  "ends_with p s = starts_with (rev p) (rev s)"

definition strip_suffix :: "string \<Rightarrow> string \<Rightarrow> string option" where
  "strip_suffix p s = (if ends_with p s then Some (take (length s - length p) s) else None)"

definition is_space :: "char \<Rightarrow> bool" where
  "is_space c \<longleftrightarrow> (of_char c :: nat) \<in> {9, 10, 11, 12, 13, 32}"

text \<open>The white space outside ASCII: U+0085 and U+00A0 in two bytes; U+1680, U+2000 to U+200A, U+2028, U+2029,
  U+202F, U+205F and U+3000 in three.\<close>

definition wide_spaces :: "nat list list" where
  "wide_spaces =
     [[0xC2, 0x85], [0xC2, 0xA0], [0xE1, 0x9A, 0x80]] @
     map (\<lambda>b. [0xE2, 0x80, b]) ([0x80..<0x8B] @ [0xA8, 0xA9, 0xAF]) @ [[0xE2, 0x81, 0x9F], [0xE3, 0x80, 0x80]]"

text \<open>The number of bytes of the white-space character at the start of a text; zero if there is none.\<close>

definition space_len :: "string \<Rightarrow> nat" where
  "space_len s =
     (case s of
        [] \<Rightarrow> 0
      | c # _ \<Rightarrow>
          if is_space c then 1
          else if map of_char (take 2 s) \<in> set wide_spaces then 2
          else if map of_char (take 3 s) \<in> set wide_spaces then 3 else 0)"

text \<open>\<open>split_words\<close> collects the current word in reverse; empty words are not produced.\<close>

function split_words :: "string \<Rightarrow> string \<Rightarrow> string list" where
  "split_words w s =
     (if s = [] then (if w = [] then [] else [rev w])
      else if space_len s = 0 then split_words (hd s # w) (tl s)
      else (if w = [] then [] else [rev w]) @ split_words [] (drop (space_len s) s))"
  by pat_completeness auto
termination by (relation "measure (length \<circ> snd)") auto

declare split_words.simps [simp del]

definition split_whitespace :: "string \<Rightarrow> string list" where
  "split_whitespace s = split_words [] s"

function trim_start :: "string \<Rightarrow> string" where
  "trim_start s = (if s = [] \<or> space_len s = 0 then s else trim_start (drop (space_len s) s))"
  by pat_completeness auto
termination by (relation "measure length") auto

declare trim_start.simps [simp del]

text \<open>A text that is white space to its end is dropped from there.\<close>

fun trim_end :: "string \<Rightarrow> string" where
  "trim_end [] = []"
| "trim_end (x # xs) = (if trim_start (x # xs) = [] then [] else x # trim_end xs)"

definition trim :: "string \<Rightarrow> string" where
  "trim s = trim_end (trim_start s)"

text \<open>\<open>lines\<close>: newline ends a line, a carriage return before it is dropped, no empty last line.\<close>

definition drop_cr :: "string \<Rightarrow> string" where
  "drop_cr l = (if l \<noteq> [] \<and> last l = CHR 0x0D then butlast l else l)"

definition text_lines :: "string \<Rightarrow> string list" where
  "text_lines s =
     (let ls = split_on (CHR 0x0A) s
      in map drop_cr (butlast ls) @ (if last ls = [] then [] else [last ls]))"

fun join :: "string \<Rightarrow> string list \<Rightarrow> string" where
  "join sep [] = []"
| "join sep [w] = w"
| "join sep (w # v # ws) = w @ sep @ join sep (v # ws)"

section \<open>Integers as text\<close>

definition digit_value :: "char \<Rightarrow> nat option" where
  "digit_value c =
     (let n = of_char c :: nat
      in if 48 \<le> n \<and> n \<le> 57 then Some (n - 48)
         else if 97 \<le> n \<and> n \<le> 122 then Some (n - 87)
         else if 65 \<le> n \<and> n \<le> 90 then Some (n - 55)
         else None)"

definition to_digit :: "nat \<Rightarrow> char \<Rightarrow> nat option" where
  "to_digit radix c =
     (case digit_value c of None \<Rightarrow> None | Some d \<Rightarrow> if d < radix then Some d else None)"

fun parse_digits :: "nat \<Rightarrow> nat \<Rightarrow> string \<Rightarrow> nat option" where
  "parse_digits radix acc [] = Some acc"
| "parse_digits radix acc (c # cs) =
     (case to_digit radix c of
        None \<Rightarrow> None
      | Some d \<Rightarrow> parse_digits radix (acc * radix + d) cs)"

definition parse_radix :: "nat \<Rightarrow> string \<Rightarrow> 'a::len word option" where
  "parse_radix radix s =
     (let ds = (if s \<noteq> [] \<and> hd s = CHR ''+'' \<and> tl s \<noteq> [] then tl s else s)
      in if ds = [] then None
         else case parse_digits radix 0 ds of
                None \<Rightarrow> None
              | Some n \<Rightarrow> if n < 2 ^ LENGTH('a) then Some (word_of_nat n) else None)"

text \<open>Parsing into a signed type of \<open>w\<close> bits: one optional sign, at least one digit, no overflow.\<close>

definition parse_signed :: "nat \<Rightarrow> nat \<Rightarrow> string \<Rightarrow> int option" where
  "parse_signed w radix s =
     (let neg = (s \<noteq> [] \<and> hd s = CHR ''-'' \<and> tl s \<noteq> []);
          ds = (if neg \<or> s \<noteq> [] \<and> hd s = CHR ''+'' \<and> tl s \<noteq> [] then tl s else s)
      in if ds = [] then None
         else case parse_digits radix 0 ds of
                None \<Rightarrow> None
              | Some n \<Rightarrow>
                  if neg then (if n \<le> 2 ^ (w - 1) then Some (- int n) else None)
                  else (if n < 2 ^ (w - 1) then Some (int n) else None))"

definition parse_i32 :: "string \<Rightarrow> i32 option" where
  "parse_i32 s = map_option word_of_int (parse_signed 32 10 s)"

definition show_digit :: "nat \<Rightarrow> char" where
  "show_digit d = char_of (if d < 10 then 48 + d else 87 + d)"

function show_radix :: "nat \<Rightarrow> nat \<Rightarrow> string" where
  "show_radix b n =
     (if n < b \<or> b < 2 then [show_digit n] else show_radix b (n div b) @ [show_digit (n mod b)])"
  by pat_completeness auto
termination
  by (relation "measure snd") auto

declare show_radix.simps [simp del]

abbreviation show_nat :: "nat \<Rightarrow> string" where
  "show_nat \<equiv> show_radix 10"

section \<open>Laws\<close>

lemma split_on_nonempty [simp]: "split_on c s \<noteq> []"
  by (induction s) (auto split: list.split)

lemma split_on_none: "c \<notin> set s \<Longrightarrow> split_on c s = [s]"
  by (induction s) auto

lemma split_on_append: "c \<notin> set s \<Longrightarrow> split_on c (s @ c # t) = s # split_on c t"
  by (induction s) auto

lemma split_on_parts: "w \<in> set (split_on c s) \<Longrightarrow> c \<notin> set w"
proof (induction s arbitrary: w)
  case Nil
  then show ?case by simp
next
  case (Cons x xs)
  then show ?case by (cases "split_on c xs") (auto split: if_splits)
qed

lemma join_split_on: "join [c] (split_on c s) = s"
proof (induction s)
  case Nil
  then show ?case by simp
next
  case (Cons x xs)
  show ?case
  proof (cases "split_on c xs")
    case Nil
    then show ?thesis by simp
  next
    case (Cons y ys)
    with Cons.IH show ?thesis by (cases ys) auto
  qed
qed

lemma split_once_append: "c \<notin> set s \<Longrightarrow> split_once c (s @ c # t) = Some (s, t)"
  by (induction s) auto

lemma split_once_None: "split_once c s = None \<longleftrightarrow> c \<notin> set s"
  by (induction s) auto

lemma split_once_Some: "split_once c s = Some (a, b) \<longleftrightarrow> s = a @ c # b \<and> c \<notin> set a"
proof (induction s arbitrary: a)
  case Nil
  then show ?case by simp
next
  case (Cons x xs)
  then show ?case by (cases a) auto
qed

lemma starts_with_iff: "starts_with p s \<longleftrightarrow> (\<exists>t. s = p @ t)"
  by (induction p s rule: starts_with.induct) auto

lemma starts_with_append [simp]: "starts_with p (p @ t)"
  by (auto simp: starts_with_iff)

lemma strip_prefix_Some: "strip_prefix p s = Some t \<longleftrightarrow> s = p @ t"
  by (auto simp: strip_prefix_def starts_with_iff)

lemma ends_with_iff: "ends_with p s \<longleftrightarrow> (\<exists>t. s = t @ p)"
  by (auto simp: ends_with_def starts_with_iff) (metis rev_append rev_rev_ident)

lemma strip_suffix_Some: "strip_suffix p s = Some t \<longleftrightarrow> s = t @ p"
  by (auto simp: strip_suffix_def ends_with_iff)

definition is_ascii :: "char \<Rightarrow> bool" where
  "is_ascii c \<longleftrightarrow> (of_char c :: nat) < 128"

lemma wide_spaces_lead: "b # bs \<in> set wide_spaces \<Longrightarrow> 128 \<le> b"
  by (auto simp: wide_spaces_def)

lemma wide_spaces_tail: "b # bs \<in> set wide_spaces \<Longrightarrow> bs \<noteq> [] \<and> (\<forall>c \<in> set bs. 128 \<le> c)"
  by (auto simp: wide_spaces_def)

lemma space_len_nil [simp]: "space_len [] = 0"
  by (simp add: space_len_def)

lemma wide_spaces_single: "[b] \<notin> set wide_spaces"
  using wide_spaces_tail [of b "[]"] by blast

lemma space_len_le: "space_len s \<le> length s"
  by (cases s; cases "tl s"; cases "tl (tl s)") (auto simp: space_len_def numeral_eq_Suc wide_spaces_single)

lemma space_len_ascii: "is_ascii x \<Longrightarrow> space_len (x # s) = (if is_space x then 1 else 0)"
  by (auto simp: space_len_def is_ascii_def take_Cons' dest: wide_spaces_lead)

lemma split_words_nil [simp]: "split_words w [] = (if w = [] then [] else [rev w])"
  by (simp add: split_words.simps)

lemma split_words_ascii [simp]:
  "is_ascii x \<Longrightarrow> split_words w (x # xs) =
     (if is_space x then (if w = [] then split_words [] xs else rev w # split_words [] xs)
      else split_words (x # w) xs)"
  by (subst split_words.simps) (simp add: space_len_ascii)

lemma is_space_ascii: "is_space x \<Longrightarrow> is_ascii x"
  by (auto simp: is_space_def is_ascii_def)

lemma split_words_word:
  "\<forall>c \<in> set s. is_ascii c \<and> \<not> is_space c \<Longrightarrow> split_words w s = (if w = [] \<and> s = [] then [] else [rev w @ s])"
  by (induction s arbitrary: w) auto

lemma split_words_append:
  "\<forall>c \<in> set s. is_ascii c \<and> \<not> is_space c \<Longrightarrow> is_space x \<Longrightarrow>
   split_words w (s @ x # t) =
     (if w = [] \<and> s = [] then split_words [] t else (rev w @ s) # split_words [] t)"
  by (induction s arbitrary: w) (auto simp: is_space_ascii)

text \<open>An ASCII character is not part of a longer one before it.\<close>

lemma wide_take_append:
  assumes "is_ascii x" "s \<noteq> []" "length s < n"
  shows "map of_char (take n (s @ x # t)) \<notin> set wide_spaces"
proof -
  obtain b bs where s: "s = b # bs" using assms(2) by (cases s) auto
  obtain m where n: "n = Suc m" using assms(3) by (cases n) auto
  have "take m (bs @ x # t) = bs @ x # take (m - length bs - 1) t"
    using assms(3) by (simp add: s n take_Cons')
  then have mem: "(of_char x :: nat) \<in> set (map of_char (take m (bs @ x # t)))" by simp
  have split: "map of_char (take n (s @ x # t)) = (of_char b :: nat) # map of_char (take m (bs @ x # t))"
    by (simp add: s n)
  show ?thesis
  proof
    assume "map of_char (take n (s @ x # t)) \<in> set wide_spaces"
    then have "\<forall>c \<in> set (map of_char (take m (bs @ x # t))). (128 :: nat) \<le> c"
      unfolding split using wide_spaces_tail by blast
    with mem have "(128 :: nat) \<le> of_char x" by blast
    with assms(1) show False by (simp add: is_ascii_def)
  qed
qed

lemma wide_take_short:
  "is_ascii x \<Longrightarrow> s \<noteq> [] \<Longrightarrow> n = 2 \<or> n = 3 \<Longrightarrow>
     map of_char (take n (s @ x # t)) \<in> set wide_spaces \<longleftrightarrow> n \<le> length s \<and> map of_char (take n s) \<in> set wide_spaces"
  using wide_take_append [of x s n t] by (cases "length s < n") auto

definition is_word :: "string \<Rightarrow> bool" where
  "is_word s \<longleftrightarrow> s \<noteq> [] \<and> (\<forall>c \<in> set s. is_ascii c \<and> \<not> is_space c)"

lemma split_whitespace_word: "is_word s \<Longrightarrow> split_whitespace s = [s]"
  by (simp add: split_whitespace_def split_words_word is_word_def)

lemma split_whitespace_append:
  "is_word s \<Longrightarrow> is_space x \<Longrightarrow> split_whitespace (s @ x # t) = s # split_whitespace t"
  by (simp add: split_whitespace_def split_words_append is_word_def)

lemma split_whitespace_space: "is_space x \<Longrightarrow> split_whitespace (x # t) = split_whitespace t"
  by (simp add: split_whitespace_def is_space_ascii)

lemma is_space_blank [simp]: "is_space CHR '' ''" "is_space CHR 0x0A" "is_space CHR 0x09"
  by (simp_all add: is_space_def)

lemma digit_value_show: "d < 36 \<Longrightarrow> digit_value (show_digit d) = Some d"
  by (auto simp: digit_value_def show_digit_def Let_def)

lemma to_digit_show: "d < b \<Longrightarrow> b \<le> 36 \<Longrightarrow> to_digit b (show_digit d) = Some d"
  by (simp add: to_digit_def digit_value_show)

lemma parse_digits_append:
  "parse_digits b acc (xs @ ys) =
     (case parse_digits b acc xs of None \<Rightarrow> None | Some a \<Rightarrow> parse_digits b a ys)"
  by (induction xs arbitrary: acc) (auto split: option.split)

lemma show_radix_nonempty [simp]: "show_radix b n \<noteq> []"
  by (subst show_radix.simps) simp

lemma parse_digits_show:
  assumes "2 \<le> b" "b \<le> 36"
  shows "parse_digits b 0 (show_radix b n) = Some n"
proof (induction n rule: less_induct)
  case (less n)
  show ?case
  proof (cases "n < b")
    case True
    then show ?thesis using assms by (subst show_radix.simps) (simp add: to_digit_show)
  next
    case False
    with assms less.IH [of "n div b"] show ?thesis
      by (subst show_radix.simps) (simp add: parse_digits_append to_digit_show)
  qed
qed

lemma show_digit_plus: "d < 36 \<Longrightarrow> show_digit d \<noteq> CHR ''+''"
  using digit_value_show [of d] by (auto simp: digit_value_def Let_def)

lemma show_radix_chars:
  assumes "2 \<le> b" "b \<le> 36" "c \<in> set (show_radix b n)"
  shows "\<exists>d < b. c = show_digit d"
  using assms(3)
proof (induction n rule: less_induct)
  case (less n)
  show ?case
  proof (cases "n < b")
    case True
    with less.prems show ?thesis by (subst (asm) show_radix.simps) auto
  next
    case False
    with assms have "n div b < n" "n mod b < b" by simp_all
    moreover have "c \<in> set (show_radix b (n div b)) \<or> c = show_digit (n mod b)"
      using less.prems False assms by (subst (asm) show_radix.simps) auto
    ultimately show ?thesis using less.IH by blast
  qed
qed

lemma parse_radix_show:
  assumes "2 \<le> b" "b \<le> 36" "n < 2 ^ LENGTH('a::len)"
  shows "(parse_radix b (show_radix b n) :: 'a word option) = Some (word_of_nat n)"
proof -
  have "hd (show_radix b n) \<noteq> CHR ''+''"
  proof
    assume plus: "hd (show_radix b n) = CHR ''+''"
    have "hd (show_radix b n) \<in> set (show_radix b n)" by simp
    with plus show_radix_chars [OF assms(1,2)] show False
      using assms(2) show_digit_plus by (metis less_le_trans)
  qed
  then show ?thesis
    using assms by (simp add: parse_radix_def parse_digits_show Let_def)
qed

lemma show_digit_not:
  assumes "d < 36" "digit_value c = None"
  shows "show_digit d \<noteq> c"
  using assms digit_value_show [of d] by auto

lemma show_radix_no_char:
  "2 \<le> b \<Longrightarrow> b \<le> 36 \<Longrightarrow> digit_value c = None \<Longrightarrow> c \<notin> set (show_radix b n)"
proof
  assume "2 \<le> b" "b \<le> 36" "digit_value c = None" "c \<in> set (show_radix b n)"
  then obtain d where "d < b" "c = show_digit d" using show_radix_chars [of b c n] by blast
  with \<open>b \<le> 36\<close> \<open>digit_value c = None\<close> show False using show_digit_not [of d c] by simp
qed

lemma digit_value_None [simp]:
  "digit_value CHR ''.'' = None" "digit_value CHR ''-'' = None" "digit_value CHR '' '' = None"
  "digit_value CHR '':'' = None" "digit_value CHR ''/'' = None" "digit_value CHR 0x0A = None"
  by (simp_all add: digit_value_def)

lemma digit_not_space: "is_space c \<Longrightarrow> digit_value c = None"
  by (auto simp: is_space_def digit_value_def)

lemma digit_is_ascii: "digit_value c \<noteq> None \<Longrightarrow> is_ascii c"
  by (auto simp: digit_value_def is_ascii_def Let_def split: if_splits)

lemma word_show_radix: "2 \<le> b \<Longrightarrow> b \<le> 36 \<Longrightarrow> is_word (show_radix b n)"
  using show_radix_no_char [of b _ n] digit_not_space digit_is_ascii unfolding is_word_def
  by (metis show_radix_nonempty)

text \<open>A blank separates whatever is before it from whatever is after it.\<close>

lemma space_len_append: "s \<noteq> [] \<Longrightarrow> is_ascii x \<Longrightarrow> space_len (s @ x # t) = space_len s"
  using wide_take_short [of x s 2 t] wide_take_short [of x s 3 t]
  by (cases s; cases "tl s"; cases "tl (tl s)") (auto simp: space_len_def numeral_eq_Suc wide_spaces_single)


lemma split_words_trailing:
  assumes "is_space x"
  shows "split_words w (s @ x # t) = split_words w s @ split_words [] t"
proof (induction w s rule: split_words.induct)
  case (1 ws s)
  have blank: "is_ascii x" by (rule is_space_ascii [OF assms])
  show ?case
  proof (cases "s = []")
    case True
    then show ?thesis by (simp add: blank assms)
  next
    case False
    note len = space_len_append [OF False blank, of t]
    show ?thesis
    proof (cases "space_len s = 0")
      case True
      with False 1(1) len show ?thesis
        by (simp add: split_words.simps [of ws s] split_words.simps [of ws "s @ x # t"])
    next
      case gap: False
      have "space_len s \<le> length s" by (rule space_len_le)
      with False gap 1(2) len show ?thesis
        by (simp add: split_words.simps [of ws s] split_words.simps [of ws "s @ x # t"])
    qed
  qed
qed

lemma trim_word: "is_word s \<Longrightarrow> trim s = s"
proof -
  have start: "trim_start (x # xs) = x # xs" if "is_ascii x" "\<not> is_space x" for x xs
    using that by (simp add: trim_start.simps [of "x # xs"] space_len_ascii)
  have "trim_end xs = xs" if "\<forall>c \<in> set xs. is_ascii c \<and> \<not> is_space c" for xs
    using that by (induction xs) (simp_all add: start)
  moreover assume "is_word s"
  ultimately show ?thesis by (cases s) (simp_all add: trim_def is_word_def start del: trim_end.simps)
qed

end
