(* ===== verification/Config.thy ===== *)
theory Config
  imports Text
begin

text \<open>
  \<open>src/src/config.rs\<close>: the enumerations of the configuration with their display names, the size
  option, and kernel versions: parsing, ordering and the three capability thresholds.

  The parsers of the \<open>humantime\<close> and \<open>parse_size\<close> crates are parameters. \<open>config_error\<close> has one
  constructor per error context of the source.
\<close>

section \<open>Defaults and enumerations\<close>

definition default_cpu_frequency :: u32 where "default_cpu_frequency = 49"
definition default_alloc_interval :: u64 where "default_alloc_interval = 512 * 1024"
definition default_max_frames :: nat where "default_max_frames = 127"
definition default_stack_bytes :: nat where "default_stack_bytes = 16 * 1024"
definition default_max_threads :: nat where "default_max_threads = 1024"
definition default_max_stacks :: nat where "default_max_stacks = 65536"
definition default_max_pending_events :: nat where "default_max_pending_events = 262144"
definition default_max_timeline_samples :: nat where "default_max_timeline_samples = 65536"

datatype unwind_mode = Unwind_Auto | Unwind_Fp | Unwind_Dwarf

fun display_unwind_mode :: "unwind_mode \<Rightarrow> string" where
  "display_unwind_mode Unwind_Auto = ''auto''"
| "display_unwind_mode Unwind_Fp = ''fp''"
| "display_unwind_mode Unwind_Dwarf = ''dwarf''"

datatype profile_kind = Cpu | Heap | Off_Cpu

fun display_profile_kind :: "profile_kind \<Rightarrow> string" where
  "display_profile_kind Cpu = ''cpu''"
| "display_profile_kind Heap = ''heap''"
| "display_profile_kind Off_Cpu = ''off-cpu''"

datatype firefox_profile_format = Fmt_Json | Fmt_Jslb

datatype allocator_choice = Alloc_Auto | Alloc_Rust | Alloc_System

fun display_allocator_choice :: "allocator_choice \<Rightarrow> string" where
  "display_allocator_choice Alloc_Auto = ''auto''"
| "display_allocator_choice Alloc_Rust = ''rust''"
| "display_allocator_choice Alloc_System = ''system''"

text \<open>\<open>parse_duration\<close> and \<open>parse_byte_size\<close>; durations are nanoseconds.\<close>

definition parse_duration :: "(string \<Rightarrow> string + nat) \<Rightarrow> string \<Rightarrow> string + nat" where
  "parse_duration humantime value = (if value = ''0'' then Inr 0 else humantime value)"

definition parse_byte_size :: "(string \<Rightarrow> string + u64) \<Rightarrow> string \<Rightarrow> string + u64" where
  "parse_byte_size parse_size value =
     (case parse_size value of
        Inl e \<Rightarrow> Inl e
      | Inr n \<Rightarrow> if n = 0 then Inl ''size must be greater than zero'' else Inr n)"

section \<open>Kernel versions\<close>

datatype kernel_version = Kernel_Version (major: u32) (minor: u32) (patch: u32)

text \<open>\<open>cmp\<close> of the tuples \<open>(major, minor, patch)\<close>.\<close>

definition version_less :: "kernel_version \<Rightarrow> kernel_version \<Rightarrow> bool" where
  "version_less v w \<longleftrightarrow>
     major v < major w \<or>
     major v = major w \<and> (minor v < minor w \<or> minor v = minor w \<and> patch v < patch w)"

instantiation kernel_version :: linorder
begin

definition less_kernel_version :: "kernel_version \<Rightarrow> kernel_version \<Rightarrow> bool" where
  "less_kernel_version = version_less"

definition less_eq_kernel_version :: "kernel_version \<Rightarrow> kernel_version \<Rightarrow> bool" where
  "less_eq_kernel_version v w \<longleftrightarrow> v = w \<or> version_less v w"

instance
  by standard
    (auto simp: less_kernel_version_def less_eq_kernel_version_def version_less_def
      kernel_version.expand dest: order.asym intro: kernel_version.expand)

end

definition kernel_minimum :: kernel_version where
  "kernel_minimum = Kernel_Version 5 4 0"

definition bpf_ring_buffer_minimum :: kernel_version where
  "bpf_ring_buffer_minimum = Kernel_Version 5 8 0"

definition heap_minimum :: kernel_version where
  "heap_minimum = Kernel_Version 5 12 0"

definition is_supported :: "kernel_version \<Rightarrow> bool" where
  "is_supported v \<longleftrightarrow> v \<ge> kernel_minimum"

definition supports_bpf_ring_buffer :: "kernel_version \<Rightarrow> bool" where
  "supports_bpf_ring_buffer v \<longleftrightarrow> v \<ge> bpf_ring_buffer_minimum"

definition supports_heap :: "kernel_version \<Rightarrow> bool" where
  "supports_heap v \<longleftrightarrow> v \<ge> heap_minimum"

lemmas kernel_threshold_defs = kernel_minimum_def bpf_ring_buffer_minimum_def heap_minimum_def

lemma thresholds_ordered:
  "kernel_minimum \<le> bpf_ring_buffer_minimum" "bpf_ring_buffer_minimum \<le> heap_minimum"
  by (simp_all add: kernel_threshold_defs less_eq_kernel_version_def version_less_def)

lemma capabilities_nested:
  "supports_heap v \<Longrightarrow> supports_bpf_ring_buffer v"
  "supports_bpf_ring_buffer v \<Longrightarrow> is_supported v"
  using thresholds_ordered
  by (auto simp: supports_heap_def supports_bpf_ring_buffer_def is_supported_def)

datatype config_error =
  Invalid_Kernel_Release string
| Invalid_Kernel_Patch

definition parse_version_part :: "string option \<Rightarrow> string \<Rightarrow> config_error + u32" where
  "parse_version_part part original =
     (case part of
        None \<Rightarrow> Inl (Invalid_Kernel_Release original)
      | Some p \<Rightarrow>
          (case parse_radix 10 p of
             None \<Rightarrow> Inl (Invalid_Kernel_Release original)
           | Some n \<Rightarrow> Inr n))"

definition nth_part :: "nat \<Rightarrow> string list \<Rightarrow> string option" where
  "nth_part i parts = (if i < length parts then Some (parts ! i) else None)"

definition kernel_version_from_str :: "string \<Rightarrow> config_error + kernel_version" where
  "kernel_version_from_str value =
     (let version = (case split_once (CHR ''-'') value of None \<Rightarrow> value | Some (v, _) \<Rightarrow> v);
          parts = split_on (CHR ''.'') version
      in case parse_version_part (nth_part 0 parts) value of
           Inl e \<Rightarrow> Inl e
         | Inr ma \<Rightarrow>
             (case parse_version_part (nth_part 1 parts) value of
                Inl e \<Rightarrow> Inl e
              | Inr mi \<Rightarrow>
                  (case nth_part 2 parts of
                     None \<Rightarrow> Inr (Kernel_Version ma mi 0)
                   | Some p \<Rightarrow>
                       (case parse_radix 10 p of
                          None \<Rightarrow> Inl Invalid_Kernel_Patch
                        | Some pa \<Rightarrow> Inr (Kernel_Version ma mi pa)))))"

section \<open>Releases as the kernel prints them\<close>

definition show_u32 :: "u32 \<Rightarrow> string" where
  "show_u32 v = show_nat (unat v)"

definition release_of :: "kernel_version \<Rightarrow> string option \<Rightarrow> string" where
  "release_of v suffix =
     show_u32 (major v) @ ''.'' @ show_u32 (minor v) @ ''.'' @ show_u32 (patch v) @
     (case suffix of None \<Rightarrow> [] | Some s \<Rightarrow> CHR ''-'' # s)"

lemma parse_show_u32 [simp]: "parse_radix 10 (show_u32 v) = Some v"
  unfolding show_u32_def by (subst parse_radix_show) (simp_all add: unat_lt_num)

lemma show_u32_no_char: "digit_value c = None \<Longrightarrow> c \<notin> set (show_u32 v)"
  by (simp add: show_u32_def show_radix_no_char)

lemma show_u32_split [simp]:
  "split_on (CHR ''.'') (show_u32 v) = [show_u32 v]"
  "split_on (CHR ''.'') (show_u32 v @ CHR ''.'' # t) = show_u32 v # split_on (CHR ''.'') t"
  by (simp_all add: split_on_none split_on_append show_u32_no_char)

text \<open>Parsing inverts printing for kernel releases: the release string of any version, with or
  without a distribution suffix after a dash, parses to that version.\<close>

theorem kernel_version_roundtrip:
  "kernel_version_from_str (release_of v suffix) = Inr v"
proof -
  let ?core = "show_u32 (major v) @ ''.'' @ show_u32 (minor v) @ ''.'' @ show_u32 (patch v)"
  have dash: "CHR ''-'' \<notin> set ?core" by (simp add: show_u32_no_char)
  then have "(case split_once (CHR ''-'') (release_of v suffix) of
      None \<Rightarrow> release_of v suffix | Some (c, _) \<Rightarrow> c) = ?core"
  proof (cases suffix)
    case None
    then show ?thesis using dash by (simp add: release_of_def split_once_None [THEN iffD2])
  next
    case (Some s)
    have "release_of v suffix = ?core @ CHR ''-'' # s" by (simp add: release_of_def Some)
    then show ?thesis using split_once_append [OF dash, of s] by simp
  qed
  then show ?thesis
    by (simp add: kernel_version_from_str_def parse_version_part_def nth_part_def Let_def)
qed

end
