(* ===== verification/Ranges.thy ===== *)
theory Ranges
  imports Tables
begin

text \<open>
  Lookup of an address in a list of half-open ranges that is sorted by start, with
  \<open>slice::partition_point\<close>: the executable ranges of the unwinder, the JIT symbols and the module
  ranges of the symbolizer all use it.

  \<open>partition_point P xs\<close> is the number of leading elements that satisfy \<open>P\<close>; on a list that is
  partitioned by \<open>P\<close>, which a list sorted by start is, this is what the binary search of the
  standard library returns. \<open>range_lookup\<close> is the idiom
  \<open>xs.get(index - 1).filter(|r| address < r.end)\<close>.

  The locale \<open>range_table\<close> states when the lookup is exact: the ranges do not overlap. The weaker
  facts for overlapping ranges stand before it.
\<close>

definition partition_point :: "('a \<Rightarrow> bool) \<Rightarrow> 'a list \<Rightarrow> nat" where
  "partition_point P xs = length (takeWhile P xs)"

definition range_lookup :: "('r \<Rightarrow> 'k::linorder) \<Rightarrow> ('r \<Rightarrow> 'k) \<Rightarrow> 'r list \<Rightarrow> 'k \<Rightarrow> 'r option" where
  "range_lookup lo hi xs a =
     (let index = partition_point (\<lambda>r. lo r \<le> a) xs
      in if index \<noteq> 0 \<and> a < hi (xs ! (index - 1)) then Some (xs ! (index - 1)) else None)"

lemma partition_point_le: "partition_point P xs \<le> length xs"
  by (simp add: partition_point_def length_takeWhile_le)

lemma partition_point_split:
  assumes "\<forall>x \<in> set ys. P x" "zs = [] \<or> \<not> P (hd zs)"
  shows "partition_point P (ys @ zs) = length ys"
proof -
  have "length (takeWhile P ys) = length ys"
    using assms(1) by (metis takeWhile_eq_all_conv)
  with assms show ?thesis by (cases zs) (simp_all add: partition_point_def takeWhile_append2)
qed

text \<open>What is found contains the address, and starts at the greatest start at or below it.\<close>

lemma range_lookup_sound:
  assumes "range_lookup lo hi xs a = Some r"
  shows "r \<in> set xs \<and> lo r \<le> a \<and> a < hi r"
proof -
  let ?i = "partition_point (\<lambda>r. lo r \<le> a) xs"
  from assms have r: "?i \<noteq> 0" "a < hi r" "r = xs ! (?i - 1)"
    by (auto simp: range_lookup_def Let_def split: if_splits)
  then have less: "?i - 1 < length (takeWhile (\<lambda>r. lo r \<le> a) xs)"
    by (simp add: partition_point_def)
  then have "xs ! (?i - 1) \<in> set (takeWhile (\<lambda>r. lo r \<le> a) xs)"
    by (metis nth_mem takeWhile_nth)
  then show ?thesis using r by (auto dest: set_takeWhileD)
qed

lemma range_lookup_greatest:
  assumes "sorted (map lo xs)" "range_lookup lo hi xs a = Some r" "s \<in> set xs" "lo s \<le> a"
  shows "lo s \<le> lo r"
proof -
  let ?P = "\<lambda>r. lo r \<le> a"
  let ?i = "partition_point ?P xs"
  have r: "?i \<noteq> 0" "r = xs ! (?i - 1)"
    using assms(2) by (auto simp: range_lookup_def Let_def split: if_splits)
  obtain k where k: "k < length xs" "s = xs ! k" using assms(3) by (metis in_set_conv_nth)
  have "k < ?i"
  proof (rule ccontr)
    assume "\<not> k < ?i"
    then have len: "?i \<le> k" by simp
    with k have "?i < length xs" by simp
    then have "\<not> ?P (xs ! ?i)"
      unfolding partition_point_def by (rule nth_length_takeWhile)
    moreover have "lo (xs ! ?i) \<le> lo (xs ! k)"
      using assms(1) len k by (simp add: sorted_iff_nth_mono)
    ultimately show False using assms(4) k by simp
  qed
  then have "k \<le> ?i - 1" "?i - 1 < length xs"
    using r(1) partition_point_le [of ?P xs] by simp_all
  then show ?thesis using assms(1) k r(2) by (simp add: sorted_iff_nth_mono)
qed

definition disjoint_ranges :: "('r \<Rightarrow> 'k::linorder) \<Rightarrow> ('r \<Rightarrow> 'k) \<Rightarrow> 'r list \<Rightarrow> bool" where
  "disjoint_ranges lo hi xs \<longleftrightarrow>
     sorted_wrt (\<lambda>r s. hi r \<le> lo s) xs \<and> (\<forall>r \<in> set xs. lo r < hi r)"

lemma disjoint_ranges_sorted: "disjoint_ranges lo hi xs \<Longrightarrow> sorted (map lo xs)"
  by (induction xs) (force simp: disjoint_ranges_def)+

section \<open>The contract of a table of ranges\<close>

locale range_table =
  fixes lo hi :: "'r \<Rightarrow> 'k::linorder"
    and find :: "'r list \<Rightarrow> 'k \<Rightarrow> 'r option"
    and ok :: "'r list \<Rightarrow> bool"
  assumes find_lookup: "find xs a = range_lookup lo hi xs a"
    and ok_disjoint: "ok xs \<Longrightarrow> disjoint_ranges lo hi xs"
begin

lemma ok_unique:
  assumes "ok xs" "r \<in> set xs" "s \<in> set xs" "lo r \<le> a" "a < hi r" "lo s \<le> a" "a < hi s"
  shows "r = s"
proof -
  have dis: "sorted_wrt (\<lambda>r s. hi r \<le> lo s) xs"
    using ok_disjoint [OF assms(1)] by (simp add: disjoint_ranges_def)
  obtain i j where ij: "i < length xs" "r = xs ! i" "j < length xs" "s = xs ! j"
    using assms(2,3) by (metis in_set_conv_nth)
  then have "i < j \<Longrightarrow> hi r \<le> lo s" "j < i \<Longrightarrow> hi s \<le> lo r"
    using dis by (simp_all add: sorted_wrt_iff_nth_less)
  then have "i = j" using assms(4-7) by (meson leD le_less_trans linorder_neqE_nat order_trans)
  with ij show ?thesis by simp
qed

theorem find_iff:
  assumes "ok xs"
  shows "find xs a = Some r \<longleftrightarrow> r \<in> set xs \<and> lo r \<le> a \<and> a < hi r"
proof
  assume "find xs a = Some r"
  then show "r \<in> set xs \<and> lo r \<le> a \<and> a < hi r"
    unfolding find_lookup by (rule range_lookup_sound)
next
  assume r: "r \<in> set xs \<and> lo r \<le> a \<and> a < hi r"
  have srt: "sorted (map lo xs)" using ok_disjoint [OF assms] by (rule disjoint_ranges_sorted)
  obtain i where i: "i < length xs" "r = xs ! i" using r by (metis in_set_conv_nth)
  let ?P = "\<lambda>r. lo r \<le> a"
  have before: "\<forall>x \<in> set (take (Suc i) xs). ?P x"
  proof
    fix x assume "x \<in> set (take (Suc i) xs)"
    then obtain k where "k \<le> i" "x = xs ! k"
      using i by (auto simp: in_set_conv_nth less_Suc_eq_le)
    with srt i r show "?P x" by (metis order_trans length_map nth_map sorted_iff_nth_mono order_le_less_trans)
  qed
  have after: "drop (Suc i) xs = [] \<or> \<not> ?P (hd (drop (Suc i) xs))"
  proof (cases "Suc i < length xs")
    case True
    then have "hi r \<le> lo (xs ! Suc i)"
      using ok_disjoint [OF assms] i by (simp add: disjoint_ranges_def sorted_wrt_iff_nth_less)
    with r have "\<not> lo (xs ! Suc i) \<le> a" by auto
    then show ?thesis using True by (simp add: hd_drop_conv_nth)
  qed simp
  have "partition_point ?P xs = Suc i"
    using partition_point_split [OF before after] i by (simp add: append_take_drop_id)
  then show "find xs a = Some r"
    using r i unfolding find_lookup by (simp add: range_lookup_def)
qed

lemma find_None_iff: "ok xs \<Longrightarrow> find xs a = None \<longleftrightarrow> (\<forall>r \<in> set xs. \<not> (lo r \<le> a \<and> a < hi r))"
  using find_iff [of xs a] by (metis not_None_eq)

end

end
