(* ===== verification/Maps.thy ===== *)
theory Maps
  imports Ranges Text
begin

text \<open>
  \<open>src/src/maps.rs\<close>: the lines of \<open>/proc/PID/maps\<close> and the merged table of executable address
  ranges that the unwinder consults.

  \<^item> \<open>parse_map_line\<close> follows the source field by field; every \<open>?\<close> of it is a constructor of
    \<open>map_error\<close>. \<open>read_process_maps\<close> takes the contents of the file as its argument.
  \<^item> \<open>from_maps\<close> collects, sorts and merges; \<open>contains\<close> is the binary search. The laws: the merged
    ranges are disjoint, and an address is contained exactly if an executable mapping contains it.
  \<^item> \<open>render_map_line\<close> prints an entry in the kernel's format, for the round trip.
\<close>

record map_entry =
  me_start :: u64
  me_end :: u64
  me_offset :: u64
  me_permissions :: string
  me_device :: string
  me_inode :: u64
  me_path :: "string option"

definition is_executable :: "map_entry \<Rightarrow> bool" where
  "is_executable m \<longleftrightarrow> 2 < length (me_permissions m) \<and> me_permissions m ! 2 = CHR ''x''"

section \<open>Parsing\<close>

datatype map_error =
  Missing_Range
| Missing_Permissions
| Missing_Offset
| Invalid_Offset
| Missing_Device
| Missing_Inode
| Invalid_Inode
| Invalid_Range
| Invalid_Start
| Invalid_End
| Start_Not_Below_End

definition parse_hex :: "string option \<Rightarrow> map_error \<Rightarrow> map_error \<Rightarrow> map_error + u64" where
  "parse_hex value missing invalid =
     (case value of
        None \<Rightarrow> Inl missing
      | Some v \<Rightarrow> (case parse_radix 16 v of None \<Rightarrow> Inl invalid | Some n \<Rightarrow> Inr n))"

definition entry_path :: "string list \<Rightarrow> string option" where
  "entry_path flds =
     (let path = join '' '' flds
      in if path = [] \<or> starts_with ''['' path then None
         else Some (case strip_suffix '' (deleted)'' path of None \<Rightarrow> path | Some p \<Rightarrow> p))"

text \<open>The range is parsed last, after the path, as in the source.\<close>

definition parse_range :: "string \<Rightarrow> map_error + u64 \<times> u64" where
  "parse_range rng =
     (case split_once (CHR ''-'') rng of
        None \<Rightarrow> Inl Invalid_Range
      | Some (s, e) \<Rightarrow>
          (case parse_radix 16 s of
             None \<Rightarrow> Inl Invalid_Start
           | Some lo \<Rightarrow>
               (case parse_radix 16 e of
                  None \<Rightarrow> Inl Invalid_End
                | Some hi \<Rightarrow> if lo \<ge> hi then Inl Start_Not_Below_End else Inr (lo, hi))))"

fun parse_map_fields :: "string list \<Rightarrow> map_error + map_entry" where
  "parse_map_fields [] = Inl Missing_Range"
| "parse_map_fields [rng] = Inl Missing_Permissions"
| "parse_map_fields (rng # permissions # flds) =
     (case parse_hex (case flds of [] \<Rightarrow> None | f # _ \<Rightarrow> Some f) Missing_Offset Invalid_Offset of
        Inl e \<Rightarrow> Inl e
      | Inr offset \<Rightarrow>
          (case tl flds of
             [] \<Rightarrow> Inl Missing_Device
           | device # flds' \<Rightarrow>
               (case flds' of
                  [] \<Rightarrow> Inl Missing_Inode
                | inode # rest \<Rightarrow>
                    (case parse_radix 10 inode of
                       None \<Rightarrow> Inl Invalid_Inode
                     | Some ino \<Rightarrow>
                         (case parse_range rng of
                            Inl e \<Rightarrow> Inl e
                          | Inr (lo, hi) \<Rightarrow>
                              Inr \<lparr>me_start = lo, me_end = hi, me_offset = offset,
                                   me_permissions = permissions, me_device = device,
                                   me_inode = ino, me_path = entry_path rest\<rparr>)))))"

definition parse_map_line :: "string \<Rightarrow> map_error + map_entry" where
  "parse_map_line line = parse_map_fields (split_whitespace line)"

text \<open>Collecting into a \<open>Result\<close> stops at the first error.\<close>

fun parse_map_lines :: "string list \<Rightarrow> map_error + map_entry list" where
  "parse_map_lines [] = Inr []"
| "parse_map_lines (l # ls) =
     (case parse_map_line l of
        Inl e \<Rightarrow> Inl e
      | Inr m \<Rightarrow> (case parse_map_lines ls of Inl e \<Rightarrow> Inl e | Inr ms \<Rightarrow> Inr (m # ms)))"

definition read_process_maps :: "string \<Rightarrow> map_error + map_entry list" where
  "read_process_maps contents = parse_map_lines (text_lines contents)"

section \<open>Executable ranges\<close>

type_synonym addr_range = "u64 \<times> u64"

definition merge_range :: "addr_range list \<Rightarrow> addr_range \<Rightarrow> addr_range list" where
  "merge_range merged r =
     (if merged \<noteq> [] \<and> fst r \<le> snd (last merged)
      then butlast merged @ [(fst (last merged), max (snd (last merged)) (snd r))]
      else merged @ [r])"

definition from_maps :: "map_entry list \<Rightarrow> addr_range list" where
  "from_maps maps =
     foldl merge_range []
       (sort_key fst (map (\<lambda>m. (me_start m, me_end m)) (filter is_executable maps)))"

definition contains :: "addr_range list \<Rightarrow> u64 \<Rightarrow> bool" where
  "contains ranges addr =
     (let index = partition_point (\<lambda>r. fst r \<le> addr) ranges
      in index \<noteq> 0 \<and> addr < snd (ranges ! (index - 1)))"

definition max_address :: "addr_range list \<Rightarrow> u64" where
  "max_address ranges = (if ranges = [] then 0 else sat_sub (snd (last ranges)) 1)"

definition covers :: "addr_range list \<Rightarrow> u64 \<Rightarrow> bool" where
  "covers rs a \<longleftrightarrow> (\<exists>r \<in> set rs. fst r \<le> a \<and> a < snd r)"

lemma covers_simps [simp]:
  "\<not> covers [] a" "covers (r # rs) a \<longleftrightarrow> (fst r \<le> a \<and> a < snd r) \<or> covers rs a"
  "covers (rs @ qs) a \<longleftrightarrow> covers rs a \<or> covers qs a"
  by (auto simp: covers_def)

lemma contains_lookup: "contains rs a \<longleftrightarrow> range_lookup fst snd rs a \<noteq> None"
  by (simp add: contains_def range_lookup_def Let_def)

text \<open>One step of the merge: the start is at or after every start so far.\<close>

definition merged_inv :: "addr_range list \<Rightarrow> u64 \<Rightarrow> bool" where
  "merged_inv ms b \<longleftrightarrow> disjoint_ranges fst snd ms \<and> (\<forall>m \<in> set ms. fst m \<le> b)"

lemma merge_range_snoc:
  "merge_range (xs @ [l]) r =
     (if fst r \<le> snd l then xs @ [(fst l, max (snd l) (snd r))] else xs @ [l, r])"
  by (simp add: merge_range_def)

lemma merged_inv_step:
  assumes "merged_inv ms b" "b \<le> fst r" "fst r < snd r"
  shows "merged_inv (merge_range ms r) (fst r)"
proof (cases ms rule: rev_cases)
  case Nil
  then show ?thesis
    using assms by (simp add: merge_range_def merged_inv_def disjoint_ranges_def)
next
  case (snoc xs l)
  have xs: "\<forall>x \<in> set xs. snd x \<le> fst l" "\<forall>x \<in> set xs. fst x \<le> b" "fst l < snd l" "fst l \<le> b"
      "sorted_wrt (\<lambda>r s. snd r \<le> fst s) xs" "\<forall>x \<in> set xs. fst x < snd x"
    using assms(1)
    by (auto simp: snoc merged_inv_def disjoint_ranges_def sorted_wrt_append)
  have gap: "\<forall>x \<in> set xs. snd x \<le> fst r"
    using xs assms(2) by (meson order_trans)
  show ?thesis
    using xs gap assms(2,3) unfolding snoc merge_range_snoc
    by (auto simp: merged_inv_def disjoint_ranges_def sorted_wrt_append max_def
        intro: order_trans less_imp_le)
qed

lemma covers_merge_range:
  assumes "merged_inv ms b" "b \<le> fst r" "fst r < snd r"
  shows "covers (merge_range ms r) a \<longleftrightarrow> covers ms a \<or> (fst r \<le> a \<and> a < snd r)"
proof (cases ms rule: rev_cases)
  case Nil
  then show ?thesis by (simp add: merge_range_def)
next
  case (snoc xs l)
  have "fst l \<le> b" using assms(1) by (simp add: snoc merged_inv_def)
  with assms(2,3) show ?thesis
    unfolding snoc merge_range_snoc by (auto simp: max_def)
qed

lemma merge_all:
  assumes "sorted (map fst rs)" "\<forall>r \<in> set rs. fst r < snd r" "merged_inv ms b"
    and "\<forall>r \<in> set rs. b \<le> fst r"
  shows "disjoint_ranges fst snd (foldl merge_range ms rs) \<and>
    (covers (foldl merge_range ms rs) a \<longleftrightarrow> covers ms a \<or> covers rs a)"
  using assms
proof (induction rs arbitrary: ms b)
  case Nil
  then show ?case by (simp add: merged_inv_def)
next
  case (Cons r rs)
  have r: "b \<le> fst r" "fst r < snd r" using Cons.prems by simp_all
  have rest: "sorted (map fst rs)" "\<forall>s \<in> set rs. fst s < snd s" "\<forall>s \<in> set rs. fst r \<le> fst s"
    using Cons.prems by auto
  from Cons.IH [OF rest(1,2) merged_inv_step [OF Cons.prems(3) r] rest(3)]
    covers_merge_range [OF Cons.prems(3) r, of a]
  show ?case by auto
qed

definition proper_entries :: "map_entry list \<Rightarrow> bool" where
  "proper_entries maps \<longleftrightarrow> (\<forall>m \<in> set maps. me_start m < me_end m)"

lemma from_maps_ok:
  assumes "proper_entries maps"
  shows "disjoint_ranges fst snd (from_maps maps) \<and>
    (covers (from_maps maps) a \<longleftrightarrow>
      (\<exists>m \<in> set maps. is_executable m \<and> me_start m \<le> a \<and> a < me_end m))"
proof -
  let ?rs = "sort_key fst (map (\<lambda>m. (me_start m, me_end m)) (filter is_executable maps))"
  have "disjoint_ranges fst snd (foldl merge_range [] ?rs) \<and>
      (covers (foldl merge_range [] ?rs) a \<longleftrightarrow> covers [] a \<or> covers ?rs a)"
    using assms by (intro merge_all [where b = 0])
      (auto simp: proper_entries_def merged_inv_def disjoint_ranges_def)
  moreover have "covers ?rs a \<longleftrightarrow>
      (\<exists>m \<in> set maps. is_executable m \<and> me_start m \<le> a \<and> a < me_end m)"
    by (auto simp: covers_def)
  ultimately show ?thesis by (simp add: from_maps_def)
qed

definition executable_find :: "addr_range list \<Rightarrow> u64 \<Rightarrow> addr_range option" where
  "executable_find = range_lookup fst snd"

interpretation executable: range_table fst snd executable_find "disjoint_ranges fst snd"
  by unfold_locales (simp_all add: executable_find_def)

lemma contains_covers: "disjoint_ranges fst snd rs \<Longrightarrow> contains rs a \<longleftrightarrow> covers rs a"
  using executable.find_None_iff [of rs a]
  by (auto simp: contains_lookup covers_def executable_find_def)

section \<open>Lines as the kernel prints them\<close>

definition show_hex :: "u64 \<Rightarrow> string" where
  "show_hex v = show_radix 16 (unat v)"

definition show_u64 :: "u64 \<Rightarrow> string" where
  "show_u64 v = show_nat (unat v)"

text \<open>The kernel pads the two addresses and the offset with zeros to eight digits and prints them in lower
  case; a blank follows the inode, then as many as fill the column before the name. The name is empty for
  an anonymous mapping, in brackets for a special one (\<open>[heap]\<close>), and otherwise a file, marked when it was
  deleted.\<close>

definition padded_hex :: "u64 \<Rightarrow> string" where
  "padded_hex v = replicate (8 - length (show_hex v)) (CHR ''0'') @ show_hex v"

datatype map_name = Anonymous | Special string | File string bool

fun render_name :: "map_name \<Rightarrow> string" where
  "render_name Anonymous = []"
| "render_name (Special s) = CHR ''['' # s"
| "render_name (File p deleted) = p @ (if deleted then '' (deleted)'' else [])"

definition render_range :: "map_entry \<Rightarrow> string" where
  "render_range m = padded_hex (me_start m) @ ''-'' @ padded_hex (me_end m)"

definition render_map_line :: "nat \<Rightarrow> map_entry \<Rightarrow> map_name \<Rightarrow> string" where
  "render_map_line pad m name =
     render_range m @ '' '' @ me_permissions m @ '' '' @ padded_hex (me_offset m) @ '' '' @
     me_device m @ '' '' @ show_u64 (me_inode m) @ '' '' @ replicate pad (CHR '' '') @ render_name name"

text \<open>A path with every run of white space replaced by one blank. Without the kernel's mark a path whose own
  name ends like it loses that end.\<close>

definition squeeze :: "string \<Rightarrow> string" where
  "squeeze p = join '' '' (split_whitespace p)"

fun name_path :: "map_name \<Rightarrow> string option" where
  "name_path Anonymous = None"
| "name_path (Special s) = None"
| "name_path (File p deleted) =
     Some (if deleted then squeeze p
           else case strip_suffix '' (deleted)'' (squeeze p) of None \<Rightarrow> squeeze p | Some q \<Rightarrow> q)"

definition printable_name :: "map_name \<Rightarrow> bool" where
  "printable_name name =
     (case name of File p _ \<Rightarrow> squeeze p \<noteq> [] \<and> \<not> starts_with ''['' (squeeze p) | _ \<Rightarrow> True)"

definition printable_entry :: "map_entry \<Rightarrow> bool" where
  "printable_entry m \<longleftrightarrow> me_start m < me_end m \<and> is_word (me_permissions m) \<and> is_word (me_device m)"

lemma parse_show_hex [simp]: "parse_radix 16 (show_hex v) = Some v"
  unfolding show_hex_def by (subst parse_radix_show) (simp_all add: unat_lt_num)

lemma parse_show_u64 [simp]: "parse_radix 10 (show_u64 v) = Some v"
  unfolding show_u64_def by (subst parse_radix_show) (simp_all add: unat_lt_num)

lemma parse_digits_zeros: "0 < b \<Longrightarrow> parse_digits b 0 (replicate n (CHR ''0'') @ s) = parse_digits b 0 s"
  by (induction n) (simp_all add: to_digit_def digit_value_def)

lemma parse_padded_hex [simp]: "parse_radix 16 (padded_hex v) = Some v"
proof -
  have "parse_digits 16 0 (padded_hex v) = parse_digits 16 0 (show_hex v)"
    by (simp add: padded_hex_def parse_digits_zeros)
  moreover have "parse_digits 16 0 (show_hex v) = Some (unat v)" by (simp add: show_hex_def parse_digits_show)
  moreover have "padded_hex v \<noteq> []" "hd (padded_hex v) \<noteq> CHR ''+''"
    using show_radix_no_char [of 16 "CHR ''+''" "unat v"]
    by (auto simp: padded_hex_def show_hex_def digit_value_def hd_append)
      (metis hd_in_set show_radix_nonempty)
  ultimately show ?thesis by (cases "padded_hex v") (auto simp: parse_radix_def Let_def unat_lt_num)
qed

lemma is_word_shown [simp]: "is_word (show_hex v)" "is_word (show_u64 v)"
  by (simp_all add: show_hex_def show_u64_def word_show_radix)

lemma is_word_padded [simp]: "is_word (padded_hex v)"
  using is_word_shown(1) [of v] by (auto simp: is_word_def padded_hex_def is_ascii_def is_space_def)

lemma is_word_range: "is_word (render_range m)"
  using is_word_padded [of "me_start m"] is_word_padded [of "me_end m"]
  by (auto simp: is_word_def render_range_def is_ascii_def is_space_def)

lemma parse_render_range: "me_start m < me_end m \<Longrightarrow> parse_range (render_range m) = Inr (me_start m, me_end m)"
proof -
  assume lt: "me_start m < me_end m"
  have "CHR ''-'' \<notin> set (padded_hex (me_start m))"
    by (auto simp: padded_hex_def show_hex_def show_radix_no_char)
  then have "split_once (CHR ''-'') (render_range m) = Some (padded_hex (me_start m), padded_hex (me_end m))"
    unfolding render_range_def append_Cons append_Nil by (rule split_once_append)
  with lt show ?thesis by (simp add: parse_range_def)
qed

lemma split_whitespace_step:
  "is_word s \<Longrightarrow> split_whitespace (s @ CHR '' '' # t) = s # split_whitespace t"
  by (simp add: split_whitespace_append)

lemma split_whitespace_blanks: "split_whitespace (replicate n (CHR '' '') @ t) = split_whitespace t"
  by (induction n) (simp_all add: split_whitespace_space)

lemma join_snoc: "ws \<noteq> [] \<Longrightarrow> join sep (ws @ [w]) = join sep ws @ sep @ w"
  by (induction sep ws rule: join.induct) auto

lemma entry_path_squeeze:
  "entry_path (split_whitespace p) =
     (if squeeze p = [] \<or> starts_with ''['' (squeeze p) then None
      else Some (case strip_suffix '' (deleted)'' (squeeze p) of None \<Rightarrow> squeeze p | Some q \<Rightarrow> q))"
  by (simp add: entry_path_def squeeze_def Let_def split: option.split)

lemma split_words_head: "w \<noteq> [] \<Longrightarrow> \<exists>v vs. split_words w s = (rev w @ v) # vs"
proof (induction w s rule: split_words.induct)
  case (1 ws s)
  show ?case
  proof (cases "s \<noteq> [] \<and> space_len s = 0")
    case True
    then have "split_words ws s = split_words (hd s # ws) (tl s)" by (simp add: split_words.simps [of ws s])
    with 1(1) True show ?thesis by fastforce
  next
    case False
    with 1(3) show ?thesis by (auto simp: split_words.simps [of ws s])
  qed
qed

lemma squeeze_bracket: "starts_with ''['' (squeeze (CHR ''['' # s))"
proof -
  obtain v vs where "split_words ''['' s = (''['' @ v) # vs" using split_words_head [of "''[''" s] by auto
  moreover have "is_ascii (CHR ''['')" "\<not> is_space (CHR ''['')" by (simp_all add: is_ascii_def is_space_def)
  ultimately have "split_whitespace (CHR ''['' # s) = (CHR ''['' # v) # vs" by (simp add: split_whitespace_def)
  then show ?thesis by (cases vs) (simp_all add: squeeze_def)
qed

lemma squeeze_deleted:
  assumes "squeeze p \<noteq> []"
  shows "squeeze (p @ '' (deleted)'') = squeeze p @ '' (deleted)''"
proof -
  have "is_word ''(deleted)''" by (simp add: is_word_def is_ascii_def is_space_def)
  then have "split_whitespace (p @ '' (deleted)'') = split_whitespace p @ [''(deleted)'']"
    using split_words_trailing [of "CHR '' ''" "[]" p "''(deleted)''"]
    by (simp add: split_whitespace_def split_words_word is_word_def)
  moreover have "split_whitespace p \<noteq> []" using assms by (auto simp: squeeze_def)
  ultimately show ?thesis by (simp add: squeeze_def join_snoc)
qed

lemma entry_path_name:
  assumes "printable_name name"
  shows "entry_path (split_whitespace (render_name name)) = name_path name"
proof (cases name)
  case Anonymous
  then show ?thesis by (simp add: entry_path_def split_whitespace_def)
next
  case (Special s)
  have "starts_with ''['' (squeeze (CHR ''['' # s))" by (rule squeeze_bracket)
  with Special show ?thesis by (simp add: entry_path_squeeze)
next
  case (File p deleted)
  with assms have p: "squeeze p \<noteq> []" "\<not> starts_with ''['' (squeeze p)" by (simp_all add: printable_name_def)
  show ?thesis
  proof (cases deleted)
    case False
    with File p show ?thesis by (simp add: entry_path_squeeze)
  next
    case True
    have "\<not> starts_with ''['' (squeeze p @ '' (deleted)'')" using p by (cases "squeeze p") simp_all
    moreover have "strip_suffix '' (deleted)'' (squeeze p @ '' (deleted)'') = Some (squeeze p)"
      by (simp only: strip_suffix_Some)
    ultimately show ?thesis using File True p by (simp add: entry_path_squeeze squeeze_deleted)
  qed
qed

text \<open>Paths whose white space is single blanks are kept as they are.\<close>

lemma name_path_plain:
  assumes "squeeze p = p" "deleted \<or> \<not> ends_with '' (deleted)'' p"
  shows "name_path (File p deleted) = Some p"
  using assms by (auto simp: strip_suffix_def)

section \<open>Properties\<close>

text \<open>C7: Every line that the kernel prints for a mapping is parsed: the padded hexadecimal range and offset, the
  permissions, the device and the decimal inode come back, whatever the padding before the name. An
  anonymous or bracketed name gives no path; a file gives its path without the kernel's mark for deleted
  files. What the code does not keep is stated by \<open>name_path\<close>: white space in a path comes back as single
  blanks, and the path of a file that exists but ends in \<open> (deleted)\<close> loses that end.\<close>

theorem parse_map_line_render:
  assumes "printable_entry m" "printable_name name"
  shows "parse_map_line (render_map_line pad m name) = Inr (m\<lparr>me_path := name_path name\<rparr>)"
proof -
  have m: "me_start m < me_end m" "is_word (me_permissions m)" "is_word (me_device m)"
    using assms by (simp_all add: printable_entry_def)
  have "split_whitespace (render_map_line pad m name) =
      [render_range m, me_permissions m, padded_hex (me_offset m), me_device m, show_u64 (me_inode m)] @
      split_whitespace (render_name name)"
    unfolding render_map_line_def
    by (simp only: split_whitespace_step is_word_range is_word_shown is_word_padded m split_whitespace_blanks
        append_Cons append_Nil)
  moreover have "entry_path (split_whitespace (render_name name)) = name_path name"
    by (rule entry_path_name [OF assms(2)])
  ultimately show ?thesis
    using m(1) by (simp add: parse_map_line_def parse_hex_def parse_render_range)
qed

definition sample_map :: map_entry where
  "sample_map =
     \<lparr>me_start = 4194304, me_end = 4202496, me_offset = 0, me_permissions = ''r-xp'',
      me_device = ''08:01'', me_inode = 42, me_path = Some ''/opt/my app''\<rparr>"

lemma sample_squeeze: "squeeze ''/opt/my app'' = ''/opt/my app''"
  by (simp add: squeeze_def split_whitespace_def is_ascii_def is_space_def)

theorem parse_map_line_render_witness:
  "parse_map_line (render_map_line 3 sample_map (File ''/opt/my app'' True)) = Inr sample_map \<and>
   parse_map_line (render_map_line 3 sample_map (Special ''heap]'')) = Inr (sample_map\<lparr>me_path := None\<rparr>)"
proof -
  have m: "printable_entry sample_map"
    by (simp add: sample_map_def printable_entry_def is_word_def is_ascii_def is_space_def)
  have mapped: "printable_name (File ''/opt/my app'' True)" by (simp add: printable_name_def sample_squeeze)
  have special: "printable_name (Special ''heap]'')" by (simp add: printable_name_def)
  show ?thesis
    using parse_map_line_render [OF m mapped, of 3] parse_map_line_render [OF m special, of 3]
    by (simp add: sample_squeeze) (simp add: sample_map_def)
qed

text \<open>C8: The merged table answers exactly: for entries that parsing can produce (start below end), the
  table holds an address if and only if some executable mapping contains it, whatever overlaps or
  duplicates the mappings have, and its ranges are disjoint and ascending.\<close>

theorem executable_ranges_exact:
  assumes "proper_entries maps"
  shows "disjoint_ranges fst snd (from_maps maps) \<and>
    (contains (from_maps maps) a \<longleftrightarrow>
      (\<exists>m \<in> set maps. is_executable m \<and> me_start m \<le> a \<and> a < me_end m))"
  using from_maps_ok [OF assms, of a] by (simp add: contains_covers)

theorem executable_ranges_exact_witness:
  "contains (from_maps [sample_map, sample_map\<lparr>me_start := 4198400, me_end := 4210688\<rparr>]) 4206592"
  using executable_ranges_exact
    [of "[sample_map, sample_map\<lparr>me_start := 4198400, me_end := 4210688\<rparr>]" 4206592]
  by (simp add: proper_entries_def sample_map_def is_executable_def)

end
