(* ===== verification/Paths.thy ===== *)
theory Paths
  imports Maps "HOL-Library.List_Lexorder"
begin

text \<open>
  \<open>PathBuf\<close> as an ordered key, and the two places that group the mappings of a process by file:
  \<open>mapped_files\<close> (\<open>src/src/maps.rs\<close>) and the grouping loop that \<open>DwarfUnwinder::from_maps\<close>
  (\<open>src/src/unwind.rs\<close>) and \<open>Symbolizer::from_maps\<close> (\<open>src/src/symbol.rs\<close>) share.

  The standard library compares paths by their components, not by their bytes: repeated slashes and
  inner dots do not count. \<open>path_key\<close> is the list of components, each with its rank (root before
  \<open>.\<close> before \<open>..\<close> before a name) followed by its bytes, so that the list order is the order of
  \<open>Path\<close>. A \<open>BTreeMap<PathBuf, V>\<close> is an ordered table from keys to the stored path and value.
\<close>

definition component_key :: "string \<Rightarrow> nat list" where
  "component_key c = (if c = ''..'' then [3] else 4 # map of_char c)"

definition path_key :: "string \<Rightarrow> nat list list" where
  "path_key p =
     (let parts = split_on (CHR ''/'') p;
          names = filter (\<lambda>c. c \<noteq> [] \<and> c \<noteq> ''.'') parts
      in (if starts_with ''/'' p then [[1]]
          else if hd parts = ''.'' then [[2]] else []) @ map component_key names)"

type_synonym 'v path_map = "(nat list list, string \<times> 'v) table"

text \<open>\<open>entry(path).or_default()\<close> followed by a change of the value: the first path stays.\<close>

definition path_map_update :: "string \<Rightarrow> 'v \<Rightarrow> ('v \<Rightarrow> 'v) \<Rightarrow> 'v path_map \<Rightarrow> 'v path_map" where
  "path_map_update p v0 f m =
     (case map_of m (path_key p) of
        None \<Rightarrow> bt_put (path_key p) (p, f v0) m
      | Some (q, v) \<Rightarrow> bt_put (path_key p) (q, f v) m)"

definition mapped_files :: "map_entry list \<Rightarrow> string list" where
  "mapped_files entries =
     map (fst \<circ> snd)
       (foldl (\<lambda>m e. case me_path e of None \<Rightarrow> m | Some p \<Rightarrow> path_map_update p () id m)
          [] (filter is_executable entries))"

definition group_entry :: "map_entry list path_map \<Rightarrow> map_entry \<Rightarrow> map_entry list path_map" where
  "group_entry m e =
     (case me_path e of None \<Rightarrow> m | Some p \<Rightarrow> path_map_update p [] (\<lambda>es. es @ [e]) m)"

definition group_by_path :: "map_entry list \<Rightarrow> (string \<times> map_entry list) list" where
  "group_by_path maps =
     map snd (foldl group_entry [] (filter (\<lambda>m. me_inode m \<noteq> 0 \<and> is_executable m) maps))"

section \<open>Laws\<close>

lemma path_map_update_wf [simp]: "bt_wf m \<Longrightarrow> bt_wf (path_map_update p v f m)"
  by (auto simp: path_map_update_def split: option.split)

lemma path_map_update_get:
  "bt_wf m \<Longrightarrow> map_of (path_map_update p v f m) =
     (map_of m)(path_key p \<mapsto>
       (case map_of m (path_key p) of None \<Rightarrow> (p, f v) | Some (q, w) \<Rightarrow> (q, f w)))"
  by (auto simp: path_map_update_def split: option.split)

lemma group_entry_wf: "bt_wf m \<Longrightarrow> bt_wf (group_entry m e)"
  by (simp add: group_entry_def split: option.split)

lemma group_fold_wf: "bt_wf m \<Longrightarrow> bt_wf (foldl group_entry m es)"
  by (induction es arbitrary: m) (simp_all add: group_entry_wf)

definition entries_at :: "map_entry list path_map \<Rightarrow> nat list list \<Rightarrow> map_entry list" where
  "entries_at m k = (case map_of m k of None \<Rightarrow> [] | Some (_, es) \<Rightarrow> es)"

definition has_key :: "nat list list \<Rightarrow> map_entry \<Rightarrow> bool" where
  "has_key k e \<longleftrightarrow> map_option path_key (me_path e) = Some k"

lemma entries_at_group:
  "bt_wf m \<Longrightarrow> entries_at (group_entry m e) k = entries_at m k @ (if has_key k e then [e] else [])"
  by (auto simp: group_entry_def entries_at_def has_key_def path_map_update_get split: option.split)

lemma entries_at_fold:
  "bt_wf m \<Longrightarrow> entries_at (foldl group_entry m es) k = entries_at m k @ filter (has_key k) es"
  by (induction es arbitrary: m) (simp_all add: group_entry_wf entries_at_group)

text \<open>Every group holds exactly the entries of its file, in the order of the mappings.\<close>

lemma group_by_path_entries:
  assumes "(p, es) \<in> set (group_by_path maps)"
  shows "\<exists>k. es = filter (has_key k) (filter (\<lambda>m. me_inode m \<noteq> 0 \<and> is_executable m) maps)"
proof -
  let ?sel = "filter (\<lambda>m. me_inode m \<noteq> 0 \<and> is_executable m) maps"
  obtain k where "(k, p, es) \<in> set (foldl group_entry [] ?sel)"
    using assms by (auto simp: group_by_path_def)
  moreover have "bt_wf (foldl group_entry [] ?sel)" by (rule group_fold_wf) simp
  ultimately have "entries_at (foldl group_entry [] ?sel) k = es"
    by (simp add: entries_at_def bt_wf_tab_wf)
  moreover have "entries_at (foldl group_entry [] ?sel) k = filter (has_key k) ?sel"
    using entries_at_fold [of "[]" ?sel k] by (simp add: entries_at_def)
  ultimately show ?thesis by metis
qed

text \<open>\<open>Path::file_name\<close>: the last component when it is a name.\<close>

definition path_file_name :: "string \<Rightarrow> string option" where
  "path_file_name p =
     (let names = filter (\<lambda>c. c \<noteq> [] \<and> c \<noteq> ''.'') (split_on (CHR ''/'') p)
      in if names = [] \<or> last names = ''..'' then None else Some (last names))"

end
