(* ===== verification/Unwind.thy ===== *)
theory Unwind
  imports Paths Profile Config
begin

text \<open>
  \<open>src/src/unwind.rs\<close>: unwinding the captured stack of one sample.

  \<^item> \<open>read_stack\<close> is the closure that reads a word of the captured bytes.
  \<^item> \<open>normalize_code_address\<close> has one equation per architecture; the pointer-authentication mask of
    \<open>framehop\<close> is the parameter \<open>strip\<close>.
  \<^item> \<open>unwind_loop\<close> is the loop over the frame iterator of \<open>framehop\<close>, a parameter: a function that
    returns an error, the end, or the next lookup address, with its next state. Every round of the
    loop stores a frame or stops, and it stops at \<open>default_max_frames\<close>, so that many rounds are
    enough; \<open>unwind_loop_fuel\<close> proves that more change nothing.
  \<^item> \<open>elf_base_avma\<close> and the module list of \<open>from_maps\<close> work on the segments of an object file that
    the caller has parsed (a parameter).
\<close>

datatype arch = X86_64 | Aarch64

record raw_registers =
  rr_ip :: u64
  rr_sp :: u64
  rr_fp :: u64
  rr_lr :: u64

record stack_snapshot =
  ss_registers :: raw_registers
  ss_bytes :: "u8 list"

datatype unwind_error =
  Unresolved_Ip u64
| Outside_Executable u64
| Unwinder_Error string

record unwind_outcome =
  uo_frames :: "u64 list"
  uo_truncated :: bool
  uo_error :: "unwind_error option"
  uo_fatal :: bool

definition unwind_outcome_default :: unwind_outcome where
  "unwind_outcome_default =
     \<lparr>uo_frames = [], uo_truncated = False, uo_error = None, uo_fatal = False\<rparr>"

section \<open>Captured stack memory\<close>

definition read_stack :: "u64 \<Rightarrow> u8 list \<Rightarrow> u64 \<Rightarrow> u64 option" where
  "read_stack stack_start stack_bytes addr =
     (let stack_end = sat_add stack_start (word_of_nat (length stack_bytes))
      in case checked_add addr 8 of
           None \<Rightarrow> None
         | Some e \<Rightarrow>
             if addr < stack_start \<or> e > stack_end then None
             else let offset = unat (addr - stack_start)
                  in map_option word_of_bytes (slice stack_bytes offset (offset + 8)))"

section \<open>Code addresses\<close>

text \<open>One candidate of the aarch64 search; \<open>Inl\<close> stops it as ambiguous.\<close>

definition try_candidate :: "addr_range list \<Rightarrow> u64 option \<Rightarrow> u64 \<Rightarrow> unit + u64 option" where
  "try_candidate ranges resolved candidate =
     (if \<not> contains ranges candidate then Inr resolved
      else case resolved of
             None \<Rightarrow> Inr (Some candidate)
           | Some previous \<Rightarrow> if previous = candidate then Inr resolved else Inl ())"

fun resolve_candidates :: "addr_range list \<Rightarrow> u64 option \<Rightarrow> u64 list \<Rightarrow> u64 option" where
  "resolve_candidates ranges resolved [] = resolved"
| "resolve_candidates ranges resolved (c # cs) =
     (case try_candidate ranges resolved c of
        Inl _ \<Rightarrow> None
      | Inr resolved' \<Rightarrow> resolve_candidates ranges resolved' cs)"

fun normalize_code_address ::
  "arch \<Rightarrow> (u64 \<Rightarrow> u64) \<Rightarrow> u64 option \<Rightarrow> addr_range list \<Rightarrow> u64 \<Rightarrow> u64 option" where
  "normalize_code_address X86_64 strip pac_mask ranges addr =
     (if contains ranges addr then Some addr else None)"
| "normalize_code_address Aarch64 strip pac_mask ranges addr =
     resolve_candidates ranges None
       ([addr, addr AND 0x00ffffffffffffff, strip addr] @
        (case pac_mask of None \<Rightarrow> [] | Some m \<Rightarrow> [addr AND m]))"

section \<open>The frame loop\<close>

type_synonym 's frame_iterator = "'s \<Rightarrow> (string + u64 option) \<times> 's"

text \<open>One round: the outcome so far, and whether the loop goes on.\<close>

definition unwind_round ::
  "arch \<Rightarrow> addr_range list \<Rightarrow> string + u64 option \<Rightarrow> unwind_outcome \<Rightarrow> unwind_outcome \<times> bool" where
  "unwind_round arch ranges item outcome =
     (case item of
        Inl e \<Rightarrow> (outcome\<lparr>uo_error := Some (Unwinder_Error e)\<rparr>, False)
      | Inr None \<Rightarrow> (outcome, False)
      | Inr (Some addr) \<Rightarrow>
          if contains ranges addr then
            (let outcome' = outcome\<lparr>uo_frames := uo_frames outcome @ [addr]\<rparr>
             in if length (uo_frames outcome') = default_max_frames
                then (outcome'\<lparr>uo_truncated := True\<rparr>, False)
                else (outcome', True))
          else (outcome\<lparr>uo_error := Some (Outside_Executable addr),
                        uo_fatal := (arch = Aarch64)\<rparr>, False))"

fun unwind_loop ::
  "nat \<Rightarrow> arch \<Rightarrow> addr_range list \<Rightarrow> 's frame_iterator \<Rightarrow> 's \<Rightarrow> unwind_outcome \<Rightarrow> unwind_outcome" where
  "unwind_loop 0 arch ranges nxt s outcome = outcome"
| "unwind_loop (Suc fuel) arch ranges nxt s outcome =
     (let (item, s') = nxt s;
          (outcome', go) = unwind_round arch ranges item outcome
      in if go then unwind_loop fuel arch ranges nxt s' outcome' else outcome')"

definition unwind_bytes ::
  "arch \<Rightarrow> (u64 \<Rightarrow> u64) \<Rightarrow> u64 option \<Rightarrow> addr_range list \<Rightarrow>
   (u64 \<Rightarrow> raw_registers \<Rightarrow> (u64 \<Rightarrow> u64 option) \<Rightarrow> 's) \<Rightarrow> 's frame_iterator \<Rightarrow>
   raw_registers \<Rightarrow> u8 list \<Rightarrow> unwind_outcome" where
  "unwind_bytes arch strip pac_mask ranges iter_frames nxt regs stack_bytes =
     (case normalize_code_address arch strip pac_mask ranges (rr_ip regs) of
        None \<Rightarrow> unwind_outcome_default
                  \<lparr>uo_error := Some (Unresolved_Ip (rr_ip regs)), uo_fatal := (arch = Aarch64)\<rparr>
      | Some ip \<Rightarrow>
          unwind_loop default_max_frames arch ranges nxt
            (iter_frames ip regs (read_stack (rr_sp regs) stack_bytes)) unwind_outcome_default)"

definition unwind ::
  "arch \<Rightarrow> (u64 \<Rightarrow> u64) \<Rightarrow> u64 option \<Rightarrow> addr_range list \<Rightarrow>
   (u64 \<Rightarrow> raw_registers \<Rightarrow> (u64 \<Rightarrow> u64 option) \<Rightarrow> 's) \<Rightarrow> 's frame_iterator \<Rightarrow>
   stack_snapshot \<Rightarrow> unwind_outcome" where
  "unwind arch strip pac_mask ranges iter_frames nxt snapshot =
     unwind_bytes arch strip pac_mask ranges iter_frames nxt (ss_registers snapshot) (ss_bytes snapshot)"

section \<open>Modules\<close>

record segment =
  sg_file_offset :: u64
  sg_address :: u64

definition page_mask :: u64 where
  "page_mask = NOT 0xfff"

definition elf_base_avma :: "segment list \<Rightarrow> u64 \<Rightarrow> map_entry list \<Rightarrow> u64 option" where
  "elf_base_avma segments relative_base mappings =
     (case [(m, s). m \<leftarrow> mappings, s \<leftarrow> segments,
              sg_file_offset s AND page_mask = me_offset m AND page_mask] of
        [] \<Rightarrow> None
      | (m, s) # _ \<Rightarrow>
          (case checked_sub (me_start m) (sg_address s AND page_mask) of
             None \<Rightarrow> None
           | Some load_bias \<Rightarrow> checked_add load_bias relative_base))"

record unwind_module =
  um_path :: string
  um_start :: u64
  um_end :: u64
  um_base_avma :: u64

definition list_min :: "u64 \<Rightarrow> u64 list \<Rightarrow> u64" where
  "list_min d xs = (if xs = [] then d else fold min (tl xs) (hd xs))"

definition list_max :: "u64 \<Rightarrow> u64 list \<Rightarrow> u64" where
  "list_max d xs = (if xs = [] then d else fold max (tl xs) (hd xs))"

text \<open>\<open>load path mappings\<close> reads and parses the object: its segments and relative base.\<close>

definition unwind_module_of ::
  "(string \<Rightarrow> map_entry list \<Rightarrow> (segment list \<times> u64) option) \<Rightarrow>
   string \<times> map_entry list \<Rightarrow> unwind_module option" where
  "unwind_module_of load entry =
     (let (path, mappings) = entry;
          start = list_min 0 (map me_start mappings);
          stop = list_max 0 (map me_end mappings)
      in if start \<ge> stop then None
         else case load path mappings of
                None \<Rightarrow> None
              | Some (segments, relative_base) \<Rightarrow>
                  Some \<lparr>um_path = path, um_start = start, um_end = stop,
                        um_base_avma =
                          (case elf_base_avma segments relative_base mappings of
                             Some b \<Rightarrow> b
                           | None \<Rightarrow> list_min start
                               (List.map_filter (\<lambda>m. checked_sub (me_start m) (me_offset m)) mappings))\<rparr>)"

definition unwinder_from_maps ::
  "(string \<Rightarrow> map_entry list \<Rightarrow> (segment list \<times> u64) option) \<Rightarrow> map_entry list \<Rightarrow>
   unwind_module list \<times> addr_range list" where
  "unwinder_from_maps load maps =
     (List.map_filter (unwind_module_of load) (group_by_path maps), from_maps maps)"

definition require_native_architecture :: "string \<Rightarrow> string \<Rightarrow> string + unit" where
  "require_native_architecture native architecture =
     (if architecture \<noteq> native
      then Inl (''target architecture '' @ architecture @
                '' does not match profiler architecture '' @ native)
      else Inr ())"

section \<open>Laws\<close>

definition outcome_ok :: "arch \<Rightarrow> addr_range list \<Rightarrow> unwind_outcome \<Rightarrow> bool" where
  "outcome_ok arch ranges out \<longleftrightarrow>
     (\<forall>a \<in> set (uo_frames out). contains ranges a) \<and>
     length (uo_frames out) \<le> default_max_frames \<and>
     (uo_truncated out \<longleftrightarrow> length (uo_frames out) = default_max_frames) \<and>
     \<not> (uo_truncated out \<and> uo_error out \<noteq> None) \<and>
     (uo_fatal out \<longleftrightarrow> arch = Aarch64 \<and>
        (\<exists>a. uo_error out = Some (Unresolved_Ip a) \<or> uo_error out = Some (Outside_Executable a)))"

definition outcome_open :: "addr_range list \<Rightarrow> unwind_outcome \<Rightarrow> bool" where
  "outcome_open ranges out \<longleftrightarrow>
     (\<forall>a \<in> set (uo_frames out). contains ranges a) \<and>
     length (uo_frames out) < default_max_frames \<and>
     \<not> uo_truncated out \<and> uo_error out = None \<and> \<not> uo_fatal out"

lemma outcome_open_default: "outcome_open ranges unwind_outcome_default"
  by (simp add: outcome_open_def unwind_outcome_default_def default_max_frames_def)

lemma unwind_round_open:
  assumes "outcome_open ranges out" "unwind_round arch ranges item out = (out', go)"
  shows "if go then outcome_open ranges out' \<and> length (uo_frames out') = Suc (length (uo_frames out))
    else outcome_ok arch ranges out'"
  using assms
  by (cases item; cases arch)
    (auto simp: unwind_round_def outcome_open_def outcome_ok_def Let_def
      split: option.splits if_splits)

lemma unwind_loop_ok:
  assumes "outcome_open ranges out" "default_max_frames \<le> fuel + length (uo_frames out)"
  shows "outcome_ok arch ranges (unwind_loop fuel arch ranges nxt s out)"
  using assms
proof (induction fuel arbitrary: s out)
  case 0
  then show ?case by (simp add: outcome_open_def)
next
  case (Suc fuel)
  obtain item s' where n: "nxt s = (item, s')" by (cases "nxt s")
  obtain out' go where r: "unwind_round arch ranges item out = (out', go)"
    by (cases "unwind_round arch ranges item out")
  from unwind_round_open [OF Suc.prems(1) r] Suc.prems(2) Suc.IH [of out' s'] show ?case
    by (cases go) (simp_all add: n r)
qed

lemma unwind_loop_fuel:
  assumes "outcome_open ranges out" "default_max_frames \<le> fuel + length (uo_frames out)"
  shows "unwind_loop (fuel + k) arch ranges nxt s out = unwind_loop fuel arch ranges nxt s out"
  using assms
proof (induction fuel arbitrary: s out)
  case 0
  then show ?case by (simp add: outcome_open_def)
next
  case (Suc fuel)
  obtain item s' where n: "nxt s = (item, s')" by (cases "nxt s")
  obtain out' go where r: "unwind_round arch ranges item out = (out', go)"
    by (cases "unwind_round arch ranges item out")
  from unwind_round_open [OF Suc.prems(1) r] Suc.prems(2) Suc.IH [of out' s'] show ?case
    by (cases go) (simp_all add: n r)
qed

lemma resolve_candidates_sound:
  assumes "\<And>a. resolved = Some a \<Longrightarrow> contains ranges a" "resolve_candidates ranges resolved cs = Some a"
  shows "contains ranges a"
  using assms
  by (induction cs arbitrary: resolved)
    (auto simp: try_candidate_def split: if_splits option.splits)

text \<open>An aarch64 address resolves exactly if the candidates that are executable all agree.\<close>

lemma resolve_candidates_Some:
  "resolve_candidates ranges (Some a) cs = (if \<forall>c \<in> set cs. contains ranges c \<longrightarrow> c = a then Some a else None)"
  by (induction cs) (auto simp: try_candidate_def)

lemma resolve_candidates_None:
  "resolve_candidates ranges None cs = Some a \<longleftrightarrow>
     a \<in> set cs \<and> contains ranges a \<and> (\<forall>c \<in> set cs. contains ranges c \<longrightarrow> c = a)"
  by (induction cs) (auto simp: try_candidate_def resolve_candidates_Some)

lemma read_stack_inside:
  assumes "off + 8 \<le> length bytes" "unat start + length bytes < 2 ^ 64"
  shows "read_stack start bytes (start + word_of_nat off) =
    Some (word_of_bytes (take 8 (drop off bytes)))"
proof -
  have len: "unat (word_of_nat (length bytes) :: u64) = length bytes"
    using assms(2) by (intro unat_word_of_nat) simp
  have off: "unat (word_of_nat off :: u64) = off"
    using assms by (intro unat_word_of_nat) simp
  have addr: "unat (start + word_of_nat off) = unat start + off"
    using assms off by (subst unat_add_no_overflow) simp_all
  have e: "unat (start + word_of_nat off + 8) = unat start + off + 8"
    using assms addr by (subst unat_add_no_overflow) simp_all
  have c: "checked_add (start + word_of_nat off) 8 = Some (start + word_of_nat off + 8)"
    using assms addr by (simp add: checked_add_def)
  have stop: "unat (sat_add start (word_of_nat (length bytes))) = unat start + length bytes"
    using assms(2) by (simp add: unat_sat_add len)
  have "start \<le> start + word_of_nat off"
       "start + word_of_nat off + 8 \<le> sat_add start (word_of_nat (length bytes))"
    using assms(1) addr e stop by (simp_all add: word_le_nat_alt)
  then show ?thesis
    using assms(1) c by (auto simp: read_stack_def slice_def off)
qed

lemma read_stack_outside:
  assumes "unat start + length bytes < 2 ^ 64" "unat addr < unat start \<or> unat start + length bytes < unat addr + 8"
  shows "read_stack start bytes addr = None"
proof (cases "checked_add addr 8")
  case None
  then show ?thesis by (simp add: read_stack_def)
next
  case (Some e)
  then have e: "unat e = unat addr + 8"
    by (auto simp: checked_add_Some unat_add_no_overflow)
  have len: "unat (word_of_nat (length bytes) :: u64) = length bytes"
    using assms(1) by (intro unat_word_of_nat) simp
  then have stop: "unat (sat_add start (word_of_nat (length bytes))) = unat start + length bytes"
    using assms(1) by (simp add: unat_sat_add)
  have "addr < start \<or> e > sat_add start (word_of_nat (length bytes))"
    using assms(2) e stop by (simp add: word_less_nat_alt)
  then show ?thesis using Some by (simp add: read_stack_def)
qed

section \<open>Properties\<close>

text \<open>Unwinding is total and bounded for every frame iterator, even one that never ends: at most
  127 frames, all inside executable ranges; it reports truncation exactly at 127 frames and never
  with an error; it is fatal exactly on aarch64 when an address does not resolve to executable
  memory.\<close>

theorem unwind_bytes_bounded:
  "outcome_ok arch ranges (unwind_bytes arch strip pac_mask ranges iter_frames nxt regs stack_bytes)"
proof (cases "normalize_code_address arch strip pac_mask ranges (rr_ip regs)")
  case None
  then show ?thesis
    by (simp add: unwind_bytes_def outcome_ok_def unwind_outcome_default_def default_max_frames_def)
next
  case (Some ip)
  have "outcome_ok arch ranges (unwind_loop default_max_frames arch ranges nxt s unwind_outcome_default)" for s
    by (rule unwind_loop_ok [OF outcome_open_default]) (simp add: unwind_outcome_default_def)
  with Some show ?thesis by (simp add: unwind_bytes_def)
qed

text \<open>Reading the captured stack is exact: while the capture does not run past the end of the
  address space, an address yields the eight little-endian bytes at its offset if all eight were
  captured, and fails otherwise; it never reads outside the capture.\<close>

theorem read_stack_exact:
  assumes "unat start + length bytes < 2 ^ 64"
  shows "read_stack start bytes addr =
    (if unat start \<le> unat addr \<and> unat addr + 8 \<le> unat start + length bytes
     then Some (word_of_bytes (take 8 (drop (unat addr - unat start) bytes)))
     else None)"
proof (cases "unat start \<le> unat addr \<and> unat addr + 8 \<le> unat start + length bytes")
  case True
  let ?off = "unat addr - unat start"
  have "word_of_nat (unat addr - unat start) = addr - start"
    using True by (metis unat_sub word_le_nat_alt word_of_nat_unat)
  then have "start + word_of_nat ?off = addr" by simp
  moreover have "?off + 8 \<le> length bytes" using True by linarith
  ultimately have "read_stack start bytes addr = Some (word_of_bytes (take 8 (drop ?off bytes)))"
    using read_stack_inside [of ?off bytes start] assms by simp
  with True show ?thesis by simp
next
  case False
  with read_stack_outside [OF assms, of addr] show ?thesis by auto
qed

theorem read_stack_exact_witness:
  "read_stack 4096 [1, 2, 0, 0, 0, 0, 0, 0, 9] 4096 = Some 513"
  by (subst read_stack_exact) (simp_all add: word_of_bytes_def)

end
