(* ===== verification/Perf_Sample.thy ===== *)
theory Perf_Sample
  imports Unwind Complex_Main "HOL-Library.Monad_Syntax"
begin

text \<open>
  The sample half of \<open>src/src/platform/linux/perf.rs\<close>: the sample types, the cursor over the bytes
  of a record, \<open>parse_sample\<close> for both sampling modes, the frame-pointer quality counters, and the
  batch with its pool of stack buffers.

  \<^item> The record and sample constants are those of the kernel's \<open>perf_event.h\<close>.
  \<^item> A cleared \<open>Vec<u8>\<close> of the pool is represented by its capacity, which is all that the code asks
    of it; a buffer that has been moved into a sample leaves capacity zero behind.
  \<^item> \<open>ratio\<close> is an exact rational. For counts below \<open>2 ^ 48\<close> comparing the rounded quotient with the
    rounded literal gives the same answer, because the quotient is then either at least the literal
    or smaller by more than two units in the last place.

  The laws: parsing inverts the kernel's encoding in both modes, and the counters count.
\<close>

section \<open>Samples and batches\<close>

datatype perf_sample_data =
  Frame_Pointer "u64 list"
| Dwarf stack_snapshot

record perf_sample =
  ps_pid :: u32
  ps_tid :: u32
  ps_time :: u64
  ps_period :: u64
  ps_data :: perf_sample_data

record perf_batch =
  pb_samples :: "perf_sample list"
  pb_lost_samples :: u64
  pb_malformed_records :: u64
  pb_stack_buffers :: "nat list"

definition stack_buffer_pool_capacity :: nat where
  "stack_buffer_pool_capacity = 256"

definition perf_batch_default :: perf_batch where
  "perf_batch_default =
     \<lparr>pb_samples = [], pb_lost_samples = 0, pb_malformed_records = 0, pb_stack_buffers = []\<rparr>"

definition recycle_stack_buffer :: "nat \<Rightarrow> perf_batch \<Rightarrow> perf_batch" where
  "recycle_stack_buffer capacity batch =
     (if length (pb_stack_buffers batch) < stack_buffer_pool_capacity
      then batch\<lparr>pb_stack_buffers := capacity # pb_stack_buffers batch\<rparr>
      else batch)"

definition reset_batch :: "perf_batch \<Rightarrow> perf_batch" where
  "reset_batch batch = batch\<lparr>pb_samples := [], pb_lost_samples := 0, pb_malformed_records := 0\<rparr>"

section \<open>The cursor\<close>

record cursor =
  cu_bytes :: "u8 list"
  cu_offset :: nat

definition new_cursor :: "u8 list \<Rightarrow> cursor" where
  "new_cursor bs = \<lparr>cu_bytes = bs, cu_offset = 0\<rparr>"

definition cursor_bytes :: "nat \<Rightarrow> cursor \<Rightarrow> (u8 list \<times> cursor) option" where
  "cursor_bytes n c =
     (case slice (cu_bytes c) (cu_offset c) (cu_offset c + n) of
        None \<Rightarrow> None
      | Some v \<Rightarrow> Some (v, c\<lparr>cu_offset := cu_offset c + n\<rparr>))"

definition cursor_u32 :: "cursor \<Rightarrow> (u32 \<times> cursor) option" where
  "cursor_u32 c = do { (bs, c) \<leftarrow> cursor_bytes 4 c; Some (word_of_bytes bs, c) }"

definition cursor_u64 :: "cursor \<Rightarrow> (u64 \<times> cursor) option" where
  "cursor_u64 c = do { (bs, c) \<leftarrow> cursor_bytes 8 c; Some (word_of_bytes bs, c) }"

definition read_u64 :: "u8 list \<Rightarrow> nat \<Rightarrow> u64 option" where
  "read_u64 bs offset = map_option word_of_bytes (slice bs offset (offset + 8))"

section \<open>Sampling modes\<close>

definition perf_context_max :: u64 where
  "perf_context_max = 0xfffffffffffff001"

definition native_register_mask :: "arch \<Rightarrow> u64" where
  "native_register_mask a =
     (case a of
        X86_64 \<Rightarrow> push_bit 6 1 OR push_bit 7 1 OR push_bit 8 1
      | Aarch64 \<Rightarrow> push_bit 29 1 OR push_bit 30 1 OR push_bit 31 1 OR push_bit 32 1)"

text \<open>\<open>None\<close> is the unreachable automatic mode.\<close>

definition sample_configuration :: "arch \<Rightarrow> unwind_mode \<Rightarrow> (u64 \<times> u64) option" where
  "sample_configuration a mode =
     (let common = 0x1 OR 0x2 OR 0x4 OR 0x100
      in case mode of
           Unwind_Fp \<Rightarrow> Some (common OR 0x20, 0)
         | Unwind_Dwarf \<Rightarrow> Some (common OR 0x1000 OR 0x2000, native_register_mask a)
         | Unwind_Auto \<Rightarrow> None)"

section \<open>Parsing a sample\<close>

fun read_callchain :: "nat \<Rightarrow> u64 list \<Rightarrow> cursor \<Rightarrow> (u64 list \<times> cursor) option" where
  "read_callchain 0 fs c = Some (fs, c)"
| "read_callchain (Suc n) fs c = do {
     (a, c) \<leftarrow> cursor_u64 c;
     read_callchain n (if a < perf_context_max then fs @ [a] else fs) c }"

record reg_slots =
  rs_ip :: u64
  rs_sp :: "u64 option"
  rs_fp :: "u64 option"
  rs_lr :: "u64 option"

fun store_register :: "arch \<Rightarrow> nat \<Rightarrow> u64 \<Rightarrow> reg_slots \<Rightarrow> reg_slots" where
  "store_register X86_64 b v r =
     (if b = 6 then r\<lparr>rs_fp := Some v\<rparr> else if b = 7 then r\<lparr>rs_sp := Some v\<rparr>
      else if b = 8 then r\<lparr>rs_ip := v\<rparr> else r)"
| "store_register Aarch64 b v r =
     (if b = 29 then r\<lparr>rs_fp := Some v\<rparr> else if b = 30 then r\<lparr>rs_lr := Some v\<rparr>
      else if b = 31 then r\<lparr>rs_sp := Some v\<rparr> else if b = 32 then r\<lparr>rs_ip := v\<rparr> else r)"

fun read_registers :: "arch \<Rightarrow> u64 \<Rightarrow> nat list \<Rightarrow> reg_slots \<Rightarrow> cursor \<Rightarrow> (reg_slots \<times> cursor) option" where
  "read_registers a mask' [] r c = Some (r, c)"
| "read_registers a mask' (b # bs) r c =
     (if mask' AND push_bit b 1 = 0 then read_registers a mask' bs r c
      else do { (v, c) \<leftarrow> cursor_u64 c; read_registers a mask' bs (store_register a b v r) c })"

definition decode_registers :: "arch \<Rightarrow> cursor \<Rightarrow> u64 \<Rightarrow> u64 \<Rightarrow> (raw_registers \<times> cursor) option" where
  "decode_registers a c ip register_mask = do {
     (r, c) \<leftarrow> read_registers a register_mask [0..<64]
       \<lparr>rs_ip = ip, rs_sp = None, rs_fp = None, rs_lr = None\<rparr> c;
     sp \<leftarrow> rs_sp r;
     fp \<leftarrow> rs_fp r;
     lr \<leftarrow> (case a of X86_64 \<Rightarrow> Some 0 | Aarch64 \<Rightarrow> rs_lr r);
     Some (\<lparr>rr_ip = rs_ip r, rr_sp = sp, rr_fp = fp, rr_lr = lr\<rparr>, c) }"

definition parse_fp_data :: "u64 \<Rightarrow> cursor \<Rightarrow> perf_sample_data option" where
  "parse_fp_data ip c = do {
     (n, c) \<leftarrow> cursor_u64 c;
     (fs, c) \<leftarrow> read_callchain (min (unat n) default_max_frames) [] c;
     let fs = (if fs \<noteq> [] \<and> hd fs = ip then fs else ip # fs);
     Some (Frame_Pointer (take default_max_frames fs)) }"

definition parse_dwarf_data :: "arch \<Rightarrow> u64 \<Rightarrow> u64 \<Rightarrow> cursor \<Rightarrow> perf_sample_data option" where
  "parse_dwarf_data a ip register_mask c = do {
     (abi, c) \<leftarrow> cursor_u64 c;
     if abi = 0 then None else do {
       (regs, c) \<leftarrow> decode_registers a c ip register_mask;
       (requested, c) \<leftarrow> cursor_u64 c;
       (stack, c) \<leftarrow> cursor_bytes (unat requested) c;
       (dynamic, c) \<leftarrow> cursor_u64 c;
       Some (Dwarf \<lparr>ss_registers = regs,
                    ss_bytes = take (min (unat dynamic) (length stack)) stack\<rparr>) } }"

definition parse_sample :: "arch \<Rightarrow> u8 list \<Rightarrow> unwind_mode \<Rightarrow> u64 \<Rightarrow> perf_sample option" where
  "parse_sample a bs mode register_mask = do {
     (ip, c) \<leftarrow> cursor_u64 (new_cursor bs);
     (pid, c) \<leftarrow> cursor_u32 c;
     (tid, c) \<leftarrow> cursor_u32 c;
     (time, c) \<leftarrow> cursor_u64 c;
     (period, c) \<leftarrow> cursor_u64 c;
     data \<leftarrow> (case mode of
        Unwind_Fp \<Rightarrow> parse_fp_data ip c
      | Unwind_Dwarf \<Rightarrow> parse_dwarf_data a ip register_mask c
      | Unwind_Auto \<Rightarrow> None);
     Some \<lparr>ps_pid = pid, ps_tid = tid, ps_time = time, ps_period = period, ps_data = data\<rparr> }"

text \<open>The capacity of the buffer that the caller passed in, after the call.\<close>

definition buffer_after :: "unwind_mode \<Rightarrow> perf_sample option \<Rightarrow> nat \<Rightarrow> nat" where
  "buffer_after mode result capacity =
     (if mode = Unwind_Dwarf \<and> result \<noteq> None then 0 else capacity)"

section \<open>Frame-pointer quality\<close>

record fp_quality =
  fq_samples :: u64
  fq_usable_samples :: u64
  fq_valid_addresses :: u64
  fq_total_addresses :: u64
  fq_deep_samples :: u64
  fq_cyclic_samples :: u64
  fq_seen_addresses :: "u64 list"

definition fp_quality_default :: fp_quality where
  "fp_quality_default =
     \<lparr>fq_samples = 0, fq_usable_samples = 0, fq_valid_addresses = 0, fq_total_addresses = 0,
      fq_deep_samples = 0, fq_cyclic_samples = 0, fq_seen_addresses = []\<rparr>"

definition fq_observe :: "u64 list \<Rightarrow> addr_range list \<Rightarrow> fp_quality \<Rightarrow> fp_quality" where
  "fq_observe fs ranges q =
     (let valid = length (filter (contains ranges) fs);
          (cyclic, seen) = has_address_cycle fs (fq_seen_addresses q)
      in q\<lparr>fq_samples := fq_samples q + 1,
           fq_total_addresses := fq_total_addresses q + word_of_nat (length fs),
           fq_valid_addresses := fq_valid_addresses q + word_of_nat valid,
           fq_deep_samples := fq_deep_samples q + (if length fs \<ge> 3 then 1 else 0),
           fq_cyclic_samples := fq_cyclic_samples q + (if cyclic then 1 else 0),
           fq_usable_samples := fq_usable_samples q +
             (if fs \<noteq> [] \<and> valid = length fs \<and> \<not> cyclic then 1 else 0),
           fq_seen_addresses := seen\<rparr>)"

definition ratio :: "u64 \<Rightarrow> u64 \<Rightarrow> rat" where
  "ratio n d = (if d = 0 then 0 else rat_of_nat (unat n) / rat_of_nat (unat d))"

definition calibration_passes :: "fp_quality \<Rightarrow> bool" where
  "calibration_passes q \<longleftrightarrow>
     fq_samples q \<ge> 64 \<and>
     ratio (fq_valid_addresses q) (fq_total_addresses q) \<ge> 9 / 10 \<and>
     ratio (fq_deep_samples q) (fq_samples q) \<ge> 7 / 10 \<and>
     fq_cyclic_samples q = 0"

datatype fp_rejection =
  Too_Few_Samples u64
| Not_Executable_Percent rat
| Too_Shallow_Percent rat
| Cyclic_Samples u64
| Calibration_Failed

definition rejection_reason :: "fp_quality \<Rightarrow> fp_rejection" where
  "rejection_reason q =
     (if fq_samples q < 64 then Too_Few_Samples (fq_samples q)
      else if ratio (fq_valid_addresses q) (fq_total_addresses q) < 9 / 10
      then Not_Executable_Percent (ratio (fq_valid_addresses q) (fq_total_addresses q) * 100)
      else if ratio (fq_deep_samples q) (fq_samples q) < 7 / 10
      then Too_Shallow_Percent (ratio (fq_deep_samples q) (fq_samples q) * 100)
      else if fq_cyclic_samples q \<noteq> 0 then Cyclic_Samples (fq_cyclic_samples q)
      else Calibration_Failed)"

text \<open>A reason other than the last is given exactly if the calibration fails.\<close>

lemma rejection_reason_complete: "rejection_reason q = Calibration_Failed \<longleftrightarrow> calibration_passes q"
  by (auto simp: rejection_reason_def calibration_passes_def not_less)

section \<open>Laws of the cursor\<close>

definition cursor_at :: "u8 list \<Rightarrow> u8 list \<Rightarrow> cursor" where
  "cursor_at pre rest = \<lparr>cu_bytes = pre @ rest, cu_offset = length pre\<rparr>"

lemma new_cursor_at: "new_cursor bs = cursor_at [] bs"
  by (simp add: new_cursor_def cursor_at_def)

lemma cursor_bytes_at:
  "length bs = n \<Longrightarrow> cursor_bytes n (cursor_at pre (bs @ rest)) = Some (bs, cursor_at (pre @ bs) rest)"
  by (auto simp: cursor_bytes_def cursor_at_def slice_append_mid)

lemma cursor_u64_at [simp]:
  "cursor_u64 (cursor_at pre (bytes_of_word (w :: u64) @ rest)) =
     Some (w, cursor_at (pre @ bytes_of_word w) rest)"
  by (simp add: cursor_u64_def cursor_bytes_at word_of_bytes_of_word_u64)

lemma cursor_u32_at [simp]:
  "cursor_u32 (cursor_at pre (bytes_of_word (w :: u32) @ rest)) =
     Some (w, cursor_at (pre @ bytes_of_word w) rest)"
  by (simp add: cursor_u32_def cursor_bytes_at word_of_bytes_of_word_u32)

definition enc_words :: "u64 list \<Rightarrow> u8 list" where
  "enc_words ws = concat (map bytes_of_word ws)"

lemma enc_words_simps [simp]:
  "enc_words [] = []" "enc_words (w # ws) = bytes_of_word w @ enc_words ws"
  by (simp_all add: enc_words_def)

lemma read_callchain_at:
  "n \<le> length chain \<Longrightarrow>
   read_callchain n fs (cursor_at pre (enc_words chain @ rest)) =
     Some (fs @ filter (\<lambda>a. a < perf_context_max) (take n chain),
           cursor_at (pre @ enc_words (take n chain)) (enc_words (drop n chain) @ rest))"
proof (induction n arbitrary: chain fs pre)
  case 0
  then show ?case by simp
next
  case (Suc n)
  then obtain a as where chain: "chain = a # as" by (cases chain) auto
  with Suc show ?case by simp
qed

section \<open>Samples as the kernel writes them\<close>

definition enc_header :: "u64 \<Rightarrow> u32 \<Rightarrow> u32 \<Rightarrow> u64 \<Rightarrow> u64 \<Rightarrow> u8 list" where
  "enc_header ip pid tid time period =
     bytes_of_word ip @ bytes_of_word pid @ bytes_of_word tid @ bytes_of_word time @
     bytes_of_word period"

definition enc_fp_sample :: "u64 \<Rightarrow> u32 \<Rightarrow> u32 \<Rightarrow> u64 \<Rightarrow> u64 \<Rightarrow> u64 list \<Rightarrow> u8 list" where
  "enc_fp_sample ip pid tid time period chain =
     enc_header ip pid tid time period @
     bytes_of_word (word_of_nat (length chain) :: u64) @ enc_words chain"

text \<open>The registers of the native mask, in ascending bit order.\<close>

definition enc_registers :: "arch \<Rightarrow> raw_registers \<Rightarrow> u8 list" where
  "enc_registers a r =
     (case a of
        X86_64 \<Rightarrow> enc_words [rr_fp r, rr_sp r, rr_ip r]
      | Aarch64 \<Rightarrow> enc_words [rr_fp r, rr_lr r, rr_sp r, rr_ip r])"

definition enc_dwarf_sample ::
  "arch \<Rightarrow> u64 \<Rightarrow> u64 \<Rightarrow> u32 \<Rightarrow> u32 \<Rightarrow> u64 \<Rightarrow> u64 \<Rightarrow> raw_registers \<Rightarrow> u8 list \<Rightarrow> u64 \<Rightarrow> u8 list" where
  "enc_dwarf_sample a abi ip pid tid time period regs stack dynamic =
     enc_header ip pid tid time period @ bytes_of_word abi @ enc_registers a regs @
     bytes_of_word (word_of_nat (length stack) :: u64) @ stack @ bytes_of_word dynamic"

definition fp_frames :: "u64 \<Rightarrow> u64 list \<Rightarrow> u64 list" where
  "fp_frames ip chain =
     (let user = filter (\<lambda>a. a < perf_context_max) (take default_max_frames chain)
      in take default_max_frames (if user \<noteq> [] \<and> hd user = ip then user else ip # user))"

lemma read_registers_x86:
  "read_registers X86_64 (native_register_mask X86_64) [0..<64] r
     (cursor_at pre (bytes_of_word fp @ bytes_of_word sp @ bytes_of_word ip @ rest)) =
   Some (r\<lparr>rs_fp := Some fp, rs_sp := Some sp, rs_ip := ip\<rparr>,
     cursor_at (pre @ bytes_of_word fp @ bytes_of_word sp @ bytes_of_word ip) rest)"
  by (simp add: native_register_mask_def upt_rec)

lemma read_registers_aarch64:
  "read_registers Aarch64 (native_register_mask Aarch64) [0..<64] r
     (cursor_at pre (bytes_of_word fp @ bytes_of_word lr @ bytes_of_word sp @ bytes_of_word ip @ rest)) =
   Some (r\<lparr>rs_fp := Some fp, rs_lr := Some lr, rs_sp := Some sp, rs_ip := ip\<rparr>,
     cursor_at (pre @ bytes_of_word fp @ bytes_of_word lr @ bytes_of_word sp @ bytes_of_word ip) rest)"
  by (simp add: native_register_mask_def upt_rec)

lemma decode_registers_at:
  assumes "a = X86_64 \<Longrightarrow> rr_lr regs = 0"
  shows "\<exists>pre'. decode_registers a (cursor_at pre (enc_registers a regs @ rest)) ip (native_register_mask a) =
    Some (regs, cursor_at pre' rest)"
  using assms
  by (cases a)
    (auto simp: decode_registers_def enc_registers_def read_registers_x86 read_registers_aarch64)

lemma parse_fp_data_at:
  assumes "length chain < 2 ^ 64"
  shows "parse_fp_data ip (cursor_at pre
      (bytes_of_word (word_of_nat (length chain) :: u64) @ enc_words chain)) =
    Some (Frame_Pointer (fp_frames ip chain))"
proof -
  have len: "unat (word_of_nat (length chain) :: u64) = length chain"
    using assms by (intro unat_word_of_nat) simp
  let ?n = "min (length chain) default_max_frames"
  have take: "take ?n chain = take default_max_frames chain"
    by (simp add: min_def)
  have "read_callchain ?n [] (cursor_at p (enc_words chain @ [])) =
      Some (filter (\<lambda>a. a < perf_context_max) (take ?n chain),
        cursor_at (p @ enc_words (take ?n chain)) (enc_words (drop ?n chain) @ []))" for p
    by (subst read_callchain_at) simp_all
  then show ?thesis
    unfolding take by (simp add: parse_fp_data_def len fp_frames_def Let_def)
qed

lemma parse_dwarf_data_at:
  fixes abi dynamic :: u64
  assumes "abi \<noteq> 0" "length stack < 2 ^ 64" "a = X86_64 \<Longrightarrow> rr_lr regs = 0"
  shows "parse_dwarf_data a ip (native_register_mask a) (cursor_at pre
      (bytes_of_word abi @ enc_registers a regs @
       bytes_of_word (word_of_nat (length stack) :: u64) @ stack @ bytes_of_word dynamic)) =
    Some (Dwarf \<lparr>ss_registers = regs, ss_bytes = take (unat dynamic) stack\<rparr>)"
proof -
  have len: "unat (word_of_nat (length stack) :: u64) = length stack"
    using assms(2) by (intro unat_word_of_nat) simp
  obtain pre' where regs: "decode_registers a (cursor_at (pre @ bytes_of_word abi)
      (enc_registers a regs @ bytes_of_word (word_of_nat (length stack) :: u64) @ stack @
       bytes_of_word dynamic)) ip (native_register_mask a) =
      Some (regs, cursor_at pre' (bytes_of_word (word_of_nat (length stack) :: u64) @ stack @
       bytes_of_word dynamic))"
    using decode_registers_at [OF assms(3)] by blast
  have last: "cursor_u64 (cursor_at q (bytes_of_word dynamic)) =
      Some (dynamic, cursor_at (q @ bytes_of_word dynamic) [])" for q
    using cursor_u64_at [of q dynamic "[]"] by simp
  show ?thesis
    using assms(1) by (simp add: parse_dwarf_data_def regs len cursor_bytes_at last min_def)
qed

section \<open>Quality counters\<close>

definition fq_run :: "addr_range list \<Rightarrow> u64 list list \<Rightarrow> fp_quality" where
  "fq_run ranges samples = foldl (\<lambda>q fs. fq_observe fs ranges q) fp_quality_default samples"

definition usable :: "addr_range list \<Rightarrow> u64 list \<Rightarrow> bool" where
  "usable ranges fs \<longleftrightarrow> fs \<noteq> [] \<and> (\<forall>a \<in> set fs. contains ranges a) \<and> distinct fs"

lemma length_filter_all: "length (filter P xs) = length xs \<longleftrightarrow> (\<forall>x \<in> set xs. P x)"
  using length_filter_less [of _ xs P] by (auto simp: filter_id_conv) (metis less_irrefl)

lemma fq_observe_counts:
  "fq_samples (fq_observe fs ranges q) = fq_samples q + 1"
  "fq_valid_addresses (fq_observe fs ranges q) =
     fq_valid_addresses q + word_of_nat (length (filter (contains ranges) fs))"
  "fq_total_addresses (fq_observe fs ranges q) = fq_total_addresses q + word_of_nat (length fs)"
  "fq_deep_samples (fq_observe fs ranges q) = fq_deep_samples q + (if length fs \<ge> 3 then 1 else 0)"
  "fq_cyclic_samples (fq_observe fs ranges q) =
     fq_cyclic_samples q + (if distinct fs then 0 else 1)"
  "fq_usable_samples (fq_observe fs ranges q) =
     fq_usable_samples q + (if usable ranges fs then 1 else 0)"
  using has_address_cycle_iff [of fs "fq_seen_addresses q"]
  by (auto simp: fq_observe_def Let_def usable_def length_filter_all split: prod.split)

lemma fq_run_counts:
  "fq_samples (fq_run ranges ss) = word_of_nat (length ss)"
  "fq_valid_addresses (fq_run ranges ss) = word_of_nat (length (filter (contains ranges) (concat ss)))"
  "fq_total_addresses (fq_run ranges ss) = word_of_nat (length (concat ss))"
  "fq_deep_samples (fq_run ranges ss) = word_of_nat (length (filter (\<lambda>fs. length fs \<ge> 3) ss))"
  "fq_cyclic_samples (fq_run ranges ss) = word_of_nat (length (filter (\<lambda>fs. \<not> distinct fs) ss))"
  "fq_usable_samples (fq_run ranges ss) = word_of_nat (length (filter (usable ranges) ss))"
  by (induction ss rule: rev_induct)
    (simp_all add: fq_run_def fp_quality_default_def fq_observe_counts)

section \<open>Properties\<close>

text \<open>Parsing inverts the kernel's frame-pointer sample: the identifiers, time and period come
  back, and the frames are the user addresses among the first 127 callchain entries, with the
  context markers removed, the instruction pointer first and at most 127 of them.\<close>

theorem parse_sample_fp_roundtrip:
  assumes "length chain < 2 ^ 64"
  shows "parse_sample a (enc_fp_sample ip pid tid time period chain) Unwind_Fp register_mask =
    Some \<lparr>ps_pid = pid, ps_tid = tid, ps_time = time, ps_period = period,
          ps_data = Frame_Pointer (fp_frames ip chain)\<rparr>"
  by (simp add: parse_sample_def enc_fp_sample_def enc_header_def new_cursor_at
      parse_fp_data_at [OF assms])

theorem parse_sample_fp_roundtrip_witness:
  "parse_sample X86_64 (enc_fp_sample 7 1 2 3 4 [0xfffffffffffffe00, 7, 8]) Unwind_Fp 0 =
    Some \<lparr>ps_pid = 1, ps_tid = 2, ps_time = 3, ps_period = 4, ps_data = Frame_Pointer [7, 8]\<rparr>"
  by (subst parse_sample_fp_roundtrip)
    (simp_all add: fp_frames_def default_max_frames_def perf_context_max_def)

text \<open>C9: Parsing inverts the kernel's register and stack sample on both architectures: the registers
  come back in their slots, and the stack bytes are the dumped ones cut to the dynamic size, never
  more than were dumped.\<close>

theorem parse_sample_dwarf_roundtrip:
  assumes "abi \<noteq> 0" "length stack < 2 ^ 64" "a = X86_64 \<Longrightarrow> rr_lr regs = 0"
  shows "parse_sample a (enc_dwarf_sample a abi ip pid tid time period regs stack dynamic)
      Unwind_Dwarf (native_register_mask a) =
    Some \<lparr>ps_pid = pid, ps_tid = tid, ps_time = time, ps_period = period,
          ps_data = Dwarf \<lparr>ss_registers = regs, ss_bytes = take (unat dynamic) stack\<rparr>\<rparr>"
  by (simp add: parse_sample_def enc_dwarf_sample_def enc_header_def new_cursor_at
      parse_dwarf_data_at [OF assms])

theorem parse_sample_dwarf_roundtrip_witness:
  "parse_sample Aarch64 (enc_dwarf_sample Aarch64 2 9 1 2 3 4
      \<lparr>rr_ip = 10, rr_sp = 20, rr_fp = 30, rr_lr = 40\<rparr> [5, 6, 7] 2) Unwind_Dwarf
      (native_register_mask Aarch64) =
    Some \<lparr>ps_pid = 1, ps_tid = 2, ps_time = 3, ps_period = 4,
          ps_data = Dwarf \<lparr>ss_registers = \<lparr>rr_ip = 10, rr_sp = 20, rr_fp = 30, rr_lr = 40\<rparr>,
                           ss_bytes = [5, 6]\<rparr>\<rparr>"
  by (subst parse_sample_dwarf_roundtrip) simp_all

end
