(* ===== verification/Event_Sorter.thy ===== *)
theory Event_Sorter
  imports Perf_Sample "HOL-Library.Multiset"
begin

text \<open>
  \<open>src/src/platform/linux/event.rs\<close>: the buffer that puts the samples of all threads in time order.

  \<open>pending\<close> is a \<open>BTreeMap\<close> from timestamps to queues, kept as an ordered table. The loops of
  \<open>drain_before\<close>, of the forced flush in \<open>push\<close> and of \<open>flush\<close> are recursive functions that
  terminate because every \<open>pop_oldest\<close> shrinks \<open>sorter_size\<close>. \<open>ready\<close> is the output vector, passed
  through.

  The laws: \<open>sorter_contents\<close> is the buffer as one list in time order; a push inserts after the
  samples of its time or earlier, a pop takes the head. Nothing is lost or duplicated, the buffer
  stays within its bound, and samples that are no later than the reorder window come out exactly
  as a stable sort by time.
\<close>

record event_sorter =
  es_pending :: "(u64, perf_sample list) table"
  es_pending_len :: nat
  es_max_pending :: nat
  es_reorder_nanos :: u64
  es_max_seen :: u64
  es_peak_pending :: nat
  es_forced_flushes :: u64

definition new_sorter :: "u64 \<Rightarrow> nat \<Rightarrow> event_sorter" where
  "new_sorter reorder_nanos max_pending =
     \<lparr>es_pending = [], es_pending_len = 0, es_max_pending = max_pending,
      es_reorder_nanos = reorder_nanos, es_max_seen = 0, es_peak_pending = 0,
      es_forced_flushes = 0\<rparr>"

definition pop_oldest :: "event_sorter \<Rightarrow> perf_sample option \<times> event_sorter" where
  "pop_oldest st =
     (case es_pending st of
        [] \<Rightarrow> (None, st)
      | (t, q) # rest \<Rightarrow>
          (case q of
             [] \<Rightarrow> (None, st\<lparr>es_pending := rest\<rparr>)
           | s # q' \<Rightarrow>
               (Some s, st\<lparr>es_pending := (if q' = [] then rest else (t, q') # rest),
                           es_pending_len := es_pending_len st - 1\<rparr>)))"

definition sorter_size :: "event_sorter \<Rightarrow> nat" where
  "sorter_size st = (\<Sum>(t, q) \<leftarrow> es_pending st. Suc (length q))"

lemma pop_oldest_size:
  "(r, st') = pop_oldest st \<Longrightarrow> es_pending st \<noteq> [] \<Longrightarrow> sorter_size st' < sorter_size st"
  by (auto simp: pop_oldest_def sorter_size_def split: list.splits prod.splits if_splits)

lemma pop_oldest_Some_size:
  "(Some s, st') = pop_oldest st \<Longrightarrow> sorter_size st' < sorter_size st"
  by (rule pop_oldest_size) (auto simp: pop_oldest_def)

lemma sorter_size_forced [simp]: "sorter_size (st\<lparr>es_forced_flushes := n\<rparr>) = sorter_size st"
  by (simp add: sorter_size_def)

function drain_before ::
  "u64 \<Rightarrow> event_sorter \<Rightarrow> perf_sample list \<Rightarrow> event_sorter \<times> perf_sample list" where
  "drain_before watermark st ready =
     (case es_pending st of
        [] \<Rightarrow> (st, ready)
      | (t, _) # _ \<Rightarrow>
          if t > watermark then (st, ready)
          else (case pop_oldest st of
                  (Some s, st') \<Rightarrow> drain_before watermark st' (ready @ [s])
                | (None, st') \<Rightarrow> drain_before watermark st' ready))"
  by pat_completeness auto
termination
  by (relation "measure (\<lambda>(_, st, _). sorter_size st)") (auto dest: pop_oldest_size)

function force_oldest :: "event_sorter \<Rightarrow> perf_sample list \<Rightarrow> event_sorter \<times> perf_sample list" where
  "force_oldest st ready =
     (if es_pending_len st > es_max_pending st
      then (case pop_oldest st of
              (Some s, st') \<Rightarrow>
                force_oldest (st'\<lparr>es_forced_flushes := sat_add (es_forced_flushes st') 1\<rparr>) (ready @ [s])
            | (None, st') \<Rightarrow> (st', ready))
      else (st, ready))"
  by pat_completeness auto
termination
  by (relation "measure (\<lambda>(st, _). sorter_size st)")
    (auto dest: pop_oldest_Some_size)

function flush_sorter :: "event_sorter \<Rightarrow> perf_sample list \<Rightarrow> event_sorter \<times> perf_sample list" where
  "flush_sorter st ready =
     (case pop_oldest st of
        (Some s, st') \<Rightarrow> flush_sorter st' (ready @ [s])
      | (None, st') \<Rightarrow> (st', ready))"
  by pat_completeness auto
termination
  by (relation "measure (\<lambda>(st, _). sorter_size st)")
    (auto dest: pop_oldest_Some_size)

declare drain_before.simps [simp del]
declare force_oldest.simps [simp del]
declare flush_sorter.simps [simp del]

definition enqueue :: "perf_sample \<Rightarrow> (u64, perf_sample list) table \<Rightarrow> (u64, perf_sample list) table" where
  "enqueue s m =
     bt_put (ps_time s) ((case map_of m (ps_time s) of None \<Rightarrow> [] | Some q \<Rightarrow> q) @ [s]) m"

definition push_sample ::
  "perf_sample \<Rightarrow> event_sorter \<Rightarrow> perf_sample list \<Rightarrow> event_sorter \<times> perf_sample list" where
  "push_sample s st ready =
     (let len = es_pending_len st + 1;
          seen = max (es_max_seen st) (ps_time s);
          st1 = st\<lparr>es_max_seen := seen, es_pending := enqueue s (es_pending st),
                   es_pending_len := len, es_peak_pending := max (es_peak_pending st) len\<rparr>;
          (st2, ready2) = drain_before (sat_sub seen (es_reorder_nanos st)) st1 ready
      in force_oldest st2 ready2)"

definition take_stats :: "event_sorter \<Rightarrow> (nat \<times> u64) \<times> event_sorter" where
  "take_stats st =
     ((es_peak_pending st, es_forced_flushes st),
      st\<lparr>es_peak_pending := 0, es_forced_flushes := 0\<rparr>)"

section \<open>The buffer as a list in time order\<close>

definition sorter_contents :: "event_sorter \<Rightarrow> perf_sample list" where
  "sorter_contents st = concat (map snd (es_pending st))"

definition queues_ok :: "(u64, perf_sample list) table \<Rightarrow> bool" where
  "queues_ok m \<longleftrightarrow> bt_wf m \<and> (\<forall>(t, q) \<in> set m. q \<noteq> [] \<and> (\<forall>s \<in> set q. ps_time s = t))"

definition sorter_ok :: "event_sorter \<Rightarrow> bool" where
  "sorter_ok st \<longleftrightarrow> queues_ok (es_pending st) \<and> es_pending_len st = length (sorter_contents st)"

definition insert_late :: "perf_sample \<Rightarrow> perf_sample list \<Rightarrow> perf_sample list" where
  "insert_late s xs =
     takeWhile (\<lambda>x. ps_time x \<le> ps_time s) xs @ s # dropWhile (\<lambda>x. ps_time x \<le> ps_time s) xs"

lemma queues_ok_Cons [simp]:
  "queues_ok ((t, q) # m) \<longleftrightarrow>
     q \<noteq> [] \<and> (\<forall>s \<in> set q. ps_time s = t) \<and> (\<forall>p \<in> set m. t < fst p) \<and> queues_ok m"
  by (auto simp: queues_ok_def)

lemma queues_ok_Nil [simp]: "queues_ok []"
  by (simp add: queues_ok_def)

lemma queue_times:
  assumes "queues_ok m" "s \<in> set (concat (map snd m))"
  shows "ps_time s \<in> tab_keys m"
  using assms by (force simp: queues_ok_def)

lemma insert_late_append:
  assumes "\<forall>x \<in> set q. ps_time x \<le> ps_time s"
  shows "insert_late s (q @ ys) = q @ insert_late s ys"
  using assms by (simp add: insert_late_def takeWhile_append2 dropWhile_append2)

lemma insert_late_front:
  assumes "ys = [] \<or> ps_time s < ps_time (hd ys)"
  shows "insert_late s ys = s # ys"
  using assms by (cases ys) (auto simp: insert_late_def)

lemma concat_front:
  assumes "queues_ok m" "\<forall>p \<in> set m. k < fst p"
  shows "concat (map snd m) = [] \<or> k < ps_time (hd (concat (map snd m)))"
proof (cases m)
  case (Cons p m')
  obtain t x q where "p = (t, x # q)" using assms(1) Cons by (cases p; cases "snd p") auto
  with assms Cons show ?thesis by simp
qed simp

lemma enqueue_contents:
  "queues_ok m \<Longrightarrow> concat (map snd (enqueue s m)) = insert_late s (concat (map snd m))"
proof (induction m)
  case Nil
  then show ?case by (simp add: enqueue_def insert_late_def)
next
  case (Cons p m)
  obtain t q where p: "p = (t, q)" by (cases p)
  have q: "\<forall>x \<in> set q. ps_time x = t" "queues_ok m" "\<forall>r \<in> set m. t < fst r"
    using Cons.prems by (simp_all add: p)
  consider "ps_time s = t" | "ps_time s < t" | "t < ps_time s" by (rule linorder_cases)
  then show ?case
  proof cases
    case 1
    have "insert_late s (concat (map snd m)) = s # concat (map snd m)"
      using q(2,3) 1 by (intro insert_late_front concat_front) simp_all
    moreover have "insert_late s (q @ concat (map snd m)) = q @ insert_late s (concat (map snd m))"
      using q(1) 1 by (intro insert_late_append) simp
    ultimately show ?thesis using 1 by (simp add: p enqueue_def)
  next
    case 2
    then have "ps_time s \<noteq> t" "map_of m (ps_time s) = None"
      using q(3) by (auto simp: map_of_eq_None_keys dest: less_trans)
    moreover have "insert_late s (concat (map snd (p # m))) = s # concat (map snd (p # m))"
      using Cons.prems 2 q(3) by (intro insert_late_front concat_front) (auto simp: p intro: less_trans)
    ultimately show ?thesis using 2 by (simp add: p enqueue_def)
  next
    case 3
    then have "insert_late s (q @ concat (map snd m)) = q @ insert_late s (concat (map snd m))"
      using q(1) 3 by (intro insert_late_append) auto
    moreover have "ps_time s \<noteq> t" "\<not> ps_time s < t" using 3 by auto
    ultimately show ?thesis using Cons.IH [OF q(2)] by (simp add: p enqueue_def)
  qed
qed

lemma enqueue_ok: "queues_ok m \<Longrightarrow> queues_ok (enqueue s m)"
proof -
  assume ok: "queues_ok m"
  have wf: "bt_wf (enqueue s m)" using ok by (simp add: enqueue_def queues_ok_def)
  moreover have "q \<noteq> [] \<and> (\<forall>x \<in> set q. ps_time x = t)" if "(t, q) \<in> set (enqueue s m)" for t q
  proof -
    have "map_of (enqueue s m) t = Some q" using that wf by (simp add: bt_wf_tab_wf)
    with ok show ?thesis
      by (fastforce simp: enqueue_def queues_ok_def split: if_splits option.splits dest: map_of_SomeD)
  qed
  ultimately show ?thesis by (auto simp: queues_ok_def)
qed

lemma length_insert_late [simp]: "length (insert_late s xs) = Suc (length xs)"
proof -
  have "length xs = length (takeWhile (\<lambda>x. ps_time x \<le> ps_time s) xs @
      dropWhile (\<lambda>x. ps_time x \<le> ps_time s) xs)" by simp
  then show ?thesis unfolding length_append by (simp add: insert_late_def)
qed

lemma mset_insert_late [simp]: "mset (insert_late s xs) = add_mset s (mset xs)"
proof -
  have "mset xs = mset (takeWhile (\<lambda>x. ps_time x \<le> ps_time s) xs @
      dropWhile (\<lambda>x. ps_time x \<le> ps_time s) xs)" by simp
  then show ?thesis unfolding mset_append by (simp add: insert_late_def)
qed

lemma pop_oldest_ok:
  assumes "sorter_ok st"
  shows "case sorter_contents st of
      [] \<Rightarrow> pop_oldest st = (None, st)
    | s # xs \<Rightarrow> \<exists>st'. pop_oldest st = (Some s, st') \<and> sorter_ok st' \<and> sorter_contents st' = xs \<and>
        st' = st\<lparr>es_pending := es_pending st', es_pending_len := es_pending_len st - 1\<rparr>"
proof (cases "es_pending st")
  case Nil
  then show ?thesis by (simp add: sorter_contents_def pop_oldest_def)
next
  case (Cons p rest)
  obtain t q where p: "p = (t, q)" by (cases p)
  have ok: "queues_ok ((t, q) # rest)" using assms Cons by (simp add: sorter_ok_def p)
  then obtain s q' where q: "q = s # q'" by (cases q) auto
  show ?thesis
    using assms ok Cons
    by (auto simp: sorter_contents_def pop_oldest_def p q sorter_ok_def)
qed

section \<open>Each loop only moves samples from the buffer to the output\<close>

definition moves ::
  "event_sorter \<Rightarrow> perf_sample list \<Rightarrow> event_sorter \<Rightarrow> perf_sample list \<Rightarrow> bool" where
  "moves st ready st' ready' \<longleftrightarrow>
     sorter_ok st' \<and> ready' @ sorter_contents st' = ready @ sorter_contents st \<and>
     es_max_pending st' = es_max_pending st \<and> es_reorder_nanos st' = es_reorder_nanos st \<and>
     es_max_seen st' = es_max_seen st"

lemma moves_refl: "sorter_ok st \<Longrightarrow> moves st ready st ready"
  by (simp add: moves_def)

lemma moves_trans: "moves a r b s \<Longrightarrow> moves b s c t \<Longrightarrow> moves a r c t"
  by (simp add: moves_def)

lemma sorter_contents_frame [simp]:
  "sorter_contents (st\<lparr>es_forced_flushes := n\<rparr>) = sorter_contents st"
  "sorter_ok (st\<lparr>es_forced_flushes := n\<rparr>) = sorter_ok st"
  by (simp_all add: sorter_contents_def sorter_ok_def)

lemma pop_oldest_cases [consumes 1, case_names empty pop]:
  assumes "sorter_ok st"
  obtains (empty) "sorter_contents st = []" "es_pending st = []" "pop_oldest st = (None, st)"
  | (pop) s st' where "pop_oldest st = (Some s, st')" "\<And>r. moves st r st' (r @ [s])"
      "sorter_contents st = s # sorter_contents st'" "es_forced_flushes st' = es_forced_flushes st"
      "es_pending st \<noteq> []" "ps_time s = fst (hd (es_pending st))"
proof (cases "sorter_contents st")
  case Nil
  have "es_pending st = []"
    using assms Nil by (cases "es_pending st") (auto simp: sorter_ok_def sorter_contents_def)
  with Nil pop_oldest_ok [OF assms] empty show ?thesis by simp
next
  case (Cons s xs)
  then obtain st' where st': "pop_oldest st = (Some s, st')" "sorter_ok st'" "sorter_contents st' = xs"
      "st' = st\<lparr>es_pending := es_pending st', es_pending_len := es_pending_len st - 1\<rparr>"
    using pop_oldest_ok [OF assms] by auto
  have fields: "es_max_pending st' = es_max_pending st" "es_reorder_nanos st' = es_reorder_nanos st"
      "es_max_seen st' = es_max_seen st" "es_forced_flushes st' = es_forced_flushes st"
    by (subst st'(4), simp)+
  obtain t q rest where pend: "es_pending st = (t, q) # rest"
    using Cons by (cases "es_pending st") (auto simp: sorter_contents_def)
  have "queues_ok ((t, q) # rest)" using assms pend by (simp add: sorter_ok_def)
  moreover have "q \<noteq> []" using calculation by simp
  ultimately have "ps_time s = t" using Cons pend by (cases q) (auto simp: sorter_contents_def)
  with pop [OF st'(1)] st'(2,3) Cons fields pend show ?thesis by (simp add: moves_def)
qed

lemma drain_before_moves:
  assumes "sorter_ok st" "drain_before w st ready = (st', ready')"
  shows "moves st ready st' ready' \<and>
    ((\<forall>x \<in> set ready. ps_time x \<le> w) \<longrightarrow> (\<forall>x \<in> set ready'. ps_time x \<le> w)) \<and>
    es_forced_flushes st' = es_forced_flushes st"
  using assms
proof (induction w st ready rule: drain_before.induct)
  case (1 w st ready)
  from 1(3) show ?case
  proof (cases rule: pop_oldest_cases)
    case empty
    with 1(3,4) show ?thesis by (simp add: drain_before.simps [of w st] moves_refl)
  next
    case (pop s st1)
    obtain t q rest where pend: "es_pending st = (t, q) # rest" using pop(5) by (cases "es_pending st") auto
    show ?thesis
    proof (cases "t > w")
      case True
      with 1(3,4) pend show ?thesis by (simp add: drain_before.simps [of w st] moves_refl)
    next
      case False
      have run: "drain_before w st1 (ready @ [s]) = (st', ready')"
        using 1(4) False pend pop(1) by (simp add: drain_before.simps [of w st])
      have ok: "sorter_ok st1" using pop(2) by (simp add: moves_def)
      have IH: "moves st1 (ready @ [s]) st' ready' \<and>
          ((\<forall>x \<in> set (ready @ [s]). ps_time x \<le> w) \<longrightarrow> (\<forall>x \<in> set ready'. ps_time x \<le> w)) \<and>
          es_forced_flushes st' = es_forced_flushes st1"
        by (rule 1(2) [OF pend refl False pop(1) [symmetric] refl ok run])
      have "ps_time s \<le> w" using pop(6) pend False by simp
      with IH moves_trans [OF pop(2)] pop(4) show ?thesis by simp
    qed
  qed
qed

lemma unat_sat_add_one_zero: "sat_add n 1 \<noteq> (0 :: u64)"
proof
  assume "sat_add n 1 = 0"
  then have "unat (sat_add n 1) = 0" by simp
  then show False by (simp add: unat_sat_add)
qed

lemma force_oldest_moves:
  assumes "sorter_ok st" "force_oldest st ready = (st', ready')"
  shows "moves st ready st' ready' \<and> es_pending_len st' \<le> es_max_pending st' \<and>
    (es_forced_flushes st' = 0 \<longrightarrow> st' = st \<and> ready' = ready)"
  using assms
proof (induction st ready rule: force_oldest.induct)
  case (1 st ready)
  show ?case
  proof (cases "es_pending_len st > es_max_pending st")
    case False
    with 1(2,3) show ?thesis by (simp add: force_oldest.simps [of st] moves_refl)
  next
    case True
    from 1(2) show ?thesis
    proof (cases rule: pop_oldest_cases)
      case empty
      with 1(2) True show ?thesis by (simp add: sorter_ok_def)
    next
      case (pop s st1)
      let ?st2 = "st1\<lparr>es_forced_flushes := sat_add (es_forced_flushes st1) 1\<rparr>"
      have run: "force_oldest ?st2 (ready @ [s]) = (st', ready')"
        using 1(3) True pop(1) by (simp add: force_oldest.simps [of st])
      have ok: "sorter_ok ?st2" using pop(2) by (simp add: moves_def)
      note IH = 1(1) [OF True pop(1) [symmetric] refl ok run]
      have "moves st ready ?st2 (ready @ [s])" using pop(2) by (simp add: moves_def)
      then have mv: "moves st ready st' ready'" using IH moves_trans by blast
      have "es_forced_flushes st' \<noteq> 0"
      proof
        assume "es_forced_flushes st' = 0"
        with IH have "es_forced_flushes ?st2 = 0" by metis
        then show False by (simp add: unat_sat_add_one_zero)
      qed
      with IH mv show ?thesis by simp
    qed
  qed
qed

lemma flush_sorter_moves:
  assumes "sorter_ok st" "flush_sorter st ready = (st', ready')"
  shows "moves st ready st' ready' \<and> sorter_contents st' = [] \<and>
    es_forced_flushes st' = es_forced_flushes st"
  using assms
proof (induction st ready rule: flush_sorter.induct)
  case (1 st ready)
  from 1(2) show ?case
  proof (cases rule: pop_oldest_cases)
    case empty
    with 1(2,3) show ?thesis by (simp add: flush_sorter.simps [of st] moves_refl)
  next
    case (pop s st1)
    have run: "flush_sorter st1 (ready @ [s]) = (st', ready')"
      using 1(3) pop(1) by (simp add: flush_sorter.simps [of st])
    have ok: "sorter_ok st1" using pop(2) by (simp add: moves_def)
    from 1(1) [OF pop(1) [symmetric] refl ok run] moves_trans [OF pop(2)] pop(4) show ?thesis
      by auto
  qed
qed

section \<open>Pushing\<close>

definition with_sample :: "perf_sample \<Rightarrow> event_sorter \<Rightarrow> event_sorter" where
  "with_sample s st =
     (let len = es_pending_len st + 1
      in st\<lparr>es_max_seen := max (es_max_seen st) (ps_time s), es_pending := enqueue s (es_pending st),
            es_pending_len := len, es_peak_pending := max (es_peak_pending st) len\<rparr>)"

lemma with_sample_ok:
  assumes "sorter_ok st"
  shows "sorter_ok (with_sample s st)"
    "sorter_contents (with_sample s st) = insert_late s (sorter_contents st)"
proof -
  have q: "queues_ok (es_pending st)" using assms by (simp add: sorter_ok_def)
  show c: "sorter_contents (with_sample s st) = insert_late s (sorter_contents st)"
    by (simp add: with_sample_def Let_def sorter_contents_def enqueue_contents [OF q])
  from c enqueue_ok [OF q] assms show "sorter_ok (with_sample s st)"
    by (simp add: sorter_ok_def with_sample_def Let_def)
qed

lemma push_sample_parts:
  assumes "push_sample s st ready = (st', ready')"
  obtains st2 ready2 where
    "drain_before (sat_sub (max (es_max_seen st) (ps_time s)) (es_reorder_nanos st))
       (with_sample s st) ready = (st2, ready2)"
    "force_oldest st2 ready2 = (st', ready')"
  using assms by (auto simp: push_sample_def with_sample_def Let_def split: prod.splits)

lemma push_sample_moves:
  assumes "sorter_ok st" "push_sample s st ready = (st', ready')"
  shows "sorter_ok st' \<and> ready' @ sorter_contents st' = ready @ insert_late s (sorter_contents st) \<and>
    es_pending_len st' \<le> es_max_pending st' \<and> es_max_pending st' = es_max_pending st \<and>
    es_reorder_nanos st' = es_reorder_nanos st \<and> es_max_seen st' = max (es_max_seen st) (ps_time s)"
proof -
  obtain st2 ready2 where run:
    "drain_before (sat_sub (max (es_max_seen st) (ps_time s)) (es_reorder_nanos st))
       (with_sample s st) ready = (st2, ready2)" "force_oldest st2 ready2 = (st', ready')"
    using push_sample_parts [OF assms(2)] .
  note drained = drain_before_moves [OF with_sample_ok(1) [OF assms(1)] run(1)]
  then have "sorter_ok st2" by (simp add: moves_def)
  moreover have fields: "es_max_pending (with_sample s st) = es_max_pending st"
      "es_reorder_nanos (with_sample s st) = es_reorder_nanos st"
      "es_max_seen (with_sample s st) = max (es_max_seen st) (ps_time s)"
    by (simp_all add: with_sample_def Let_def)
  ultimately show ?thesis
    using force_oldest_moves [of st2 ready2 st' ready'] run(2) drained
    by (simp add: moves_def with_sample_ok(2) [OF assms(1)])
qed

section \<open>Sessions\<close>

datatype sorter_op = Push perf_sample | Flush | Take_Stats

fun sorter_step ::
  "event_sorter \<times> perf_sample list \<Rightarrow> sorter_op \<Rightarrow> event_sorter \<times> perf_sample list" where
  "sorter_step (st, ready) (Push s) = push_sample s st ready"
| "sorter_step (st, ready) Flush = flush_sorter st ready"
| "sorter_step (st, ready) Take_Stats = (snd (take_stats st), ready)"

definition sorter_run :: "event_sorter \<Rightarrow> sorter_op list \<Rightarrow> event_sorter \<times> perf_sample list" where
  "sorter_run st ops = foldl sorter_step (st, []) ops"

definition pushed :: "sorter_op list \<Rightarrow> perf_sample list" where
  "pushed ops = concat (map (\<lambda>op. case op of Push s \<Rightarrow> [s] | _ \<Rightarrow> []) ops)"

definition session_inv :: "nat \<Rightarrow> perf_sample list \<Rightarrow> event_sorter \<times> perf_sample list \<Rightarrow> bool" where
  "session_inv n xs p \<longleftrightarrow>
     (let (st, ready) = p
      in sorter_ok st \<and> es_max_pending st = n \<and> es_pending_len st \<le> n \<and>
         mset ready + mset (sorter_contents st) = mset xs)"

lemma session_inv_step:
  assumes "session_inv n xs (st, ready)"
  shows "session_inv n (xs @ (case op of Push s \<Rightarrow> [s] | _ \<Rightarrow> [])) (sorter_step (st, ready) op)"
proof -
  have ok: "sorter_ok st" using assms by (simp add: session_inv_def)
  show ?thesis
  proof (cases op)
    case (Push s)
    obtain st' ready' where run: "push_sample s st ready = (st', ready')"
      by (cases "push_sample s st ready")
    note mv = push_sample_moves [OF ok run]
    then have "mset (ready' @ sorter_contents st') = mset (ready @ insert_late s (sorter_contents st))"
      by simp
    then have "mset ready' + mset (sorter_contents st') = mset (xs @ [s])"
      using assms by (simp add: session_inv_def)
    with mv assms Push run show ?thesis by (simp add: session_inv_def)
  next
    case Flush
    obtain st' ready' where run: "flush_sorter st ready = (st', ready')" by (cases "flush_sorter st ready")
    note mv = flush_sorter_moves [OF ok run]
    then have "ready' = ready @ sorter_contents st" "es_pending_len st' = 0"
      by (auto simp: moves_def sorter_ok_def)
    with mv assms Flush run show ?thesis by (simp add: session_inv_def moves_def)
  next
    case Take_Stats
    with assms show ?thesis
      by (simp add: session_inv_def take_stats_def sorter_ok_def sorter_contents_def)
  qed
qed

lemma session_inv_run: "session_inv n (pushed ops) (sorter_run (new_sorter r n) ops)"
proof (induction ops rule: rev_induct)
  case Nil
  show ?case
    by (simp add: sorter_run_def session_inv_def new_sorter_def sorter_ok_def sorter_contents_def pushed_def)
next
  case (snoc op ops)
  obtain st ready where run: "sorter_run (new_sorter r n) ops = (st, ready)"
    by (cases "sorter_run (new_sorter r n) ops")
  with session_inv_step [of n "pushed ops" st ready op] snoc show ?case
    by (simp add: sorter_run_def pushed_def)
qed

section \<open>Samples within the reorder window\<close>

fun on_time :: "u64 \<Rightarrow> u64 \<Rightarrow> perf_sample list \<Rightarrow> bool" where
  "on_time reorder seen [] = True"
| "on_time reorder seen (s # ss) =
     (ps_time s \<ge> sat_sub seen reorder \<and> on_time reorder (max seen (ps_time s)) ss)"

definition latest :: "perf_sample list \<Rightarrow> u64" where
  "latest xs = foldl (\<lambda>m s. max m (ps_time s)) 0 xs"

lemma on_time_snoc:
  "on_time r m (xs @ [s]) \<longleftrightarrow>
     on_time r m xs \<and> ps_time s \<ge> sat_sub (foldl (\<lambda>m s. max m (ps_time s)) m xs) r"
  by (induction xs arbitrary: m) simp_all

lemma sat_sub_mono: "a \<le> b \<Longrightarrow> sat_sub a r \<le> sat_sub b r"
  by (simp add: word_le_nat_alt unat_sat_sub)

definition stable_sort_of :: "perf_sample list \<Rightarrow> perf_sample list \<Rightarrow> bool" where
  "stable_sort_of xs ys \<longleftrightarrow>
     mset ys = mset xs \<and> sorted (map ps_time ys) \<and>
     (\<forall>t. filter (\<lambda>x. t = ps_time x) ys = filter (\<lambda>x. t = ps_time x) xs)"

lemma stable_sort_of_sort_key: "stable_sort_of xs ys \<Longrightarrow> ys = sort_key ps_time xs"
  by (simp add: stable_sort_of_def properties_for_sort_key [symmetric])

lemma sorted_split_le:
  assumes "sorted (map ps_time ys)"
  shows "takeWhile (\<lambda>x. ps_time x \<le> k) ys = filter (\<lambda>x. ps_time x \<le> k) ys \<and>
    dropWhile (\<lambda>x. ps_time x \<le> k) ys = filter (\<lambda>x. \<not> ps_time x \<le> k) ys"
  using assms
proof (induction ys)
  case Nil
  then show ?case by simp
next
  case (Cons y ys)
  show ?case
  proof (cases "ps_time y \<le> k")
    case True
    with Cons show ?thesis by simp
  next
    case False
    then have "\<forall>x \<in> set ys. \<not> ps_time x \<le> k" using Cons.prems by auto
    with False show ?thesis by (simp add: filter_empty_conv)
  qed
qed

lemma stable_insert_late:
  assumes "stable_sort_of xs ys"
  shows "stable_sort_of (xs @ [s]) (insert_late s ys)"
proof -
  let ?k = "ps_time s"
  have srt: "sorted (map ps_time ys)" using assms by (simp add: stable_sort_of_def)
  have ins: "insert_late s ys = filter (\<lambda>x. ps_time x \<le> ?k) ys @ s # filter (\<lambda>x. \<not> ps_time x \<le> ?k) ys"
    using sorted_split_le [OF srt, of ?k] by (simp add: insert_late_def)
  have "sorted (map ps_time (filter P ys))" for P using srt by (rule sorted_filter)
  then have "sorted (map ps_time (insert_late s ys))"
    unfolding ins by (auto simp: sorted_append)
  moreover have "filter (\<lambda>x. t = ps_time x) (insert_late s ys) = filter (\<lambda>x. t = ps_time x) (xs @ [s])" for t
  proof (cases "t \<le> ?k")
    case True
    then have "filter (\<lambda>x. t = ps_time x) (filter (\<lambda>x. ps_time x \<le> ?k) ys) = filter (\<lambda>x. t = ps_time x) ys"
      "filter (\<lambda>x. t = ps_time x) (filter (\<lambda>x. \<not> ps_time x \<le> ?k) ys) = []"
      by (auto simp: filter_empty_conv intro!: filter_cong)
    with assms show ?thesis unfolding ins by (auto simp: stable_sort_of_def simp del: filter_filter)
  next
    case False
    then have "filter (\<lambda>x. t = ps_time x) (filter (\<lambda>x. \<not> ps_time x \<le> ?k) ys) = filter (\<lambda>x. t = ps_time x) ys"
      "filter (\<lambda>x. t = ps_time x) (filter (\<lambda>x. ps_time x \<le> ?k) ys) = []" "t \<noteq> ?k"
      by (auto simp: filter_empty_conv intro!: filter_cong)
    with assms show ?thesis unfolding ins by (auto simp: stable_sort_of_def simp del: filter_filter)
  qed
  ultimately show ?thesis using assms by (simp add: stable_sort_of_def)
qed

definition order_inv :: "u64 \<Rightarrow> perf_sample list \<Rightarrow> event_sorter \<Rightarrow> perf_sample list \<Rightarrow> bool" where
  "order_inv r xs st ready \<longleftrightarrow>
     sorter_ok st \<and> es_reorder_nanos st = r \<and> es_max_seen st = latest xs \<and>
     stable_sort_of xs (ready @ sorter_contents st) \<and>
     (\<forall>x \<in> set ready. ps_time x \<le> sat_sub (latest xs) r)"

lemma order_inv_push:
  assumes inv: "order_inv r xs st ready" and late: "ps_time s \<ge> sat_sub (latest xs) r"
    and run: "push_sample s st ready = (st', ready')" and nf: "es_forced_flushes st' = 0"
  shows "order_inv r (xs @ [s]) st' ready' \<and> es_forced_flushes st = 0"
proof -
  have ok: "sorter_ok st" and fields: "es_reorder_nanos st = r" "es_max_seen st = latest xs"
    using inv by (simp_all add: order_inv_def)
  let ?w = "sat_sub (latest (xs @ [s])) r"
  have seen: "latest (xs @ [s]) = max (latest xs) (ps_time s)" by (simp add: latest_def)
  obtain st2 ready2 where parts: "drain_before ?w (with_sample s st) ready = (st2, ready2)"
      "force_oldest st2 ready2 = (st', ready')"
    using push_sample_parts [OF run] by (metis fields seen)
  note drained = drain_before_moves [OF with_sample_ok(1) [OF ok] parts(1)]
  have ok2: "sorter_ok st2" using drained by (simp add: moves_def)
  have same: "st' = st2" "ready' = ready2"
    using force_oldest_moves [OF ok2 parts(2)] nf by simp_all
  have old: "\<forall>x \<in> set ready. ps_time x \<le> sat_sub (latest xs) r" using inv by (simp add: order_inv_def)
  have "sat_sub (latest xs) r \<le> ?w" unfolding seen by (rule sat_sub_mono) simp
  with old have "\<forall>x \<in> set ready. ps_time x \<le> ?w" by (meson order_trans)
  with drained have new: "\<forall>x \<in> set ready2. ps_time x \<le> ?w" by blast
  have "\<forall>x \<in> set ready. ps_time x \<le> ps_time s" using old late by (meson order_trans)
  then have "ready @ insert_late s (sorter_contents st) = insert_late s (ready @ sorter_contents st)"
    by (simp add: insert_late_append)
  moreover have "ready2 @ sorter_contents st2 = ready @ insert_late s (sorter_contents st)"
    using drained by (simp add: moves_def with_sample_ok(2) [OF ok])
  ultimately have "stable_sort_of (xs @ [s]) (ready2 @ sorter_contents st2)"
    using inv stable_insert_late by (simp add: order_inv_def)
  moreover have "es_reorder_nanos st2 = r" "es_max_seen st2 = latest (xs @ [s])"
    using drained fields seen by (simp_all add: moves_def with_sample_def Let_def)
  moreover have "es_forced_flushes st = 0"
    using drained nf same by (simp add: with_sample_def Let_def)
  ultimately show ?thesis using ok2 new same by (simp add: order_inv_def)
qed

lemma order_inv_run:
  assumes "on_time r 0 xs" "sorter_run (new_sorter r n) (map Push xs) = (st, ready)"
    and "es_forced_flushes st = 0"
  shows "order_inv r xs st ready"
  using assms
proof (induction xs arbitrary: st ready rule: rev_induct)
  case Nil
  then show ?case
    by (auto simp: sorter_run_def new_sorter_def order_inv_def sorter_ok_def sorter_contents_def
        stable_sort_of_def latest_def)
next
  case (snoc s xs)
  obtain st1 ready1 where run1: "sorter_run (new_sorter r n) (map Push xs) = (st1, ready1)"
    by (cases "sorter_run (new_sorter r n) (map Push xs)")
  have run: "push_sample s st1 ready1 = (st, ready)"
    using snoc.prems(2) run1 by (simp add: sorter_run_def)
  have ok: "sorter_ok st1"
    using session_inv_run [of n "map Push xs" r] run1 by (simp add: session_inv_def)
  have late: "on_time r 0 xs" "ps_time s \<ge> sat_sub (latest xs) r"
    using snoc.prems(1) by (simp_all add: on_time_snoc latest_def)
  have "es_forced_flushes st1 = 0"
  proof -
    obtain st2 ready2 where parts:
      "drain_before (sat_sub (max (es_max_seen st1) (ps_time s)) (es_reorder_nanos st1))
         (with_sample s st1) ready1 = (st2, ready2)" "force_oldest st2 ready2 = (st, ready)"
      using push_sample_parts [OF run] .
    note drained = drain_before_moves [OF with_sample_ok(1) [OF ok] parts(1)]
    have "sorter_ok st2" using drained by (simp add: moves_def)
    from force_oldest_moves [OF this parts(2)] snoc.prems(3) have "es_forced_flushes st2 = 0" by simp
    with drained show ?thesis by (simp add: with_sample_def Let_def)
  qed
  from snoc.IH [OF late(1) run1 this] late(2) run snoc.prems(3) show ?case
    using order_inv_push by blast
qed

section \<open>Properties\<close>

text \<open>C12: Over any sequence of pushes, flushes and statistics reads, the samples handed out together
  with the samples still buffered are exactly the samples pushed, each as often as it was pushed,
  and the buffer never holds more than its bound.\<close>

theorem sorter_conserves:
  "case sorter_run (new_sorter r n) ops of (st, ready) \<Rightarrow>
     mset ready + mset (sorter_contents st) = mset (pushed ops) \<and>
     es_pending_len st = length (sorter_contents st) \<and> es_pending_len st \<le> n"
  using session_inv_run [of n ops r] by (auto simp: session_inv_def sorter_ok_def)

text \<open>C13: Samples that arrive no later than the reorder window behind the latest one, without a forced
  flush, come out as the stable sort of the input by time: the pushes and the final flush together
  output the samples in time order, and samples of equal time in their order of arrival.\<close>

theorem sorter_sorts:
  assumes "on_time r 0 xs" "sorter_run (new_sorter r n) (map Push xs) = (st, ready)"
    and "es_forced_flushes st = 0"
  shows "snd (flush_sorter st ready) = sort_key ps_time xs"
proof -
  have inv: "order_inv r xs st ready" by (rule order_inv_run [OF assms])
  obtain st' ready' where run: "flush_sorter st ready = (st', ready')" by (cases "flush_sorter st ready")
  have "sorter_ok st" using inv by (simp add: order_inv_def)
  from flush_sorter_moves [OF this run] have "ready' = ready @ sorter_contents st"
    by (auto simp: moves_def)
  moreover have "ready @ sorter_contents st = sort_key ps_time xs"
    using inv by (intro stable_sort_of_sort_key) (simp add: order_inv_def)
  ultimately show ?thesis by (simp add: run)
qed

definition sample_at :: "u64 \<Rightarrow> perf_sample" where
  "sample_at t = \<lparr>ps_pid = 1, ps_tid = 1, ps_time = t, ps_period = 1, ps_data = Frame_Pointer [t]\<rparr>"

theorem sorter_sorts_witness:
  "snd (flush_sorter (fst (sorter_run (new_sorter 10 16) (map Push [sample_at 100, sample_at 95])))
     (snd (sorter_run (new_sorter 10 16) (map Push [sample_at 100, sample_at 95])))) =
   [sample_at 95, sample_at 100]"
proof -
  let ?run = "sorter_run (new_sorter 10 16) (map Push [sample_at 100, sample_at 95])"
  have one: "push_sample (sample_at 100) (new_sorter 10 16) [] =
      ((new_sorter 10 16)\<lparr>es_pending := [(100, [sample_at 100])], es_pending_len := 1,
        es_max_seen := 100, es_peak_pending := 1\<rparr>, [])"
    by (simp add: push_sample_def new_sorter_def enqueue_def sample_at_def sat_sub_def
        drain_before.simps force_oldest.simps)
  have two: "push_sample (sample_at 95) ((new_sorter 10 16)\<lparr>es_pending := [(100, [sample_at 100])],
        es_pending_len := 1, es_max_seen := 100, es_peak_pending := 1\<rparr>) [] =
      ((new_sorter 10 16)\<lparr>es_pending := [(95, [sample_at 95]), (100, [sample_at 100])],
        es_pending_len := 2, es_max_seen := 100, es_peak_pending := 2\<rparr>, [])"
    by (simp add: push_sample_def new_sorter_def enqueue_def sample_at_def sat_sub_def
        drain_before.simps force_oldest.simps max_def)
  have run: "?run = ((new_sorter 10 16)\<lparr>es_pending := [(95, [sample_at 95]), (100, [sample_at 100])],
        es_pending_len := 2, es_max_seen := 100, es_peak_pending := 2\<rparr>, [])"
    by (simp only: sorter_run_def list.map foldl.simps sorter_step.simps one two)
  have "on_time 10 0 [sample_at 100, sample_at 95]"
    by (simp add: sample_at_def sat_sub_def)
  from sorter_sorts [OF this run] show ?thesis
    unfolding run by (simp add: new_sorter_def sample_at_def)
qed

end
