(* ===== verification/Perf_Ring.thy ===== *)
theory Perf_Ring
  imports Perf_Sample
begin

text \<open>
  The ring-buffer half of \<open>src/src/platform/linux/perf.rs\<close>: copying out of the wrapped data area,
  the drain loop of one event, and the collector that owns one event per thread.

  \<^item> \<open>perf_event\<close> holds the bytes of the mapping and the four fields of its metadata page that the
    code reads or writes. The kernel writes \<open>pe_head\<close> and the data; the code writes \<open>pe_tail\<close>.
  \<^item> \<open>drain_loop\<close> is the loop over the records, with fuel; \<open>None\<close> means that the fuel ran out. Every
    round advances the tail by at least eight bytes, and \<open>drain_fuel\<close> rounds are enough whenever the
    head is not within 64 KiB of the end of the 64-bit position (the tail addition cannot wrap
    then); \<open>drain_loop_total\<close> proves it.
  \<^item> \<open>window\<close> is what lies in the ring between two positions, read byte by byte modulo the size; the
    two copy routines are proved equal to it.
  \<^item> Opening an event, the existence of a task directory and \<open>poll\<close> are parameters of the collector.
\<close>

record perf_event =
  pe_ring :: "u8 list"
  pe_mode :: unwind_mode
  pe_register_mask :: u64
  pe_head :: u64
  pe_tail :: u64
  pe_data_offset :: u64
  pe_data_size :: u64

definition is_power_of_two :: "u64 \<Rightarrow> bool" where
  "is_power_of_two v \<longleftrightarrow> (\<exists>k \<in> {0..<64}. v = push_bit k 1)"

section \<open>Copying out of the ring\<close>

text \<open>The data area, and the position in it: \<open>None\<close> is every failing conversion or slice.\<close>

definition ring_area :: "perf_event \<Rightarrow> u64 \<Rightarrow> (u8 list \<times> nat) option" where
  "ring_area ev absolute_offset = do {
     ring_end \<leftarrow> checked_add (pe_data_offset ev) (pe_data_size ev);
     ring \<leftarrow> slice (pe_ring ev) (unat (pe_data_offset ev)) (unat ring_end);
     Some (ring, unat (absolute_offset AND (pe_data_size ev - 1))) }"

definition copy_from_ring_into :: "perf_event \<Rightarrow> u64 \<Rightarrow> nat \<Rightarrow> u8 list option" where
  "copy_from_ring_into ev absolute_offset output_len =
     (case ring_area ev absolute_offset of
        None \<Rightarrow> None
      | Some (ring, start) \<Rightarrow>
          if output_len > length ring then None
          else (let first = min output_len (length ring - start)
                in Some (take first (drop start ring) @
                         (if first \<noteq> output_len then take (output_len - first) ring else []))))"

definition record_from_ring :: "perf_event \<Rightarrow> u64 \<Rightarrow> nat \<Rightarrow> u8 list option" where
  "record_from_ring ev absolute_offset len =
     (case ring_area ev absolute_offset of
        None \<Rightarrow> None
      | Some (ring, start) \<Rightarrow>
          if len > length ring then None
          else if len \<le> length ring - start then Some (take len (drop start ring))
          else (let first = length ring - start
                in Some (drop start ring @ take (len - first) ring)))"

section \<open>Draining one event\<close>

definition perf_record_lost :: u32 where "perf_record_lost = 2"
definition perf_record_sample :: u32 where "perf_record_sample = 9"
definition perf_record_lost_samples :: u32 where "perf_record_lost_samples = 13"

definition count_malformed :: "perf_batch \<Rightarrow> perf_batch" where
  "count_malformed batch = batch\<lparr>pb_malformed_records := pb_malformed_records batch + 1\<rparr>"

definition count_lost :: "u64 option \<Rightarrow> perf_batch \<Rightarrow> perf_batch" where
  "count_lost lost batch =
     (case lost of
        Some n \<Rightarrow> batch\<lparr>pb_lost_samples := sat_add (pb_lost_samples batch) n\<rparr>
      | None \<Rightarrow> count_malformed batch)"

definition take_stack_buffer :: "unwind_mode \<Rightarrow> perf_batch \<Rightarrow> nat \<times> perf_batch" where
  "take_stack_buffer mode batch =
     (if mode = Unwind_Dwarf
      then (case pb_stack_buffers batch of
              [] \<Rightarrow> (0, batch)
            | b # bs \<Rightarrow> (b, batch\<lparr>pb_stack_buffers := bs\<rparr>))
      else (0, batch))"

definition process_record :: "arch \<Rightarrow> perf_event \<Rightarrow> u32 \<Rightarrow> u8 list \<Rightarrow> perf_batch \<Rightarrow> perf_batch" where
  "process_record a ev kind bs batch =
     (if kind = perf_record_sample then
        (let (buffer, batch1) = take_stack_buffer (pe_mode ev) batch;
             parsed = parse_sample a (drop 8 bs) (pe_mode ev) (pe_register_mask ev);
             batch2 = (case parsed of
                         Some s \<Rightarrow> batch1\<lparr>pb_samples := pb_samples batch1 @ [s]\<rparr>
                       | None \<Rightarrow> count_malformed batch1);
             capacity = buffer_after (pe_mode ev) parsed buffer
         in if capacity \<noteq> 0 then recycle_stack_buffer capacity batch2 else batch2)
      else if kind = perf_record_lost then count_lost (read_u64 bs 16) batch
      else if kind = perf_record_lost_samples then count_lost (read_u64 bs 8) batch
      else batch)"

text \<open>One round: the next tail and batch. A malformed header skips to the head.\<close>

definition drain_round :: "arch \<Rightarrow> perf_event \<Rightarrow> u64 \<Rightarrow> perf_batch \<Rightarrow> u64 \<times> perf_batch" where
  "drain_round a ev tail batch =
     (case copy_from_ring_into ev tail 8 of
        None \<Rightarrow> (pe_head ev, count_malformed batch)
      | Some header \<Rightarrow>
          (let kind = word_of_bytes (take 4 header) :: u32;
               size = nat_of_bytes (take 2 (drop 6 header));
               next_tail = tail + word_of_nat size
           in if size < 8 \<or> word_of_nat size > pe_data_size ev \<or> next_tail > pe_head ev
              then (pe_head ev, count_malformed batch)
              else case record_from_ring ev tail size of
                     None \<Rightarrow> (pe_head ev, count_malformed batch)
                   | Some bs \<Rightarrow> (next_tail, process_record a ev kind bs batch)))"

fun drain_loop :: "nat \<Rightarrow> arch \<Rightarrow> perf_event \<Rightarrow> u64 \<Rightarrow> perf_batch \<Rightarrow> (u64 \<times> perf_batch) option" where
  "drain_loop 0 a ev tail batch = None"
| "drain_loop (Suc fuel) a ev tail batch =
     (if tail < pe_head ev
      then (let (tail', batch') = drain_round a ev tail batch in drain_loop fuel a ev tail' batch')
      else Some (tail, batch))"

definition drain_fuel :: "perf_event \<Rightarrow> nat" where
  "drain_fuel ev = Suc (unat (pe_head ev) - unat (pe_tail ev))"

definition drain :: "arch \<Rightarrow> perf_event \<Rightarrow> perf_batch \<Rightarrow> (perf_event \<times> perf_batch) option" where
  "drain a ev batch =
     (if pe_data_size ev = 0 \<or> \<not> is_power_of_two (pe_data_size ev)
      then Some (ev, count_malformed batch)
      else map_option (\<lambda>(tail, batch'). (ev\<lparr>pe_tail := tail\<rparr>, batch'))
             (drain_loop (drain_fuel ev) a ev (pe_tail ev) batch))"

section \<open>The ring as a cyclic buffer\<close>

definition cyclic :: "'a list \<Rightarrow> nat \<Rightarrow> nat \<Rightarrow> 'a list" where
  "cyclic xs start n = map (\<lambda>i. xs ! ((start + i) mod length xs)) [0..<n]"

lemma length_cyclic [simp]: "length (cyclic xs start n) = n"
  by (simp add: cyclic_def)

lemma cyclic_two_pieces:
  assumes "start < length xs" "n \<le> length xs"
  shows "take (min n (length xs - start)) (drop start xs) @
      take (n - min n (length xs - start)) xs = cyclic xs start n"
proof (rule nth_equalityI)
  let ?f = "min n (length xs - start)"
  show len: "length (take ?f (drop start xs) @ take (n - ?f) xs) = length (cyclic xs start n)"
    using assms by (auto simp: min_def)
  fix i assume "i < length (take ?f (drop start xs) @ take (n - ?f) xs)"
  then have i: "i < n" using len by simp
  show "(take ?f (drop start xs) @ take (n - ?f) xs) ! i = cyclic xs start n ! i"
  proof (cases "i < length xs - start")
    case True
    with i assms show ?thesis by (simp add: cyclic_def nth_append mod_less)
  next
    case False
    then have "(start + i) mod length xs = start + i - length xs"
      using assms i by (subst le_mod_geq) (simp_all add: mod_less)
    moreover have "?f = length xs - start" "i - ?f = start + i - length xs"
      using False i assms by simp_all
    ultimately show ?thesis
      using False i assms by (simp add: cyclic_def nth_append)
  qed
qed

lemma cyclic_append: "cyclic xs start (m + n) = cyclic xs start m @ cyclic xs (start + m) n"
proof (rule nth_equalityI)
  show "length (cyclic xs start (m + n)) = length (cyclic xs start m @ cyclic xs (start + m) n)" by simp
  fix i assume "i < length (cyclic xs start (m + n))"
  then show "cyclic xs start (m + n) ! i = (cyclic xs start m @ cyclic xs (start + m) n) ! i"
    by (auto simp: cyclic_def nth_append add.assoc)
qed

lemma cyclic_mod: "cyclic xs (start mod length xs) n = cyclic xs start n"
  by (simp add: cyclic_def mod_add_left_eq)

lemma and_pow2_minus_1:
  assumes "is_power_of_two v"
  shows "unat (x AND (v - 1)) = unat x mod unat v" "v \<noteq> 0"
proof -
  obtain k where k: "k < 64" "v = push_bit k 1" using assms by (auto simp: is_power_of_two_def)
  have "v - 1 = mask k" by (simp add: k push_bit_eq_mult mask_eq_exp_minus_1)
  then have "unat (x AND (v - 1)) = take_bit k (unat x)"
    by (simp add: take_bit_eq_mask [symmetric] unsigned_take_bit_eq)
  moreover have v: "unat v = 2 ^ k"
  proof -
    have "v = word_of_nat (2 ^ k)" by (simp add: k push_bit_eq_mult)
    moreover have "(2 :: nat) ^ k < 2 ^ 64" using k by (intro power_strict_increasing) simp_all
    ultimately show ?thesis by (simp add: unat_word_of_nat del: of_nat_power)
  qed
  ultimately show "unat (x AND (v - 1)) = unat x mod unat v" by (simp add: take_bit_eq_mod)
  from v show "v \<noteq> 0" by auto
qed

definition ring_ok :: "perf_event \<Rightarrow> bool" where
  "ring_ok ev \<longleftrightarrow>
     is_power_of_two (pe_data_size ev) \<and>
     unat (pe_data_offset ev) + unat (pe_data_size ev) < 2 ^ 64 \<and>
     unat (pe_data_offset ev) + unat (pe_data_size ev) \<le> length (pe_ring ev)"

definition data_area :: "perf_event \<Rightarrow> u8 list" where
  "data_area ev = take (unat (pe_data_size ev)) (drop (unat (pe_data_offset ev)) (pe_ring ev))"

text \<open>The bytes between a position and \<open>n\<close> bytes later.\<close>

definition window :: "perf_event \<Rightarrow> u64 \<Rightarrow> nat \<Rightarrow> u8 list" where
  "window ev pos n = cyclic (data_area ev) (unat pos) n"

lemma length_data_area: "ring_ok ev \<Longrightarrow> length (data_area ev) = unat (pe_data_size ev)"
  by (auto simp: ring_ok_def data_area_def)

lemma ring_area_ok:
  assumes "ring_ok ev"
  shows "ring_area ev off = Some (data_area ev, unat off mod length (data_area ev))"
  using assms
  by (auto simp: ring_area_def ring_ok_def checked_add_def slice_def data_area_def
      unat_add_no_overflow and_pow2_minus_1)

lemma data_area_nonempty: "ring_ok ev \<Longrightarrow> 0 < length (data_area ev)"
  using and_pow2_minus_1(2) [of "pe_data_size ev"]
  by (simp add: length_data_area ring_ok_def unat_gt_0)

lemma copy_from_ring_window:
  assumes "ring_ok ev"
  shows "copy_from_ring_into ev off n =
    (if n \<le> unat (pe_data_size ev) then Some (window ev off n) else None)"
proof (cases "n \<le> unat (pe_data_size ev)")
  case True
  let ?d = "data_area ev" and ?s = "unat off mod length (data_area ev)"
  have "?s < length ?d" using data_area_nonempty [OF assms] by simp
  with True have "take (min n (length ?d - ?s)) (drop ?s ?d) @ take (n - min n (length ?d - ?s)) ?d =
      window ev off n"
    using assms cyclic_mod [of ?d "unat off" n]
    by (subst cyclic_two_pieces) (simp_all add: length_data_area window_def)
  with True assms show ?thesis
    by (auto simp: copy_from_ring_into_def ring_area_ok length_data_area Let_def)
next
  case False
  with assms show ?thesis by (simp add: copy_from_ring_into_def ring_area_ok length_data_area)
qed

lemma record_from_ring_copy: "record_from_ring ev off n = copy_from_ring_into ev off n"
  by (auto simp: record_from_ring_def copy_from_ring_into_def min_def Let_def split: option.split)

lemma window_append:
  assumes "unat pos + m < 2 ^ 64"
  shows "window ev pos (m + n) = window ev pos m @ window ev (pos + word_of_nat m) n"
proof -
  have "unat (word_of_nat m :: u64) = m" using assms by (intro unat_word_of_nat) simp
  then have "unat (pos + word_of_nat m) = unat pos + m"
    using assms by (subst unat_add_no_overflow) simp_all
  then show ?thesis by (simp add: window_def cyclic_append)
qed

section \<open>The drain loop\<close>

lemma nat_of_bytes_two: "nat_of_bytes (take 2 bs) < 65536"
proof -
  have "nat_of_bytes (take 2 bs) < 256 ^ length (take 2 bs)" by (rule nat_of_bytes_less)
  also have "\<dots> \<le> 256 ^ 2" by (rule power_increasing) simp_all
  finally show ?thesis by simp
qed

definition head_below_end :: "perf_event \<Rightarrow> bool" where
  "head_below_end ev \<longleftrightarrow> unat (pe_head ev) + 65536 \<le> 2 ^ 64"

lemma unat_advance:
  assumes "unat pos + n < 2 ^ 64"
  shows "unat (pos + word_of_nat n :: u64) = unat pos + n"
proof -
  have "unat (word_of_nat n :: u64) = n" using assms by (intro unat_word_of_nat) simp
  then show ?thesis using assms by (subst unat_add_no_overflow) simp_all
qed

lemma drain_round_progress:
  assumes "head_below_end ev" "tail < pe_head ev" "drain_round a ev tail batch = (tail', batch')"
  shows "tail < tail' \<and> tail' \<le> pe_head ev"
proof -
  have adv: "tail < tail + word_of_nat n" if "8 \<le> n" "n < 65536" for n
  proof -
    have "unat tail + n < 2 ^ 64"
      using assms(1,2) that by (simp add: head_below_end_def word_less_nat_alt)
    then show ?thesis using that by (simp add: word_less_nat_alt unat_advance)
  qed
  show ?thesis
    using assms(2,3) adv nat_of_bytes_two
    by (auto simp: drain_round_def Let_def not_less split: option.splits if_splits)
qed

lemma drain_loop_total:
  assumes "head_below_end ev" "tail \<le> pe_head ev" "unat (pe_head ev) - unat tail < fuel"
  shows "\<exists>batch'. drain_loop fuel a ev tail batch = Some (pe_head ev, batch')"
  using assms(2,3)
proof (induction fuel arbitrary: tail batch)
  case 0
  then show ?case by simp
next
  case (Suc fuel)
  show ?case
  proof (cases "tail < pe_head ev")
    case False
    with Suc.prems(1) show ?thesis by simp
  next
    case True
    obtain tail' batch' where r: "drain_round a ev tail batch = (tail', batch')"
      by (cases "drain_round a ev tail batch")
    have "tail < tail'" "tail' \<le> pe_head ev"
      using drain_round_progress [OF assms(1) True r] by auto
    then have "unat (pe_head ev) - unat tail' < fuel"
      using Suc.prems(2) by (simp add: word_less_nat_alt word_le_nat_alt)
    with Suc.IH [OF \<open>tail' \<le> pe_head ev\<close>] True r show ?thesis by simp
  qed
qed

section \<open>Records in the ring\<close>

record ring_record =
  rg_kind :: u32
  rg_misc :: "u8 list"
  rg_body :: "u8 list"

definition record_size :: "ring_record \<Rightarrow> nat" where
  "record_size r = 8 + length (rg_body r)"

definition enc_record :: "ring_record \<Rightarrow> u8 list" where
  "enc_record r =
     bytes_of_word (rg_kind r) @ rg_misc r @ bytes_of_nat 2 (record_size r) @ rg_body r"

definition enc_records :: "ring_record list \<Rightarrow> u8 list" where
  "enc_records rs = concat (map enc_record rs)"

definition record_ok :: "perf_event \<Rightarrow> ring_record \<Rightarrow> bool" where
  "record_ok ev r \<longleftrightarrow>
     length (rg_misc r) = 2 \<and> record_size r < 65536 \<and> record_size r \<le> unat (pe_data_size ev)"

lemma length_enc_record: "record_ok ev r \<Longrightarrow> length (enc_record r) = record_size r"
  by (simp add: enc_record_def record_size_def record_ok_def)

lemma enc_record_header:
  assumes "record_ok ev r"
  shows "word_of_bytes (take 4 (take 8 (enc_record r))) = rg_kind r"
    "nat_of_bytes (take 2 (drop 6 (take 8 (enc_record r)))) = record_size r"
  using assms
  by (simp_all add: enc_record_def record_ok_def word_of_bytes_of_word_u32 nat_of_bytes_of_nat
      del: bytes_of_nat.simps)

lemma drain_round_record:
  assumes "ring_ok ev" "record_ok ev r" "window ev tail (record_size r) = enc_record r"
    and "unat tail + record_size r \<le> unat (pe_head ev)" "head_below_end ev"
  shows "drain_round a ev tail batch =
    (tail + word_of_nat (record_size r), process_record a ev (rg_kind r) (enc_record r) batch)"
proof -
  have size: "8 \<le> record_size r" "record_size r < 65536" "record_size r \<le> unat (pe_data_size ev)"
    using assms(2) by (simp_all add: record_ok_def record_size_def)
  have "window ev tail (record_size r) = window ev tail 8 @ window ev (tail + word_of_nat 8) (record_size r - 8)"
    using window_append [of tail 8 ev "record_size r - 8"] size assms(4,5)
    by (simp add: head_below_end_def)
  then have "window ev tail 8 = take 8 (enc_record r)"
    unfolding assms(3) by (simp add: window_def)
  then have header: "copy_from_ring_into ev tail 8 = Some (take 8 (enc_record r))"
    using assms(1) size by (simp add: copy_from_ring_window)
  have rec: "record_from_ring ev tail (record_size r) = Some (enc_record r)"
    using assms(1,3) size by (simp add: record_from_ring_copy copy_from_ring_window)
  have w: "unat (word_of_nat (record_size r) :: u64) = record_size r"
    using size by (intro unat_word_of_nat) simp
  have adv: "unat (tail + word_of_nat (record_size r)) = unat tail + record_size r"
    using assms(4,5) by (intro unat_advance) (simp add: head_below_end_def)
  then have "tail + word_of_nat (record_size r) \<le> pe_head ev"
    using assms(4) by (simp add: word_le_nat_alt)
  moreover have "word_of_nat (record_size r) \<le> pe_data_size ev"
    using size w by (simp add: word_le_nat_alt)
  ultimately show ?thesis
    using size by (simp add: drain_round_def header rec enc_record_header [OF assms(2), simplified] Let_def not_less [symmetric])
qed

lemma drain_loop_records:
  assumes "ring_ok ev" "head_below_end ev" "\<forall>r \<in> set rs. record_ok ev r"
    and "unat tail + length (enc_records rs) = unat (pe_head ev)"
    and "window ev tail (length (enc_records rs)) = enc_records rs"
    and "length (enc_records rs) < fuel"
  shows "drain_loop fuel a ev tail batch =
    Some (pe_head ev, foldl (\<lambda>b r. process_record a ev (rg_kind r) (enc_record r) b) batch rs)"
  using assms(3-6)
proof (induction rs arbitrary: tail batch fuel)
  case Nil
  then have "tail = pe_head ev" by (simp add: enc_records_def word_unat_eq_iff)
  with Nil.prems(4) show ?case by (cases fuel) simp_all
next
  case (Cons r rs)
  have r: "record_ok ev r" using Cons.prems(1) by simp
  have enc: "enc_records (r # rs) = enc_record r @ enc_records rs" by (simp add: enc_records_def)
  have len: "length (enc_records (r # rs)) = record_size r + length (enc_records rs)"
    by (simp add: enc length_enc_record [OF r])
  have pos: "8 \<le> record_size r" by (simp add: record_size_def)
  have fits: "unat tail + record_size r \<le> unat (pe_head ev)"
    using Cons.prems(2) by (simp add: len)
  have small: "unat tail + record_size r < 2 ^ 64"
    using fits assms(2) by (simp add: head_below_end_def)
  let ?t = "tail + word_of_nat (record_size r)"
  have "window ev tail (record_size r) @ window ev ?t (length (enc_records rs)) =
      enc_record r @ enc_records rs"
    using Cons.prems(3) [unfolded len, unfolded enc] window_append [OF small, of ev "length (enc_records rs)"]
    by simp
  then have win: "window ev tail (record_size r) = enc_record r"
      "window ev ?t (length (enc_records rs)) = enc_records rs"
    by (simp_all add: append_eq_append_conv length_enc_record [OF r] window_def)
  have t: "unat ?t + length (enc_records rs) = unat (pe_head ev)"
    using Cons.prems(2) small by (simp add: unat_advance len)
  obtain fuel' where fuel: "fuel = Suc fuel'" using Cons.prems(4) by (cases fuel) auto
  have "tail < pe_head ev" using fits pos by (simp add: word_less_nat_alt)
  moreover have "length (enc_records rs) < fuel'" using Cons.prems(4) pos by (simp add: len fuel)
  ultimately show ?case
    using Cons.IH [of ?t fuel'] Cons.prems(1) t win(2) fuel
      drain_round_record [OF assms(1) r win(1) fits assms(2)]
    by simp
qed

section \<open>The collector\<close>

type_synonym tid = i32

record perf_collector =
  pc_max_threads :: nat
  pc_events :: "(tid, perf_event) table"
  pc_retired_events :: "perf_event list"
  pc_poll_tids :: "tid list"

datatype perf_error =
  Too_Many_Threads nat nat
| Open_Failed tid string
| Poll_Failed int
| Auto_Mode

definition rebuild_poll_fds :: "perf_collector \<Rightarrow> perf_collector" where
  "rebuild_poll_fds pc = pc\<lparr>pc_poll_tids := map fst (pc_events pc)\<rparr>"

definition retire_threads :: "tid list \<Rightarrow> perf_collector \<Rightarrow> perf_collector" where
  "retire_threads threads pc =
     (let gone = filter (\<lambda>(t, _). t \<notin> set threads) (pc_events pc)
      in pc\<lparr>pc_events := tab_retain (\<lambda>t. t \<in> set threads) (pc_events pc),
            pc_retired_events := pc_retired_events pc @ map snd gone\<rparr>)"

text \<open>\<open>open_event\<close> is \<open>PerfEvent::open\<close>; \<open>task_exists\<close> asks for the task directory afterwards.\<close>

fun open_threads ::
  "(tid \<Rightarrow> string + perf_event) \<Rightarrow> (tid \<Rightarrow> bool) \<Rightarrow> tid list \<Rightarrow> perf_collector \<Rightarrow>
   perf_collector \<times> (perf_error + unit)" where
  "open_threads open_event task_exists [] pc = (pc, Inr ())"
| "open_threads open_event task_exists (t # ts) pc =
     (if map_of (pc_events pc) t \<noteq> None then open_threads open_event task_exists ts pc
      else case open_event t of
             Inr ev \<Rightarrow> open_threads open_event task_exists ts
                         (pc\<lparr>pc_events := AList.update t ev (pc_events pc)\<rparr>)
           | Inl e \<Rightarrow> if \<not> task_exists t then open_threads open_event task_exists ts pc
                      else (pc, Inl (Open_Failed t e)))"

definition reconcile_thread_ids ::
  "(tid \<Rightarrow> string + perf_event) \<Rightarrow> (tid \<Rightarrow> bool) \<Rightarrow> tid list \<Rightarrow> perf_collector \<Rightarrow>
   perf_collector \<times> (perf_error + unit)" where
  "reconcile_thread_ids open_event task_exists threads pc =
     (if length threads > pc_max_threads pc
      then (pc, Inl (Too_Many_Threads (length threads) (pc_max_threads pc)))
      else case open_threads open_event task_exists threads (retire_threads threads pc) of
             (pc', Inl e) \<Rightarrow> (pc', Inl e)
           | (pc', Inr _) \<Rightarrow> (rebuild_poll_fds pc', Inr ()))"

definition new_collector ::
  "(tid \<Rightarrow> string + perf_event) \<Rightarrow> (tid \<Rightarrow> bool) \<Rightarrow> tid list \<Rightarrow> unwind_mode \<Rightarrow> nat \<Rightarrow>
   perf_error + perf_collector" where
  "new_collector open_event task_exists threads mode max_threads =
     (if mode = Unwind_Auto then Inl Auto_Mode
      else case reconcile_thread_ids open_event task_exists threads
             \<lparr>pc_max_threads = max_threads, pc_events = [], pc_retired_events = [],
              pc_poll_tids = []\<rparr> of
             (pc, Inr _) \<Rightarrow> Inr pc
           | (_, Inl e) \<Rightarrow> Inl e)"

fun drain_list :: "arch \<Rightarrow> perf_event list \<Rightarrow> perf_batch \<Rightarrow> (perf_event list \<times> perf_batch) option" where
  "drain_list a [] batch = Some ([], batch)"
| "drain_list a (ev # evs) batch = do {
     (ev', batch) \<leftarrow> drain a ev batch;
     (evs', batch) \<leftarrow> drain_list a evs batch;
     Some (ev' # evs', batch) }"

definition drain_retired_into :: "arch \<Rightarrow> perf_collector \<Rightarrow> perf_batch \<Rightarrow> (perf_collector \<times> perf_batch) option" where
  "drain_retired_into a pc batch = do {
     (_, batch) \<leftarrow> drain_list a (pc_retired_events pc) batch;
     Some (pc\<lparr>pc_retired_events := []\<rparr>, batch) }"

definition drain_into :: "arch \<Rightarrow> perf_collector \<Rightarrow> perf_batch \<Rightarrow> (perf_collector \<times> perf_batch) option" where
  "drain_into a pc batch = do {
     (pc, batch) \<leftarrow> drain_retired_into a pc (reset_batch batch);
     (evs, batch) \<leftarrow> drain_list a (map snd (pc_events pc)) batch;
     Some (pc\<lparr>pc_events := zip (map fst (pc_events pc)) evs\<rparr>, batch) }"

fun drain_tids :: "arch \<Rightarrow> tid list \<Rightarrow> perf_collector \<Rightarrow> perf_batch \<Rightarrow> (perf_collector \<times> perf_batch) option" where
  "drain_tids a [] pc batch = Some (pc, batch)"
| "drain_tids a (t # ts) pc batch =
     (case map_of (pc_events pc) t of
        None \<Rightarrow> drain_tids a ts pc batch
      | Some ev \<Rightarrow> do {
          (ev', batch) \<leftarrow> drain a ev batch;
          drain_tids a ts (pc\<lparr>pc_events := AList.update t ev' (pc_events pc)\<rparr>) batch })"

text \<open>What \<open>poll\<close> returned: an error number, or the number of ready descriptors and, per
  descriptor, whether its event mask is set.\<close>

datatype poll_result = Poll_Error int | Poll_Ready nat "bool list"

definition eintr :: int where "eintr = 4"

definition wait_and_drain_into ::
  "arch \<Rightarrow> poll_result \<Rightarrow> perf_collector \<Rightarrow> perf_batch \<Rightarrow>
   (perf_collector \<times> perf_batch \<times> (perf_error + unit)) option" where
  "wait_and_drain_into a poll pc batch = do {
     (pc, batch) \<leftarrow> drain_retired_into a pc (reset_batch batch);
     if pc_poll_tids pc = [] then Some (pc, batch, Inr ())
     else case poll of
            Poll_Error errno \<Rightarrow>
              Some (pc, batch, if errno = eintr then Inr () else Inl (Poll_Failed errno))
          | Poll_Ready ready flags \<Rightarrow>
              if ready = 0 then Some (pc, batch, Inr ())
              else do {
                (pc, batch) \<leftarrow>
                  drain_tids a (map snd (filter fst (zip flags (pc_poll_tids pc)))) pc batch;
                Some (pc, batch, Inr ()) } }"

definition collector_ok :: "perf_collector \<Rightarrow> bool" where
  "collector_ok pc \<longleftrightarrow> tab_wf (pc_events pc) \<and> pc_poll_tids pc = map fst (pc_events pc)"

lemma open_threads_keeps:
  assumes "open_threads opn ex ts pc = (pc', r)"
  shows "tab_wf (pc_events pc) \<Longrightarrow> tab_wf (pc_events pc')"
    and "map_of (pc_events pc) t = Some ev \<Longrightarrow> map_of (pc_events pc') t = Some ev"
    and "pc_retired_events pc' = pc_retired_events pc"
    and "tab_keys (pc_events pc') \<subseteq> tab_keys (pc_events pc) \<union> set ts"
  using assms
proof (induction ts arbitrary: pc)
  case Nil
  { case 1 with Nil show ?case by simp }
  { case 2 with Nil show ?case by simp }
  { case 3 with Nil show ?case by simp }
  { case 4 with Nil show ?case by simp }
next
  case (Cons u us)
  { case 1
    let ?upd = "pc\<lparr>pc_events := AList.update u (projr (opn u)) (pc_events pc)\<rparr>"
    from 1 Cons.IH(1) [of pc] Cons.IH(1) [of ?upd] show ?case
      by (auto split: if_splits sum.splits) }
  { case 2
    let ?upd = "pc\<lparr>pc_events := AList.update u (projr (opn u)) (pc_events pc)\<rparr>"
    from 2 Cons.IH(2) [of pc] Cons.IH(2) [of ?upd] show ?case
      by (cases "t = u") (auto split: if_splits sum.splits) }
  { case 3
    let ?upd = "pc\<lparr>pc_events := AList.update u (projr (opn u)) (pc_events pc)\<rparr>"
    from 3 Cons.IH(3) [of pc] Cons.IH(3) [of ?upd] show ?case
      by (auto split: if_splits sum.splits) }
  { case 4
    let ?upd = "pc\<lparr>pc_events := AList.update u (projr (opn u)) (pc_events pc)\<rparr>"
    from 4 Cons.IH(4) [of pc] Cons.IH(4) [of ?upd] show ?case
      by (auto split: if_splits sum.splits simp: dom_update) }
qed

lemma open_threads_covers:
  "open_threads opn ex ts pc = (pc', Inr u) \<Longrightarrow> t \<in> set ts \<Longrightarrow>
   map_of (pc_events pc') t = None \<Longrightarrow> (\<exists>e. opn t = Inl e) \<and> \<not> ex t"
proof (induction ts arbitrary: pc)
  case Nil
  then show ?case by simp
next
  case (Cons v vs)
  show ?case
  proof (cases "t = v")
    case False
    with Cons show ?thesis by (auto split: if_splits sum.splits)
  next
    case True
    show ?thesis
    proof (cases "opn v")
      case (Inl e)
      with True Cons.prems show ?thesis
        by (auto split: if_splits dest: open_threads_keeps(2) [where t = v])
    next
      case (Inr ev)
      with True Cons.prems show ?thesis
        by (auto split: if_splits dest: open_threads_keeps(2) [where t = v])
    qed
  qed
qed

section \<open>Properties\<close>

text \<open>C10: Draining always ends and consumes the ring: whatever bytes the ring holds, as long as the head
  is at or after the tail and not within 64 KiB of the end of the position counter, the loop
  terminates within its fuel and leaves the tail at the head.\<close>

theorem drain_terminates:
  assumes "is_power_of_two (pe_data_size ev)" "head_below_end ev" "pe_tail ev \<le> pe_head ev"
  shows "\<exists>batch'. drain a ev batch = Some (ev\<lparr>pe_tail := pe_head ev\<rparr>, batch')"
proof -
  have "unat (pe_head ev) - unat (pe_tail ev) < drain_fuel ev" by (simp add: drain_fuel_def)
  from drain_loop_total [OF assms(2,3) this, of a batch] assms(1) and_pow2_minus_1(2) [OF assms(1)]
  show ?thesis by (auto simp: drain_def)
qed

definition sample_ring :: perf_event where
  "sample_ring =
     \<lparr>pe_ring = [9, 9, 9, 9] @ [13, 0, 0, 0, 0, 0, 16, 0] @ [5, 0, 0, 0, 0, 0, 0, 0],
      pe_mode = Unwind_Fp, pe_register_mask = 0, pe_head = 32, pe_tail = 16,
      pe_data_offset = 4, pe_data_size = 16\<rparr>"

lemma sample_ring_size: "is_power_of_two (pe_data_size sample_ring)"
proof -
  have "(16 :: u64) = push_bit 4 1" by simp
  then show ?thesis
    unfolding is_power_of_two_def sample_ring_def perf_event.simps by (intro bexI [of _ 4]) simp_all
qed

theorem drain_terminates_witness:
  "\<exists>batch'. drain X86_64 sample_ring perf_batch_default = Some (sample_ring\<lparr>pe_tail := 32\<rparr>, batch')"
  using drain_terminates [OF sample_ring_size, of X86_64 perf_batch_default]
  by (simp add: sample_ring_def head_below_end_def)

text \<open>C11: Draining reads exactly the records that the kernel wrote: when the ring, read modulo its size
  from the tail to the head, holds the encodings of a list of records, each is processed once, in
  order and with its own bytes, also where it wraps around the end of the buffer, and the tail ends
  at the head.\<close>

theorem drain_records:
  assumes "ring_ok ev" "head_below_end ev" "\<forall>r \<in> set rs. record_ok ev r"
    and "unat (pe_tail ev) + length (enc_records rs) = unat (pe_head ev)"
    and "window ev (pe_tail ev) (length (enc_records rs)) = enc_records rs"
  shows "drain a ev batch =
    Some (ev\<lparr>pe_tail := pe_head ev\<rparr>,
          foldl (\<lambda>b r. process_record a ev (rg_kind r) (enc_record r) b) batch rs)"
proof -
  have "length (enc_records rs) < drain_fuel ev" using assms(4) by (simp add: drain_fuel_def)
  from drain_loop_records [OF assms this, of a batch] assms(1) show ?thesis
    using and_pow2_minus_1(2) [of "pe_data_size ev"] by (simp add: drain_def ring_ok_def)
qed

definition wrapped_ring :: perf_event where
  "wrapped_ring = sample_ring
     \<lparr>pe_ring := [9, 9, 9, 9] @ [5, 0, 0, 0, 0, 0, 0, 0] @ [13, 0, 0, 0, 0, 0, 16, 0],
      pe_head := 40, pe_tail := 24\<rparr>"

definition lost_record :: ring_record where
  "lost_record = \<lparr>rg_kind = 13, rg_misc = [0, 0], rg_body = [5, 0, 0, 0, 0, 0, 0, 0]\<rparr>"

theorem drain_records_witness:
  "map_option (pb_lost_samples \<circ> snd) (drain X86_64 wrapped_ring perf_batch_default) = Some 5"
proof -
  have enc: "enc_records [lost_record] = [13, 0, 0, 0, 0, 0, 16, 0, 5, 0, 0, 0, 0, 0, 0, 0]"
    by (simp add: enc_records_def enc_record_def lost_record_def record_size_def bytes_of_word_def
        bytes_of_nat_numeral)
  have win: "window wrapped_ring 24 16 = enc_records [lost_record]"
    unfolding enc
    by (simp add: window_def cyclic_def data_area_def wrapped_ring_def sample_ring_def upt_rec)
  have ok: "ring_ok wrapped_ring"
    using sample_ring_size by (simp add: ring_ok_def wrapped_ring_def sample_ring_def)
  have run: "drain X86_64 wrapped_ring perf_batch_default =
      Some (wrapped_ring\<lparr>pe_tail := pe_head wrapped_ring\<rparr>,
            process_record X86_64 wrapped_ring (rg_kind lost_record) (enc_record lost_record)
              perf_batch_default)"
  proof -
    have below: "head_below_end wrapped_ring"
      by (simp add: head_below_end_def wrapped_ring_def sample_ring_def)
    have rec: "\<forall>r \<in> set [lost_record]. record_ok wrapped_ring r"
      by (simp add: record_ok_def lost_record_def record_size_def wrapped_ring_def sample_ring_def)
    have tail: "pe_tail wrapped_ring = 24" "pe_head wrapped_ring = 40"
      by (simp_all add: wrapped_ring_def)
    have len: "length (enc_records [lost_record]) = 16" by (simp add: enc)
    show ?thesis
      using drain_records [OF ok below rec, of X86_64 perf_batch_default] win
      unfolding len tail by simp
  qed
  have bytes: "enc_record lost_record = [13, 0, 0, 0, 0, 0, 16, 0, 5, 0, 0, 0, 0, 0, 0, 0]"
    using enc by (simp add: enc_records_def)
  have kind: "rg_kind lost_record = 13" by (simp add: lost_record_def)
  show ?thesis
    unfolding run
    by (simp add: bytes kind process_record_def perf_record_sample_def perf_record_lost_def
        perf_record_lost_samples_def count_lost_def read_u64_def slice_def word_of_bytes_def
        perf_batch_default_def)
qed

text \<open>Reconciling threads loses no event: afterwards there is an event only for current threads,
  an event that stays is unchanged, every event of a vanished thread has moved to the retired list,
  a current thread is without an event only if opening failed and its task is gone, and the poll
  table lists exactly the threads with an event.\<close>

theorem reconcile_keeps_events:
  assumes "tab_wf (pc_events pc)"
    and "reconcile_thread_ids open_event task_exists threads pc = (pc', Inr ())"
  shows "tab_keys (pc_events pc') \<subseteq> set threads \<and>
    (\<forall>t ev. map_of (pc_events pc) t = Some ev \<longrightarrow>
       (if t \<in> set threads then map_of (pc_events pc') t = Some ev
        else ev \<in> set (pc_retired_events pc'))) \<and>
    (\<forall>t \<in> set threads. map_of (pc_events pc') t = None \<longrightarrow>
       (\<exists>e. open_event t = Inl e) \<and> \<not> task_exists t) \<and>
    collector_ok pc'"
proof -
  let ?r = "retire_threads threads pc"
  obtain pc1 where run: "open_threads open_event task_exists threads ?r = (pc1, Inr ())"
      "pc' = rebuild_poll_fds pc1"
    using assms(2) by (auto simp: reconcile_thread_ids_def split: if_splits prod.splits sum.splits)
  note keeps = open_threads_keeps [OF run(1)]
  have wf: "tab_wf (pc_events ?r)"
    using assms(1) by (simp add: retire_threads_def)
  have kept: "map_of (pc_events ?r) t = (if t \<in> set threads then map_of (pc_events pc) t else None)" for t
    by (simp add: retire_threads_def map_of_retain)
  have keys: "tab_keys (pc_events ?r) \<subseteq> set threads"
    by (auto simp: retire_threads_def tab_retain_def)
  have gone: "ev \<in> set (pc_retired_events ?r)"
    if "map_of (pc_events pc) t = Some ev" "t \<notin> set threads" for t ev
    using that by (force simp: retire_threads_def dest: map_of_SomeD)
  show ?thesis
  proof (intro conjI)
    show "tab_keys (pc_events pc') \<subseteq> set threads"
      using keeps(4) keys by (auto simp: run(2) rebuild_poll_fds_def)
    show "\<forall>t ev. map_of (pc_events pc) t = Some ev \<longrightarrow>
       (if t \<in> set threads then map_of (pc_events pc') t = Some ev
        else ev \<in> set (pc_retired_events pc'))"
      using keeps(2,3) kept gone by (simp add: run(2) rebuild_poll_fds_def)
    show "\<forall>t \<in> set threads. map_of (pc_events pc') t = None \<longrightarrow>
       (\<exists>e. open_event t = Inl e) \<and> \<not> task_exists t"
      using open_threads_covers [OF run(1)] by (simp add: run(2) rebuild_poll_fds_def)
    show "collector_ok pc'"
      using keeps(1) [OF wf] by (simp add: collector_ok_def run(2) rebuild_poll_fds_def)
  qed
qed

theorem reconcile_keeps_events_witness:
  "sample_ring \<in> set (pc_retired_events (fst (reconcile_thread_ids (\<lambda>t. Inl ''gone'') (\<lambda>t. False) [5]
     \<lparr>pc_max_threads = 4, pc_events = [(7, sample_ring)], pc_retired_events = [],
      pc_poll_tids = [7]\<rparr>)))"
proof -
  let ?pc = "\<lparr>pc_max_threads = 4, pc_events = [(7, sample_ring)], pc_retired_events = [],
      pc_poll_tids = [7]\<rparr>"
  let ?run = "reconcile_thread_ids (\<lambda>t. Inl ''gone'') (\<lambda>t. False) [5] ?pc"
  have "snd ?run = Inr ()"
    by (simp add: reconcile_thread_ids_def retire_threads_def tab_retain_def)
  then have "?run = (fst ?run, Inr ())" by (metis prod.collapse)
  from reconcile_keeps_events [OF _ this] show ?thesis by auto
qed

end
