(* ===== verification/Off_Cpu.thy ===== *)
theory Off_Cpu
  imports Profile Text
begin

text \<open>
  \<open>src/src/platform/linux/off_cpu.rs\<close>: off-CPU intervals from context-switch events.

  \<^item> The BPF ring buffer, its statistics map and procfs are parameters of the steps that read them:
    the events that \<open>consume\<close> delivers, the per-CPU sums, the clock at a window boundary, and
    \<open>comm\<close>, the thread name at the time of an aggregation. The kernel's \<open>tracked_tids\<close> map is the
    field \<open>oc_kernel_tids\<close>.
  \<^item> \<open>on_ring_event\<close> is the ring-buffer callback with its bounded queue; the recycled buffers only
    save allocations and are not part of the state.
  \<^item> \<open>off_cpu_apply\<close>, \<open>aggregate\<close>, \<open>off_cpu_snapshot\<close> and \<open>apply_threads\<close> follow the methods.

  The laws: every event is accounted for in the window's counters, the tables stay within their
  bounds, and cutting intervals at window boundaries neither loses nor invents off-CPU time.
\<close>

definition event_header_size :: nat where "event_header_size = 24"
definition event_stack_size :: nat where "event_stack_size = event_header_size + 127 * 8"
definition event_switch_out :: u32 where "event_switch_out = 1"
definition event_switch_in :: u32 where "event_switch_in = 2"
definition event_queue_capacity :: nat where "event_queue_capacity = 4096"

record kernel_stats =
  ks_ringbuf_drops :: u64
  ks_stack_failures :: u64

record pending_interval =
  pi_pid :: u32
  pi_started :: u64
  pi_stack :: stack

record off_cpu_collector =
  oc_queue :: "u8 list list"
  oc_userspace_drops :: u64
  oc_pid :: i32
  oc_tracked_tids :: "(u32, u32) table"
  oc_kernel_tids :: "(u32, u32) table"
  oc_pending :: "(u32, pending_interval) table"
  oc_samples :: "(attributed_stack, off_cpu_values) table"
  oc_max_stacks :: nat
  oc_max_threads :: nat
  oc_previous_stats :: kernel_stats
  oc_switch_out_events :: u64
  oc_completed_intervals :: u64
  oc_incomplete_intervals :: u64
  oc_aggregation_dropped :: u64

record off_cpu_diagnostics =
  od_requested :: bool
  od_enabled :: bool
  od_switch_out_events :: u64
  od_completed_intervals :: u64
  od_incomplete_intervals :: u64
  od_nanoseconds :: i64
  od_aggregation_dropped :: u64
  od_ring_buffer_drops :: u64
  od_reason :: "string option"

section \<open>Reading an event\<close>

definition event_u32 :: "u8 list \<Rightarrow> nat \<Rightarrow> u32" where
  "event_u32 bs off = (case slice bs off (off + 4) of None \<Rightarrow> 0 | Some v \<Rightarrow> word_of_bytes v)"

definition event_i32 :: "u8 list \<Rightarrow> nat \<Rightarrow> i32" where
  "event_i32 bs off = (case slice bs off (off + 4) of None \<Rightarrow> 0 | Some v \<Rightarrow> word_of_bytes v)"

definition event_u64 :: "u8 list \<Rightarrow> nat \<Rightarrow> u64" where
  "event_u64 bs off = (case slice bs off (off + 8) of None \<Rightarrow> 0 | Some v \<Rightarrow> word_of_bytes v)"

definition event_frames :: "u8 list \<Rightarrow> nat \<Rightarrow> u64 list" where
  "event_frames bs stack_len =
     filter (\<lambda>a. a \<noteq> 0) (map (\<lambda>i. event_u64 bs (24 + i * 8)) [0..<min (stack_len div 8) 127])"

section \<open>Aggregation\<close>

definition i64_of_elapsed :: "u64 \<Rightarrow> i64" where
  "i64_of_elapsed e = i64_of_u64 e"

definition add_interval :: "u64 \<Rightarrow> bool \<Rightarrow> off_cpu_values \<Rightarrow> off_cpu_values" where
  "add_interval elapsed completed v =
     v\<lparr>oc_events := (if completed then i64_sat_add (oc_events v) 1 else oc_events v),
       oc_nanoseconds := i64_sat_add (oc_nanoseconds v) (i64_of_elapsed elapsed)\<rparr>"

definition aggregate ::
  "string option \<Rightarrow> u32 \<Rightarrow> u32 \<Rightarrow> stack \<Rightarrow> u64 \<Rightarrow> bool \<Rightarrow> off_cpu_collector \<Rightarrow> off_cpu_collector" where
  "aggregate comm pid tid s elapsed completed st =
     (let key = \<lparr>as_stack = s, as_pid = pid, as_tid = tid,
                 as_thread_name = map_option trim_end comm\<rparr>
      in case bounded_merge (oc_max_stacks st) key (add_interval elapsed completed)
                (add_interval elapsed completed off_cpu_values_default) (oc_samples st) of
           Some samples \<Rightarrow> st\<lparr>oc_samples := samples\<rparr>
         | None \<Rightarrow> st\<lparr>oc_aggregation_dropped := sat_add (oc_aggregation_dropped st) 1\<rparr>)"

definition count_incomplete :: "off_cpu_collector \<Rightarrow> off_cpu_collector" where
  "count_incomplete st = st\<lparr>oc_incomplete_intervals := sat_add (oc_incomplete_intervals st) 1\<rparr>"

section \<open>Events\<close>

definition switch_out :: "u8 list \<Rightarrow> off_cpu_collector \<Rightarrow> off_cpu_collector" where
  "switch_out bs st =
     (if length bs < event_stack_size then count_incomplete st
      else
        let st1 = st\<lparr>oc_switch_out_events := sat_add (oc_switch_out_events st) 1\<rparr>;
            fs = event_frames bs (nat (max (sint (event_i32 bs 12)) 0));
            tid = event_u32 bs 8
        in if fs = [] then count_incomplete st1
           else
             let st2 = st1\<lparr>oc_pending := AList.update tid
                          \<lparr>pi_pid = event_u32 bs 4, pi_started = event_u64 bs 16,
                           pi_stack = stack_of_addresses fs\<rparr> (oc_pending st1)\<rparr>
             in if map_of (oc_pending st1) tid \<noteq> None then count_incomplete st2 else st2)"

definition switch_in ::
  "(u32 \<Rightarrow> u32 \<Rightarrow> string option) \<Rightarrow> u8 list \<Rightarrow> off_cpu_collector \<Rightarrow> off_cpu_collector" where
  "switch_in comm bs st =
     (let tid = event_u32 bs 8
      in case map_of (oc_pending st) tid of
           None \<Rightarrow> st
         | Some iv \<Rightarrow>
             aggregate (comm (pi_pid iv) tid) (pi_pid iv) tid (pi_stack iv)
               (sat_sub (event_u64 bs 16) (pi_started iv)) True
               (st\<lparr>oc_pending := AList.delete tid (oc_pending st),
                   oc_completed_intervals := sat_add (oc_completed_intervals st) 1\<rparr>))"

definition off_cpu_apply ::
  "(u32 \<Rightarrow> u32 \<Rightarrow> string option) \<Rightarrow> u8 list \<Rightarrow> off_cpu_collector \<Rightarrow> off_cpu_collector" where
  "off_cpu_apply comm bs st =
     (if length bs < event_header_size then count_incomplete st
      else if event_u32 bs 0 = event_switch_out then switch_out bs st
      else if event_u32 bs 0 = event_switch_in then switch_in comm bs st
      else st)"

section \<open>Draining\<close>

definition on_ring_event :: "u8 list \<Rightarrow> off_cpu_collector \<Rightarrow> off_cpu_collector" where
  "on_ring_event bs st =
     (if length (oc_queue st) < event_queue_capacity
      then st\<lparr>oc_queue := oc_queue st @ [bs]\<rparr>
      else st\<lparr>oc_userspace_drops := oc_userspace_drops st + 1\<rparr>)"

definition off_cpu_drain ::
  "u8 list list \<Rightarrow> (u32 \<Rightarrow> u32 \<Rightarrow> string option) \<Rightarrow> off_cpu_collector \<Rightarrow> off_cpu_collector" where
  "off_cpu_drain events comm st =
     (let st1 = fold on_ring_event events st
      in fold (off_cpu_apply comm) (oc_queue st1) (st1\<lparr>oc_queue := []\<rparr>))"

section \<open>Windows\<close>

definition close_at :: "u64 \<Rightarrow> pending_interval \<Rightarrow> pending_interval" where
  "close_at boundary iv = iv\<lparr>pi_started := boundary\<rparr>"

definition aggregate_pending ::
  "(u32 \<Rightarrow> u32 \<Rightarrow> string option) \<Rightarrow> u64 \<Rightarrow> u32 \<times> pending_interval \<Rightarrow> off_cpu_collector \<Rightarrow>
   off_cpu_collector" where
  "aggregate_pending comm boundary p st =
     (let (tid, iv) = p
      in aggregate (comm (pi_pid iv) tid) (pi_pid iv) tid (pi_stack iv)
           (sat_sub boundary (pi_started iv)) False st)"

definition split_pending ::
  "(u32 \<Rightarrow> u32 \<Rightarrow> string option) \<Rightarrow> u64 \<Rightarrow> off_cpu_collector \<Rightarrow> off_cpu_collector" where
  "split_pending comm boundary st =
     fold (aggregate_pending comm boundary) (oc_pending st)
       (st\<lparr>oc_pending := map (map_prod id (close_at boundary)) (oc_pending st)\<rparr>)"

definition off_cpu_snapshot ::
  "(u32 \<Rightarrow> u32 \<Rightarrow> string option) \<Rightarrow> u64 \<Rightarrow> kernel_stats \<Rightarrow> off_cpu_collector \<Rightarrow>
   ((attributed_stack, off_cpu_values) table \<times> off_cpu_diagnostics) \<times> off_cpu_collector" where
  "off_cpu_snapshot comm boundary current st =
     (let st1 = split_pending comm boundary st;
          drops = sat_add (sat_sub (ks_ringbuf_drops current)
                             (ks_ringbuf_drops (oc_previous_stats st1)))
                    (oc_userspace_drops st1);
          failures = sat_sub (ks_stack_failures current)
                       (ks_stack_failures (oc_previous_stats st1));
          diagnostics =
            \<lparr>od_requested = True, od_enabled = True,
             od_switch_out_events = oc_switch_out_events st1,
             od_completed_intervals = oc_completed_intervals st1,
             od_incomplete_intervals = sat_add (oc_incomplete_intervals st1) failures,
             od_nanoseconds = foldl (\<lambda>total (_, v). i64_sat_add total (oc_nanoseconds v)) 0
                                (oc_samples st1),
             od_aggregation_dropped = oc_aggregation_dropped st1,
             od_ring_buffer_drops = drops, od_reason = None\<rparr>
      in ((oc_samples st1, diagnostics),
          st1\<lparr>oc_samples := [], oc_userspace_drops := 0, oc_previous_stats := current,
              oc_switch_out_events := 0, oc_completed_intervals := 0,
              oc_incomplete_intervals := 0, oc_aggregation_dropped := 0\<rparr>))"

text \<open>The whole method: the queue is drained first; when the statistics cannot be read it fails, with the
  running intervals already closed and their time kept in the samples of the next window.\<close>

definition off_cpu_snapshot_window ::
  "u8 list list \<Rightarrow> (u32 \<Rightarrow> u32 \<Rightarrow> string option) \<Rightarrow> u64 \<Rightarrow> kernel_stats option \<Rightarrow> off_cpu_collector \<Rightarrow>
   ((attributed_stack, off_cpu_values) table \<times> off_cpu_diagnostics) option \<times> off_cpu_collector" where
  "off_cpu_snapshot_window events comm boundary stats st =
     (let drained = off_cpu_drain events comm st
      in case stats of
           None \<Rightarrow> (None, split_pending comm boundary drained)
         | Some current \<Rightarrow>
             (let (window, st1) = off_cpu_snapshot comm boundary current drained
              in (Some window, st1)))"

section \<open>Threads\<close>

definition u32_of_i32 :: "i32 \<Rightarrow> u32 option" where
  "u32_of_i32 v = (if sint v \<ge> 0 then Some v else None)"

definition thread_table :: "(i32 \<times> i32 list) list \<Rightarrow> (u32, u32) table" where
  "thread_table threads_by_pid =
     foldl (\<lambda>m (tid, pid). case (u32_of_i32 tid, u32_of_i32 pid) of
              (Some t, Some p) \<Rightarrow> AList.update t p m
            | _ \<Rightarrow> m)
       [] [(tid, pid). (pid, tids) \<leftarrow> threads_by_pid, tid \<leftarrow> tids]"

datatype off_cpu_error = Off_Cpu_Too_Many_Threads nat nat | Tid_Map_Update_Failed u32

fun update_kernel_tids ::
  "(u32 \<Rightarrow> bool) \<Rightarrow> (u32, u32) table \<Rightarrow> off_cpu_collector \<Rightarrow>
   off_cpu_collector \<times> (off_cpu_error + unit)" where
  "update_kernel_tids update_ok [] st = (st, Inr ())"
| "update_kernel_tids update_ok ((tid, pid) # rest) st =
     (if map_of (oc_tracked_tids st) tid = Some pid then update_kernel_tids update_ok rest st
      else if update_ok tid
      then update_kernel_tids update_ok rest
             (st\<lparr>oc_kernel_tids := AList.update tid pid (oc_kernel_tids st)\<rparr>)
      else (st, Inl (Tid_Map_Update_Failed tid)))"

definition drop_thread :: "u32 \<Rightarrow> off_cpu_collector \<Rightarrow> off_cpu_collector" where
  "drop_thread tid st =
     (let st1 = st\<lparr>oc_kernel_tids := AList.delete tid (oc_kernel_tids st),
                   oc_pending := AList.delete tid (oc_pending st)\<rparr>
      in if map_of (oc_pending st) tid \<noteq> None then count_incomplete st1 else st1)"

definition apply_threads ::
  "(u32 \<Rightarrow> bool) \<Rightarrow> (u32, u32) table \<Rightarrow> off_cpu_collector \<Rightarrow>
   off_cpu_collector \<times> (off_cpu_error + unit)" where
  "apply_threads update_ok current st =
     (if length current > oc_max_threads st
      then (st, Inl (Off_Cpu_Too_Many_Threads (length current) (oc_max_threads st)))
      else case update_kernel_tids update_ok current st of
             (st1, Inl e) \<Rightarrow> (st1, Inl e)
           | (st1, Inr _) \<Rightarrow>
               (let gone = filter (\<lambda>t. map_of current t = None) (map fst (oc_tracked_tids st1))
                in ((fold drop_thread gone st1)\<lparr>oc_tracked_tids := current\<rparr>, Inr ())))"

definition reconcile_thread_snapshot ::
  "(u32 \<Rightarrow> bool) \<Rightarrow> (i32 \<times> i32 list) list \<Rightarrow> off_cpu_collector \<Rightarrow>
   off_cpu_collector \<times> (off_cpu_error + unit)" where
  "reconcile_thread_snapshot update_ok threads_by_pid st =
     apply_threads update_ok (thread_table threads_by_pid) st"

text \<open>\<open>cgroup_procs\<close> is the text of \<open>cgroup.procs\<close> when a cgroup is followed; \<open>read_threads\<close> fails
  for a process that is gone.\<close>

definition off_cpu_reconcile_threads ::
  "(u32 \<Rightarrow> bool) \<Rightarrow> string option \<Rightarrow> (i32 \<Rightarrow> i32 list option) \<Rightarrow> off_cpu_collector \<Rightarrow>
   off_cpu_collector \<times> (off_cpu_error + unit)" where
  "off_cpu_reconcile_threads update_ok cgroup_procs read_threads st =
     (let pids = (case cgroup_procs of
                    Some contents \<Rightarrow> List.map_filter parse_i32 (text_lines contents)
                  | None \<Rightarrow> [oc_pid st])
      in apply_threads update_ok
           (thread_table (map (\<lambda>pid. (pid, case read_threads pid of None \<Rightarrow> [] | Some ts \<Rightarrow> ts)) pids))
           st)"

definition monotonic_nanos :: "(int \<times> int) option \<Rightarrow> u64" where
  "monotonic_nanos clock =
     (case clock of
        None \<Rightarrow> 0
      | Some (sec, nsec) \<Rightarrow>
          sat_add (sat_mul (if sec < 0 then 0 else word_of_int sec) 1000000000)
            (if nsec < 0 then 0 else word_of_int nsec))"

definition sum_per_cpu :: "u8 list list \<Rightarrow> u64" where
  "sum_per_cpu per_cpu =
     sum_list (List.map_filter (\<lambda>v. map_option word_of_bytes (slice v 0 8)) per_cpu)"

definition off_cpu_read_stats :: "(nat \<Rightarrow> u8 list list option) \<Rightarrow> kernel_stats" where
  "off_cpu_read_stats lookup =
     (let stat = (\<lambda>i. case lookup i of None \<Rightarrow> 0 | Some per_cpu \<Rightarrow> sum_per_cpu per_cpu)
      in \<lparr>ks_ringbuf_drops = stat 0, ks_stack_failures = stat 1\<rparr>)"

section \<open>Aggregation changes the samples only\<close>

lemma aggregate_frame [simp]:
  "oc_pending (aggregate c p t s e b st) = oc_pending st"
  "oc_completed_intervals (aggregate c p t s e b st) = oc_completed_intervals st"
  "oc_incomplete_intervals (aggregate c p t s e b st) = oc_incomplete_intervals st"
  "oc_switch_out_events (aggregate c p t s e b st) = oc_switch_out_events st"
  "oc_max_stacks (aggregate c p t s e b st) = oc_max_stacks st"
  by (simp_all add: aggregate_def Let_def split: option.split)

lemma aggregate_bounded:
  "length (oc_samples st) \<le> oc_max_stacks st \<Longrightarrow>
   length (oc_samples (aggregate c p t s e b st)) \<le> oc_max_stacks st"
  by (auto simp: aggregate_def Let_def bounded_merge_length split: option.split)

lemma aggregate_wf: "tab_wf (oc_samples st) \<Longrightarrow> tab_wf (oc_samples (aggregate c p t s e b st))"
  by (auto simp: aggregate_def Let_def bounded_merge_wf split: option.split)

lemma count_incomplete_frame [simp]:
  "oc_pending (count_incomplete st) = oc_pending st"
  "oc_samples (count_incomplete st) = oc_samples st"
  "oc_max_stacks (count_incomplete st) = oc_max_stacks st"
  "oc_completed_intervals (count_incomplete st) = oc_completed_intervals st"
  "oc_switch_out_events (count_incomplete st) = oc_switch_out_events st"
  "oc_incomplete_intervals (count_incomplete st) = sat_add (oc_incomplete_intervals st) 1"
  by (simp_all add: count_incomplete_def)

section \<open>Every event is accounted for\<close>

definition malformed :: "u8 list \<Rightarrow> bool" where
  "malformed bs \<longleftrightarrow> length bs < event_header_size \<or>
     event_u32 bs 0 = event_switch_out \<and> length bs < event_stack_size"

definition outcomes :: "off_cpu_collector \<Rightarrow> nat" where
  "outcomes st = unat (oc_completed_intervals st) + unat (oc_incomplete_intervals st) +
     length (oc_pending st)"

definition sources :: "off_cpu_collector \<Rightarrow> nat" where
  "sources st = unat (oc_switch_out_events st)"

lemma unat_sat_add_1: "unat (a :: u64) + 1 < 2 ^ 64 \<Longrightarrow> unat (sat_add a 1) = unat a + 1"
  by (simp add: unat_sat_add)

lemma off_cpu_apply_accounts:
  assumes "tab_wf (oc_pending st)" "outcomes st + 1 < 2 ^ 64" "sources st + 1 < 2 ^ 64"
  shows "outcomes (off_cpu_apply comm bs st) + sources st =
      outcomes st + sources (off_cpu_apply comm bs st) + (if malformed bs then 1 else 0) \<and>
    outcomes (off_cpu_apply comm bs st) \<le> outcomes st + 1 \<and>
    sources (off_cpu_apply comm bs st) \<le> sources st + 1 \<and>
    tab_wf (oc_pending (off_cpu_apply comm bs st))"
proof -
  have one: "unat (sat_add (oc_completed_intervals st) 1) = unat (oc_completed_intervals st) + 1"
      "unat (sat_add (oc_incomplete_intervals st) 1) = unat (oc_incomplete_intervals st) + 1"
      "unat (sat_add (oc_switch_out_events st) 1) = unat (oc_switch_out_events st) + 1"
    using assms(2,3) by (simp_all add: unat_sat_add_1 outcomes_def sources_def)
  consider (short) "length bs < event_header_size"
    | (out) "\<not> length bs < event_header_size" "event_u32 bs 0 = event_switch_out"
    | (inn) "\<not> length bs < event_header_size" "event_u32 bs 0 \<noteq> event_switch_out"
    by blast
  then show ?thesis
  proof cases
    case short
    with assms(1) one show ?thesis
      by (simp add: off_cpu_apply_def malformed_def outcomes_def sources_def)
  next
    case out
    with assms(1) one show ?thesis
      by (auto simp: off_cpu_apply_def switch_out_def Let_def malformed_def outcomes_def sources_def
          length_update)
  next
    case inn
    show ?thesis
    proof (cases "event_u32 bs 0 = event_switch_in \<and> map_of (oc_pending st) (event_u32 bs 8) \<noteq> None")
      case False
      with inn assms(1) show ?thesis
        by (auto simp: off_cpu_apply_def switch_in_def Let_def malformed_def outcomes_def sources_def
            split: option.split dest: map_of_SomeD)
    next
      case True
      then obtain iv where iv: "map_of (oc_pending st) (event_u32 bs 8) = Some iv" by auto
      then have "0 < length (oc_pending st)" by auto
      with inn True iv assms(1) one show ?thesis
        by (simp add: off_cpu_apply_def switch_in_def Let_def malformed_def outcomes_def sources_def
            length_delete)
    qed
  qed
qed

lemma drop_thread_accounts:
  assumes "tab_wf (oc_pending st)" "outcomes st < 2 ^ 64"
  shows "outcomes (drop_thread tid st) = outcomes st \<and> sources (drop_thread tid st) = sources st \<and>
    tab_wf (oc_pending (drop_thread tid st))"
proof (cases "map_of (oc_pending st) tid")
  case None
  with assms show ?thesis
    by (simp add: drop_thread_def Let_def outcomes_def sources_def length_delete)
next
  case (Some iv)
  then have pos: "0 < length (oc_pending st)" by auto
  then have "unat (oc_incomplete_intervals st) + 1 < 2 ^ 64"
    using assms(2) unfolding outcomes_def by linarith
  then have "unat (sat_add (oc_incomplete_intervals st) 1) = unat (oc_incomplete_intervals st) + 1"
    by (rule unat_sat_add_1)
  with pos Some assms(1) show ?thesis
    by (simp add: drop_thread_def Let_def outcomes_def sources_def length_delete)
qed

lemma drop_threads_account:
  assumes "tab_wf (oc_pending st)" "outcomes st < 2 ^ 64"
  shows "outcomes (fold drop_thread ts st) = outcomes st \<and>
    sources (fold drop_thread ts st) = sources st \<and> tab_wf (oc_pending (fold drop_thread ts st))"
  using assms
proof (induction ts arbitrary: st)
  case Nil
  then show ?case by simp
next
  case (Cons t ts)
  from drop_thread_accounts [OF Cons.prems, of t] Cons.IH [of "drop_thread t st"] Cons.prems(2)
  show ?case by simp
qed

lemma update_kernel_tids_frame:
  "update_kernel_tids ok cur st = (st', r) \<Longrightarrow>
   oc_pending st' = oc_pending st \<and> outcomes st' = outcomes st \<and> sources st' = sources st \<and>
   oc_tracked_tids st' = oc_tracked_tids st"
  by (induction ok cur st rule: update_kernel_tids.induct)
    (auto simp: outcomes_def sources_def split: if_splits)

lemma apply_threads_accounts:
  assumes "tab_wf (oc_pending st)" "outcomes st < 2 ^ 64"
  shows "outcomes (fst (apply_threads ok cur st)) = outcomes st \<and>
    sources (fst (apply_threads ok cur st)) = sources st \<and>
    tab_wf (oc_pending (fst (apply_threads ok cur st)))"
proof (cases "length cur > oc_max_threads st")
  case True
  with assms show ?thesis by (simp add: apply_threads_def)
next
  case False
  obtain st1 r where run: "update_kernel_tids ok cur st = (st1, r)"
    by (cases "update_kernel_tids ok cur st")
  note frame = update_kernel_tids_frame [OF run]
  show ?thesis
  proof (cases r)
    case (Inl e)
    with False run frame assms show ?thesis by (simp add: apply_threads_def)
  next
    case (Inr u)
    let ?gone = "filter (\<lambda>t. map_of cur t = None) (map fst (oc_tracked_tids st1))"
    have "fst (apply_threads ok cur st) = (fold drop_thread ?gone st1)\<lparr>oc_tracked_tids := cur\<rparr>"
      using False run Inr by (simp add: apply_threads_def Let_def)
    moreover have "outcomes (x\<lparr>oc_tracked_tids := cur\<rparr>) = outcomes x"
        "sources (x\<lparr>oc_tracked_tids := cur\<rparr>) = sources x" for x
      by (simp_all add: outcomes_def sources_def)
    ultimately show ?thesis
      using drop_threads_account [of st1 ?gone] frame assms by simp
  qed
qed

text \<open>What happens between two window boundaries.\<close>

datatype off_cpu_op =
  Event "u8 list"
| Threads "(u32, u32) table"

fun off_cpu_step ::
  "(u32 \<Rightarrow> u32 \<Rightarrow> string option) \<Rightarrow> (u32 \<Rightarrow> bool) \<Rightarrow> off_cpu_collector \<Rightarrow> off_cpu_op \<Rightarrow>
   off_cpu_collector" where
  "off_cpu_step comm ok st (Event bs) = off_cpu_apply comm bs st"
| "off_cpu_step comm ok st (Threads cur) = fst (apply_threads ok cur st)"

fun malformed_op :: "off_cpu_op \<Rightarrow> bool" where
  "malformed_op (Event bs) = malformed bs"
| "malformed_op (Threads cur) = False"

lemma off_cpu_run_accounts:
  assumes "tab_wf (oc_pending st)" "outcomes st + length ops < 2 ^ 64" "sources st + length ops < 2 ^ 64"
  shows "outcomes (foldl (off_cpu_step comm ok) st ops) + sources st =
    outcomes st + sources (foldl (off_cpu_step comm ok) st ops) + length (filter malformed_op ops)"
  using assms
proof (induction ops arbitrary: st)
  case Nil
  then show ?case by simp
next
  case (Cons op ops)
  show ?case
  proof (cases op)
    case (Event bs)
    have one: "outcomes st + 1 < 2 ^ 64" "sources st + 1 < 2 ^ 64" using Cons.prems(2,3) by simp_all
    note step = off_cpu_apply_accounts [OF Cons.prems(1) one, of comm bs]
    let ?st = "off_cpu_apply comm bs st"
    have "outcomes ?st + length ops < 2 ^ 64" "sources ?st + length ops < 2 ^ 64"
      using step Cons.prems(2,3) by simp_all
    with Cons.IH [of ?st] step Event show ?thesis by (simp split: if_splits)
  next
    case (Threads cur)
    have lt: "outcomes st < 2 ^ 64" using Cons.prems(2) by simp
    note step = apply_threads_accounts [OF Cons.prems(1) lt, of ok cur]
    with Cons.IH [of "fst (apply_threads ok cur st)"] Cons.prems Threads show ?thesis by simp
  qed
qed

section \<open>Time is conserved\<close>

abbreviation nanos :: "off_cpu_collector \<Rightarrow> nat" where
  "nanos st \<equiv> tab_sum (\<lambda>v. i64_nat (oc_nanoseconds v)) (oc_samples st)"

definition nanos_ok :: "(attributed_stack, off_cpu_values) table \<Rightarrow> bool" where
  "nanos_ok m \<longleftrightarrow> tab_wf m \<and> (\<forall>k v. map_of m k = Some v \<longrightarrow> 0 \<le> sint (oc_nanoseconds v))"

text \<open>The off-CPU time of the open intervals, up to the time \<open>now\<close>.\<close>

definition open_time :: "nat \<Rightarrow> (u32, pending_interval) table \<Rightarrow> nat" where
  "open_time now m = tab_sum (\<lambda>iv. now - unat (pi_started iv)) m"

lemma open_time_simps [simp]:
  "open_time now [] = 0"
  "open_time now ((t, iv) # m) = now - unat (pi_started iv) + open_time now m"
  by (simp_all add: open_time_def)

lemma aggregate_time:
  assumes "nanos_ok (oc_samples st)" "length (oc_samples st) < oc_max_stacks st"
    and "nanos st + unat e < 2 ^ 63"
  shows "nanos (aggregate c p t s e b st) = nanos st + unat e \<and>
    nanos_ok (oc_samples (aggregate c p t s e b st)) \<and>
    length (oc_samples (aggregate c p t s e b st)) \<le> Suc (length (oc_samples st))"
proof -
  let ?g = "\<lambda>v. i64_nat (oc_nanoseconds v)"
  define key where "key = \<lparr>as_stack = s, as_pid = p, as_tid = t, as_thread_name = map_option trim_end c\<rparr>"
  obtain m where m: "bounded_merge (oc_max_stacks st) key (add_interval e b)
      (add_interval e b off_cpu_values_default) (oc_samples st) = Some m"
    using assms(2) by (fastforce simp: bounded_merge_def split: option.split)
  have agg: "aggregate c p t s e b st = st\<lparr>oc_samples := m\<rparr>"
    using m by (simp add: aggregate_def key_def Let_def)
  have e: "i64_nat (i64_of_elapsed e) = unat e" "0 \<le> sint (i64_of_elapsed e)"
    using assms(3) by (simp_all add: i64_of_elapsed_def i64_nat_of_u64 i64_nonneg_of)
  have wf: "tab_wf (oc_samples st)" using assms(1) by (simp add: nanos_ok_def)
  have old: "?g (add_interval e b v) = ?g v + unat e" "0 \<le> sint (oc_nanoseconds (add_interval e b v))"
    if "map_of (oc_samples st) key = Some v" for v
  proof -
    have "?g v \<le> nanos st" using tab_sum_ge [OF that, of ?g] .
    moreover have "0 \<le> sint (oc_nanoseconds v)" using assms(1) that by (auto simp: nanos_ok_def)
    ultimately show "?g (add_interval e b v) = ?g v + unat e"
        "0 \<le> sint (oc_nanoseconds (add_interval e b v))"
      using e assms(3) by (simp_all add: add_interval_def i64_nat_sat_add i64_nonneg_sat_add)
  qed
  have new: "?g (add_interval e b off_cpu_values_default) = unat e"
      "0 \<le> sint (oc_nanoseconds (add_interval e b off_cpu_values_default))"
    using e assms(3)
    by (simp_all add: add_interval_def off_cpu_values_default_def i64_nat_sat_add i64_nonneg_sat_add)
  have "nanos_ok m"
    using bounded_merge_wf [OF m wf] bounded_merge_map_of [OF m] assms(1) old(2) new(2)
    by (auto simp: nanos_ok_def split: if_splits option.splits)
  moreover have "tab_sum ?g m = nanos st + unat e"
    by (rule bounded_merge_sum [OF m wf]) (simp_all add: old new)
  moreover have "length m \<le> Suc (length (oc_samples st))"
    using m by (auto simp: bounded_merge_def length_update split: option.splits if_splits)
  ultimately show ?thesis by (simp add: agg)
qed

lemma split_pending_time:
  assumes "nanos_ok (oc_samples st)" "length (oc_samples st) + length m \<le> oc_max_stacks st"
    and "nanos st + open_time (unat b) m < 2 ^ 63"
  shows "nanos (fold (aggregate_pending comm b) m st) = nanos st + open_time (unat b) m \<and>
    oc_pending (fold (aggregate_pending comm b) m st) = oc_pending st \<and>
    oc_max_stacks (fold (aggregate_pending comm b) m st) = oc_max_stacks st"
  using assms
proof (induction m arbitrary: st)
  case Nil
  then show ?case by simp
next
  case (Cons q m)
  obtain t iv where q: "q = (t, iv)" by (cases q)
  let ?st = "aggregate_pending comm b q st"
  have "nanos ?st = nanos st + (unat b - unat (pi_started iv)) \<and> nanos_ok (oc_samples ?st) \<and>
      length (oc_samples ?st) \<le> Suc (length (oc_samples st))"
    using aggregate_time [OF Cons.prems(1), of "sat_sub b (pi_started iv)"] Cons.prems(2,3)
    by (simp add: aggregate_pending_def q unat_sat_sub)
  moreover have "oc_pending ?st = oc_pending st" "oc_max_stacks ?st = oc_max_stacks st"
    by (simp_all add: aggregate_pending_def q)
  ultimately show ?case using Cons.IH [of ?st] Cons.prems(2,3) by (simp add: q)
qed

text \<open>The timed operations, and the number of threads that are off the CPU before each.\<close>

datatype timed_op = Switch "u8 list" | Boundary u64 kernel_stats

fun op_time :: "timed_op \<Rightarrow> nat" where
  "op_time (Switch bs) = unat (event_u64 bs 16)"
| "op_time (Boundary b stats) = unat b"

definition is_out :: "u8 list \<Rightarrow> bool" where
  "is_out bs \<longleftrightarrow> event_stack_size \<le> length bs \<and> event_u32 bs 0 = event_switch_out \<and>
     event_frames bs (nat (max (sint (event_i32 bs 12)) 0)) \<noteq> []"

definition is_in :: "u8 list \<Rightarrow> bool" where
  "is_in bs \<longleftrightarrow> event_header_size \<le> length bs \<and> event_u32 bs 0 = event_switch_in"

fun tids_after :: "u32 list \<Rightarrow> timed_op \<Rightarrow> u32 list" where
  "tids_after off (Switch bs) =
     (if is_out bs then event_u32 bs 8 # off else filter (\<lambda>t. t \<noteq> event_u32 bs 8) off)"
| "tids_after off (Boundary b stats) = off"

text \<open>Times do not go back; a thread that is on the CPU leaves it, one that is off returns.\<close>

fun bracketed :: "nat \<Rightarrow> u32 list \<Rightarrow> timed_op list \<Rightarrow> bool" where
  "bracketed now off [] = True"
| "bracketed now off (op # ops) =
     (now \<le> op_time op \<and>
      (case op of
         Switch bs \<Rightarrow> is_out bs \<and> event_u32 bs 8 \<notin> set off \<or> is_in bs \<and> event_u32 bs 8 \<in> set off
       | Boundary b stats \<Rightarrow> True) \<and>
      bracketed (op_time op) (tids_after off op) ops)"

fun last_time :: "nat \<Rightarrow> timed_op list \<Rightarrow> nat" where
  "last_time now [] = now"
| "last_time now (op # ops) = last_time (op_time op) ops"

text \<open>The integral over time of the number of threads off the CPU.\<close>

fun off_cpu_integral :: "nat \<Rightarrow> u32 list \<Rightarrow> timed_op list \<Rightarrow> nat" where
  "off_cpu_integral now off [] = 0"
| "off_cpu_integral now off (op # ops) =
     (op_time op - now) * length off + off_cpu_integral (op_time op) (tids_after off op) ops"

fun timed_run ::
  "(u32 \<Rightarrow> u32 \<Rightarrow> string option) \<Rightarrow> nat \<Rightarrow> off_cpu_collector \<Rightarrow> timed_op list \<Rightarrow>
   nat \<times> off_cpu_collector" where
  "timed_run comm emitted st [] = (emitted, st)"
| "timed_run comm emitted st (Switch bs # ops) = timed_run comm emitted (off_cpu_apply comm bs st) ops"
| "timed_run comm emitted st (Boundary b stats # ops) =
     (let ((samples, _), st') = off_cpu_snapshot comm b stats st
      in timed_run comm (emitted + tab_sum (\<lambda>v. i64_nat (oc_nanoseconds v)) samples) st' ops)"

definition time_inv :: "nat \<Rightarrow> u32 list \<Rightarrow> off_cpu_collector \<Rightarrow> bool" where
  "time_inv now off st \<longleftrightarrow>
     nanos_ok (oc_samples st) \<and> tab_wf (oc_pending st) \<and> distinct off \<and>
     tab_keys (oc_pending st) = set off \<and>
     (\<forall>iv \<in> snd ` set (oc_pending st). unat (pi_started iv) \<le> now)"

lemma open_time_advance:
  assumes "\<forall>iv \<in> snd ` set m. unat (pi_started iv) \<le> now" "now \<le> later"
  shows "open_time later m = open_time now m + (later - now) * length m"
  using assms(1)
proof (induction m)
  case Nil
  then show ?case by simp
next
  case (Cons p m)
  then show ?case using assms(2) by (cases p) simp
qed

lemma time_inv_length: "time_inv now off st \<Longrightarrow> length (oc_pending st) = length off"
  by (simp add: time_inv_def length_tab_keys distinct_card)

lemma switch_out_time:
  assumes "time_inv now off st" "is_out bs" "event_u32 bs 8 \<notin> set off" "now \<le> unat (event_u64 bs 16)"
    and st'_def: "st' = off_cpu_apply comm bs st"
  shows "time_inv (unat (event_u64 bs 16)) (event_u32 bs 8 # off) st' \<and>
    nanos st' = nanos st \<and> oc_samples st' = oc_samples st \<and> oc_max_stacks st' = oc_max_stacks st \<and>
    open_time (unat (event_u64 bs 16)) (oc_pending st') = open_time (unat (event_u64 bs 16)) (oc_pending st)"
proof -
  define iv where "iv = \<lparr>pi_pid = event_u32 bs 4, pi_started = event_u64 bs 16,
      pi_stack = stack_of_addresses (event_frames bs (nat (max (sint (event_i32 bs 12)) 0)))\<rparr>"
  have new: "map_of (oc_pending st) (event_u32 bs 8) = None"
    using assms(1,3) by (simp add: time_inv_def map_of_eq_None_iff)
  have long: "\<not> length bs < event_stack_size" "\<not> length bs < event_header_size"
    using assms(2) by (simp_all add: is_out_def event_stack_size_def)
  have st': "st' = st\<lparr>oc_switch_out_events := sat_add (oc_switch_out_events st) 1,
      oc_pending := AList.update (event_u32 bs 8) iv (oc_pending st)\<rparr>"
    using assms(2) long new
    by (simp add: st'_def off_cpu_apply_def switch_out_def is_out_def Let_def iv_def
        del: map_of_eq_None_iff)
  have same: "open_time (unat (event_u64 bs 16)) (AList.update (event_u32 bs 8) iv (oc_pending st)) =
      open_time (unat (event_u64 bs 16)) (oc_pending st)"
    using tab_sum_update [of "oc_pending st" "\<lambda>iv. unat (event_u64 bs 16) - unat (pi_started iv)"
        "event_u32 bs 8" iv] assms(1) new
    by (simp add: open_time_def time_inv_def iv_def del: map_of_eq_None_iff)
  have started: "\<forall>jv \<in> snd ` set (AList.update (event_u32 bs 8) iv (oc_pending st)).
      unat (pi_started jv) \<le> unat (event_u64 bs 16)"
  proof
    fix jv assume "jv \<in> snd ` set (AList.update (event_u32 bs 8) iv (oc_pending st))"
    then have "jv = iv \<or> jv \<in> snd ` set (oc_pending st)"
      by (rule subsetD [OF snd_set_update, THEN insertE]) simp_all
    then show "unat (pi_started jv) \<le> unat (event_u64 bs 16)"
    proof
      assume "jv \<in> snd ` set (oc_pending st)"
      with assms(1) have "unat (pi_started jv) \<le> now" unfolding time_inv_def by blast
      with assms(4) show ?thesis by (rule le_trans [rotated])
    qed (simp add: iv_def)
  qed
  have keys: "tab_keys (AList.update (event_u32 bs 8) iv (oc_pending st)) = set (event_u32 bs 8 # off)"
    using assms(1) unfolding dom_update time_inv_def by simp
  have wf: "tab_wf (AList.update (event_u32 bs 8) iv (oc_pending st))" "distinct (event_u32 bs 8 # off)"
    using assms(1,3) by (simp_all add: time_inv_def)
  have pend: "oc_pending st' = AList.update (event_u32 bs 8) iv (oc_pending st)"
      "oc_samples st' = oc_samples st" "oc_max_stacks st' = oc_max_stacks st"
    by (simp_all add: st')
  have "nanos_ok (oc_samples st)" using assms(1) by (simp add: time_inv_def)
  with started keys wf have "time_inv (unat (event_u64 bs 16)) (event_u32 bs 8 # off) st'"
    unfolding time_inv_def pend by blast
  with same show ?thesis unfolding pend by blast
qed

lemma switch_in_time:
  assumes "time_inv now off st" "is_in bs" "event_u32 bs 8 \<in> set off" "now \<le> unat (event_u64 bs 16)"
    and "length (oc_samples st) < oc_max_stacks st"
    and "nanos st + open_time (unat (event_u64 bs 16)) (oc_pending st) < 2 ^ 63"
    and st'_def: "st' = off_cpu_apply comm bs st"
  shows "time_inv (unat (event_u64 bs 16)) (filter (\<lambda>t. t \<noteq> event_u32 bs 8) off) st' \<and>
    nanos st' + open_time (unat (event_u64 bs 16)) (oc_pending st') =
      nanos st + open_time (unat (event_u64 bs 16)) (oc_pending st) \<and>
    length (oc_samples st') \<le> Suc (length (oc_samples st)) \<and> oc_max_stacks st' = oc_max_stacks st \<and>
    Suc (length (oc_pending st')) = length (oc_pending st)"
proof -
  let ?tid = "event_u32 bs 8" and ?now = "unat (event_u64 bs 16)"
  let ?g = "\<lambda>iv. ?now - unat (pi_started iv)"
  have wf: "tab_wf (oc_pending st)" using assms(1) by (simp add: time_inv_def)
  have "?tid \<in> tab_keys (oc_pending st)" using assms(1,3) by (simp add: time_inv_def)
  then obtain iv where iv: "map_of (oc_pending st) ?tid = Some iv"
    by (cases "map_of (oc_pending st) ?tid") (auto simp: map_of_eq_None_iff)
  define st1 where "st1 = st\<lparr>oc_pending := AList.delete ?tid (oc_pending st),
      oc_completed_intervals := sat_add (oc_completed_intervals st) 1\<rparr>"
  let ?e = "sat_sub (event_u64 bs 16) (pi_started iv)"
  have st': "st' = aggregate (comm (pi_pid iv) ?tid) (pi_pid iv) ?tid (pi_stack iv) ?e True st1"
    using assms(2) iv
    by (simp add: st'_def off_cpu_apply_def switch_in_def is_in_def event_switch_in_def
        event_switch_out_def st1_def Let_def)
  have sum: "open_time ?now (AList.delete ?tid (oc_pending st)) + unat ?e =
      open_time ?now (oc_pending st)"
    using tab_sum_delete [OF wf, of ?g ?tid] iv by (simp add: open_time_def unat_sat_sub)
  have agg: "nanos st' = nanos st1 + unat ?e \<and> nanos_ok (oc_samples st') \<and>
      length (oc_samples st') \<le> Suc (length (oc_samples st1))"
    unfolding st' using assms(1,5,6) sum
    by (intro aggregate_time) (simp_all add: st1_def time_inv_def)
  have pend: "oc_pending st' = AList.delete ?tid (oc_pending st)" "oc_max_stacks st' = oc_max_stacks st"
    by (simp_all add: st' st1_def)
  have started: "\<forall>jv \<in> snd ` set (AList.delete ?tid (oc_pending st)). unat (pi_started jv) \<le> ?now"
  proof
    fix jv assume "jv \<in> snd ` set (AList.delete ?tid (oc_pending st))"
    then have "jv \<in> snd ` set (oc_pending st)" by (rule subsetD [OF snd_set_delete])
    with assms(1) have "unat (pi_started jv) \<le> now" unfolding time_inv_def by blast
    with assms(4) show "unat (pi_started jv) \<le> ?now" by (rule le_trans [rotated])
  qed
  have keys: "tab_keys (AList.delete ?tid (oc_pending st)) = set (filter (\<lambda>t. t \<noteq> ?tid) off)"
    using assms(1) unfolding tab_keys_delete time_inv_def by auto
  have len: "Suc (length (AList.delete ?tid (oc_pending st))) = length (oc_pending st)"
    using length_delete [OF wf, of ?tid] iv by (cases "oc_pending st") auto
  have st1: "oc_samples st1 = oc_samples st" by (simp add: st1_def)
  have "distinct (filter (\<lambda>t. t \<noteq> ?tid) off)" using assms(1) by (simp add: time_inv_def)
  with agg started keys wf have "time_inv ?now (filter (\<lambda>t. t \<noteq> ?tid) off) st'"
    unfolding time_inv_def pend by (blast intro: tab_wf_delete)
  moreover have "nanos st' + open_time ?now (AList.delete ?tid (oc_pending st)) =
      nanos st + open_time ?now (oc_pending st)"
    using agg sum unfolding st1 by linarith
  ultimately show ?thesis using agg len unfolding pend st1 by blast
qed

lemma open_time_closed: "open_time (unat b) (map (map_prod id (close_at b)) m) = 0"
  by (induction m) (auto simp: close_at_def)

lemma boundary_time:
  assumes inv: "time_inv now off st" and le: "now \<le> unat b"
    and room: "length (oc_samples st) + length (oc_pending st) \<le> oc_max_stacks st"
    and small: "nanos st + open_time (unat b) (oc_pending st) < 2 ^ 63"
    and run: "off_cpu_snapshot comm b stats st = ((samples, d), st')"
  shows "tab_sum (\<lambda>v. i64_nat (oc_nanoseconds v)) samples =
      nanos st + open_time (unat b) (oc_pending st) \<and>
    time_inv (unat b) off st' \<and> oc_samples st' = [] \<and> oc_max_stacks st' = oc_max_stacks st \<and>
    length (oc_pending st') = length (oc_pending st) \<and> open_time (unat b) (oc_pending st') = 0"
proof -
  let ?m = "map (map_prod id (close_at b)) (oc_pending st)"
  let ?st0 = "st\<lparr>oc_pending := ?m\<rparr>"
  have ok: "nanos_ok (oc_samples ?st0)" using inv by (simp add: time_inv_def)
  have split: "nanos (split_pending comm b st) = nanos st + open_time (unat b) (oc_pending st) \<and>
      oc_pending (split_pending comm b st) = ?m \<and>
      oc_max_stacks (split_pending comm b st) = oc_max_stacks st"
    using split_pending_time [OF ok, of "oc_pending st" b comm] room small
    by (simp add: split_pending_def)
  have st': "oc_samples st' = []" "oc_pending st' = ?m" "oc_max_stacks st' = oc_max_stacks st"
      "samples = oc_samples (split_pending comm b st)"
    using run split by (auto simp: off_cpu_snapshot_def Let_def)
  have keys: "map fst ?m = map fst (oc_pending st)" by simp
  have "tab_wf ?m" "tab_keys ?m = tab_keys (oc_pending st)"
    using inv by (simp_all add: time_inv_def comp_def image_image)
  moreover have "\<forall>iv \<in> snd ` set ?m. unat (pi_started iv) \<le> unat b"
    by (auto simp: close_at_def)
  ultimately have "time_inv (unat b) off st'"
    using inv unfolding time_inv_def st' by (simp add: nanos_ok_def)
  with split st' show ?thesis by (simp add: open_time_closed)
qed

lemma timed_run_conserves:
  assumes "time_inv now off st" "bracketed now off ops"
    and "length (oc_samples st) + length (oc_pending st) + length ops \<le> oc_max_stacks st"
    and "emitted + nanos st + open_time now (oc_pending st) + off_cpu_integral now off ops < 2 ^ 63"
    and "timed_run comm emitted st ops = (emitted', st')"
  shows "emitted' + nanos st' + open_time (last_time now ops) (oc_pending st') =
    emitted + nanos st + open_time now (oc_pending st) + off_cpu_integral now off ops"
  using assms
proof (induction ops arbitrary: now off st emitted)
  case Nil
  then show ?case by simp
next
  case (Cons op ops)
  note inv = Cons.prems(1)
  have later: "now \<le> op_time op" and rest: "bracketed (op_time op) (tids_after off op) ops"
    using Cons.prems(2) by simp_all
  have adv: "open_time (op_time op) (oc_pending st) =
      open_time now (oc_pending st) + (op_time op - now) * length off"
    using inv later time_inv_length [OF inv] by (subst open_time_advance) (simp_all add: time_inv_def)
  let ?int = "off_cpu_integral (op_time op) (tids_after off op) ops"
  have total: "emitted + nanos st + open_time now (oc_pending st) + off_cpu_integral now off (op # ops) =
      emitted + nanos st + open_time (op_time op) (oc_pending st) + ?int"
    using adv by simp
  have small: "emitted + nanos st + open_time (op_time op) (oc_pending st) + ?int < 2 ^ 63"
    using Cons.prems(4) total by simp
  show ?case
  proof (cases op)
    case (Boundary b stats)
    obtain samples d st1 where snap: "off_cpu_snapshot comm b stats st = ((samples, d), st1)"
      by (metis prod.exhaust)
    have now_b: "now \<le> unat b" using later Boundary by simp
    have room: "length (oc_samples st) + length (oc_pending st) \<le> oc_max_stacks st"
      using Cons.prems(3) by simp
    have "nanos st + open_time (unat b) (oc_pending st) < 2 ^ 63" using small Boundary by simp
    note step = boundary_time [OF inv now_b room this snap]
    let ?e = "emitted + tab_sum (\<lambda>v. i64_nat (oc_nanoseconds v)) samples"
    have run: "timed_run comm ?e st1 ops = (emitted', st')"
      using Cons.prems(5) Boundary snap by simp
    show ?thesis
      using Cons.IH [of "unat b" off st1 ?e] step rest run small total Cons.prems(3) Boundary by simp
  next
    case (Switch bs)
    let ?st = "off_cpu_apply comm bs st"
    have run: "timed_run comm emitted ?st ops = (emitted', st')" using Cons.prems(5) Switch by simp
    have cases: "is_out bs \<and> event_u32 bs 8 \<notin> set off \<or> is_in bs \<and> event_u32 bs 8 \<in> set off"
      and now_s: "now \<le> unat (event_u64 bs 16)"
      using Cons.prems(2) Switch by simp_all
    show ?thesis
    proof (cases "is_out bs")
      case True
      then have new: "event_u32 bs 8 \<notin> set off"
        using cases by (auto simp: is_out_def is_in_def event_switch_out_def event_switch_in_def)
      note step = switch_out_time [OF inv True new now_s refl, of comm]
      then have "length (oc_pending ?st) = Suc (length (oc_pending st))"
        using time_inv_length [OF inv] time_inv_length [of _ _ ?st] by fastforce
      with Cons.IH [of "unat (event_u64 bs 16)" "event_u32 bs 8 # off" ?st emitted] step rest run small
        total Cons.prems(3) Switch True
      show ?thesis by simp
    next
      case False
      then have inn: "is_in bs" "event_u32 bs 8 \<in> set off" using cases by auto
      have room: "length (oc_samples st) < oc_max_stacks st" using Cons.prems(3) by simp
      have "nanos st + open_time (unat (event_u64 bs 16)) (oc_pending st) < 2 ^ 63"
        using small Switch by simp
      note step = switch_in_time [OF inv inn now_s room this refl, of comm]
      with Cons.IH [of "unat (event_u64 bs 16)" "filter (\<lambda>t. t \<noteq> event_u32 bs 8) off" ?st emitted]
        rest run small total Cons.prems(3) Switch False
      show ?thesis by simp
    qed
  qed
qed

section \<open>Properties\<close>

text \<open>C14: Between two window boundaries every context-switch event and every removed thread is accounted
  for: the switch-outs, the malformed events and the intervals that were open at the start are
  together as many as the completed, the incomplete and the still open intervals.\<close>

theorem off_cpu_events_accounted:
  assumes "tab_wf (oc_pending st)" "oc_switch_out_events st = 0" "oc_completed_intervals st = 0"
    and "oc_incomplete_intervals st = 0" "length (oc_pending st) + length ops < 2 ^ 64"
    and "st' = foldl (off_cpu_step comm update_ok) st ops"
  shows "unat (oc_switch_out_events st') + length (filter malformed_op ops) + length (oc_pending st) =
    unat (oc_completed_intervals st') + unat (oc_incomplete_intervals st') + length (oc_pending st')"
proof -
  have zero: "outcomes st = length (oc_pending st)" "sources st = 0"
    using assms(2-4) by (simp_all add: outcomes_def sources_def)
  have "outcomes st + length ops < 2 ^ 64" "sources st + length ops < 2 ^ 64"
    using assms(5) by (simp_all add: zero)
  from off_cpu_run_accounts [OF assms(1) this, of comm update_ok] show ?thesis
    unfolding assms(6) [symmetric] zero by (simp add: outcomes_def sources_def)
qed

definition idle_collector :: off_cpu_collector where
  "idle_collector =
     \<lparr>oc_queue = [], oc_userspace_drops = 0, oc_pid = 1, oc_tracked_tids = [(7, 1)],
      oc_kernel_tids = [(7, 1)],
      oc_pending = [(7, \<lparr>pi_pid = 1, pi_started = 10, pi_stack = stack_of_addresses [99]\<rparr>)],
      oc_samples = [], oc_max_stacks = 4, oc_max_threads = 8,
      oc_previous_stats = \<lparr>ks_ringbuf_drops = 0, ks_stack_failures = 0\<rparr>,
      oc_switch_out_events = 0, oc_completed_intervals = 0, oc_incomplete_intervals = 0,
      oc_aggregation_dropped = 0\<rparr>"

theorem off_cpu_events_accounted_witness:
  "let st' = foldl (off_cpu_step (\<lambda>_ _. None) (\<lambda>_. True)) idle_collector [Event [1], Threads []]
   in unat (oc_switch_out_events st') + 1 + 1 =
      unat (oc_completed_intervals st') + unat (oc_incomplete_intervals st') + length (oc_pending st')"
proof -
  have "malformed [1]" by (simp add: malformed_def event_header_size_def)
  with off_cpu_events_accounted [of idle_collector "[Event [1], Threads []]" _ "\<lambda>_ _. None" "\<lambda>_. True"]
  show ?thesis by (simp add: idle_collector_def Let_def)
qed

text \<open>C15: Cutting intervals at window boundaries neither loses nor invents off-CPU time: for events whose
  times do not go back and that alternate per thread, with room in the table, the time in all
  emitted windows, plus the time still in the table, plus the time of the open intervals, has grown
  by exactly the integral over time of the number of threads that were off the CPU.\<close>

theorem off_cpu_time_conserved:
  assumes "time_inv now off st" "bracketed now off ops"
    and "length (oc_samples st) + length (oc_pending st) + length ops \<le> oc_max_stacks st"
    and "emitted + nanos st + open_time now (oc_pending st) + off_cpu_integral now off ops < 2 ^ 63"
    and "timed_run comm emitted st ops = (emitted', st')"
  shows "emitted' + nanos st' + open_time (last_time now ops) (oc_pending st') =
    emitted + nanos st + open_time now (oc_pending st) + off_cpu_integral now off ops"
  using timed_run_conserves [OF assms] .

theorem off_cpu_time_conserved_witness:
  "let (emitted', st') = timed_run (\<lambda>_ _. None) 0 idle_collector
         [Boundary 25 \<lparr>ks_ringbuf_drops = 0, ks_stack_failures = 0\<rparr>]
   in emitted' + nanos st' + open_time 25 (oc_pending st') = 15"
proof -
  let ?ops = "[Boundary 25 \<lparr>ks_ringbuf_drops = 0, ks_stack_failures = 0\<rparr>]"
  have inv: "time_inv 10 [7] idle_collector"
    by (simp add: time_inv_def idle_collector_def nanos_ok_def)
  have ok: "bracketed 10 [7] ?ops" by simp
  obtain e st' where run: "timed_run (\<lambda>_ _. None) 0 idle_collector ?ops = (e, st')"
    by (metis prod.exhaust)
  have room: "length (oc_samples idle_collector) + length (oc_pending idle_collector) + length ?ops
      \<le> oc_max_stacks idle_collector"
    by (simp add: idle_collector_def)
  have small: "0 + nanos idle_collector + open_time 10 (oc_pending idle_collector) +
      off_cpu_integral 10 [7] ?ops < 2 ^ 63"
    by (simp add: idle_collector_def)
  from off_cpu_time_conserved [OF inv ok room small run] show ?thesis
    unfolding run by (simp add: idle_collector_def)
qed

end
