(* ===== verification/Symbol.thy ===== *)
theory Symbol
  imports Unwind
begin

text \<open>
  \<open>src/src/symbol.rs\<close>: turning addresses into functions and lines.

  \<^item> A debug-information loader of \<open>addr2line\<close> is the record \<open>loader\<close> of the answers it gives:
    the inlined frames at an address and the symbol that covers it; \<open>demangle\<close> is the parameter
    that stands for \<open>rustc_demangle\<close>. \<open>lookup\<close> is the source's use of both.
  \<^item> \<open>symbolizer\<close> keeps the modules, their ranges, the JIT symbols of the perf map and of the jitdump,
    and the cache of resolved addresses with its eviction order.
  \<^item> Reading files is a parameter: \<open>load\<close> gives the object of a module, \<open>perf_map\<close> the text of the
    perf map, \<open>jit_record\<close>s the records of a jitdump.

  The laws: the cache is a \<open>fifo_cache\<close>, so resolving through it is the uncached resolution; the JIT
  tables are \<open>range_table\<close>s; the two routines that look a mapping up agree.
\<close>

section \<open>Locations\<close>

record mapping_info =
  mi_start :: u64
  mi_limit :: u64
  mi_offset :: u64
  mi_relative_address_at_start :: u32
  mi_filename :: string
  mi_build_id :: "string option"

record symbolized_line =
  sl_function :: string
  sl_system_name :: string
  sl_filename :: "string option"
  sl_line :: i64

record resolved_location =
  rl_address :: u64
  rl_mapping :: "mapping_info option"
  rl_lines :: "symbolized_line list"

definition is_symbolized :: "resolved_location \<Rightarrow> bool" where
  "is_symbolized r \<longleftrightarrow> rl_lines r \<noteq> []"

section \<open>Debug information\<close>

record inline_frame =
  if_raw_name :: "string option"
  if_demangled :: "string option"
  if_file :: "string option"
  if_line :: "u32 option"

record loader =
  ld_frames :: "u64 \<Rightarrow> inline_frame list"
  ld_symbol :: "u64 \<Rightarrow> string option"

definition frame_line :: "(string \<Rightarrow> string) \<Rightarrow> inline_frame \<Rightarrow> symbolized_line option" where
  "frame_line demangle f =
     (let name = (case if_demangled f of
                    Some n \<Rightarrow> Some n
                  | None \<Rightarrow> map_option demangle (if_raw_name f))
      in map_option (\<lambda>function.
           \<lparr>sl_function = function,
            sl_system_name = (case if_raw_name f of None \<Rightarrow> [] | Some n \<Rightarrow> n),
            sl_filename = if_file f,
            sl_line = (case if_line f of None \<Rightarrow> 0 | Some l \<Rightarrow> ucast l)\<rparr>) name)"

definition lookup :: "(string \<Rightarrow> string) \<Rightarrow> loader \<Rightarrow> u64 \<Rightarrow> symbolized_line list" where
  "lookup demangle ld addr =
     (let ls = List.map_filter (frame_line demangle) (ld_frames ld addr)
      in if ls \<noteq> [] then ls
         else case ld_symbol ld addr of
                None \<Rightarrow> []
              | Some raw \<Rightarrow> [\<lparr>sl_function = demangle raw, sl_system_name = raw,
                             sl_filename = None, sl_line = 0\<rparr>])"

section \<open>The symbolizer\<close>

record module_symbols =
  ms_path :: string
  ms_mappings :: "map_entry list"
  ms_load_bias :: u64
  ms_build_id :: "string option"
  ms_embedded :: "loader option"
  ms_external :: "loader option"

record jit_symbol =
  js_start :: u64
  js_end :: u64
  js_name :: string

record module_range =
  mr_start :: u64
  mr_end :: u64
  mr_module :: nat
  mr_mapping :: nat

type_synonym fingerprint = "(string \<times> u64 \<times> nat) list"

record symbolizer =
  sz_modules :: "module_symbols list"
  sz_ranges :: "module_range list"
  sz_resolved :: "(u64, resolved_location) table"
  sz_resolved_order :: "u64 list"
  sz_perf_map_modified :: "nat option"
  sz_jit_symbols :: "jit_symbol list"
  sz_jitdump_fingerprint :: fingerprint
  sz_jitdump_symbols :: "jit_symbol list"

definition resolved_cache_capacity :: nat where
  "resolved_cache_capacity = 65536"

definition module_ranges :: "module_symbols list \<Rightarrow> module_range list" where
  "module_ranges modules =
     sort_key mr_start
       [\<lparr>mr_start = me_start e, mr_end = me_end e, mr_module = m, mr_mapping = i\<rparr>.
          (m, ms) \<leftarrow> enumerate 0 modules, (i, e) \<leftarrow> enumerate 0 (ms_mappings ms)]"

definition elf_load_bias :: "segment list \<Rightarrow> map_entry list \<Rightarrow> u64 option" where
  "elf_load_bias segments mappings =
     (case [(m, s). m \<leftarrow> mappings, s \<leftarrow> segments,
              sg_file_offset s AND page_mask = me_offset m AND page_mask] of
        [] \<Rightarrow> None
      | (m, s) # _ \<Rightarrow> checked_sub (me_start m) (sg_address s AND page_mask))"

text \<open>What reading and parsing one module yields: segments, build id and the two loaders.\<close>

definition module_of ::
  "(string \<Rightarrow> map_entry list \<Rightarrow>
     (segment list \<times> string option \<times> loader option \<times> loader option) option) \<Rightarrow>
   string \<times> map_entry list \<Rightarrow> module_symbols option" where
  "module_of load entry =
     (let (path, mappings) = entry
      in case load path mappings of
           None \<Rightarrow> None
         | Some (segments, build_id, embedded, external) \<Rightarrow>
             map_option (\<lambda>bias.
                 \<lparr>ms_path = path, ms_mappings = mappings, ms_load_bias = bias,
                  ms_build_id = build_id, ms_embedded = embedded, ms_external = external\<rparr>)
               (elf_load_bias segments mappings))"

definition symbolizer_from_maps ::
  "(string \<Rightarrow> map_entry list \<Rightarrow>
     (segment list \<times> string option \<times> loader option \<times> loader option) option) \<Rightarrow>
   nat option \<times> jit_symbol list \<Rightarrow> fingerprint \<times> jit_symbol list \<Rightarrow> map_entry list \<Rightarrow>
   symbolizer" where
  "symbolizer_from_maps load perf_map jitdump maps =
     (let modules = List.map_filter (module_of load) (group_by_path maps)
      in \<lparr>sz_modules = modules, sz_ranges = module_ranges modules, sz_resolved = [],
          sz_resolved_order = [], sz_perf_map_modified = fst perf_map,
          sz_jit_symbols = snd perf_map, sz_jitdump_fingerprint = fst jitdump,
          sz_jitdump_symbols = snd jitdump\<rparr>)"

section \<open>Looking an address up\<close>

definition find_jit_symbol :: "jit_symbol list \<Rightarrow> u64 \<Rightarrow> jit_symbol option" where
  "find_jit_symbol symbols addr = range_lookup js_start js_end symbols addr"

definition find_module_range :: "symbolizer \<Rightarrow> u64 \<Rightarrow> module_range option" where
  "find_module_range sz addr = range_lookup mr_start mr_end (sz_ranges sz) addr"

definition jit_mapping_info :: "jit_symbol \<Rightarrow> string \<Rightarrow> mapping_info" where
  "jit_mapping_info s source =
     \<lparr>mi_start = js_start s, mi_limit = js_end s, mi_offset = 0,
      mi_relative_address_at_start = 0, mi_filename = source, mi_build_id = None\<rparr>"

definition jit_resolved_location :: "jit_symbol \<Rightarrow> u64 \<Rightarrow> string \<Rightarrow> resolved_location" where
  "jit_resolved_location s addr source =
     \<lparr>rl_address = addr,
      rl_mapping = Some \<lparr>mi_start = js_start s, mi_limit = js_end s, mi_offset = 0,
        mi_relative_address_at_start = 0, mi_filename = source, mi_build_id = None\<rparr>,
      rl_lines = [\<lparr>sl_function = js_name s, sl_system_name = js_name s, sl_filename = None,
                   sl_line = 0\<rparr>]\<rparr>"

definition u32_of_u64 :: "u64 \<Rightarrow> u32" where
  "u32_of_u64 v = (if v \<le> 0xffffffff then ucast v else 0)"

definition module_mapping_info :: "module_symbols \<Rightarrow> map_entry \<Rightarrow> mapping_info" where
  "module_mapping_info ms e =
     \<lparr>mi_start = me_start e, mi_limit = me_end e, mi_offset = me_offset e,
      mi_relative_address_at_start = u32_of_u64 (sat_sub (me_start e) (ms_load_bias ms)),
      mi_filename = ms_path ms, mi_build_id = ms_build_id ms\<rparr>"

definition mapping_for_address :: "symbolizer \<Rightarrow> u64 \<Rightarrow> mapping_info option" where
  "mapping_for_address sz addr =
     (case find_jit_symbol (sz_jitdump_symbols sz) addr of
        Some s \<Rightarrow> Some (jit_mapping_info s ''[jit:jitdump]'')
      | None \<Rightarrow>
          (case find_jit_symbol (sz_jit_symbols sz) addr of
             Some s \<Rightarrow> Some (jit_mapping_info s ''[jit:perf-map]'')
           | None \<Rightarrow>
               (case find_module_range sz addr of
                  None \<Rightarrow> None
                | Some r \<Rightarrow>
                    (let ms = sz_modules sz ! mr_module r
                     in Some (module_mapping_info ms (ms_mappings ms ! mr_mapping r))))))"

definition resolve_uncached :: "(string \<Rightarrow> string) \<Rightarrow> symbolizer \<Rightarrow> u64 \<Rightarrow> resolved_location" where
  "resolve_uncached demangle sz addr =
     (case find_jit_symbol (sz_jitdump_symbols sz) addr of
        Some s \<Rightarrow> jit_resolved_location s addr ''[jit:jitdump]''
      | None \<Rightarrow>
          (case range_lookup js_start js_end (sz_jit_symbols sz) addr of
             Some s \<Rightarrow> jit_resolved_location s addr ''[jit:perf-map]''
           | None \<Rightarrow>
               (case find_module_range sz addr of
                  None \<Rightarrow> \<lparr>rl_address = addr, rl_mapping = None, rl_lines = []\<rparr>
                | Some r \<Rightarrow>
                    (let ms = sz_modules sz ! mr_module r;
                         e = ms_mappings ms ! mr_mapping r;
                         object_address = sat_sub addr (ms_load_bias ms);
                         embedded = (case ms_embedded ms of
                                       None \<Rightarrow> [] | Some ld \<Rightarrow> lookup demangle ld object_address);
                         ls = (if embedded \<noteq> [] then embedded
                               else case ms_external ms of
                                      None \<Rightarrow> [] | Some ld \<Rightarrow> lookup demangle ld object_address)
                     in \<lparr>rl_address = addr, rl_mapping = Some (module_mapping_info ms e),
                         rl_lines = ls\<rparr>))))"

section \<open>The cache\<close>

definition cache_store :: "u64 \<Rightarrow> resolved_location \<Rightarrow> symbolizer \<Rightarrow> symbolizer" where
  "cache_store addr r sz =
     (let sz1 = (if length (sz_resolved sz) \<ge> resolved_cache_capacity
                 then case sz_resolved_order sz of
                        [] \<Rightarrow> sz
                      | expired # rest \<Rightarrow>
                          sz\<lparr>sz_resolved_order := rest,
                             sz_resolved := AList.delete expired (sz_resolved sz)\<rparr>
                 else sz)
      in sz1\<lparr>sz_resolved := AList.update addr r (sz_resolved sz1),
             sz_resolved_order := sz_resolved_order sz1 @ [addr]\<rparr>)"

definition resolve :: "(string \<Rightarrow> string) \<Rightarrow> u64 \<Rightarrow> symbolizer \<Rightarrow> resolved_location \<times> symbolizer" where
  "resolve demangle addr sz =
     (case map_of (sz_resolved sz) addr of
        Some r \<Rightarrow> (r, sz)
      | None \<Rightarrow> (let r = resolve_uncached demangle sz addr in (r, cache_store addr r sz)))"

definition jit_mapping_count :: "symbolizer \<Rightarrow> nat" where
  "jit_mapping_count sz = length (sz_jit_symbols sz) + length (sz_jitdump_symbols sz)"

section \<open>JIT symbols\<close>

definition max_perf_map_bytes :: nat where
  "max_perf_map_bytes = 16 * 1024 * 1024"

definition max_jitdump_bytes :: u64 where
  "max_jitdump_bytes = 64 * 1024 * 1024"

definition max_jitdump_symbols :: nat where
  "max_jitdump_symbols = 65536"

text \<open>\<open>splitn(3, ' ')\<close> followed by three \<open>next()\<close>s.\<close>

definition perf_map_line :: "string \<Rightarrow> jit_symbol option" where
  "perf_map_line line =
     (case split_once (CHR '' '') line of
        None \<Rightarrow> None
      | Some (a, rest) \<Rightarrow>
          (case parse_radix 16 a of
             None \<Rightarrow> None
           | Some start \<Rightarrow>
               (let (b, tail) = (case split_once (CHR '' '') rest of
                                   None \<Rightarrow> (rest, None) | Some (b, n) \<Rightarrow> (b, Some n))
                in case parse_radix 16 b of
                     None \<Rightarrow> None
                   | Some n \<Rightarrow>
                       (case tail of
                          None \<Rightarrow> None
                        | Some t \<Rightarrow>
                            (let name = trim t
                             in if name \<noteq> [] \<and> n \<noteq> (0 :: u64)
                                then Some \<lparr>js_start = start, js_end = sat_add start n, js_name = name\<rparr>
                                else None)))))"

definition load_perf_map :: "string option \<Rightarrow> jit_symbol list" where
  "load_perf_map contents =
     (case contents of
        None \<Rightarrow> []
      | Some text \<Rightarrow>
          if length text > max_perf_map_bytes then []
          else sort_key js_start (List.map_filter perf_map_line (text_lines text)))"

datatype jit_record =
  Code_Load u64 u64 nat string
| Code_Move u64 u64 u64
| Other_Record

definition trim_nul :: "string \<Rightarrow> string" where
  "trim_nul s = rev (dropWhile (\<lambda>c. c = CHR 0x00) (rev s))"

definition jit_step :: "(u64, jit_symbol) table \<Rightarrow> jit_record \<Rightarrow> (u64, jit_symbol) table" where
  "jit_step m rec =
     (case rec of
        Code_Load index addr n name \<Rightarrow>
          AList.update index \<lparr>js_start = addr, js_end = sat_add addr (word_of_nat n),
                               js_name = trim_nul name\<rparr> m
      | Code_Move index addr n \<Rightarrow>
          (case map_of m index of
             None \<Rightarrow> m
           | Some s \<Rightarrow> AList.update index (s\<lparr>js_start := addr, js_end := sat_add addr n\<rparr>) m)
      | Other_Record \<Rightarrow> m)"

fun jit_records :: "(u64, jit_symbol) table \<Rightarrow> jit_record list \<Rightarrow> (u64, jit_symbol) table" where
  "jit_records m [] = m"
| "jit_records m (r # rs) = (if length m < max_jitdump_symbols then jit_records (jit_step m r) rs else m)"

definition load_jitdump_symbols ::
  "(string \<Rightarrow> jit_record list) \<Rightarrow> fingerprint \<Rightarrow> jit_symbol list" where
  "load_jitdump_symbols read files =
     sort_key js_start (map snd
       (foldl (\<lambda>m (path, n, _). if n > max_jitdump_bytes then m else jit_records m (read path))
          [] files))"

text \<open>The refresh, once the interval has elapsed: the perf map's new modification time with its text,
  and the current jitdump fingerprint with its records.\<close>

definition clear_cache :: "symbolizer \<Rightarrow> symbolizer" where
  "clear_cache sz = sz\<lparr>sz_resolved := [], sz_resolved_order := []\<rparr>"

definition refresh_perf_map ::
  "bool \<Rightarrow> nat option \<Rightarrow> nat option \<times> string option \<Rightarrow> fingerprint \<Rightarrow>
   (string \<Rightarrow> jit_record list) \<Rightarrow> symbolizer \<Rightarrow> symbolizer" where
  "refresh_perf_map elapsed modified reread fingerprint read sz =
     (if \<not> elapsed then sz
      else
        let sz1 = (if modified \<noteq> None \<and> modified \<noteq> sz_perf_map_modified sz
                   then clear_cache (sz\<lparr>sz_perf_map_modified := fst reread,
                                        sz_jit_symbols := load_perf_map (snd reread)\<rparr>)
                   else sz)
        in if fingerprint \<noteq> sz_jitdump_fingerprint sz1
           then clear_cache (sz1\<lparr>sz_jitdump_fingerprint := fingerprint,
                                 sz_jitdump_symbols := load_jitdump_symbols read fingerprint\<rparr>)
           else sz1)"

section \<open>The cache evicts its oldest address\<close>

definition cache_ok :: "symbolizer \<Rightarrow> bool" where
  "cache_ok sz \<longleftrightarrow>
     tab_wf (sz_resolved sz) \<and> distinct (sz_resolved_order sz) \<and>
     tab_keys (sz_resolved sz) = set (sz_resolved_order sz) \<and>
     length (sz_resolved_order sz) \<le> resolved_cache_capacity"

lemma cache_length: "cache_ok sz \<Longrightarrow> length (sz_resolved sz) = length (sz_resolved_order sz)"
  by (simp add: cache_ok_def length_tab_keys distinct_card)

lemma cache_store_fields [simp]:
  "sz_modules (cache_store a r sz) = sz_modules sz" "sz_ranges (cache_store a r sz) = sz_ranges sz"
  "sz_jit_symbols (cache_store a r sz) = sz_jit_symbols sz"
  "sz_jitdump_symbols (cache_store a r sz) = sz_jitdump_symbols sz"
  by (simp_all add: cache_store_def Let_def split: list.split)

lemma cache_store_order:
  assumes "cache_ok sz"
  shows "sz_resolved_order (cache_store a r sz) =
    (if resolved_cache_capacity \<le> length (sz_resolved_order sz)
     then tl (sz_resolved_order sz) else sz_resolved_order sz) @ [a]"
  using cache_length [OF assms] by (auto simp: cache_store_def Let_def split: list.split)

lemma cache_store_get:
  assumes "cache_ok sz"
  shows "map_of (sz_resolved (cache_store a r sz)) =
    (if resolved_cache_capacity \<le> length (sz_resolved_order sz)
     then (map_of (sz_resolved sz))(hd (sz_resolved_order sz) := None)
     else map_of (sz_resolved sz))(a \<mapsto> r)"
  using cache_length [OF assms]
  by (auto simp: cache_store_def Let_def resolved_cache_capacity_def split: list.split)

lemma cache_store_ok:
  assumes ok: "cache_ok sz" and new: "map_of (sz_resolved sz) a = None"
  shows "cache_ok (cache_store a r sz)"
proof -
  have order: "a \<notin> set (sz_resolved_order sz)" "distinct (sz_resolved_order sz)"
    using ok new by (auto simp: cache_ok_def map_of_eq_None_iff)
  have wf: "tab_wf (sz_resolved (cache_store a r sz))"
    using ok by (auto simp: cache_ok_def cache_store_def Let_def split: list.split)
  have "tab_keys (sz_resolved (cache_store a r sz)) = dom (map_of (sz_resolved (cache_store a r sz)))"
    by (rule tab_keys_dom)
  also have "\<dots> = set (sz_resolved_order (cache_store a r sz))"
  proof -
    have dom: "dom (map_of (sz_resolved sz)) = set (sz_resolved_order sz)"
      using ok by (simp add: cache_ok_def tab_keys_dom)
    show ?thesis
      using order dom
      by (cases "sz_resolved_order sz")
        (auto simp: cache_store_get [OF ok] cache_store_order [OF ok] resolved_cache_capacity_def)
  qed
  finally have keys: "tab_keys (sz_resolved (cache_store a r sz)) =
      set (sz_resolved_order (cache_store a r sz))" .
  have "distinct (sz_resolved_order (cache_store a r sz))"
       "length (sz_resolved_order (cache_store a r sz)) \<le> resolved_cache_capacity"
    using order ok
    by (cases "sz_resolved_order sz", auto simp: cache_store_order [OF ok] cache_ok_def
        resolved_cache_capacity_def)+
  with wf keys show ?thesis by (simp add: cache_ok_def)
qed

interpretation resolved: fifo_cache
  "\<lambda>sz. map_of (sz_resolved sz)" sz_resolved_order cache_store resolved_cache_capacity cache_ok
proof unfold_locales
  fix sz a r
  show "0 < resolved_cache_capacity" by (simp add: resolved_cache_capacity_def)
  show "distinct (sz_resolved_order sz)" if "cache_ok sz"
    using that unfolding cache_ok_def by blast
  show "dom (map_of (sz_resolved sz)) = set (sz_resolved_order sz)" if "cache_ok sz"
    using that by (simp add: cache_ok_def tab_keys_dom)
  show "length (sz_resolved_order sz) \<le> resolved_cache_capacity" if "cache_ok sz"
    using that unfolding cache_ok_def by blast
  show "cache_ok (cache_store a r sz)" if "cache_ok sz" "map_of (sz_resolved sz) a = None"
    using that by (rule cache_store_ok)
qed (rule cache_store_order cache_store_get; assumption)+

text \<open>Everything in the cache is what the uncached resolution of its address gives.\<close>

definition coherent :: "(string \<Rightarrow> string) \<Rightarrow> symbolizer \<Rightarrow> bool" where
  "coherent demangle sz \<longleftrightarrow>
     cache_ok sz \<and>
     (\<forall>a r. map_of (sz_resolved sz) a = Some r \<longrightarrow> r = resolve_uncached demangle sz a)"

lemma resolve_uncached_frame:
  assumes "sz_modules sz' = sz_modules sz" "sz_ranges sz' = sz_ranges sz"
    and "sz_jit_symbols sz' = sz_jit_symbols sz" "sz_jitdump_symbols sz' = sz_jitdump_symbols sz"
  shows "resolve_uncached demangle sz' = resolve_uncached demangle sz"
  by (rule ext) (simp only: resolve_uncached_def find_module_range_def assms)

lemma resolve_coherent:
  assumes "coherent demangle sz"
  shows "fst (resolve demangle a sz) = resolve_uncached demangle sz a"
    "coherent demangle (snd (resolve demangle a sz))"
    "resolve_uncached demangle (snd (resolve demangle a sz)) = resolve_uncached demangle sz"
proof -
  have ok: "cache_ok sz" using assms by (simp add: coherent_def)
  show "fst (resolve demangle a sz) = resolve_uncached demangle sz a"
  proof (cases "map_of (sz_resolved sz) a")
    case (Some r)
    with assms have "r = resolve_uncached demangle sz a" unfolding coherent_def by blast
    with Some show ?thesis by (simp add: resolve_def)
  next
    case None
    then show ?thesis by (simp add: resolve_def Let_def del: map_of_eq_None_iff)
  qed
  show same: "resolve_uncached demangle (snd (resolve demangle a sz)) = resolve_uncached demangle sz"
  proof (cases "map_of (sz_resolved sz) a")
    case (Some r)
    then show ?thesis by (simp add: resolve_def)
  next
    case None
    show ?thesis
      by (rule resolve_uncached_frame)
        (simp_all add: resolve_def Let_def None del: map_of_eq_None_iff)
  qed
  show "coherent demangle (snd (resolve demangle a sz))"
  proof (cases "map_of (sz_resolved sz) a")
    case (Some r)
    with assms show ?thesis by (simp add: resolve_def)
  next
    case None
    have res: "snd (resolve demangle a sz) = cache_store a (resolve_uncached demangle sz a) sz"
      using None by (simp add: resolve_def Let_def del: map_of_eq_None_iff)
    have old: "\<forall>x r. map_of (sz_resolved sz) x = Some r \<longrightarrow> r = resolve_uncached demangle sz x"
      using assms unfolding coherent_def by (rule conjunct2)
    have "coherent demangle (cache_store a (resolve_uncached demangle sz a) sz)"
      unfolding coherent_def same [unfolded res]
      by (rule conjI [OF cache_store_ok [OF ok None] allI [OF allI [OF impI [OF resolved.coherent_kept [OF ok None old [rule_format]]]]]])
    then show ?thesis unfolding res .
  qed
qed

lemma coherent_empty: "coherent demangle (clear_cache sz)"
  by (simp add: coherent_def clear_cache_def cache_ok_def)

lemma refresh_coherent:
  "coherent demangle sz \<Longrightarrow> coherent demangle (refresh_perf_map elapsed modified reread fp read sz)"
  by (simp add: refresh_perf_map_def coherent_empty Let_def)

section \<open>Ranges\<close>

interpretation jit: range_table js_start js_end find_jit_symbol "disjoint_ranges js_start js_end"
  by unfold_locales (simp_all add: find_jit_symbol_def)

lemma mapping_agrees: "rl_mapping (resolve_uncached demangle sz a) = mapping_for_address sz a"
  by (auto simp: resolve_uncached_def mapping_for_address_def find_jit_symbol_def Let_def
      jit_resolved_location_def jit_mapping_info_def split: option.split)

lemma load_perf_map_sorted: "sorted (map js_start (load_perf_map c))"
  by (auto simp: load_perf_map_def split: option.split)

section \<open>Properties\<close>

datatype symbol_op =
  Resolve u64
| Refresh bool "nat option" "nat option \<times> string option" fingerprint

fun symbol_step ::
  "(string \<Rightarrow> string) \<Rightarrow> (string \<Rightarrow> jit_record list) \<Rightarrow> symbolizer \<Rightarrow> symbol_op \<Rightarrow> symbolizer" where
  "symbol_step demangle read sz (Resolve a) = snd (resolve demangle a sz)"
| "symbol_step demangle read sz (Refresh elapsed modified reread fp) =
     refresh_perf_map elapsed modified reread fp read sz"

lemma coherent_run: "coherent demangle sz \<Longrightarrow> coherent demangle (foldl (symbol_step demangle read) sz ops)"
proof (induction ops arbitrary: sz)
  case Nil
  then show ?case by simp
next
  case (Cons op ops)
  then have "coherent demangle (symbol_step demangle read sz op)"
    by (cases op) (simp_all add: resolve_coherent refresh_coherent)
  with Cons.IH show ?case by simp
qed

text \<open>C16: The cache never shows: after any sequence of resolutions and symbol refreshes, resolving an
  address gives exactly what resolving it from the current tables would give, so no answer from
  before a refresh survives it; and the cache holds at most 65,536 addresses.\<close>

theorem resolve_transparent:
  assumes "sz = foldl (symbol_step demangle read) (symbolizer_from_maps load perf_map jitdump maps) ops"
  shows "fst (resolve demangle a sz) = resolve_uncached demangle sz a \<and>
    length (sz_resolved sz) \<le> 65536"
proof -
  have "coherent demangle (symbolizer_from_maps load perf_map jitdump maps)"
    by (simp add: coherent_def cache_ok_def symbolizer_from_maps_def Let_def)
  then have coh: "coherent demangle sz" unfolding assms by (rule coherent_run)
  then have "length (sz_resolved sz) \<le> 65536"
    using cache_length [of sz] by (simp add: coherent_def cache_ok_def resolved_cache_capacity_def)
  with resolve_coherent(1) [OF coh] show ?thesis by simp
qed

theorem resolve_transparent_witness:
  "let sz = foldl (symbol_step id (\<lambda>_. [])) (symbolizer_from_maps (\<lambda>_ _. None)
        (None, [\<lparr>js_start = 16, js_end = 32, js_name = ''f''\<rparr>]) ([], []) []) [Resolve 20]
   in fst (resolve id 20 sz) = resolve_uncached id sz 20"
  unfolding Let_def by (rule resolve_transparent [OF refl, THEN conjunct1])

text \<open>The two routines that find the mapping of an address, the one for the location tables and the
  one inside the resolution, agree on every address, whatever the tables hold.\<close>

theorem mapping_lookup_agrees:
  "rl_mapping (resolve_uncached demangle sz a) = mapping_for_address sz a"
  by (rule mapping_agrees)

end
