(* ===== verification/Interner.thy ===== *)
theory Interner
  imports Tables
begin

text \<open>
  Tables that give every key a number. The profile formats store strings, functions, mappings and
  locations once and refer to them by position; the builders of \<open>src/src/pprof.rs\<close> and
  \<open>src/src/otlp/mod.rs\<close> keep a hash map from the key to its position beside the list of items.

  \<^item> \<open>indexed base m n\<close>: the map \<open>m\<close> numbers its keys, one to one, by \<open>base, ..., base + n - 1\<close>.
  \<^item> The locale \<open>interner\<close> is the contract of such a builder operation: a known key gives its number
    and adds none, a new key gets the next number, no number ever changes, and the item at a key's
    number represents the key. Every interning operation of the two formats is interpreted in it.
\<close>

section \<open>Numbered keys\<close>

definition indexed :: "nat \<Rightarrow> ('k \<rightharpoonup> nat) \<Rightarrow> nat \<Rightarrow> bool" where
  "indexed base m n \<longleftrightarrow> inj_on m (dom m) \<and> ran m = {base ..< base + n}"

lemma indexed_empty [simp]: "indexed base Map.empty 0"
  by (simp add: indexed_def)

lemma indexed_one: "indexed base [k \<mapsto> base] (Suc 0)"
  by (auto simp: indexed_def ran_def)

lemma indexed_bound: "indexed base m n \<Longrightarrow> m k = Some i \<Longrightarrow> base \<le> i \<and> i < base + n"
  unfolding indexed_def by (metis atLeastLessThan_iff ranI)

lemma indexed_key: "indexed base m n \<Longrightarrow> base \<le> i \<Longrightarrow> i < base + n \<Longrightarrow> \<exists>k. m k = Some i"
  unfolding indexed_def ran_def by (auto simp: set_eq_iff)

lemma indexed_inj: "indexed base m n \<Longrightarrow> m k = Some i \<Longrightarrow> m l = Some i \<Longrightarrow> k = l"
  unfolding indexed_def by (metis domI inj_onD)

lemma indexed_fresh:
  assumes "indexed base m n" "m k = None"
  shows "indexed base (m(k \<mapsto> base + n)) (Suc n)"
proof -
  have "ran (m(k \<mapsto> base + n)) = insert (base + n) {base ..< base + n}"
    using assms by (simp add: indexed_def)
  also have "\<dots> = {base ..< base + Suc n}" by auto
  finally have ran: "ran (m(k \<mapsto> base + n)) = {base ..< base + Suc n}" .
  have "base + n \<notin> ran m" using assms(1) by (simp add: indexed_def)
  then have "inj_on (m(k \<mapsto> base + n)) (dom (m(k \<mapsto> base + n)))"
    using assms by (auto simp: indexed_def inj_on_def ran_def)
  with ran show ?thesis by (simp add: indexed_def)
qed

lemma inj_on_the:
  assumes "inj_on m (dom m)"
  shows "inj_on (\<lambda>k. the (m k)) (dom m)"
proof (rule inj_onI)
  fix x y
  assume xy: "x \<in> dom m" "y \<in> dom m" "the (m x) = the (m y)"
  then have "m x = m y" by auto
  with assms xy show "x = y" by (metis inj_onD)
qed

lemma card_ran_inj:
  assumes "inj_on m (dom m)" "finite (ran m)"
  shows "card (ran m) = card (dom m)"
proof -
  have "ran m = (\<lambda>k. the (m k)) ` dom m" by (force simp: ran_def)
  with inj_on_the [OF assms(1)] show ?thesis by (simp add: card_image)
qed

lemma indexed_card: "indexed base m n \<Longrightarrow> finite (dom m) \<and> card (dom m) = n"
proof -
  assume ix: "indexed base m n"
  have "ran m = (\<lambda>k. the (m k)) ` dom m" by (force simp: ran_def)
  moreover have inj: "inj_on (\<lambda>k. the (m k)) (dom m)" using ix by (simp add: indexed_def inj_on_the)
  ultimately have "finite (dom m)" using ix by (metis finite_atLeastLessThan finite_imageD indexed_def)
  moreover have "card (dom m) = n" using card_ran_inj [of m] ix by (simp add: indexed_def)
  ultimately show ?thesis by simp
qed

text \<open>A map that stays indexed when one key is added can only have given it the next number.\<close>

lemma indexed_next:
  assumes "indexed base (m(k \<mapsto> j)) n'" "indexed base m n" "m k = None"
  shows "j = base + n"
proof -
  have "card (dom (m(k \<mapsto> j))) = Suc (card (dom m))"
    using indexed_card [OF assms(2)] assms(3) by (simp add: domIff)
  then have n': "n' = Suc n" using indexed_card [OF assms(1)] indexed_card [OF assms(2)] by simp
  have "ran (m(k \<mapsto> j)) = insert j (ran m)" using assms(3) by simp
  then have "{base ..< base + Suc n} = insert j {base ..< base + n}"
    using assms(1,2) by (simp add: indexed_def n')
  moreover have "base + n \<in> {base ..< base + Suc n}" "base + n \<notin> {base ..< base + n}" by simp_all
  ultimately show ?thesis by (metis insertE)
qed

section \<open>Lists that only grow\<close>

definition grows :: "'a list \<Rightarrow> 'a list \<Rightarrow> bool" where
  "grows xs ys \<longleftrightarrow> length xs \<le> length ys \<and> (\<forall>i < length xs. ys ! i = xs ! i)"

lemma grows_refl [simp]: "grows xs xs"
  by (simp add: grows_def)

lemma grows_append [simp]: "grows xs (xs @ ys)"
  by (simp add: grows_def nth_append)

lemma grows_trans: "grows xs ys \<Longrightarrow> grows ys zs \<Longrightarrow> grows xs zs"
  by (simp add: grows_def)

section \<open>Keyed lists\<close>

text \<open>\<open>keyed P base m xs\<close>: the map \<open>m\<close> numbers the keys of the entries of \<open>xs\<close> from \<open>base\<close> on, and \<open>P\<close>
  relates each key to its entry. The entries below \<open>base\<close> belong to no key.\<close>

definition keyed :: "('k \<Rightarrow> 'v \<Rightarrow> bool) \<Rightarrow> nat \<Rightarrow> ('k \<rightharpoonup> nat) \<Rightarrow> 'v list \<Rightarrow> bool" where
  "keyed P base m xs \<longleftrightarrow>
     base \<le> length xs \<and> indexed base m (length xs - base) \<and> (\<forall>k i. m k = Some i \<longrightarrow> P k (xs ! i))"

lemma keyed_found:
  assumes "keyed P base m xs" "m k = Some i"
  shows "base \<le> i \<and> i < length xs \<and> P k (xs ! i)"
proof -
  have "indexed base m (length xs - base)" "base \<le> length xs" "P k (xs ! i)"
    using assms unfolding keyed_def by blast+
  with indexed_bound [OF this(1) assms(2)] show ?thesis by auto
qed

lemma keyed_mono:
  assumes "keyed P base m xs" "\<And>k x. P k x \<Longrightarrow> Q k x"
  shows "keyed Q base m xs"
  using assms unfolding keyed_def by blast

lemma keyed_push:
  assumes keyed: "keyed P base m xs" and new: "m k = None" and item: "P k x"
  shows "keyed P base (m(k \<mapsto> length xs)) (xs @ [x])"
proof -
  have le: "base \<le> length xs" and ix: "indexed base m (length xs - base)"
    using keyed by (simp_all add: keyed_def)
  have "P l ((xs @ [x]) ! i)" if l: "(m(k \<mapsto> length xs)) l = Some i" for l i
  proof (cases "l = k")
    case True
    with l item show ?thesis by auto
  next
    case False
    with l have "m l = Some i" by simp
    with keyed_found [OF keyed this] show ?thesis by (simp add: nth_append)
  qed
  moreover have "indexed base (m(k \<mapsto> length xs)) (length (xs @ [x]) - base)"
    using indexed_fresh [OF ix new] le by (simp add: Suc_diff_le)
  ultimately show ?thesis using le by (simp add: keyed_def)
qed

lemma keyed_inj: "keyed P base m xs \<Longrightarrow> m k = Some i \<Longrightarrow> m l = Some i \<Longrightarrow> k = l"
  unfolding keyed_def using indexed_inj by metis

section \<open>The contract of an interning operation\<close>

locale interner =
  fixes base :: nat
    and ids :: "'s \<Rightarrow> 'k \<rightharpoonup> nat"
    and items :: "'s \<Rightarrow> 'v list"
    and represents :: "'s \<Rightarrow> 'k \<Rightarrow> 'v \<Rightarrow> bool"
    and intern :: "'k \<Rightarrow> 's \<Rightarrow> nat \<times> 's"
    and ok :: "'s \<Rightarrow> bool"
  assumes ok_indexed: "ok s \<Longrightarrow> indexed base (ids s) (length (items s))"
    and ok_item: "ok s \<Longrightarrow> ids s k = Some i \<Longrightarrow> represents s k (items s ! (i - base))"
    and known: "ok s \<Longrightarrow> ids s k = Some i \<Longrightarrow>
      fst (intern k s) = i \<and> ids (snd (intern k s)) = ids s"
    and fresh: "ok s \<Longrightarrow> ids s k = None \<Longrightarrow>
      fst (intern k s) = base + length (items s) \<and>
      ids (snd (intern k s)) = (ids s)(k \<mapsto> base + length (items s))"
    and intern_ok: "ok s \<Longrightarrow> ok (snd (intern k s))"
begin

lemma intern_found: "ok s \<Longrightarrow> ids (snd (intern k s)) k = Some (fst (intern k s))"
  by (cases "ids s k") (simp_all add: known fresh)

text \<open>No number ever changes.\<close>

lemma intern_keeps: "ok s \<Longrightarrow> ids s l = Some i \<Longrightarrow> ids (snd (intern k s)) l = Some i"
  by (cases "ids s k") (auto simp: known fresh)

text \<open>The number is that of an item, and the item is the key's.\<close>

lemma intern_bound:
  assumes "ok s"
  shows "base \<le> fst (intern k s) \<and> fst (intern k s) < base + length (items (snd (intern k s)))"
  using indexed_bound [OF ok_indexed [OF intern_ok [OF assms]] intern_found [OF assms]] .

lemma intern_item:
  assumes "ok s"
  shows "represents (snd (intern k s)) k (items (snd (intern k s)) ! (fst (intern k s) - base))"
  using ok_item [OF intern_ok [OF assms] intern_found [OF assms]] .

text \<open>Interning a key a second time, whatever came between, finds the same number.\<close>

lemma run_ok: "ok s \<Longrightarrow> ok (foldl (\<lambda>s k. snd (intern k s)) s ks)"
  by (induction ks arbitrary: s) (simp_all add: intern_ok)

lemma run_keeps: "ok s \<Longrightarrow> ids s l = Some i \<Longrightarrow> ids (foldl (\<lambda>s k. snd (intern k s)) s ks) l = Some i"
  by (induction ks arbitrary: s) (simp_all add: intern_ok intern_keeps)

lemma intern_again:
  assumes "ok s"
  shows "fst (intern k (foldl (\<lambda>s k. snd (intern k s)) (snd (intern k s)) ks)) = fst (intern k s)"
  using known [OF run_ok [OF intern_ok [OF assms]]
      run_keeps [OF intern_ok [OF assms] intern_found [OF assms]]] by simp

text \<open>Two keys never share a number.\<close>

lemma intern_distinct:
  assumes "ok s" "k \<noteq> l"
  shows "fst (intern k s) \<noteq> fst (intern l (snd (intern k s)))"
proof
  let ?s = "snd (intern l (snd (intern k s)))"
  have s: "ok (snd (intern k s))" "ok ?s" using assms(1) by (simp_all add: intern_ok)
  assume "fst (intern k s) = fst (intern l (snd (intern k s)))"
  then have "ids ?s k = ids ?s l"
    using intern_keeps [OF s(1) intern_found [OF assms(1)]] intern_found [OF s(1)] by simp
  then show False
    using indexed_inj [OF ok_indexed [OF s(2)] _ intern_found [OF s(1)]] intern_found [OF s(1)] assms(2)
    by metis
qed

end

end
