(* ===== verification/Pprof.thy ===== *)
theory Pprof
  imports Symbol Interner
begin

text \<open>
  \<open>src/src/pprof.rs\<close>: building a pprof profile.

  \<^item> The protobuf messages are records (\<open>pprof\<close>, \<open>pp_sample\<close>, \<open>pp_mapping\<close>, ...). String indices and
    ids, which the source keeps in \<open>i64\<close> and \<open>u64\<close>, are positions in lists of the profile and are
    naturals here; values, times and periods are 64-bit words.
  \<^item> \<open>profile_builder\<close> is \<open>ProfileBuilder\<close>; \<open>intern\<close>, \<open>build_mapping\<close>, \<open>build_function\<close>,
    \<open>build_location\<close> and \<open>add_sample\<close> are its methods, and the \<open>build_*_profile\<close> definitions are
    the bodies of the writers up to the point where the file is written.
  \<^item> Encoding the message and compressing it are library calls; \<open>atomic_write\<close> models how the result
    is published, with every operating system call that can fail as an argument.

  The laws: each of the four tables is an \<open>interner\<close>; what the profile denotes, read back through its
  ids, is exactly the resolved stacks that were added.
\<close>

section \<open>Messages\<close>

record value_type =
  vt_type :: nat
  vt_unit :: nat

record label =
  lb_key :: nat
  lb_str :: nat
  lb_num :: i64
  lb_num_unit :: nat

record pp_sample =
  ps_location_id :: "nat list"
  ps_value :: "i64 list"
  ps_label :: "label list"

record pp_mapping =
  pm_id :: nat
  pm_memory_start :: u64
  pm_memory_limit :: u64
  pm_file_offset :: u64
  pm_filename :: nat
  pm_build_id :: nat
  pm_has_functions :: bool
  pm_has_filenames :: bool
  pm_has_line_numbers :: bool
  pm_has_inline_frames :: bool

record pp_line =
  pl_function_id :: nat
  pl_line :: i64
  pl_column :: i64

record pp_location =
  po_id :: nat
  po_mapping_id :: nat
  po_address :: u64
  po_line :: "pp_line list"
  po_is_folded :: bool

record pp_function =
  pf_id :: nat
  pf_name :: nat
  pf_system_name :: nat
  pf_filename :: nat
  pf_start_line :: i64

record pprof =
  pp_sample_type :: "value_type list"
  pp_samples :: "pp_sample list"
  pp_mappings :: "pp_mapping list"
  pp_locations :: "pp_location list"
  pp_functions :: "pp_function list"
  pp_strings :: "string list"
  pp_drop_frames :: i64
  pp_keep_frames :: i64
  pp_time_nanos :: i64
  pp_duration_nanos :: i64
  pp_period_type :: "value_type option"
  pp_period :: i64
  pp_comment :: "nat list"
  pp_default_sample_type :: nat
  pp_doc_url :: nat

record export_stats =
  es_symbolized_locations :: nat
  es_total_locations :: nat

section \<open>The builder\<close>

record profile_builder =
  pb_profile :: pprof
  pb_symbolizer :: "symbolizer option"
  pb_strings :: "(string, nat) table"
  pb_mappings :: "(mapping_info, nat) table"
  pb_functions :: "(string \<times> string \<times> string option, nat) table"
  pb_locations :: "(u64, nat) table"
  pb_stats :: export_stats

definition new_builder :: "symbolizer option \<Rightarrow> i64 \<Rightarrow> i64 \<Rightarrow> profile_builder" where
  "new_builder symbols time duration =
     \<lparr>pb_profile =
        \<lparr>pp_sample_type = [], pp_samples = [], pp_mappings = [], pp_locations = [], pp_functions = [],
         pp_strings = [''''], pp_drop_frames = 0, pp_keep_frames = 0, pp_time_nanos = time,
         pp_duration_nanos = duration, pp_period_type = None, pp_period = 0, pp_comment = [],
         pp_default_sample_type = 0, pp_doc_url = 0\<rparr>,
      pb_symbolizer = symbols, pb_strings = [('''', 0)], pb_mappings = [], pb_functions = [],
      pb_locations = [], pb_stats = \<lparr>es_symbolized_locations = 0, es_total_locations = 0\<rparr>\<rparr>"

definition intern :: "string \<Rightarrow> profile_builder \<Rightarrow> nat \<times> profile_builder" where
  "intern s b =
     (case map_of (pb_strings b) s of
        Some i \<Rightarrow> (i, b)
      | None \<Rightarrow>
          (let i = length (pp_strings (pb_profile b))
           in (i, b\<lparr>pb_profile := (pb_profile b)\<lparr>pp_strings := pp_strings (pb_profile b) @ [s]\<rparr>,
                    pb_strings := AList.update s i (pb_strings b)\<rparr>)))"

definition build_value_type :: "string \<Rightarrow> string \<Rightarrow> profile_builder \<Rightarrow> value_type \<times> profile_builder" where
  "build_value_type kind unit b =
     (let (k, b1) = intern kind b; (u, b2) = intern unit b1
      in (\<lparr>vt_type = k, vt_unit = u\<rparr>, b2))"

fun sample_labels :: "(string \<times> string) list \<Rightarrow> profile_builder \<Rightarrow> label list \<times> profile_builder" where
  "sample_labels [] b = ([], b)"
| "sample_labels ((key, val) # rest) b =
     (let (k, b1) = intern key b; (v, b2) = intern val b1; (ls, b3) = sample_labels rest b2
      in (\<lparr>lb_key = k, lb_str = v, lb_num = 0, lb_num_unit = 0\<rparr> # ls, b3))"

definition thread_labels ::
  "u32 \<Rightarrow> u32 \<Rightarrow> string option \<Rightarrow> profile_builder \<Rightarrow> label list \<times> profile_builder" where
  "thread_labels pid tid name b =
     (let (p, b1) = intern ''process.pid'' b; (t, b2) = intern ''thread.id'' b1;
          ls = [\<lparr>lb_key = p, lb_str = 0, lb_num = ucast pid, lb_num_unit = 0\<rparr>,
                \<lparr>lb_key = t, lb_str = 0, lb_num = ucast tid, lb_num_unit = 0\<rparr>]
      in case name of
           None \<Rightarrow> (ls, b2)
         | Some n \<Rightarrow>
             (let (k, b3) = intern ''thread.name'' b2; (v, b4) = intern n b3
              in (ls @ [\<lparr>lb_key = k, lb_str = v, lb_num = 0, lb_num_unit = 0\<rparr>], b4)))"

definition or_default :: "string option \<Rightarrow> string" where
  "or_default s = (case s of None \<Rightarrow> [] | Some v \<Rightarrow> v)"

definition has_filenames :: "resolved_location \<Rightarrow> bool" where
  "has_filenames r \<longleftrightarrow> list_ex (\<lambda>l. sl_filename l \<noteq> None) (rl_lines r)"

definition has_line_numbers :: "resolved_location \<Rightarrow> bool" where
  "has_line_numbers r \<longleftrightarrow> list_ex (\<lambda>l. sl_line l \<noteq> 0) (rl_lines r)"

definition has_inline_frames :: "resolved_location \<Rightarrow> bool" where
  "has_inline_frames r \<longleftrightarrow> length (rl_lines r) > 1"

definition merge_flags :: "resolved_location \<Rightarrow> pp_mapping \<Rightarrow> pp_mapping" where
  "merge_flags r m =
     m\<lparr>pm_has_functions := pm_has_functions m \<or> is_symbolized r,
       pm_has_filenames := pm_has_filenames m \<or> has_filenames r,
       pm_has_line_numbers := pm_has_line_numbers m \<or> has_line_numbers r,
       pm_has_inline_frames := pm_has_inline_frames m \<or> has_inline_frames r\<rparr>"

definition build_mapping ::
  "mapping_info \<Rightarrow> resolved_location \<Rightarrow> profile_builder \<Rightarrow> nat \<times> profile_builder" where
  "build_mapping info r b =
     (case map_of (pb_mappings b) info of
        Some i \<Rightarrow>
          (let ms = pp_mappings (pb_profile b)
           in (i, b\<lparr>pb_profile := (pb_profile b)\<lparr>pp_mappings :=
                     (if i - 1 < length ms then ms[i - 1 := merge_flags r (ms ! (i - 1))] else ms)\<rparr>\<rparr>))
      | None \<Rightarrow>
          (let i = length (pp_mappings (pb_profile b)) + 1;
               (file, b1) = intern (mi_filename info) b;
               (build, b2) = intern (or_default (mi_build_id info)) b1;
               m = \<lparr>pm_id = i, pm_memory_start = mi_start info, pm_memory_limit = mi_limit info,
                    pm_file_offset = mi_offset info, pm_filename = file, pm_build_id = build,
                    pm_has_functions = is_symbolized r, pm_has_filenames = has_filenames r,
                    pm_has_line_numbers = has_line_numbers r,
                    pm_has_inline_frames = has_inline_frames r\<rparr>
           in (i, b2\<lparr>pb_profile := (pb_profile b2)\<lparr>pp_mappings := pp_mappings (pb_profile b2) @ [m]\<rparr>,
                     pb_mappings := AList.update info i (pb_mappings b2)\<rparr>)))"

definition function_key :: "symbolized_line \<Rightarrow> string \<times> string \<times> string option" where
  "function_key l = (sl_function l, sl_system_name l, sl_filename l)"

definition build_function :: "symbolized_line \<Rightarrow> profile_builder \<Rightarrow> nat \<times> profile_builder" where
  "build_function l b =
     (case map_of (pb_functions b) (function_key l) of
        Some i \<Rightarrow> (i, b)
      | None \<Rightarrow>
          (let i = length (pp_functions (pb_profile b)) + 1;
               (name, b1) = intern (sl_function l) b;
               (system, b2) = intern (sl_system_name l) b1;
               (file, b3) = intern (or_default (sl_filename l)) b2;
               f = \<lparr>pf_id = i, pf_name = name, pf_system_name = system, pf_filename = file,
                    pf_start_line = 0\<rparr>
           in (i, b3\<lparr>pb_profile := (pb_profile b3)\<lparr>pp_functions := pp_functions (pb_profile b3) @ [f]\<rparr>,
                     pb_functions := AList.update (function_key l) i (pb_functions b3)\<rparr>)))"

fun build_lines :: "symbolized_line list \<Rightarrow> profile_builder \<Rightarrow> pp_line list \<times> profile_builder" where
  "build_lines [] b = ([], b)"
| "build_lines (l # rest) b =
     (let (f, b1) = build_function l b; (ls, b2) = build_lines rest b1
      in (\<lparr>pl_function_id = f, pl_line = sl_line l, pl_column = 0\<rparr> # ls, b2))"

definition push_location ::
  "nat \<Rightarrow> u64 \<Rightarrow> pp_line list \<Rightarrow> profile_builder \<Rightarrow> nat \<times> profile_builder" where
  "push_location mapping addr ls b =
     (let i = length (pp_locations (pb_profile b)) + 1;
          lo = \<lparr>po_id = i, po_mapping_id = mapping, po_address = addr, po_line = ls, po_is_folded = False\<rparr>
      in (i, b\<lparr>pb_profile := (pb_profile b)\<lparr>pp_locations := pp_locations (pb_profile b) @ [lo]\<rparr>,
               pb_locations := AList.update addr i (pb_locations b)\<rparr>))"

definition count_location :: "profile_builder \<Rightarrow> profile_builder" where
  "count_location b =
     b\<lparr>pb_stats := (pb_stats b)\<lparr>es_total_locations := es_total_locations (pb_stats b) + 1\<rparr>\<rparr>"

definition count_symbolized :: "profile_builder \<Rightarrow> profile_builder" where
  "count_symbolized b =
     b\<lparr>pb_stats := (pb_stats b)\<lparr>es_symbolized_locations := es_symbolized_locations (pb_stats b) + 1\<rparr>\<rparr>"

definition add_resolved :: "resolved_location \<Rightarrow> u64 \<Rightarrow> profile_builder \<Rightarrow> nat \<times> profile_builder" where
  "add_resolved r addr b =
     (let (mapping, b1) = (case rl_mapping r of
                             None \<Rightarrow> (0, b) | Some info \<Rightarrow> build_mapping info r b);
          (ls, b2) = build_lines (rl_lines r) b1
      in push_location mapping addr ls b2)"

definition build_location ::
  "(string \<Rightarrow> string) \<Rightarrow> u64 \<Rightarrow> profile_builder \<Rightarrow> nat \<times> profile_builder" where
  "build_location demangle addr b =
     (case map_of (pb_locations b) addr of
        Some i \<Rightarrow> (i, b)
      | None \<Rightarrow>
          (let b1 = count_location b
           in case pb_symbolizer b1 of
                None \<Rightarrow> push_location 0 addr [] b1
              | Some sz \<Rightarrow>
                  (let (r, sz') = resolve demangle addr sz;
                       b2 = b1\<lparr>pb_symbolizer := Some sz'\<rparr>;
                       b3 = (if is_symbolized r then count_symbolized b2 else b2)
                   in add_resolved r addr b3)))"

fun build_locations ::
  "(string \<Rightarrow> string) \<Rightarrow> u64 list \<Rightarrow> profile_builder \<Rightarrow> nat list \<times> profile_builder" where
  "build_locations demangle [] b = ([], b)"
| "build_locations demangle (a # as) b =
     (let (i, b1) = build_location demangle a b; (is, b2) = build_locations demangle as b1
      in (i # is, b2))"

definition add_sample ::
  "(string \<Rightarrow> string) \<Rightarrow> stack \<Rightarrow> i64 list \<Rightarrow> label list \<Rightarrow> profile_builder \<Rightarrow> profile_builder" where
  "add_sample demangle s vals labels b =
     (let (ids, b1) = build_locations demangle (addresses_of s) b;
          sample = \<lparr>ps_location_id = ids, ps_value = vals, ps_label = labels\<rparr>
      in b1\<lparr>pb_profile := (pb_profile b1)\<lparr>pp_samples := pp_samples (pb_profile b1) @ [sample]\<rparr>\<rparr>)"

section \<open>The profiles\<close>

definition set_types ::
  "value_type list \<Rightarrow> value_type option \<Rightarrow> i64 \<Rightarrow> nat \<Rightarrow> profile_builder \<Rightarrow> profile_builder" where
  "set_types types period_type period default_type b =
     b\<lparr>pb_profile := (pb_profile b)\<lparr>pp_sample_type := types, pp_period_type := period_type,
        pp_period := period, pp_default_sample_type := default_type\<rparr>\<rparr>"

definition cpu_period :: "u32 \<Rightarrow> i64" where
  "cpu_period frequency = ucast ((1000000000 :: u32) div max frequency 1)"

definition cpu_header :: "i64 \<Rightarrow> profile_builder \<Rightarrow> profile_builder" where
  "cpu_header period b =
     (let (samples_type, b1) = build_value_type ''samples'' ''count'' b;
          (cpu_type, b2) = build_value_type ''cpu'' ''nanoseconds'' b1;
          (default_type, b3) = intern ''cpu'' b2
      in set_types [samples_type, cpu_type] (Some cpu_type) period default_type b3)"

text \<open>One sample with the configured labels first and the labels of its thread after them.\<close>

definition add_attributed ::
  "(string \<Rightarrow> string) \<Rightarrow> (string \<times> string) list \<Rightarrow> ('v \<Rightarrow> i64 list) \<Rightarrow> attributed_stack \<times> 'v \<Rightarrow>
   profile_builder \<Rightarrow> profile_builder" where
  "add_attributed demangle labels vals entry b =
     (let (key, v) = entry;
          (ls, b1) = sample_labels labels b;
          (ts, b2) = thread_labels (as_pid key) (as_tid key) (as_thread_name key) b1
      in add_sample demangle (as_stack key) (vals v) (ls @ ts) b2)"

definition cpu_value_list :: "cpu_values \<Rightarrow> i64 list" where
  "cpu_value_list v = [cpu_samples v, cpu_nanoseconds v]"

definition off_cpu_value_list :: "off_cpu_values \<Rightarrow> i64 list" where
  "off_cpu_value_list v = [oc_events v, oc_nanoseconds v]"

definition heap_value_list :: "heap_values \<Rightarrow> i64 list" where
  "heap_value_list v = [hv_alloc_objects v, hv_alloc_space v, hv_inuse_objects v, hv_inuse_space v]"

definition build_cpu_profile ::
  "(string \<Rightarrow> string) \<Rightarrow> (attributed_stack, cpu_values) table \<Rightarrow> symbolizer \<Rightarrow> i64 \<Rightarrow> i64 \<Rightarrow> u32 \<Rightarrow>
   (string \<times> string) list \<Rightarrow> profile_builder" where
  "build_cpu_profile demangle samples sz time duration frequency labels =
     fold (add_attributed demangle labels cpu_value_list) samples
       (cpu_header (cpu_period frequency) (new_builder (Some sz) time duration))"

definition max_i64 :: "i64 \<Rightarrow> i64 \<Rightarrow> i64" where
  "max_i64 a b = (if sint a < sint b then b else a)"

definition build_raw_cpu_profile ::
  "(attributed_stack, cpu_values) table \<Rightarrow> i64 \<Rightarrow> i64 \<Rightarrow> i64 \<Rightarrow> profile_builder" where
  "build_raw_cpu_profile samples time duration period =
     fold (add_attributed id [] cpu_value_list) samples
       (cpu_header (max_i64 period 1) (new_builder None time duration))"

definition off_cpu_header :: "profile_builder \<Rightarrow> profile_builder" where
  "off_cpu_header b =
     (let (event_type, b1) = build_value_type ''off_cpu_events'' ''count'' b;
          (duration_type, b2) = build_value_type ''off_cpu'' ''nanoseconds'' b1;
          (default_type, b3) = intern ''off_cpu'' b2
      in set_types [event_type, duration_type] None 0 default_type b3)"

definition build_off_cpu_profile ::
  "(string \<Rightarrow> string) \<Rightarrow> (attributed_stack, off_cpu_values) table \<Rightarrow> symbolizer \<Rightarrow> i64 \<Rightarrow> i64 \<Rightarrow>
   (string \<times> string) list \<Rightarrow> profile_builder" where
  "build_off_cpu_profile demangle samples sz time duration labels =
     fold (add_attributed demangle labels off_cpu_value_list) samples
       (off_cpu_header (new_builder (Some sz) time duration))"

definition build_raw_off_cpu_profile ::
  "(attributed_stack, off_cpu_values) table \<Rightarrow> i64 \<Rightarrow> i64 \<Rightarrow> profile_builder" where
  "build_raw_off_cpu_profile samples time duration =
     fold (add_attributed id [] off_cpu_value_list) samples
       (off_cpu_header (new_builder None time duration))"

fun build_value_types :: "(string \<times> string) list \<Rightarrow> profile_builder \<Rightarrow> value_type list \<times> profile_builder" where
  "build_value_types [] b = ([], b)"
| "build_value_types ((kind, unit) # rest) b =
     (let (t, b1) = build_value_type kind unit b; (ts, b2) = build_value_types rest b1
      in (t # ts, b2))"

definition heap_comment :: string where
  "heap_comment =
     ''inuse values include only sampled allocations observed since rustprofile attached''"

definition heap_header :: "u64 \<Rightarrow> profile_builder \<Rightarrow> profile_builder" where
  "heap_header interval b =
     (let (types, b1) = build_value_types
            [(''alloc_objects'', ''count''), (''alloc_space'', ''bytes''),
             (''inuse_objects'', ''count''), (''inuse_space'', ''bytes'')] b;
          (space, b2) = build_value_type ''space'' ''bytes'' b1;
          (default_type, b3) = intern ''inuse_space'' b2;
          (comment, b4) = intern heap_comment b3;
          b5 = set_types types (Some space) (i64_of_u64 interval) default_type b4
      in b5\<lparr>pb_profile := (pb_profile b5)\<lparr>pp_comment := pp_comment (pb_profile b5) @ [comment]\<rparr>\<rparr>)"

definition build_heap_profile ::
  "(string \<Rightarrow> string) \<Rightarrow> (stack, heap_values) table \<Rightarrow> symbolizer \<Rightarrow> i64 \<Rightarrow> i64 \<Rightarrow> u64 \<Rightarrow>
   (string \<times> string) list \<Rightarrow> profile_builder" where
  "build_heap_profile demangle samples sz time duration interval labels =
     (let (ls, b) = sample_labels labels (heap_header interval (new_builder (Some sz) time duration))
      in fold (\<lambda>(s, v) b. add_sample demangle s (heap_value_list v) ls b) samples b)"

text \<open>The timeline keeps one sample per timed sample whose timestamp could be converted.\<close>

definition timeline_entry :: "timed_stack_sample \<Rightarrow> attributed_stack \<times> u64" where
  "timeline_entry t =
     (\<lparr>as_stack = ts_stack t, as_pid = ts_pid t, as_tid = ts_tid t, as_thread_name = ts_thread_name t\<rparr>,
      ts_cpu_delta t)"

fun add_timeline ::
  "(string \<Rightarrow> string) \<Rightarrow> (string \<times> string) list \<Rightarrow> (timed_stack_sample \<times> u64 option) list \<Rightarrow>
   u64 list \<Rightarrow> profile_builder \<Rightarrow> u64 list \<times> profile_builder" where
  "add_timeline demangle labels [] encoded b = (encoded, b)"
| "add_timeline demangle labels ((t, stamp) # rest) encoded b =
     (case stamp of
        None \<Rightarrow> add_timeline demangle labels rest encoded b
      | Some at \<Rightarrow>
          add_timeline demangle labels rest (encoded @ [at])
            (add_attributed demangle labels (\<lambda>d. [i64_of_u64 d]) (timeline_entry t) b))"

datatype pprof_error = Timeline_Lengths_Differ

definition build_cpu_timeline_profile ::
  "(string \<Rightarrow> string) \<Rightarrow> timed_stack_sample list \<Rightarrow> u64 option list \<Rightarrow> symbolizer option \<Rightarrow> i64 \<Rightarrow>
   i64 \<Rightarrow> u32 \<Rightarrow> (string \<times> string) list \<Rightarrow> pprof_error + (u64 list \<times> profile_builder)" where
  "build_cpu_timeline_profile demangle samples stamps symbols time duration frequency labels =
     (if length samples \<noteq> length stamps then Inl Timeline_Lengths_Differ
      else
        let (cpu_type, b1) = build_value_type ''cpu'' ''nanoseconds'' (new_builder symbols time duration);
            (default_type, b2) = intern ''cpu'' b1;
            b3 = set_types [cpu_type] (Some cpu_type) (cpu_period frequency) default_type b2
        in Inr (add_timeline demangle labels (zip samples stamps) [] b3))"

end
