(* ===== verification/Pprof_Laws.thy ===== *)
theory Pprof_Laws
  imports Pprof
begin

text \<open>
  What a pprof profile denotes, and that the builder of \<open>Pprof\<close> builds the profile of its input.

  \<^item> \<open>str_is\<close>, \<open>function_is\<close>, \<open>mapping_is\<close>, \<open>line_is\<close>, \<open>location_is\<close>: an entry of a profile, read
    through its string indices and ids, is the given string, function, mapping, line or resolution.
  \<^item> \<open>ext\<close>: a profile grows by appending only (a mapping may gain flags), so what an id denotes never
    changes.
  \<^item> \<open>builder_inv\<close>: the four hash maps number the entries of the four lists, and each entry is its
    key's. Every operation preserves it and extends the profile; the four tables are interpretations
    of \<open>interner\<close>.
\<close>

section \<open>Denotation\<close>

definition str_is :: "pprof \<Rightarrow> nat \<Rightarrow> string \<Rightarrow> bool" where
  "str_is p i s \<longleftrightarrow> i < length (pp_strings p) \<and> pp_strings p ! i = s"

definition function_is :: "pprof \<Rightarrow> string \<times> string \<times> string option \<Rightarrow> pp_function \<Rightarrow> bool" where
  "function_is p key f \<longleftrightarrow>
     (let (name, system, file) = key
      in str_is p (pf_name f) name \<and> str_is p (pf_system_name f) system \<and>
         str_is p (pf_filename f) (or_default file))"

definition pm_core :: "pp_mapping \<Rightarrow> nat \<times> u64 \<times> u64 \<times> u64 \<times> nat \<times> nat" where
  "pm_core m =
     (pm_id m, pm_memory_start m, pm_memory_limit m, pm_file_offset m, pm_filename m, pm_build_id m)"

definition core_is :: "pprof \<Rightarrow> mapping_info \<Rightarrow> nat \<times> u64 \<times> u64 \<times> u64 \<times> nat \<times> nat \<Rightarrow> bool" where
  "core_is p k c \<longleftrightarrow>
     (let (_, start, limit, off, file, build) = c
      in start = mi_start k \<and> limit = mi_limit k \<and> off = mi_offset k \<and>
         str_is p file (mi_filename k) \<and> str_is p build (or_default (mi_build_id k)))"

definition mapping_is :: "pprof \<Rightarrow> mapping_info \<Rightarrow> pp_mapping \<Rightarrow> bool" where
  "mapping_is p k m \<longleftrightarrow> core_is p k (pm_core m)"

definition nth_id :: "'a list \<Rightarrow> nat \<Rightarrow> ('a \<Rightarrow> bool) \<Rightarrow> bool" where
  "nth_id xs i good \<longleftrightarrow> 1 \<le> i \<and> i \<le> length xs \<and> good (xs ! (i - 1))"

definition line_is :: "pprof \<Rightarrow> symbolized_line \<Rightarrow> pp_line \<Rightarrow> bool" where
  "line_is p l ln \<longleftrightarrow>
     pl_line ln = sl_line l \<and> nth_id (pp_functions p) (pl_function_id ln) (function_is p (function_key l))"

definition mapping_ref_is :: "pprof \<Rightarrow> mapping_info option \<Rightarrow> nat \<Rightarrow> bool" where
  "mapping_ref_is p k i \<longleftrightarrow>
     (case k of None \<Rightarrow> i = 0 | Some k \<Rightarrow> nth_id (pp_mappings p) i (mapping_is p k))"

definition location_is :: "pprof \<Rightarrow> u64 \<Rightarrow> resolved_location \<Rightarrow> pp_location \<Rightarrow> bool" where
  "location_is p addr r lo \<longleftrightarrow>
     po_address lo = addr \<and> mapping_ref_is p (rl_mapping r) (po_mapping_id lo) \<and>
     list_all2 (line_is p) (rl_lines r) (po_line lo)"

section \<open>Growing profiles\<close>

definition ext :: "pprof \<Rightarrow> pprof \<Rightarrow> bool" where
  "ext p q \<longleftrightarrow>
     grows (pp_strings p) (pp_strings q) \<and> grows (pp_functions p) (pp_functions q) \<and>
     grows (map pm_core (pp_mappings p)) (map pm_core (pp_mappings q)) \<and>
     grows (pp_locations p) (pp_locations q)"

lemma ext_refl [simp]: "ext p p"
  by (simp add: ext_def)

lemma ext_trans: "ext p q \<Longrightarrow> ext q r \<Longrightarrow> ext p r"
  unfolding ext_def by (meson grows_trans)

lemma str_is_ext: "ext p q \<Longrightarrow> str_is p i s \<Longrightarrow> str_is q i s"
  by (auto simp: ext_def grows_def str_is_def)

lemma function_is_ext: "ext p q \<Longrightarrow> function_is p k f \<Longrightarrow> function_is q k f"
  by (auto simp: function_is_def intro: str_is_ext split: prod.splits)

lemma mapping_is_ext:
  assumes "ext p q" "mapping_is p k m" "pm_core m' = pm_core m"
  shows "mapping_is q k m'"
  using assms by (auto simp: mapping_is_def core_is_def intro: str_is_ext split: prod.splits)

lemma nth_id_grows:
  "grows xs ys \<Longrightarrow> nth_id xs i P \<Longrightarrow> (\<And>x. P x \<Longrightarrow> Q x) \<Longrightarrow> nth_id ys i Q"
  by (auto simp: grows_def nth_id_def)

lemma line_is_ext: "ext p q \<Longrightarrow> line_is p l ln \<Longrightarrow> line_is q l ln"
  unfolding line_is_def by (auto simp: ext_def intro: nth_id_grows function_is_ext [unfolded ext_def])

lemma mapping_ref_is_ext:
  assumes "ext p q" "mapping_ref_is p k i"
  shows "mapping_ref_is q k i"
proof (cases k)
  case None
  with assms(2) show ?thesis by (simp add: mapping_ref_is_def)
next
  case (Some info)
  with assms(2) have id: "1 \<le> i" "i \<le> length (pp_mappings p)" "mapping_is p info (pp_mappings p ! (i - 1))"
    by (simp_all add: mapping_ref_is_def nth_id_def)
  have le: "length (pp_mappings p) \<le> length (pp_mappings q)"
    and same: "pm_core (pp_mappings q ! (i - 1)) = pm_core (pp_mappings p ! (i - 1))"
    using assms(1) id by (auto simp: ext_def grows_def)
  show ?thesis using Some id le mapping_is_ext [OF assms(1) id(3) same]
    by (simp add: mapping_ref_is_def nth_id_def)
qed

lemma location_is_ext: "ext p q \<Longrightarrow> location_is p a r lo \<Longrightarrow> location_is q a r lo"
  unfolding location_is_def
  by (auto intro: mapping_ref_is_ext elim!: list.rel_mono_strong line_is_ext)

section \<open>The invariant\<close>

definition strings_ok :: "profile_builder \<Rightarrow> bool" where
  "strings_ok b \<longleftrightarrow>
     indexed 0 (map_of (pb_strings b)) (length (pp_strings (pb_profile b))) \<and>
     (\<forall>s i. map_of (pb_strings b) s = Some i \<longrightarrow> pp_strings (pb_profile b) ! i = s)"

definition functions_ok :: "profile_builder \<Rightarrow> bool" where
  "functions_ok b \<longleftrightarrow>
     indexed 1 (map_of (pb_functions b)) (length (pp_functions (pb_profile b))) \<and>
     (\<forall>k i. map_of (pb_functions b) k = Some i \<longrightarrow>
        function_is (pb_profile b) k (pp_functions (pb_profile b) ! (i - 1)))"

definition mappings_ok :: "profile_builder \<Rightarrow> bool" where
  "mappings_ok b \<longleftrightarrow>
     indexed 1 (map_of (pb_mappings b)) (length (pp_mappings (pb_profile b))) \<and>
     (\<forall>k i. map_of (pb_mappings b) k = Some i \<longrightarrow>
        mapping_is (pb_profile b) k (pp_mappings (pb_profile b) ! (i - 1)))"

definition locations_ok :: "(u64 \<Rightarrow> resolved_location) \<Rightarrow> profile_builder \<Rightarrow> bool" where
  "locations_ok R b \<longleftrightarrow>
     indexed 1 (map_of (pb_locations b)) (length (pp_locations (pb_profile b))) \<and>
     (\<forall>a i. map_of (pb_locations b) a = Some i \<longrightarrow>
        location_is (pb_profile b) a (R a) (pp_locations (pb_profile b) ! (i - 1)))"

definition ids_ok :: "pprof \<Rightarrow> bool" where
  "ids_ok p \<longleftrightarrow>
     (\<forall>i < length (pp_functions p). pf_id (pp_functions p ! i) = i + 1) \<and>
     (\<forall>i < length (pp_mappings p). pm_id (pp_mappings p ! i) = i + 1) \<and>
     (\<forall>i < length (pp_locations p). po_id (pp_locations p ! i) = i + 1)"

definition unresolved :: "u64 \<Rightarrow> resolved_location" where
  "unresolved a = \<lparr>rl_address = a, rl_mapping = None, rl_lines = []\<rparr>"

definition resolver_ok :: "(string \<Rightarrow> string) \<Rightarrow> (u64 \<Rightarrow> resolved_location) \<Rightarrow> profile_builder \<Rightarrow> bool" where
  "resolver_ok demangle R b \<longleftrightarrow>
     (case pb_symbolizer b of
        None \<Rightarrow> R = unresolved
      | Some sz \<Rightarrow> coherent demangle sz \<and> resolve_uncached demangle sz = R)"

definition builder_inv :: "(string \<Rightarrow> string) \<Rightarrow> (u64 \<Rightarrow> resolved_location) \<Rightarrow> profile_builder \<Rightarrow> bool" where
  "builder_inv demangle R b \<longleftrightarrow>
     strings_ok b \<and> functions_ok b \<and> mappings_ok b \<and> locations_ok R b \<and> ids_ok (pb_profile b) \<and>
     resolver_ok demangle R b"

lemma functions_okD:
  assumes "functions_ok b" "map_of (pb_functions b) k = Some i"
  shows "nth_id (pp_functions (pb_profile b)) i (function_is (pb_profile b) k)"
proof -
  have "function_is (pb_profile b) k (pp_functions (pb_profile b) ! (i - 1))"
    and ix: "indexed 1 (map_of (pb_functions b)) (length (pp_functions (pb_profile b)))"
    using assms unfolding functions_ok_def by blast+
  with indexed_bound [OF ix assms(2)] show ?thesis by (simp add: nth_id_def)
qed

lemma mappings_okD:
  assumes "mappings_ok b" "map_of (pb_mappings b) k = Some i"
  shows "nth_id (pp_mappings (pb_profile b)) i (mapping_is (pb_profile b) k)"
proof -
  have "mapping_is (pb_profile b) k (pp_mappings (pb_profile b) ! (i - 1))"
    and ix: "indexed 1 (map_of (pb_mappings b)) (length (pp_mappings (pb_profile b)))"
    using assms unfolding mappings_ok_def by blast+
  with indexed_bound [OF ix assms(2)] show ?thesis by (simp add: nth_id_def)
qed

lemma locations_okD:
  assumes "locations_ok R b" "map_of (pb_locations b) a = Some i"
  shows "nth_id (pp_locations (pb_profile b)) i (location_is (pb_profile b) a (R a))"
proof -
  have "location_is (pb_profile b) a (R a) (pp_locations (pb_profile b) ! (i - 1))"
    and ix: "indexed 1 (map_of (pb_locations b)) (length (pp_locations (pb_profile b)))"
    using assms unfolding locations_ok_def by blast+
  with indexed_bound [OF ix assms(2)] show ?thesis by (simp add: nth_id_def)
qed

text \<open>What every operation but \<open>add_sample\<close> keeps.\<close>

definition pp_head ::
  "pprof \<Rightarrow> value_type list \<times> value_type option \<times> i64 \<times> nat \<times> i64 \<times> i64 \<times> nat list \<times> nat \<times> i64 \<times> i64" where
  "pp_head p = (pp_sample_type p, pp_period_type p, pp_period p, pp_default_sample_type p,
     pp_time_nanos p, pp_duration_nanos p, pp_comment p, pp_doc_url p, pp_drop_frames p, pp_keep_frames p)"

text \<open>The part of it that no profile of this program sets.\<close>

definition pp_rest :: "pprof \<Rightarrow> nat list \<times> nat \<times> i64 \<times> i64" where
  "pp_rest p = (pp_comment p, pp_doc_url p, pp_drop_frames p, pp_keep_frames p)"

lemma pp_head_rest: "pp_head q = pp_head p \<Longrightarrow> pp_rest q = pp_rest p"
  by (simp add: pp_head_def pp_rest_def)

lemma pp_head_upd [simp]:
  "pp_head (p\<lparr>pp_strings := ss\<rparr>) = pp_head p" "pp_head (p\<lparr>pp_functions := fs\<rparr>) = pp_head p"
  "pp_head (p\<lparr>pp_mappings := ms\<rparr>) = pp_head p" "pp_head (p\<lparr>pp_locations := ls\<rparr>) = pp_head p"
  "pp_head (p\<lparr>pp_samples := smps\<rparr>) = pp_head p"
  by (simp_all add: pp_head_def)

definition evolves :: "profile_builder \<Rightarrow> profile_builder \<Rightarrow> bool" where
  "evolves b b' \<longleftrightarrow>
     ext (pb_profile b) (pb_profile b') \<and> pp_samples (pb_profile b') = pp_samples (pb_profile b) \<and>
     pp_head (pb_profile b') = pp_head (pb_profile b)"

lemma evolves_refl [simp]: "evolves b b"
  by (simp add: evolves_def)

lemma evolves_trans: "evolves a b \<Longrightarrow> evolves b c \<Longrightarrow> evolves a c"
  unfolding evolves_def by (metis ext_trans)

lemma evolves_ext: "evolves b b' \<Longrightarrow> ext (pb_profile b) (pb_profile b')"
  by (simp add: evolves_def)

section \<open>Strings\<close>

lemma intern_old: "map_of (pb_strings b) s = Some i \<Longrightarrow> intern s b = (i, b)"
  by (simp add: intern_def)

lemma intern_new:
  "map_of (pb_strings b) s = None \<Longrightarrow>
   intern s b =
     (length (pp_strings (pb_profile b)),
      b\<lparr>pb_profile := (pb_profile b)\<lparr>pp_strings := pp_strings (pb_profile b) @ [s]\<rparr>,
        pb_strings := AList.update s (length (pp_strings (pb_profile b))) (pb_strings b)\<rparr>)"
  by (simp add: intern_def Let_def del: map_of_eq_None_iff)

lemma ext_strings: "ext p (p\<lparr>pp_strings := pp_strings p @ ss\<rparr>)"
  by (simp add: ext_def)

lemma intern_evolves: "evolves b (snd (intern s b))"
proof (cases "map_of (pb_strings b) s")
  case None
  then show ?thesis by (simp only: intern_new) (simp add: evolves_def ext_strings)
next
  case (Some i)
  then show ?thesis by (simp add: intern_old)
qed

lemma intern_frame [simp]:
  "pb_functions (snd (intern s b)) = pb_functions b"
  "pb_mappings (snd (intern s b)) = pb_mappings b"
  "pb_locations (snd (intern s b)) = pb_locations b"
  "pb_symbolizer (snd (intern s b)) = pb_symbolizer b"
  "pb_stats (snd (intern s b)) = pb_stats b"
  "pp_functions (pb_profile (snd (intern s b))) = pp_functions (pb_profile b)"
  "pp_mappings (pb_profile (snd (intern s b))) = pp_mappings (pb_profile b)"
  "pp_locations (pb_profile (snd (intern s b))) = pp_locations (pb_profile b)"
  "pp_samples (pb_profile (snd (intern s b))) = pp_samples (pb_profile b)"
  by (simp_all add: intern_def Let_def split: option.split)

lemma intern_strings_ok:
  assumes "strings_ok b"
  shows "strings_ok (snd (intern s b))"
proof (cases "map_of (pb_strings b) s")
  case None
  let ?n = "length (pp_strings (pb_profile b))"
  have ix: "indexed 0 (map_of (pb_strings b)) ?n" using assms by (simp add: strings_ok_def)
  have "(pp_strings (pb_profile b) @ [s]) ! i = t"
    if "((map_of (pb_strings b))(s \<mapsto> ?n)) t = Some i" for t i
    using that assms indexed_bound [OF ix, of t i]
    by (auto simp: strings_ok_def nth_append split: if_splits)
  with indexed_fresh [OF ix None] show ?thesis
    by (simp add: strings_ok_def intern_new [OF None])
next
  case (Some i)
  with assms show ?thesis by (simp add: intern_old)
qed

lemma intern_str_is:
  assumes "strings_ok b"
  shows "str_is (pb_profile (snd (intern s b))) (fst (intern s b)) s"
proof (cases "map_of (pb_strings b) s")
  case None
  then show ?thesis by (simp add: intern_new str_is_def)
next
  case (Some i)
  have "i < length (pp_strings (pb_profile b))"
    using assms Some indexed_bound [of 0 "map_of (pb_strings b)"] by (fastforce simp: strings_ok_def)
  with assms Some show ?thesis by (simp add: intern_old str_is_def strings_ok_def)
qed

text \<open>The other tables only see a longer profile.\<close>

lemma functions_ok_ext:
  assumes "functions_ok b" "ext (pb_profile b) (pb_profile b')" "pb_functions b' = pb_functions b"
    and "pp_functions (pb_profile b') = pp_functions (pb_profile b)"
  shows "functions_ok b'"
  using assms by (auto simp: functions_ok_def intro: function_is_ext)

lemma mappings_ok_ext:
  assumes "mappings_ok b" "ext (pb_profile b) (pb_profile b')" "pb_mappings b' = pb_mappings b"
    and "map pm_core (pp_mappings (pb_profile b')) = map pm_core (pp_mappings (pb_profile b))"
  shows "mappings_ok b'"
proof -
  let ?ms = "pp_mappings (pb_profile b)" and ?ms' = "pp_mappings (pb_profile b')"
  have len: "length ?ms' = length ?ms" using map_eq_imp_length_eq [OF assms(4)] .
  have ix: "indexed 1 (map_of (pb_mappings b)) (length ?ms)" using assms(1) by (simp add: mappings_ok_def)
  have "mapping_is (pb_profile b') k (?ms' ! (i - 1))" if k: "map_of (pb_mappings b) k = Some i" for k i
  proof -
    have "i - 1 < length ?ms" using indexed_bound [OF ix k] by auto
    then have "pm_core (?ms' ! (i - 1)) = pm_core (?ms ! (i - 1))"
      using assms(4) len by (metis nth_map)
    with assms(1,2) k show ?thesis by (auto simp: mappings_ok_def intro: mapping_is_ext)
  qed
  with ix assms(3) len show ?thesis by (simp add: mappings_ok_def)
qed

lemma locations_ok_ext:
  assumes "locations_ok R b" "ext (pb_profile b) (pb_profile b')" "pb_locations b' = pb_locations b"
    and "pp_locations (pb_profile b') = pp_locations (pb_profile b)"
  shows "locations_ok R b'"
  using assms by (auto simp: locations_ok_def intro: location_is_ext)

lemma intern_inv:
  assumes "builder_inv demangle R b"
  shows "builder_inv demangle R (snd (intern s b))"
proof -
  note ev = evolves_ext [OF intern_evolves [of b s]]
  have "functions_ok (snd (intern s b))" "mappings_ok (snd (intern s b))" "locations_ok R (snd (intern s b))"
    using assms functions_ok_ext [OF _ ev] mappings_ok_ext [OF _ ev] locations_ok_ext [OF _ ev]
    by (simp_all add: builder_inv_def)
  with assms intern_strings_ok [of b s] show ?thesis
    by (simp add: builder_inv_def ids_ok_def resolver_ok_def)
qed

lemma inv_strings: "builder_inv demangle R b \<Longrightarrow> strings_ok b"
  by (simp add: builder_inv_def)

text \<open>The step as the proofs use it.\<close>

lemma intern_step:
  assumes "intern s b = (i, b')" "builder_inv demangle R b"
  shows "builder_inv demangle R b' \<and> evolves b b' \<and> str_is (pb_profile b') i s"
  using assms intern_inv [OF assms(2), of s] intern_evolves [of b s] intern_str_is [OF inv_strings [OF assms(2)], of s]
  by simp

interpretation strings: interner 0 "\<lambda>b. map_of (pb_strings b)" "\<lambda>b. pp_strings (pb_profile b)"
  "\<lambda>b s t. t = s" intern "builder_inv demangle R" for demangle R
proof unfold_locales
  fix b s i
  assume inv: "builder_inv demangle R b"
  show "indexed 0 (map_of (pb_strings b)) (length (pp_strings (pb_profile b)))"
    using inv by (simp add: builder_inv_def strings_ok_def)
  show "builder_inv demangle R (snd (intern s b))" using inv by (rule intern_inv)
  show "pp_strings (pb_profile b) ! (i - 0) = s" if "map_of (pb_strings b) s = Some i"
    using inv that by (simp add: builder_inv_def strings_ok_def)
  show "fst (intern s b) = i \<and> map_of (pb_strings (snd (intern s b))) = map_of (pb_strings b)"
    if "map_of (pb_strings b) s = Some i"
    using that by (simp add: intern_old)
  show "fst (intern s b) = 0 + length (pp_strings (pb_profile b)) \<and>
      map_of (pb_strings (snd (intern s b))) =
        (map_of (pb_strings b))(s \<mapsto> 0 + length (pp_strings (pb_profile b)))"
    if "map_of (pb_strings b) s = None"
    by (simp add: intern_new [OF that])
qed

section \<open>Functions and lines\<close>

definition push_function ::
  "string \<times> string \<times> string option \<Rightarrow> pp_function \<Rightarrow> profile_builder \<Rightarrow> profile_builder" where
  "push_function key f b =
     b\<lparr>pb_profile := (pb_profile b)\<lparr>pp_functions := pp_functions (pb_profile b) @ [f]\<rparr>,
       pb_functions := AList.update key (length (pp_functions (pb_profile b)) + 1) (pb_functions b)\<rparr>"

lemma push_function_evolves: "evolves b (push_function k f b)"
  by (simp add: evolves_def push_function_def ext_def)

lemma ids_append:
  assumes "\<forall>i < length xs. g (xs ! i) = Suc i" "g x = Suc (length xs)"
  shows "\<forall>i < Suc (length xs). g ((xs @ [x]) ! i) = Suc i"
  using assms by (auto simp: nth_append less_Suc_eq)

lemma push_function_inv:
  assumes "builder_inv demangle R b" "map_of (pb_functions b) k = None"
    and "function_is (pb_profile b) k f" "pf_id f = length (pp_functions (pb_profile b)) + 1"
  shows "builder_inv demangle R (push_function k f b)"
proof -
  let ?b = "push_function k f b" and ?n = "length (pp_functions (pb_profile b))"
  note ev = evolves_ext [OF push_function_evolves [of b k f]]
  have fok: "functions_ok b" using assms(1) by (simp add: builder_inv_def)
  then have ix: "indexed 1 (map_of (pb_functions b)) ?n" by (simp add: functions_ok_def)
  have item: "function_is (pb_profile ?b) l ((pp_functions (pb_profile b) @ [f]) ! (i - 1))"
    if l: "((map_of (pb_functions b))(k \<mapsto> 1 + ?n)) l = Some i" for l i
  proof (cases "l = k")
    case True
    with l assms(3) function_is_ext [OF ev] show ?thesis by (auto simp: nth_append)
  next
    case False
    with l have l': "map_of (pb_functions b) l = Some i" by simp
    have old: "nth_id (pp_functions (pb_profile b)) i (function_is (pb_profile b) l)"
      by (rule functions_okD [OF fok l'])
    then have "i - 1 < ?n" "function_is (pb_profile b) l (pp_functions (pb_profile b) ! (i - 1))"
      by (auto simp: nth_id_def)
    with function_is_ext [OF ev] show ?thesis by (simp add: nth_append)
  qed
  have "functions_ok ?b"
    using indexed_fresh [OF ix assms(2)] item by (simp add: functions_ok_def push_function_def)
  moreover have "strings_ok ?b" "mappings_ok ?b" "locations_ok R ?b" "resolver_ok demangle R ?b"
    using assms(1) mappings_ok_ext [OF _ ev] locations_ok_ext [OF _ ev]
    by (simp_all add: builder_inv_def strings_ok_def resolver_ok_def push_function_def)
  moreover have "ids_ok (pb_profile ?b)"
    using assms(1,4) ids_append [of "pp_functions (pb_profile b)" pf_id f]
    by (simp add: builder_inv_def ids_ok_def push_function_def)
  ultimately show ?thesis by (simp add: builder_inv_def)
qed

lemma build_function_new:
  assumes "map_of (pb_functions b) (function_key l) = None"
    and "intern (sl_function l) b = (i1, b1)" "intern (sl_system_name l) b1 = (i2, b2)"
    and "intern (or_default (sl_filename l)) b2 = (i3, b3)"
  shows "build_function l b =
    (length (pp_functions (pb_profile b)) + 1,
     push_function (function_key l)
       \<lparr>pf_id = length (pp_functions (pb_profile b)) + 1, pf_name = i1, pf_system_name = i2,
        pf_filename = i3, pf_start_line = 0\<rparr> b3)"
proof -
  have "pp_functions (pb_profile b3) = pp_functions (pb_profile b)"
    using intern_frame(6) [of "sl_function l" b] intern_frame(6) [of "sl_system_name l" b1]
      intern_frame(6) [of "or_default (sl_filename l)" b2] assms(2-4) by simp
  then show ?thesis
    using assms by (simp add: build_function_def push_function_def Let_def del: map_of_eq_None_iff)
qed

definition function_frame :: "profile_builder \<Rightarrow> profile_builder \<Rightarrow> bool" where
  "function_frame b b' \<longleftrightarrow>
     pb_mappings b' = pb_mappings b \<and> pb_locations b' = pb_locations b \<and>
     pb_symbolizer b' = pb_symbolizer b \<and> pb_stats b' = pb_stats b \<and>
     pp_mappings (pb_profile b') = pp_mappings (pb_profile b) \<and>
     pp_locations (pb_profile b') = pp_locations (pb_profile b)"

lemma intern_function_frame: "intern s b = (i, b') \<Longrightarrow> function_frame b b'"
  using intern_frame [of s b] by (simp add: function_frame_def)

lemma function_frame_trans: "function_frame a b \<Longrightarrow> function_frame b c \<Longrightarrow> function_frame a c"
  by (simp add: function_frame_def)

lemma function_step:
  assumes "build_function l b = (i, b')" "builder_inv demangle R b"
  shows "builder_inv demangle R b' \<and> evolves b b' \<and> function_frame b b' \<and>
    nth_id (pp_functions (pb_profile b')) i (function_is (pb_profile b') (function_key l)) \<and>
    map_of (pb_functions b') =
      (map_of (pb_functions b))(function_key l \<mapsto> i)"
proof (cases "map_of (pb_functions b) (function_key l)")
  case (Some j)
  then have eq: "i = j" "b' = b" using assms(1) by (simp_all add: build_function_def)
  have fok: "functions_ok b" using assms(2) by (simp add: builder_inv_def)
  show ?thesis
    unfolding eq using functions_okD [OF fok Some] assms(2) Some
    by (simp add: function_frame_def fun_upd_idem)
next
  case None
  obtain i1 b1 where s1: "intern (sl_function l) b = (i1, b1)" by (rule prod.exhaust)
  obtain i2 b2 where s2: "intern (sl_system_name l) b1 = (i2, b2)" by (rule prod.exhaust)
  obtain i3 b3 where s3: "intern (or_default (sl_filename l)) b2 = (i3, b3)" by (rule prod.exhaust)
  define n where "n = length (pp_functions (pb_profile b))"
  define f where "f = \<lparr>pf_id = n + 1, pf_name = i1, pf_system_name = i2, pf_filename = i3,
      pf_start_line = 0\<rparr>"
  have new: "i = n + 1" "b' = push_function (function_key l) f b3"
    using trans [OF assms(1) [symmetric] build_function_new [OF None s1 s2 s3]]
    by (auto simp: n_def f_def)
  note t1 = intern_step [OF s1 assms(2)]
  note t2 = intern_step [OF s2 conjunct1 [OF t1]]
  note t3 = intern_step [OF s3 conjunct1 [OF t2]]
  have fr: "function_frame b b3"
    using intern_function_frame [OF s1] intern_function_frame [OF s2] intern_function_frame [OF s3]
    by (meson function_frame_trans)
  have fs: "pb_functions b3 = pb_functions b" "pp_functions (pb_profile b3) = pp_functions (pb_profile b)"
    using intern_frame [of "sl_function l" b] intern_frame [of "sl_system_name l" b1]
      intern_frame [of "or_default (sl_filename l)" b2] s1 s2 s3 by simp_all
  have is3: "function_is (pb_profile b3) (function_key l) f"
    using t1 t2 t3 by (auto simp: function_is_def function_key_def f_def intro: str_is_ext evolves_ext)
  have none: "map_of (pb_functions b3) (function_key l) = None" using None fs(1) by simp
  have inv: "builder_inv demangle R b'"
    unfolding new using push_function_inv [OF conjunct1 [OF t3] none is3]
    by (simp add: f_def n_def fs)
  have ev3: "evolves b3 b'" unfolding new by (rule push_function_evolves)
  have ev: "evolves b b'"
    using t1 t2 t3 ev3 by (meson evolves_trans)
  have "function_is (pb_profile b') (function_key l) f"
    using function_is_ext [OF evolves_ext [OF ev3] is3] .
  then have "nth_id (pp_functions (pb_profile b')) i (function_is (pb_profile b') (function_key l))"
    by (simp add: nth_id_def new push_function_def fs n_def nth_append)
  moreover have "function_frame b b'"
    using fr by (simp add: new function_frame_def push_function_def)
  moreover have "map_of (pb_functions b') = (map_of (pb_functions b))(function_key l \<mapsto> i)"
    by (simp add: new push_function_def fs n_def)
  ultimately show ?thesis using inv ev by simp
qed

lemma lines_step:
  assumes "build_lines ls b = (out, b')" "builder_inv demangle R b"
  shows "builder_inv demangle R b' \<and> evolves b b' \<and> function_frame b b' \<and>
    list_all2 (line_is (pb_profile b')) ls out"
  using assms
proof (induction ls arbitrary: b out)
  case Nil
  then show ?case by (simp add: function_frame_def)
next
  case (Cons l ls)
  obtain i b1 where f: "build_function l b = (i, b1)" by (rule prod.exhaust)
  obtain rest b2 where r: "build_lines ls b1 = (rest, b2)" by (rule prod.exhaust)
  have out: "out = \<lparr>pl_function_id = i, pl_line = sl_line l, pl_column = 0\<rparr> # rest" "b' = b2"
    using Cons.prems(1) by (simp_all add: f r)
  note s1 = function_step [OF f Cons.prems(2)]
  note s2 = Cons.IH [OF r [folded out(2)] conjunct1 [OF s1]]
  have "line_is (pb_profile b1) l \<lparr>pl_function_id = i, pl_line = sl_line l, pl_column = 0\<rparr>"
    using s1 by (simp add: line_is_def)
  with s1 s2 show ?case
    by (auto simp: out intro: line_is_ext evolves_ext evolves_trans function_frame_trans)
qed

section \<open>Mappings\<close>

definition push_mapping :: "mapping_info \<Rightarrow> pp_mapping \<Rightarrow> profile_builder \<Rightarrow> profile_builder" where
  "push_mapping key m b =
     b\<lparr>pb_profile := (pb_profile b)\<lparr>pp_mappings := pp_mappings (pb_profile b) @ [m]\<rparr>,
       pb_mappings := AList.update key (length (pp_mappings (pb_profile b)) + 1) (pb_mappings b)\<rparr>"

definition mapping_frame :: "profile_builder \<Rightarrow> profile_builder \<Rightarrow> bool" where
  "mapping_frame b b' \<longleftrightarrow>
     pb_functions b' = pb_functions b \<and> pb_locations b' = pb_locations b \<and>
     pb_symbolizer b' = pb_symbolizer b \<and> pb_stats b' = pb_stats b \<and>
     pp_functions (pb_profile b') = pp_functions (pb_profile b) \<and>
     pp_locations (pb_profile b') = pp_locations (pb_profile b)"

lemma push_mapping_evolves: "evolves b (push_mapping k m b)"
  by (simp add: evolves_def push_mapping_def ext_def)

lemma push_mapping_inv:
  assumes "builder_inv demangle R b" "map_of (pb_mappings b) k = None"
    and "mapping_is (pb_profile b) k m" "pm_id m = length (pp_mappings (pb_profile b)) + 1"
  shows "builder_inv demangle R (push_mapping k m b)"
proof -
  let ?b = "push_mapping k m b" and ?n = "length (pp_mappings (pb_profile b))"
  note ev = evolves_ext [OF push_mapping_evolves [of b k m]]
  have mok: "mappings_ok b" using assms(1) by (simp add: builder_inv_def)
  then have ix: "indexed 1 (map_of (pb_mappings b)) ?n" by (simp add: mappings_ok_def)
  have item: "mapping_is (pb_profile ?b) l ((pp_mappings (pb_profile b) @ [m]) ! (i - 1))"
    if l: "((map_of (pb_mappings b))(k \<mapsto> 1 + ?n)) l = Some i" for l i
  proof (cases "l = k")
    case True
    with l assms(3) mapping_is_ext [OF ev] show ?thesis by (auto simp: nth_append)
  next
    case False
    with l have l': "map_of (pb_mappings b) l = Some i" by simp
    have old: "nth_id (pp_mappings (pb_profile b)) i (mapping_is (pb_profile b) l)"
      by (rule mappings_okD [OF mok l'])
    then have "i - 1 < ?n" "mapping_is (pb_profile b) l (pp_mappings (pb_profile b) ! (i - 1))"
      by (auto simp: nth_id_def)
    with mapping_is_ext [OF ev] show ?thesis by (simp add: nth_append)
  qed
  have "mappings_ok ?b"
    using indexed_fresh [OF ix assms(2)] item by (simp add: mappings_ok_def push_mapping_def)
  moreover have "strings_ok ?b" "functions_ok ?b" "locations_ok R ?b" "resolver_ok demangle R ?b"
    using assms(1) functions_ok_ext [OF _ ev] locations_ok_ext [OF _ ev]
    by (simp_all add: builder_inv_def strings_ok_def resolver_ok_def push_mapping_def)
  moreover have "ids_ok (pb_profile ?b)"
    using assms(1,4) ids_append [of "pp_mappings (pb_profile b)" pm_id m]
    by (simp add: builder_inv_def ids_ok_def push_mapping_def)
  ultimately show ?thesis by (simp add: builder_inv_def)
qed

text \<open>A known mapping only gains flags.\<close>

definition flag_mapping :: "nat \<Rightarrow> resolved_location \<Rightarrow> profile_builder \<Rightarrow> profile_builder" where
  "flag_mapping i r b =
     b\<lparr>pb_profile := (pb_profile b)\<lparr>pp_mappings :=
        (pp_mappings (pb_profile b))[i - 1 := merge_flags r (pp_mappings (pb_profile b) ! (i - 1))]\<rparr>\<rparr>"

lemma pm_core_flags [simp]: "pm_core (merge_flags r m) = pm_core m" "pm_id (merge_flags r m) = pm_id m"
  by (simp_all add: pm_core_def merge_flags_def)

lemma length_flag_mapping:
  "length (pp_mappings (pb_profile (flag_mapping i r b))) = length (pp_mappings (pb_profile b))"
  by (simp add: flag_mapping_def)

lemma flag_mapping_nth:
  assumes "j < length (pp_mappings (pb_profile b))"
  shows "pp_mappings (pb_profile (flag_mapping i r b)) ! j =
    (if j = i - 1 then merge_flags r (pp_mappings (pb_profile b) ! j) else pp_mappings (pb_profile b) ! j)"
  using assms by (cases "j = i - 1") (simp_all add: flag_mapping_def)

lemma flag_mapping_cores:
  "map pm_core (pp_mappings (pb_profile (flag_mapping i r b))) = map pm_core (pp_mappings (pb_profile b))"
proof (rule nth_equalityI)
  show "length (map pm_core (pp_mappings (pb_profile (flag_mapping i r b)))) =
      length (map pm_core (pp_mappings (pb_profile b)))"
    by (simp add: flag_mapping_def)
qed (simp add: flag_mapping_nth length_flag_mapping)

lemma flag_mapping_evolves: "evolves b (flag_mapping i r b)"
  using flag_mapping_cores [of i r b] by (simp add: evolves_def ext_def flag_mapping_def)

lemma flag_mapping_inv:
  assumes "builder_inv demangle R b"
  shows "builder_inv demangle R (flag_mapping i r b)"
proof -
  let ?b = "flag_mapping i r b" and ?ms = "pp_mappings (pb_profile b)"
  note ev = evolves_ext [OF flag_mapping_evolves [of b i r]]
  have "mappings_ok ?b"
    using assms by (intro mappings_ok_ext [OF _ ev _ flag_mapping_cores])
      (simp_all add: builder_inv_def flag_mapping_def)
  moreover have "strings_ok ?b" "functions_ok ?b" "locations_ok R ?b" "resolver_ok demangle R ?b"
    using assms functions_ok_ext [OF _ ev] locations_ok_ext [OF _ ev]
    by (simp_all add: builder_inv_def strings_ok_def resolver_ok_def flag_mapping_def)
  moreover have "ids_ok (pb_profile ?b)"
    using assms flag_mapping_nth [of _ b i r]
    by (simp add: builder_inv_def ids_ok_def length_flag_mapping) (simp add: flag_mapping_def)
  ultimately show ?thesis by (simp add: builder_inv_def)
qed

lemma intern_mapping_frame: "intern s b = (i, b') \<Longrightarrow> mapping_frame b b'"
  using intern_frame [of s b] by (simp add: mapping_frame_def)

lemma mapping_frame_trans: "mapping_frame a b \<Longrightarrow> mapping_frame b c \<Longrightarrow> mapping_frame a c"
  by (simp add: mapping_frame_def)

lemma build_mapping_old:
  assumes "builder_inv demangle R b" "map_of (pb_mappings b) k = Some i"
  shows "build_mapping k r b = (i, flag_mapping i r b)"
proof -
  have "nth_id (pp_mappings (pb_profile b)) i (mapping_is (pb_profile b) k)"
    using assms mappings_okD by (simp add: builder_inv_def)
  then have "i - 1 < length (pp_mappings (pb_profile b))" by (auto simp: nth_id_def)
  with assms(2) show ?thesis
    by (simp add: build_mapping_def flag_mapping_def Let_def)
qed

lemma build_mapping_new:
  assumes "map_of (pb_mappings b) k = None"
    and "intern (mi_filename k) b = (i1, b1)" "intern (or_default (mi_build_id k)) b1 = (i2, b2)"
  shows "build_mapping k r b =
    (length (pp_mappings (pb_profile b)) + 1,
     push_mapping k
       \<lparr>pm_id = length (pp_mappings (pb_profile b)) + 1, pm_memory_start = mi_start k,
        pm_memory_limit = mi_limit k, pm_file_offset = mi_offset k, pm_filename = i1,
        pm_build_id = i2, pm_has_functions = is_symbolized r, pm_has_filenames = has_filenames r,
        pm_has_line_numbers = has_line_numbers r, pm_has_inline_frames = has_inline_frames r\<rparr> b2)"
proof -
  have "pp_mappings (pb_profile b2) = pp_mappings (pb_profile b)"
    using intern_frame(7) [of "mi_filename k" b] intern_frame(7) [of "or_default (mi_build_id k)" b1]
      assms(2,3) by simp
  then show ?thesis
    using assms by (simp add: build_mapping_def push_mapping_def Let_def del: map_of_eq_None_iff)
qed

lemma mapping_step:
  assumes "build_mapping k r b = (i, b')" "builder_inv demangle R b"
  shows "builder_inv demangle R b' \<and> evolves b b' \<and> mapping_frame b b' \<and>
    nth_id (pp_mappings (pb_profile b')) i (mapping_is (pb_profile b') k) \<and>
    map_of (pb_mappings b') = (map_of (pb_mappings b))(k \<mapsto> i)"
proof (cases "map_of (pb_mappings b) k")
  case (Some j)
  have eq: "i = j" "b' = flag_mapping j r b"
    using trans [OF assms(1) [symmetric] build_mapping_old [OF assms(2) Some]] by auto
  have inv: "builder_inv demangle R b'" unfolding eq by (rule flag_mapping_inv [OF assms(2)])
  have ms: "pb_mappings b' = pb_mappings b" by (simp add: eq flag_mapping_def)
  have "nth_id (pp_mappings (pb_profile b')) j (mapping_is (pb_profile b') k)"
    using inv Some ms mappings_okD by (simp add: builder_inv_def)
  with inv flag_mapping_evolves [of b j r] Some show ?thesis
    by (simp add: eq ms [unfolded eq] mapping_frame_def fun_upd_idem) (simp add: flag_mapping_def)
next
  case None
  obtain i1 b1 where s1: "intern (mi_filename k) b = (i1, b1)" by (rule prod.exhaust)
  obtain i2 b2 where s2: "intern (or_default (mi_build_id k)) b1 = (i2, b2)" by (rule prod.exhaust)
  define n where "n = length (pp_mappings (pb_profile b))"
  define m where "m = \<lparr>pm_id = n + 1, pm_memory_start = mi_start k,
        pm_memory_limit = mi_limit k, pm_file_offset = mi_offset k, pm_filename = i1,
        pm_build_id = i2, pm_has_functions = is_symbolized r, pm_has_filenames = has_filenames r,
        pm_has_line_numbers = has_line_numbers r, pm_has_inline_frames = has_inline_frames r\<rparr>"
  have new: "i = n + 1" "b' = push_mapping k m b2"
    using trans [OF assms(1) [symmetric] build_mapping_new [OF None s1 s2]]
    by (auto simp: n_def m_def)
  note t1 = intern_step [OF s1 assms(2)]
  note t2 = intern_step [OF s2 conjunct1 [OF t1]]
  have fr: "mapping_frame b b2"
    using intern_mapping_frame [OF s1] intern_mapping_frame [OF s2] by (rule mapping_frame_trans)
  have fs: "pb_mappings b2 = pb_mappings b" "pp_mappings (pb_profile b2) = pp_mappings (pb_profile b)"
    using intern_frame [of "mi_filename k" b] intern_frame [of "or_default (mi_build_id k)" b1] s1 s2
    by simp_all
  have is2: "mapping_is (pb_profile b2) k m"
    using t1 t2 by (auto simp: mapping_is_def core_is_def pm_core_def m_def intro: str_is_ext evolves_ext)
  have none: "map_of (pb_mappings b2) k = None" using None fs(1) by simp
  have inv: "builder_inv demangle R b'"
    unfolding new using push_mapping_inv [OF conjunct1 [OF t2] none is2]
    by (simp add: m_def n_def fs)
  have ev2: "evolves b2 b'" unfolding new by (rule push_mapping_evolves)
  have ev: "evolves b b'" using t1 t2 ev2 by (meson evolves_trans)
  have "mapping_is (pb_profile b') k m" using mapping_is_ext [OF evolves_ext [OF ev2] is2] by simp
  then have "nth_id (pp_mappings (pb_profile b')) i (mapping_is (pb_profile b') k)"
    by (simp add: nth_id_def new push_mapping_def fs n_def nth_append)
  moreover have "mapping_frame b b'"
    using fr by (simp add: new mapping_frame_def push_mapping_def)
  moreover have "map_of (pb_mappings b') = (map_of (pb_mappings b))(k \<mapsto> i)"
    by (simp add: new push_mapping_def fs n_def)
  ultimately show ?thesis using inv ev by simp
qed

section \<open>Locations\<close>

lemma push_location_step:
  assumes "push_location m a ls b = (i, b')" "builder_inv demangle R b"
    and "map_of (pb_locations b) a = None"
    and "mapping_ref_is (pb_profile b) (rl_mapping (R a)) m"
    and "list_all2 (line_is (pb_profile b)) (rl_lines (R a)) ls"
  shows "builder_inv demangle R b' \<and> evolves b b' \<and>
    map_of (pb_locations b') = (map_of (pb_locations b))(a \<mapsto> i)"
proof -
  let ?n = "length (pp_locations (pb_profile b))"
  define lo where "lo = \<lparr>po_id = ?n + 1, po_mapping_id = m, po_address = a, po_line = ls,
      po_is_folded = False\<rparr>"
  have b': "i = ?n + 1" "b' = b\<lparr>pb_profile := (pb_profile b)\<lparr>pp_locations := pp_locations (pb_profile b) @ [lo]\<rparr>,
        pb_locations := AList.update a (?n + 1) (pb_locations b)\<rparr>"
    using assms(1) by (auto simp: push_location_def lo_def Let_def)
  have ev: "evolves b b'" by (simp add: b' evolves_def ext_def)
  note ext = evolves_ext [OF ev]
  have lok: "locations_ok R b" using assms(2) by (simp add: builder_inv_def)
  then have ix: "indexed 1 (map_of (pb_locations b)) ?n" by (simp add: locations_ok_def)
  have new: "location_is (pb_profile b') a (R a) lo"
    using location_is_ext [OF ext, of a "R a" lo] assms(4,5) by (simp add: location_is_def lo_def)
  have item: "location_is (pb_profile b') x (R x) ((pp_locations (pb_profile b) @ [lo]) ! (j - 1))"
    if x: "((map_of (pb_locations b))(a \<mapsto> 1 + ?n)) x = Some j" for x j
  proof (cases "x = a")
    case True
    with x new show ?thesis by (auto simp: nth_append)
  next
    case False
    with x have x': "map_of (pb_locations b) x = Some j" by simp
    have old: "nth_id (pp_locations (pb_profile b)) j (location_is (pb_profile b) x (R x))"
      by (rule locations_okD [OF lok x'])
    then have "j - 1 < ?n" "location_is (pb_profile b) x (R x) (pp_locations (pb_profile b) ! (j - 1))"
      by (auto simp: nth_id_def)
    with location_is_ext [OF ext] show ?thesis by (simp add: nth_append)
  qed
  have "locations_ok R b'"
    using indexed_fresh [OF ix assms(3)] item by (simp add: locations_ok_def b')
  moreover have "functions_ok b'"
    using assms(2) by (intro functions_ok_ext [OF _ ext]) (simp_all add: builder_inv_def b')
  moreover have "mappings_ok b'"
    using assms(2) by (intro mappings_ok_ext [OF _ ext]) (simp_all add: builder_inv_def b')
  moreover have "strings_ok b'" "resolver_ok demangle R b'"
    using assms(2) by (simp_all add: builder_inv_def strings_ok_def resolver_ok_def b')
  moreover have "ids_ok (pb_profile b')"
    using assms(2) ids_append [of "pp_locations (pb_profile b)" po_id lo]
    by (simp add: builder_inv_def ids_ok_def b' lo_def)
  ultimately show ?thesis using ev by (simp add: builder_inv_def b')
qed

text \<open>The statistics count the locations and those with lines.\<close>

definition stats_ok :: "profile_builder \<Rightarrow> bool" where
  "stats_ok b \<longleftrightarrow>
     es_total_locations (pb_stats b) = length (pp_locations (pb_profile b)) \<and>
     es_symbolized_locations (pb_stats b) =
       length (filter (\<lambda>lo. po_line lo \<noteq> []) (pp_locations (pb_profile b)))"

lemma mapping_ref_step:
  assumes "(case k of None \<Rightarrow> (0, b) | Some info \<Rightarrow> build_mapping info r b) = (m, b')"
    and "builder_inv demangle R b"
  shows "builder_inv demangle R b' \<and> evolves b b' \<and> mapping_ref_is (pb_profile b') k m \<and>
    pb_locations b' = pb_locations b \<and> pb_stats b' = pb_stats b \<and>
    pp_locations (pb_profile b') = pp_locations (pb_profile b)"
proof (cases k)
  case None
  with assms show ?thesis by (simp add: mapping_ref_is_def)
next
  case (Some info)
  with assms(1) have "build_mapping info r b = (m, b')" by simp
  from mapping_step [OF this assms(2)] show ?thesis
    by (simp add: Some mapping_ref_is_def mapping_frame_def)
qed

lemma add_resolved_step:
  assumes "add_resolved (R a) a b = (i, b')" "builder_inv demangle R b" "map_of (pb_locations b) a = None"
  shows "builder_inv demangle R b' \<and> evolves b b' \<and>
    map_of (pb_locations b') = (map_of (pb_locations b))(a \<mapsto> i) \<and>
    pb_stats b' = pb_stats b \<and>
    (\<exists>lo. pp_locations (pb_profile b') = pp_locations (pb_profile b) @ [lo] \<and>
          (po_line lo = [] \<longleftrightarrow> rl_lines (R a) = []))"
proof -
  obtain m b1 where m: "(case rl_mapping (R a) of None \<Rightarrow> (0, b) | Some info \<Rightarrow> build_mapping info (R a) b) = (m, b1)"
    by (rule prod.exhaust)
  obtain ls b2 where l: "build_lines (rl_lines (R a)) b1 = (ls, b2)" by (rule prod.exhaust)
  have p: "push_location m a ls b2 = (i, b')" using assms(1) by (simp add: add_resolved_def m l)
  note s1 = mapping_ref_step [OF m assms(2)]
  note s2 = lines_step [OF l conjunct1 [OF s1]]
  have fr: "pb_locations b2 = pb_locations b" "pb_stats b2 = pb_stats b"
    "pp_locations (pb_profile b2) = pp_locations (pb_profile b)"
    using s1 s2 by (simp_all add: function_frame_def)
  have ref: "mapping_ref_is (pb_profile b2) (rl_mapping (R a)) m"
    using s1 s2 by (blast intro: mapping_ref_is_ext evolves_ext)
  have none: "map_of (pb_locations b2) a = None" using assms(3) fr(1) by simp
  note s3 = push_location_step [OF p conjunct1 [OF s2] none ref]
  have lines: "list_all2 (line_is (pb_profile b2)) (rl_lines (R a)) ls" using s2 by simp
  then have empty: "ls = [] \<longleftrightarrow> rl_lines (R a) = []" by (auto dest: list_all2_lengthD)
  have pushed: "pb_stats b' = pb_stats b2"
    "pp_locations (pb_profile b') = pp_locations (pb_profile b2) @
      [\<lparr>po_id = length (pp_locations (pb_profile b2)) + 1, po_mapping_id = m, po_address = a,
        po_line = ls, po_is_folded = False\<rparr>]"
    using p by (auto simp: push_location_def Let_def)
  have "evolves b b2" using s1 s2 by (meson evolves_trans)
  with s3 [OF lines] show ?thesis
    by (auto simp: fr pushed empty intro: evolves_trans)
qed

lemma count_inv [simp]:
  "builder_inv demangle R (count_location b) = builder_inv demangle R b"
  "builder_inv demangle R (count_symbolized b) = builder_inv demangle R b"
  by (simp_all add: builder_inv_def strings_ok_def functions_ok_def mappings_ok_def locations_ok_def
      resolver_ok_def count_location_def count_symbolized_def)

lemma count_frame [simp]:
  "pb_profile (count_location b) = pb_profile b" "pb_profile (count_symbolized b) = pb_profile b"
  "pb_locations (count_location b) = pb_locations b" "pb_locations (count_symbolized b) = pb_locations b"
  "pb_symbolizer (count_location b) = pb_symbolizer b"
  by (simp_all add: count_location_def count_symbolized_def)

lemma location_step:
  assumes "build_location demangle a b = (i, b')" "builder_inv demangle R b" "stats_ok b"
  shows "builder_inv demangle R b' \<and> evolves b b' \<and> stats_ok b' \<and>
    map_of (pb_locations b') = (map_of (pb_locations b))(a \<mapsto> i) \<and>
    nth_id (pp_locations (pb_profile b')) i (location_is (pb_profile b') a (R a))"
proof -
  have main: "builder_inv demangle R b' \<and> evolves b b' \<and> stats_ok b' \<and>
      map_of (pb_locations b') = (map_of (pb_locations b))(a \<mapsto> i)"
  proof (cases "map_of (pb_locations b) a")
    case (Some j)
    with assms show ?thesis by (simp add: build_location_def fun_upd_idem)
  next
    case none: None
    show ?thesis
    proof (cases "pb_symbolizer b")
      case None
      then have R: "R a = \<lparr>rl_address = a, rl_mapping = None, rl_lines = []\<rparr>"
        using assms(2) by (simp add: builder_inv_def resolver_ok_def unresolved_def)
      have p: "push_location 0 a [] (count_location b) = (i, b')"
        using assms(1) none None by (simp add: build_location_def Let_def del: map_of_eq_None_iff)
      from push_location_step [OF p, of demangle R] assms(2) none
      have "builder_inv demangle R b' \<and> evolves (count_location b) b' \<and>
          map_of (pb_locations b') = (map_of (pb_locations b))(a \<mapsto> i)"
        by (simp add: R mapping_ref_is_def del: map_of_eq_None_iff)
      moreover have "stats_ok b'"
        using p assms(3) by (auto simp: stats_ok_def push_location_def Let_def count_location_def)
      ultimately show ?thesis by (simp add: evolves_def)
    next
      case (Some sz)
      then have coh: "coherent demangle sz" "resolve_uncached demangle sz = R"
        using assms(2) by (simp_all add: builder_inv_def resolver_ok_def)
      obtain r sz' where r: "resolve demangle a sz = (r, sz')" by (rule prod.exhaust)
      have ra: "r = R a" and sz': "coherent demangle sz'" "resolve_uncached demangle sz' = R"
        using resolve_coherent [OF coh(1), of a] coh(2) by (simp_all add: r)
      define b2 where "b2 = (count_location b)\<lparr>pb_symbolizer := Some sz'\<rparr>"
      define b3 where "b3 = (if is_symbolized r then count_symbolized b2 else b2)"
      have add: "add_resolved (R a) a b3 = (i, b')"
        using assms(1) none Some
        by (simp add: build_location_def Let_def r b3_def b2_def ra [symmetric] del: map_of_eq_None_iff
            split: if_splits)
      have inv2: "builder_inv demangle R b2"
        using assms(2) sz' by (simp add: builder_inv_def strings_ok_def functions_ok_def mappings_ok_def
            locations_ok_def resolver_ok_def b2_def)
          (simp add: count_location_def)
      have inv3: "builder_inv demangle R b3" using inv2 by (simp add: b3_def)
      have fr: "pb_profile b3 = pb_profile b" "pb_locations b3 = pb_locations b"
        by (simp_all add: b3_def b2_def)
      have none3: "map_of (pb_locations b3) a = None" using none fr(2) by simp
      note s = add_resolved_step [OF add inv3 none3]
      then obtain lo where lo: "pp_locations (pb_profile b') = pp_locations (pb_profile b) @ [lo]"
          "po_line lo = [] \<longleftrightarrow> \<not> is_symbolized r"
        by (auto simp: fr is_symbolized_def ra)
      have "stats_ok b'"
        using assms(3) lo conjunct1 [OF conjunct2 [OF conjunct2 [OF conjunct2 [OF s]]]]
        by (auto simp: stats_ok_def b3_def b2_def count_location_def count_symbolized_def)
      with s show ?thesis by (simp add: fr evolves_def)
    qed
  qed
  have "map_of (pb_locations b') a = Some i" using main by simp
  with main show ?thesis using locations_okD [of R b' a i] by (simp add: builder_inv_def)
qed

interpretation funs: interner 1 "\<lambda>b. map_of (pb_functions b)" "\<lambda>b. pp_functions (pb_profile b)"
  "\<lambda>b k f. function_is (pb_profile b) k f"
  "\<lambda>k. build_function \<lparr>sl_function = fst k, sl_system_name = fst (snd k), sl_filename = snd (snd k),
     sl_line = 0\<rparr>"
  "builder_inv demangle R" for demangle R
proof unfold_locales
  fix b k i
  let ?l = "\<lparr>sl_function = fst k, sl_system_name = fst (snd k), sl_filename = snd (snd k),
     sl_line = 0\<rparr> :: symbolized_line"
  assume inv: "builder_inv demangle R b"
  then have fok: "functions_ok b" by (simp add: builder_inv_def)
  then show "indexed 1 (map_of (pb_functions b)) (length (pp_functions (pb_profile b)))"
    by (simp add: functions_ok_def)
  have key: "function_key ?l = k" by (simp add: function_key_def)
  obtain j b' where run: "build_function ?l b = (j, b')" by (rule prod.exhaust)
  note step = function_step [OF run inv, unfolded key]
  show "builder_inv demangle R (snd (build_function ?l b))" using step by (simp add: run)
  show "function_is (pb_profile b) k (pp_functions (pb_profile b) ! (i - 1))"
    if "map_of (pb_functions b) k = Some i"
    using functions_okD [OF fok that] by (simp add: nth_id_def)
  show "fst (build_function ?l b) = i \<and>
      map_of (pb_functions (snd (build_function ?l b))) = map_of (pb_functions b)"
    if "map_of (pb_functions b) k = Some i"
    using that by (simp add: build_function_def key)
  show "fst (build_function ?l b) = 1 + length (pp_functions (pb_profile b)) \<and>
      map_of (pb_functions (snd (build_function ?l b))) =
        (map_of (pb_functions b))(k \<mapsto> 1 + length (pp_functions (pb_profile b)))"
    if "map_of (pb_functions b) k = None"
  proof -
    have "fst (build_function ?l b) = 1 + length (pp_functions (pb_profile b))"
      using that by (simp add: build_function_def key Let_def split: prod.split del: map_of_eq_None_iff)
    with step show ?thesis by (simp add: run)
  qed
qed

interpretation locs: interner 1 "\<lambda>b. map_of (pb_locations b)" "\<lambda>b. pp_locations (pb_profile b)"
  "\<lambda>b a lo. location_is (pb_profile b) a (R a) lo" "build_location demangle"
  "\<lambda>b. builder_inv demangle R b \<and> stats_ok b" for demangle R
proof unfold_locales
  fix b a i
  assume ok: "builder_inv demangle R b \<and> stats_ok b"
  then have lok: "locations_ok R b" by (simp add: builder_inv_def)
  then show "indexed 1 (map_of (pb_locations b)) (length (pp_locations (pb_profile b)))"
    by (simp add: locations_ok_def)
  obtain j b' where run: "build_location demangle a b = (j, b')" by (rule prod.exhaust)
  note step = location_step [OF run conjunct1 [OF ok] conjunct2 [OF ok]]
  show "builder_inv demangle R (snd (build_location demangle a b)) \<and>
      stats_ok (snd (build_location demangle a b))"
    using step by (simp add: run)
  show "location_is (pb_profile b) a (R a) (pp_locations (pb_profile b) ! (i - 1))"
    if "map_of (pb_locations b) a = Some i"
    using locations_okD [OF lok that] by (simp add: nth_id_def)
  show "fst (build_location demangle a b) = i \<and>
      map_of (pb_locations (snd (build_location demangle a b))) = map_of (pb_locations b)"
    if "map_of (pb_locations b) a = Some i"
    using that by (simp add: build_location_def)
  show "fst (build_location demangle a b) = 1 + length (pp_locations (pb_profile b)) \<and>
      map_of (pb_locations (snd (build_location demangle a b))) =
        (map_of (pb_locations b))(a \<mapsto> 1 + length (pp_locations (pb_profile b)))"
    if new: "map_of (pb_locations b) a = None"
  proof -
    have inv': "builder_inv demangle R b'" and m: "map_of (pb_locations b') = (map_of (pb_locations b))(a \<mapsto> j)"
      using step by simp_all
    have "indexed 1 ((map_of (pb_locations b))(a \<mapsto> j)) (length (pp_locations (pb_profile b')))"
      using inv' by (simp add: builder_inv_def locations_ok_def m)
    moreover have "indexed 1 (map_of (pb_locations b)) (length (pp_locations (pb_profile b)))"
      using lok by (simp add: locations_ok_def)
    ultimately have "j = 1 + length (pp_locations (pb_profile b))"
      using new by (rule indexed_next)
    then show ?thesis by (simp add: run m)
  qed
qed

section \<open>Samples\<close>

definition good :: "(string \<Rightarrow> string) \<Rightarrow> (u64 \<Rightarrow> resolved_location) \<Rightarrow> profile_builder \<Rightarrow> bool" where
  "good demangle R b \<longleftrightarrow> builder_inv demangle R b \<and> stats_ok b"

lemma intern_good:
  assumes "intern s b = (i, b')" "good demangle R b"
  shows "good demangle R b' \<and> evolves b b' \<and> str_is (pb_profile b') i s"
  using intern_step [OF assms(1), of demangle R] assms intern_frame [of s b]
  by (simp add: good_def stats_ok_def)

definition stack_is :: "pprof \<Rightarrow> (u64 \<Rightarrow> resolved_location) \<Rightarrow> u64 list \<Rightarrow> nat list \<Rightarrow> bool" where
  "stack_is p R addrs ids \<longleftrightarrow>
     list_all2 (\<lambda>a i. nth_id (pp_locations p) i (location_is p a (R a))) addrs ids"

lemma stack_is_ext: "ext p q \<Longrightarrow> stack_is p R addrs ids \<Longrightarrow> stack_is q R addrs ids"
proof -
  assume "ext p q" "stack_is p R addrs ids"
  moreover from \<open>ext p q\<close> have "grows (pp_locations p) (pp_locations q)" by (simp add: ext_def)
  ultimately show ?thesis
    unfolding stack_is_def
    by (blast intro: list.rel_mono_strong nth_id_grows location_is_ext)
qed

lemma locations_good:
  assumes "build_locations demangle addrs b = (ids, b')" "good demangle R b"
  shows "good demangle R b' \<and> evolves b b' \<and> stack_is (pb_profile b') R addrs ids"
  using assms
proof (induction addrs arbitrary: b ids)
  case Nil
  then show ?case by (simp add: stack_is_def)
next
  case (Cons a addrs)
  obtain i b1 where l: "build_location demangle a b = (i, b1)" by (rule prod.exhaust)
  obtain rest b2 where r: "build_locations demangle addrs b1 = (rest, b2)" by (rule prod.exhaust)
  have out: "ids = i # rest" "b' = b2" using Cons.prems(1) by (simp_all add: l r)
  have "builder_inv demangle R b" "stats_ok b" using Cons.prems(2) by (simp_all add: good_def)
  note s1 = location_step [OF l this]
  then have g1: "good demangle R b1" by (simp add: good_def)
  note s2 = Cons.IH [OF r [folded out(2)] g1]
  have "stack_is (pb_profile b1) R [a] [i]" using s1 by (simp add: stack_is_def)
  then have "stack_is (pb_profile b') R [a] [i]" using s2 by (blast intro: stack_is_ext evolves_ext)
  with s1 s2 show ?case by (auto simp: out stack_is_def intro: evolves_trans)
qed

datatype label_meaning = Text_Label string string | Number_Label string u32

fun label_is :: "pprof \<Rightarrow> label_meaning \<Rightarrow> label \<Rightarrow> bool" where
  "label_is p (Text_Label k v) lb \<longleftrightarrow>
     str_is p (lb_key lb) k \<and> str_is p (lb_str lb) v \<and> lb_num lb = 0 \<and> lb_num_unit lb = 0"
| "label_is p (Number_Label k n) lb \<longleftrightarrow>
     str_is p (lb_key lb) k \<and> lb_str lb = 0 \<and> lb_num lb = ucast n \<and> lb_num_unit lb = 0"

definition labels_are :: "pprof \<Rightarrow> label_meaning list \<Rightarrow> label list \<Rightarrow> bool" where
  "labels_are p = list_all2 (label_is p)"

lemma label_is_ext: "ext p q \<Longrightarrow> label_is p m lb \<Longrightarrow> label_is q m lb"
  by (cases m) (auto intro: str_is_ext)

lemma labels_are_ext: "ext p q \<Longrightarrow> labels_are p ms lbs \<Longrightarrow> labels_are q ms lbs"
  unfolding labels_are_def by (erule list.rel_mono_strong) (rule label_is_ext)

lemma sample_labels_good:
  assumes "sample_labels ls b = (out, b')" "good demangle R b"
  shows "good demangle R b' \<and> evolves b b' \<and>
    labels_are (pb_profile b') (map (\<lambda>(k, v). Text_Label k v) ls) out"
  using assms
proof (induction ls arbitrary: b out)
  case Nil
  then show ?case by (simp add: labels_are_def)
next
  case (Cons l ls)
  obtain key val where l: "l = (key, val)" by (rule prod.exhaust)
  obtain k b1 where s1: "intern key b = (k, b1)" by (rule prod.exhaust)
  obtain v b2 where s2: "intern val b1 = (v, b2)" by (rule prod.exhaust)
  obtain rest b3 where s3: "sample_labels ls b2 = (rest, b3)" by (rule prod.exhaust)
  have out: "out = \<lparr>lb_key = k, lb_str = v, lb_num = 0, lb_num_unit = 0\<rparr> # rest" "b' = b3"
    using Cons.prems(1) by (simp_all add: l s1 s2 s3)
  note t1 = intern_good [OF s1 Cons.prems(2)]
  note t2 = intern_good [OF s2 conjunct1 [OF t1]]
  note t3 = Cons.IH [OF s3 [folded out(2)] conjunct1 [OF t2]]
  have "str_is (pb_profile b') k key" "str_is (pb_profile b') v val"
    using t1 t2 t3 by (meson str_is_ext evolves_ext evolves_trans)+
  with t1 t2 t3 show ?case
    by (auto simp: out l labels_are_def intro: evolves_trans)
qed

definition thread_meaning :: "u32 \<Rightarrow> u32 \<Rightarrow> string option \<Rightarrow> label_meaning list" where
  "thread_meaning pid tid name =
     [Number_Label ''process.pid'' pid, Number_Label ''thread.id'' tid] @
     (case name of None \<Rightarrow> [] | Some n \<Rightarrow> [Text_Label ''thread.name'' n])"

lemma thread_labels_good:
  assumes "thread_labels pid tid name b = (out, b')" "good demangle R b"
  shows "good demangle R b' \<and> evolves b b' \<and>
    labels_are (pb_profile b') (thread_meaning pid tid name) out"
proof -
  obtain p b1 where s1: "intern ''process.pid'' b = (p, b1)" by (rule prod.exhaust)
  obtain t b2 where s2: "intern ''thread.id'' b1 = (t, b2)" by (rule prod.exhaust)
  define ls where "ls =
    [\<lparr>lb_key = p, lb_str = 0, lb_num = ucast pid, lb_num_unit = 0\<rparr>,
     \<lparr>lb_key = t, lb_str = 0, lb_num = ucast tid, lb_num_unit = 0\<rparr> :: label]"
  note t1 = intern_good [OF s1 assms(2)]
  note t2 = intern_good [OF s2 conjunct1 [OF t1]]
  have e2: "evolves b b2" using t1 t2 by (meson evolves_trans)
  have ls: "labels_are (pb_profile b2) [Number_Label ''process.pid'' pid, Number_Label ''thread.id'' tid] ls"
    using t1 t2 by (auto simp: ls_def labels_are_def intro: str_is_ext evolves_ext)
  show ?thesis
  proof (cases name)
    case None
    then have "out = ls" "b' = b2" using assms(1) by (simp_all add: thread_labels_def s1 s2 ls_def)
    with None ls e2 t2 show ?thesis by (simp add: thread_meaning_def)
  next
    case (Some n)
    obtain k b3 where s3: "intern ''thread.name'' b2 = (k, b3)" by (rule prod.exhaust)
    obtain v b4 where s4: "intern n b3 = (v, b4)" by (rule prod.exhaust)
    have out: "out = ls @ [\<lparr>lb_key = k, lb_str = v, lb_num = 0, lb_num_unit = 0\<rparr>]" "b' = b4"
      using assms(1) by (simp_all add: thread_labels_def s1 s2 s3 s4 Some ls_def)
    note t3 = intern_good [OF s3 conjunct1 [OF t2]]
    note t4 = intern_good [OF s4 conjunct1 [OF t3]]
    have e: "evolves b2 b4" using t3 t4 by (meson evolves_trans)
    note ls' = labels_are_ext [OF evolves_ext [OF e] ls]
    have k: "str_is (pb_profile b4) k ''thread.name''" using t3 t4 by (blast intro: str_is_ext evolves_ext)
    have "labels_are (pb_profile b4) [Text_Label ''thread.name'' n]
        [\<lparr>lb_key = k, lb_str = v, lb_num = 0, lb_num_unit = 0\<rparr>]"
      using k t4 by (simp add: labels_are_def)
    with ls' have "labels_are (pb_profile b4) (thread_meaning pid tid name) out"
      unfolding out thread_meaning_def Some labels_are_def option.case by (rule list_all2_appendI)
    with e2 e t4 show ?thesis unfolding out(2) by (blast intro: evolves_trans)
  qed
qed

definition sample_is ::
  "pprof \<Rightarrow> (u64 \<Rightarrow> resolved_location) \<Rightarrow> u64 list \<Rightarrow> i64 list \<Rightarrow> label_meaning list \<Rightarrow> pp_sample \<Rightarrow> bool" where
  "sample_is p R addrs vals ms s \<longleftrightarrow>
     stack_is p R addrs (ps_location_id s) \<and> ps_value s = vals \<and> labels_are p ms (ps_label s)"

lemma sample_is_ext: "ext p q \<Longrightarrow> sample_is p R addrs vals ms s \<Longrightarrow> sample_is q R addrs vals ms s"
  by (simp add: sample_is_def stack_is_ext labels_are_ext)

definition meaning :: "(string \<times> string) list \<Rightarrow> attributed_stack \<Rightarrow> label_meaning list" where
  "meaning labels key =
     map (\<lambda>(k, v). Text_Label k v) labels @ thread_meaning (as_pid key) (as_tid key) (as_thread_name key)"

lemma good_samples:
  "good demangle R (b\<lparr>pb_profile := (pb_profile b)\<lparr>pp_samples := ss\<rparr>\<rparr>) = good demangle R b"
proof -
  let ?p = "(pb_profile b)\<lparr>pp_samples := ss\<rparr>"
  have "ext (pb_profile b) ?p" "ext ?p (pb_profile b)" by (simp_all add: ext_def)
  then have fs: "function_is ?p = function_is (pb_profile b)" "mapping_is ?p = mapping_is (pb_profile b)"
    "location_is ?p = location_is (pb_profile b)"
    by (auto simp: fun_eq_iff intro: function_is_ext mapping_is_ext location_is_ext)
  show ?thesis
    by (simp add: good_def builder_inv_def strings_ok_def functions_ok_def mappings_ok_def locations_ok_def
        ids_ok_def resolver_ok_def stats_ok_def fs)
qed

lemma add_sample_good:
  assumes "good demangle R b" "labels_are (pb_profile b) ms labels"
  shows "good demangle R (add_sample demangle s vals labels b) \<and>
    ext (pb_profile b) (pb_profile (add_sample demangle s vals labels b)) \<and>
    pp_head (pb_profile (add_sample demangle s vals labels b)) = pp_head (pb_profile b) \<and>
    (\<exists>smp. pp_samples (pb_profile (add_sample demangle s vals labels b)) = pp_samples (pb_profile b) @ [smp] \<and>
      sample_is (pb_profile (add_sample demangle s vals labels b)) R (addresses_of s) vals ms smp)"
proof -
  obtain ids b1 where l: "build_locations demangle (addresses_of s) b = (ids, b1)" by (rule prod.exhaust)
  define smp where "smp = \<lparr>ps_location_id = ids, ps_value = vals, ps_label = labels\<rparr>"
  have add: "add_sample demangle s vals labels b =
      b1\<lparr>pb_profile := (pb_profile b1)\<lparr>pp_samples := pp_samples (pb_profile b1) @ [smp]\<rparr>\<rparr>"
    by (simp add: add_sample_def l smp_def)
  note s1 = locations_good [OF l assms(1)]
  let ?p = "(pb_profile b1)\<lparr>pp_samples := pp_samples (pb_profile b1) @ [smp]\<rparr>"
  have e: "ext (pb_profile b1) ?p" by (simp add: ext_def)
  have "sample_is (pb_profile b1) R (addresses_of s) vals ms smp"
    using s1 assms(2) by (auto simp: sample_is_def smp_def intro: labels_are_ext evolves_ext)
  then have "sample_is ?p R (addresses_of s) vals ms smp" by (rule sample_is_ext [OF e])
  with s1 e show ?thesis
    by (auto simp: add good_samples evolves_def intro: ext_trans)
qed

lemma add_attributed_good:
  assumes "good demangle R b"
  shows "good demangle R (add_attributed demangle labels vals (key, v) b) \<and>
    ext (pb_profile b) (pb_profile (add_attributed demangle labels vals (key, v) b)) \<and>
    pp_head (pb_profile (add_attributed demangle labels vals (key, v) b)) = pp_head (pb_profile b) \<and>
    (\<exists>smp. pp_samples (pb_profile (add_attributed demangle labels vals (key, v) b)) =
        pp_samples (pb_profile b) @ [smp] \<and>
      sample_is (pb_profile (add_attributed demangle labels vals (key, v) b)) R
        (addresses_of (as_stack key)) (vals v) (meaning labels key) smp)"
proof -
  obtain ls b1 where s1: "sample_labels labels b = (ls, b1)" by (rule prod.exhaust)
  obtain ts b2 where s2: "thread_labels (as_pid key) (as_tid key) (as_thread_name key) b1 = (ts, b2)"
    by (rule prod.exhaust)
  note t1 = sample_labels_good [OF s1 assms]
  note t2 = thread_labels_good [OF s2 conjunct1 [OF t1]]
  have "labels_are (pb_profile b2) (map (\<lambda>(k, v). Text_Label k v) labels) ls"
    using t1 t2 by (blast intro: labels_are_ext evolves_ext)
  then have "labels_are (pb_profile b2) (meaning labels key) (ls @ ts)"
    using t2 unfolding meaning_def labels_are_def by (blast intro: list_all2_appendI)
  note t3 = add_sample_good [OF conjunct1 [OF t2] this, of "as_stack key" "vals v"]
  have "add_attributed demangle labels vals (key, v) b = add_sample demangle (as_stack key) (vals v) (ls @ ts) b2"
    by (simp add: add_attributed_def s1 s2)
  with t1 t2 t3 show ?thesis by (auto simp: evolves_def intro: ext_trans)
qed

text \<open>A table of samples, one after the other.\<close>

definition samples_are ::
  "pprof \<Rightarrow> (u64 \<Rightarrow> resolved_location) \<Rightarrow> (string \<times> string) list \<Rightarrow> ('v \<Rightarrow> i64 list) \<Rightarrow>
   (attributed_stack \<times> 'v) list \<Rightarrow> pp_sample list \<Rightarrow> bool" where
  "samples_are p R labels vals entries ss \<longleftrightarrow>
     list_all2 (\<lambda>(key, v) s. sample_is p R (addresses_of (as_stack key)) (vals v) (meaning labels key) s)
       entries ss"

lemma samples_are_ext:
  "ext p q \<Longrightarrow> samples_are p R labels vals es ss \<Longrightarrow> samples_are q R labels vals es ss"
  unfolding samples_are_def
  by (erule list.rel_mono_strong) (auto intro: sample_is_ext)

lemma add_all_good:
  assumes "good demangle R b"
  shows "good demangle R (fold (add_attributed demangle labels vals) es b) \<and>
    ext (pb_profile b) (pb_profile (fold (add_attributed demangle labels vals) es b)) \<and>
    pp_head (pb_profile (fold (add_attributed demangle labels vals) es b)) = pp_head (pb_profile b) \<and>
    (\<exists>ss. pp_samples (pb_profile (fold (add_attributed demangle labels vals) es b)) =
        pp_samples (pb_profile b) @ ss \<and>
      samples_are (pb_profile (fold (add_attributed demangle labels vals) es b)) R labels vals es ss)"
  using assms
proof (induction es arbitrary: b)
  case Nil
  then show ?case by (simp add: samples_are_def)
next
  case (Cons e es)
  obtain key v where e: "e = (key, v)" by (rule prod.exhaust)
  define b1 where "b1 = add_attributed demangle labels vals (key, v) b"
  define b2 where "b2 = fold (add_attributed demangle labels vals) es b1"
  note s1 = add_attributed_good [OF Cons.prems, of labels vals key v, folded b1_def]
  note s2 = Cons.IH [OF conjunct1 [OF s1], folded b2_def]
  obtain smp where smp: "pp_samples (pb_profile b1) = pp_samples (pb_profile b) @ [smp]"
    "sample_is (pb_profile b1) R (addresses_of (as_stack key)) (vals v) (meaning labels key) smp"
    using s1 by blast
  obtain ss where ss: "pp_samples (pb_profile b2) = pp_samples (pb_profile b1) @ ss"
    "samples_are (pb_profile b2) R labels vals es ss"
    using s2 by blast
  have "samples_are (pb_profile b2) R labels vals (e # es) (smp # ss)"
    using ss(2) sample_is_ext [OF conjunct1 [OF conjunct2 [OF s2]] smp(2)]
    by (simp add: samples_are_def e)
  moreover have "pp_samples (pb_profile b2) = pp_samples (pb_profile b) @ smp # ss"
    by (simp add: ss(1) smp(1))
  moreover have "ext (pb_profile b) (pb_profile b2)" using s1 s2 by (blast intro: ext_trans)
  moreover have "pp_head (pb_profile b2) = pp_head (pb_profile b)" using s1 s2 by presburger
  ultimately show ?case using s2 by (auto simp: e b1_def [symmetric] b2_def [symmetric])
qed

section \<open>Headers\<close>

lemma new_builder_good:
  assumes "resolver_ok demangle R (new_builder symbols time duration)"
  shows "good demangle R (new_builder symbols time duration)"
proof -
  have "strings_ok (new_builder symbols time duration)"
    using indexed_one [of 0 "[] :: string"] by (simp add: strings_ok_def new_builder_def)
  with assms show ?thesis
    by (simp add: good_def builder_inv_def functions_ok_def mappings_ok_def locations_ok_def ids_ok_def
        stats_ok_def) (simp add: new_builder_def)
qed

definition type_is :: "pprof \<Rightarrow> string \<times> string \<Rightarrow> value_type \<Rightarrow> bool" where
  "type_is p ku t \<longleftrightarrow> str_is p (vt_type t) (fst ku) \<and> str_is p (vt_unit t) (snd ku)"

lemma type_is_ext: "ext p q \<Longrightarrow> type_is p ku t \<Longrightarrow> type_is q ku t"
  by (auto simp: type_is_def intro: str_is_ext)

lemma value_type_good:
  assumes "build_value_type kind unit b = (t, b')" "good demangle R b"
  shows "good demangle R b' \<and> evolves b b' \<and> type_is (pb_profile b') (kind, unit) t"
proof -
  obtain k b1 where s1: "intern kind b = (k, b1)" by (rule prod.exhaust)
  obtain u b2 where s2: "intern unit b1 = (u, b2)" by (rule prod.exhaust)
  have out: "t = \<lparr>vt_type = k, vt_unit = u\<rparr>" "b' = b2"
    using assms(1) by (auto simp: build_value_type_def s1 s2)
  note t1 = intern_good [OF s1 assms(2)]
  note t2 = intern_good [OF s2 conjunct1 [OF t1]]
  show ?thesis using t1 t2 by (auto simp: out type_is_def intro: str_is_ext evolves_ext evolves_trans)
qed

lemma same_tables_good:
  assumes "pp_strings q = pp_strings (pb_profile b)" "pp_functions q = pp_functions (pb_profile b)"
    and "pp_mappings q = pp_mappings (pb_profile b)" "pp_locations q = pp_locations (pb_profile b)"
  shows "good demangle R (b\<lparr>pb_profile := q\<rparr>) = good demangle R b"
proof -
  have "ext (pb_profile b) q" "ext q (pb_profile b)" by (simp_all add: ext_def assms)
  then have "function_is q = function_is (pb_profile b)" "mapping_is q = mapping_is (pb_profile b)"
    "location_is q = location_is (pb_profile b)"
    by (auto simp: fun_eq_iff intro: function_is_ext mapping_is_ext location_is_ext)
  then show ?thesis
    by (simp add: good_def builder_inv_def strings_ok_def functions_ok_def mappings_ok_def locations_ok_def
        ids_ok_def resolver_ok_def stats_ok_def assms)
qed

lemma set_types_good: "good demangle R (set_types types pt period d b) = good demangle R b"
  unfolding set_types_def by (rule same_tables_good) simp_all

lemma set_types_ext: "ext (pb_profile b) (pb_profile (set_types types pt period d b))"
  by (simp add: set_types_def ext_def)

text \<open>A CPU header.\<close>

definition cpu_head_is :: "pprof \<Rightarrow> i64 \<Rightarrow> bool" where
  "cpu_head_is p period \<longleftrightarrow>
     list_all2 (type_is p) [(''samples'', ''count''), (''cpu'', ''nanoseconds'')] (pp_sample_type p) \<and>
     rel_option (type_is p) (Some (''cpu'', ''nanoseconds'')) (pp_period_type p) \<and>
     pp_period p = period \<and> str_is p (pp_default_sample_type p) ''cpu''"

lemma cpu_head_is_ext:
  assumes "ext p q" "pp_head q = pp_head p" "cpu_head_is p period"
  shows "cpu_head_is q period"
proof -
  have same: "pp_sample_type q = pp_sample_type p" "pp_period_type q = pp_period_type p"
    "pp_period q = pp_period p" "pp_default_sample_type q = pp_default_sample_type p"
    using assms(2) by (simp_all add: pp_head_def)
  show ?thesis
    using assms(3) unfolding cpu_head_is_def same
    by (blast intro: str_is_ext [OF assms(1)] type_is_ext [OF assms(1)] list.rel_mono_strong
        option.rel_mono_strong)
qed

lemma cpu_header_good:
  assumes "good demangle R b"
  shows "good demangle R (cpu_header period b) \<and> ext (pb_profile b) (pb_profile (cpu_header period b)) \<and>
    pp_samples (pb_profile (cpu_header period b)) = pp_samples (pb_profile b) \<and>
    cpu_head_is (pb_profile (cpu_header period b)) period \<and>
    pp_rest (pb_profile (cpu_header period b)) = pp_rest (pb_profile b)"
proof -
  obtain t1 b1 where s1: "build_value_type ''samples'' ''count'' b = (t1, b1)" by (rule prod.exhaust)
  obtain t2 b2 where s2: "build_value_type ''cpu'' ''nanoseconds'' b1 = (t2, b2)" by (rule prod.exhaust)
  obtain d b3 where s3: "intern ''cpu'' b2 = (d, b3)" by (rule prod.exhaust)
  let ?q = "set_types [t1, t2] (Some t2) period d b3"
  have hdr: "cpu_header period b = ?q" by (simp add: cpu_header_def s1 s2 s3)
  note g1 = value_type_good [OF s1 assms]
  note g2 = value_type_good [OF s2 conjunct1 [OF g1]]
  note g3 = intern_good [OF s3 conjunct1 [OF g2]]
  have e: "evolves b b3" "evolves b1 b3" "evolves b2 b3" using g1 g2 g3 by (meson evolves_trans)+
  have fin: "ext (pb_profile b3) (pb_profile ?q)" by (rule set_types_ext)
  have e1: "ext (pb_profile b1) (pb_profile ?q)" "ext (pb_profile b2) (pb_profile ?q)"
    using e fin by (blast intro: ext_trans evolves_ext)+
  have "type_is (pb_profile ?q) (''samples'', ''count'') t1"
    "type_is (pb_profile ?q) (''cpu'', ''nanoseconds'') t2" "str_is (pb_profile ?q) d ''cpu''"
    using g1 g2 g3 e1 fin by (blast intro: type_is_ext str_is_ext)+
  moreover have "pp_sample_type (pb_profile ?q) = [t1, t2]" "pp_period_type (pb_profile ?q) = Some t2"
    "pp_period (pb_profile ?q) = period" "pp_default_sample_type (pb_profile ?q) = d"
    by (simp_all add: set_types_def)
  ultimately have "cpu_head_is (pb_profile ?q) period" by (simp add: cpu_head_is_def)
  moreover have "pp_samples (pb_profile ?q) = pp_samples (pb_profile b)"
    using e(1) by (simp add: set_types_def evolves_def)
  moreover have "ext (pb_profile b) (pb_profile ?q)" by (rule ext_trans [OF evolves_ext [OF e(1)] fin])
  moreover have "pp_rest (pb_profile b3) = pp_rest (pb_profile b)"
    by (rule pp_head_rest) (use e(1) in \<open>simp add: evolves_def\<close>)
  then have "pp_rest (pb_profile ?q) = pp_rest (pb_profile b)" by (simp add: set_types_def pp_rest_def)
  ultimately show ?thesis using g3 by (simp add: hdr set_types_good)
qed

section \<open>Well-formed profiles\<close>

definition string_ref :: "pprof \<Rightarrow> nat \<Rightarrow> bool" where
  "string_ref p i \<longleftrightarrow> i < length (pp_strings p)"

definition tables_wf :: "pprof \<Rightarrow> bool" where
  "tables_wf p \<longleftrightarrow>
     distinct (pp_strings p) \<and> distinct (map po_address (pp_locations p)) \<and>
     (\<forall>f \<in> set (pp_functions p). string_ref p (pf_name f) \<and> string_ref p (pf_system_name f) \<and>
        string_ref p (pf_filename f)) \<and>
     (\<forall>m \<in> set (pp_mappings p). string_ref p (pm_filename m) \<and> string_ref p (pm_build_id m)) \<and>
     (\<forall>lo \<in> set (pp_locations p). po_mapping_id lo \<le> length (pp_mappings p) \<and>
        (\<forall>ln \<in> set (po_line lo). 1 \<le> pl_function_id ln \<and> pl_function_id ln \<le> length (pp_functions p)))"

text \<open>The references of the samples and of the header.\<close>

definition sample_wf :: "pprof \<Rightarrow> pp_sample \<Rightarrow> bool" where
  "sample_wf p s \<longleftrightarrow>
     (\<forall>i \<in> set (ps_location_id s). 1 \<le> i \<and> i \<le> length (pp_locations p)) \<and>
     (\<forall>lb \<in> set (ps_label s). string_ref p (lb_key lb) \<and> string_ref p (lb_str lb) \<and> lb_num_unit lb = 0) \<and>
     length (ps_value s) = length (pp_sample_type p)"

definition header_wf :: "pprof \<Rightarrow> bool" where
  "header_wf p \<longleftrightarrow>
     (\<forall>t \<in> set (pp_sample_type p). string_ref p (vt_type t) \<and> string_ref p (vt_unit t)) \<and>
     (\<forall>t. pp_period_type p = Some t \<longrightarrow> string_ref p (vt_type t) \<and> string_ref p (vt_unit t)) \<and>
     string_ref p (pp_default_sample_type p) \<and> pp_rest p = ([], 0, 0, 0)"

lemma str_is_ref: "str_is p i s \<Longrightarrow> string_ref p i"
  by (simp add: str_is_def string_ref_def)

lemma cpu_head_wf: "cpu_head_is p period \<Longrightarrow> pp_rest p = ([], 0, 0, 0) \<Longrightarrow> header_wf p"
  by (auto simp: cpu_head_is_def header_wf_def type_is_def list_all2_Cons1 option_rel_Some1 dest: str_is_ref)

lemma label_is_wf: "label_is p m lb \<Longrightarrow> string_ref p 0 \<Longrightarrow>
    string_ref p (lb_key lb) \<and> string_ref p (lb_str lb) \<and> lb_num_unit lb = 0"
  by (cases m) (auto dest: str_is_ref)

lemma sample_is_wf:
  assumes "sample_is p R addrs vals ms s" "string_ref p 0" "length vals = length (pp_sample_type p)"
  shows "sample_wf p s"
proof -
  have parts: "stack_is p R addrs (ps_location_id s)" "ps_value s = vals" "list_all2 (label_is p) ms (ps_label s)"
    using assms(1) by (simp_all add: sample_is_def labels_are_def)
  have "1 \<le> i \<and> i \<le> length (pp_locations p)" if "i \<in> set (ps_location_id s)" for i
    using parts(1) that by (auto simp: stack_is_def list_all2_conv_all_nth in_set_conv_nth nth_id_def)
  moreover have "string_ref p (lb_key lb) \<and> string_ref p (lb_str lb) \<and> lb_num_unit lb = 0" if "lb \<in> set (ps_label s)" for lb
  proof -
    have "\<exists>m. label_is p m lb" using parts(3) that
      by (induction rule: list_all2_induct) auto
    then obtain m where "label_is p m lb" ..
    then show ?thesis using assms(2) by (rule label_is_wf)
  qed
  ultimately show ?thesis using parts(2) assms(3) by (simp add: sample_wf_def)
qed

lemma samples_are_wf:
  assumes "samples_are p R labels vals es ss" "string_ref p 0" "\<And>v. length (vals v) = length (pp_sample_type p)"
  shows "\<forall>s \<in> set ss. sample_wf p s"
proof
  fix s
  assume "s \<in> set ss"
  then obtain j where j: "j < length ss" "s = ss ! j" by (auto simp: in_set_conv_nth)
  obtain key v where "es ! j = (key, v)" by (rule prod.exhaust)
  with assms(1) j have "sample_is p R (addresses_of (as_stack key)) (vals v) (meaning labels key) s"
    by (auto simp: samples_are_def list_all2_conv_all_nth)
  then show "sample_wf p s" using assms(2,3) by (rule sample_is_wf)
qed

text \<open>Every position of an indexed list belongs to a key.\<close>

lemma indexed_nth:
  assumes "indexed base m n" "j < n"
  obtains k where "m k = Some (base + j)"
  using indexed_key [OF assms(1), of "base + j"] assms(2) by auto

lemma string_of_position:
  assumes "strings_ok b" "j < length (pp_strings (pb_profile b))"
  shows "map_of (pb_strings b) (pp_strings (pb_profile b) ! j) = Some j"
proof -
  have "indexed 0 (map_of (pb_strings b)) (length (pp_strings (pb_profile b)))"
    using assms(1) by (simp add: strings_ok_def)
  then obtain k where "map_of (pb_strings b) k = Some (0 + j)" using assms(2) by (rule indexed_nth)
  with assms(1) show ?thesis by (simp add: strings_ok_def)
qed

lemma location_of_position:
  assumes "locations_ok R b" "j < length (pp_locations (pb_profile b))"
  shows "map_of (pb_locations b) (po_address (pp_locations (pb_profile b) ! j)) = Some (j + 1) \<and>
    location_is (pb_profile b) (po_address (pp_locations (pb_profile b) ! j))
      (R (po_address (pp_locations (pb_profile b) ! j))) (pp_locations (pb_profile b) ! j)"
proof -
  have "indexed 1 (map_of (pb_locations b)) (length (pp_locations (pb_profile b)))"
    using assms(1) by (simp add: locations_ok_def)
  then obtain a where a: "map_of (pb_locations b) a = Some (1 + j)" using assms(2) by (rule indexed_nth)
  with locations_okD [OF assms(1) a] show ?thesis by (auto simp: nth_id_def location_is_def)
qed

lemma distinct_of_position:
  assumes "\<And>j. j < length xs \<Longrightarrow> m (f (xs ! j)) = Some (g j)" "inj g"
  shows "distinct (map f xs)"
  unfolding distinct_conv_nth using assms by (auto simp: inj_eq) (metis injD option.inject)

lemma location_is_refs:
  assumes "location_is p a r lo"
  shows "po_mapping_id lo \<le> length (pp_mappings p) \<and>
    (\<forall>ln \<in> set (po_line lo). 1 \<le> pl_function_id ln \<and> pl_function_id ln \<le> length (pp_functions p))"
proof -
  have "mapping_ref_is p (rl_mapping r) (po_mapping_id lo)" "list_all2 (line_is p) (rl_lines r) (po_line lo)"
    using assms by (simp_all add: location_is_def)
  then show ?thesis
    by (auto simp: mapping_ref_is_def nth_id_def line_is_def list_all2_conv_all_nth in_set_conv_nth
        split: option.splits)
qed

lemma good_tables:
  assumes "good demangle R b"
  shows "tables_wf (pb_profile b)"
proof -
  let ?p = "pb_profile b"
  have ok: "strings_ok b" "functions_ok b" "mappings_ok b" "locations_ok R b"
    using assms by (simp_all add: good_def builder_inv_def)
  have "distinct (map id (pp_strings ?p))"
    by (rule distinct_of_position [of _ "map_of (pb_strings b)" _ id])
      (simp_all add: string_of_position [OF ok(1)])
  moreover have "distinct (map po_address (pp_locations ?p))"
    by (rule distinct_of_position [of _ "map_of (pb_locations b)" _ "\<lambda>j. j + 1"])
      (simp_all add: location_of_position [OF ok(4)] del: One_nat_def)
  moreover have "string_ref ?p (pf_name f) \<and> string_ref ?p (pf_system_name f) \<and> string_ref ?p (pf_filename f)"
    if f: "f \<in> set (pp_functions ?p)" for f
  proof -
    obtain j where j: "j < length (pp_functions ?p)" "f = pp_functions ?p ! j"
      using f by (auto simp: in_set_conv_nth)
    have "indexed 1 (map_of (pb_functions b)) (length (pp_functions ?p))"
      using ok(2) by (simp add: functions_ok_def)
    then obtain k where "map_of (pb_functions b) k = Some (1 + j)" using j(1) by (rule indexed_nth)
    from functions_okD [OF ok(2) this] j show ?thesis
      by (auto simp: nth_id_def function_is_def str_is_def string_ref_def split: prod.splits)
  qed
  moreover have "string_ref ?p (pm_filename m) \<and> string_ref ?p (pm_build_id m)"
    if m: "m \<in> set (pp_mappings ?p)" for m
  proof -
    obtain j where j: "j < length (pp_mappings ?p)" "m = pp_mappings ?p ! j"
      using m by (auto simp: in_set_conv_nth)
    have "indexed 1 (map_of (pb_mappings b)) (length (pp_mappings ?p))"
      using ok(3) by (simp add: mappings_ok_def)
    then obtain k where "map_of (pb_mappings b) k = Some (1 + j)" using j(1) by (rule indexed_nth)
    from mappings_okD [OF ok(3) this] j show ?thesis
      by (auto simp: nth_id_def mapping_is_def core_is_def pm_core_def str_is_def string_ref_def)
  qed
  moreover have "po_mapping_id lo \<le> length (pp_mappings ?p) \<and>
      (\<forall>ln \<in> set (po_line lo). 1 \<le> pl_function_id ln \<and> pl_function_id ln \<le> length (pp_functions ?p))"
    if lo: "lo \<in> set (pp_locations ?p)" for lo
  proof -
    obtain j where "j < length (pp_locations ?p)" "lo = pp_locations ?p ! j"
      using lo by (auto simp: in_set_conv_nth)
    with location_of_position [OF ok(4), of j] show ?thesis using location_is_refs by blast
  qed
  ultimately show ?thesis by (simp add: tables_wf_def)
qed

lemma build_cpu_profile_good:
  assumes "coherent demangle sz" "b = build_cpu_profile demangle samples sz time duration frequency labels"
  shows "good demangle (resolve_uncached demangle sz) b \<and>
    samples_are (pb_profile b) (resolve_uncached demangle sz) labels cpu_value_list samples
      (pp_samples (pb_profile b)) \<and>
    cpu_head_is (pb_profile b) (cpu_period frequency) \<and> pp_strings (pb_profile b) ! 0 = [] \<and>
    string_ref (pb_profile b) 0 \<and> pp_rest (pb_profile b) = ([], 0, 0, 0)"
proof -
  let ?R = "resolve_uncached demangle sz"
  define b0 where "b0 = new_builder (Some sz) time duration"
  define b1 where "b1 = cpu_header (cpu_period frequency) b0"
  have "resolver_ok demangle ?R b0"
    using assms(1) by (simp add: resolver_ok_def b0_def new_builder_def)
  then have g0: "good demangle ?R b0" unfolding b0_def by (rule new_builder_good)
  note g1 = cpu_header_good [OF g0, of "cpu_period frequency", folded b1_def]
  note g2 = add_all_good [OF conjunct1 [OF g1], of labels cpu_value_list samples]
  have b: "b = fold (add_attributed demangle labels cpu_value_list) samples b1"
    by (simp add: assms(2) build_cpu_profile_def b1_def b0_def)
  have empty: "pp_samples (pb_profile b1) = []" using g1 by (simp add: b0_def new_builder_def)
  have "cpu_head_is (pb_profile b) (cpu_period frequency)"
    using g1 g2 unfolding b by (blast intro: cpu_head_is_ext)
  moreover have "str_is (pb_profile b0) 0 []" by (simp add: b0_def new_builder_def str_is_def)
  then have "str_is (pb_profile b) 0 []" using g1 g2 unfolding b by (blast intro: str_is_ext ext_trans)
  moreover have "pp_rest (pb_profile b1) = ([], 0, 0, 0)" using g1 by (simp add: b0_def new_builder_def pp_rest_def)
  then have "pp_rest (pb_profile b) = ([], 0, 0, 0)" using g2 pp_head_rest unfolding b by metis
  ultimately show ?thesis using g2 by (auto simp: b [symmetric] empty str_is_def string_ref_def)
qed

section \<open>The timeline\<close>

lemma add_timeline_split:
  "add_timeline demangle labels ps encoded b =
    (encoded @ List.map_filter snd ps,
     fold (add_attributed demangle labels (\<lambda>d. [i64_of_u64 d]))
       (map (\<lambda>(t, _). timeline_entry t) (filter (\<lambda>(_, s). s \<noteq> None) ps)) b)"
  by (induction ps arbitrary: encoded b)
    (auto simp: List.map_filter_def split: option.splits)

lemma timeline_good:
  assumes "good demangle R b" "add_timeline demangle labels ps [] b = (encoded, b')"
  shows "good demangle R b' \<and> ext (pb_profile b) (pb_profile b') \<and>
    encoded = List.map_filter snd ps \<and>
    (\<exists>ss. pp_samples (pb_profile b') = pp_samples (pb_profile b) @ ss \<and>
      samples_are (pb_profile b') R labels (\<lambda>d. [i64_of_u64 d])
        (map (\<lambda>(t, _). timeline_entry t) (filter (\<lambda>(_, s). s \<noteq> None) ps)) ss)"
  using add_all_good [OF assms(1)] assms(2) by (auto simp: add_timeline_split)

lemma timeline_start_good:
  assumes "build_value_type ''cpu'' ''nanoseconds'' (new_builder symbols time duration) = (t, b1)"
    and "intern ''cpu'' b1 = (d, b2)" "resolver_ok demangle R (new_builder symbols time duration)"
  shows "good demangle R (set_types types pt period d b2) \<and>
    pp_samples (pb_profile (set_types types pt period d b2)) = []"
proof -
  note g1 = value_type_good [OF assms(1) new_builder_good [OF assms(3)]]
  note g2 = intern_good [OF assms(2) conjunct1 [OF g1]]
  show ?thesis
    using g1 g2 unfolding set_types_good
    by (simp add: set_types_def evolves_def) (simp add: new_builder_def)
qed

section \<open>Properties\<close>

lemma from_maps_coherent: "coherent demangle (symbolizer_from_maps load perf_map jitdump maps)"
  by (simp add: coherent_def cache_ok_def symbolizer_from_maps_def Let_def)

definition sample_symbolizer :: symbolizer where
  "sample_symbolizer = symbolizer_from_maps (\<lambda>_ _. None)
     (None, [\<lparr>js_start = 16, js_end = 32, js_name = ''f''\<rparr>]) ([], []) []"

definition sample_stacks :: "(attributed_stack \<times> cpu_values) list" where
  "sample_stacks =
     [(\<lparr>as_stack = stack_of_addresses [20, 24], as_pid = 7, as_tid = 8, as_thread_name = Some ''t''\<rparr>,
       \<lparr>cpu_samples = 1, cpu_nanoseconds = 5\<rparr>)]"

text \<open>C17: A CPU profile says exactly what was sampled: read back through its location, function, mapping
  and string references, its samples are the given stacks in order, each address with the mapping and
  lines that resolving it gives, with the counters and the labels of the process and thread; and the
  header declares the sample types, the period of the frequency and the default type.\<close>

theorem cpu_profile_denotes:
  assumes "coherent demangle sz"
    and "p = pb_profile (build_cpu_profile demangle samples sz time duration frequency labels)"
  shows "samples_are p (resolve_uncached demangle sz) labels cpu_value_list samples (pp_samples p) \<and>
    cpu_head_is p (cpu_period frequency)"
  using build_cpu_profile_good [OF assms(1) refl, of samples time duration frequency labels] assms(2)
  by simp

theorem cpu_profile_denotes_witness:
  "samples_are (pb_profile (build_cpu_profile id sample_stacks sample_symbolizer 1 2 49 [(''a'', ''b'')]))
     (resolve_uncached id sample_symbolizer) [(''a'', ''b'')] cpu_value_list sample_stacks
     (pp_samples (pb_profile (build_cpu_profile id sample_stacks sample_symbolizer 1 2 49 [(''a'', ''b'')])))"
  by (rule cpu_profile_denotes [OF _ refl, THEN conjunct1])
    (simp only: sample_symbolizer_def from_maps_coherent)

lemma cpu_profile_references:
  assumes "coherent demangle sz" "b = build_cpu_profile demangle samples sz time duration frequency labels"
  shows "header_wf (pb_profile b) \<and> (\<forall>s \<in> set (pp_samples (pb_profile b)). sample_wf (pb_profile b) s)"
proof -
  note built = build_cpu_profile_good [OF assms]
  have "length (pp_sample_type (pb_profile b)) = 2"
    using built by (auto simp: cpu_head_is_def dest: list_all2_lengthD)
  then have lengths: "length (cpu_value_list v) = length (pp_sample_type (pb_profile b))" for v
    by (simp add: cpu_value_list_def)
  have "header_wf (pb_profile b)" by (rule cpu_head_wf) (use built in blast)+
  moreover have "samples_are (pb_profile b) (resolve_uncached demangle sz) labels cpu_value_list samples
      (pp_samples (pb_profile b))" "string_ref (pb_profile b) 0" using built by blast+
  then have "\<forall>s \<in> set (pp_samples (pb_profile b)). sample_wf (pb_profile b) s"
    using lengths by (rule samples_are_wf)
  ultimately show ?thesis by blast
qed

text \<open>C18: A CPU profile is well formed: string 0 is the empty string, no string and no address is stored
  twice, every function, mapping and location has its position as its id, and the statistics count the
  locations and the symbolized ones. Every reference is in range: the strings of functions, mappings,
  labels, sample types, period and default type, the functions and mappings of locations, and the
  locations of samples; every sample has one value for each sample type.\<close>

theorem cpu_profile_well_formed:
  assumes "coherent demangle sz"
    and "b = build_cpu_profile demangle samples sz time duration frequency labels"
  shows "tables_wf (pb_profile b) \<and> header_wf (pb_profile b) \<and>
    (\<forall>s \<in> set (pp_samples (pb_profile b)). sample_wf (pb_profile b) s) \<and>
    ids_ok (pb_profile b) \<and> stats_ok b \<and> pp_strings (pb_profile b) ! 0 = []"
  using build_cpu_profile_good [OF assms] good_tables [of demangle "resolve_uncached demangle sz" b]
    cpu_profile_references [OF assms]
  by (simp add: good_def builder_inv_def)

theorem cpu_profile_well_formed_witness:
  "tables_wf (pb_profile (build_cpu_profile id sample_stacks sample_symbolizer 1 2 49 [])) \<and>
   header_wf (pb_profile (build_cpu_profile id sample_stacks sample_symbolizer 1 2 49 [])) \<and>
   (\<exists>s. pp_samples (pb_profile (build_cpu_profile id sample_stacks sample_symbolizer 1 2 49 [])) = [s] \<and>
     sample_wf (pb_profile (build_cpu_profile id sample_stacks sample_symbolizer 1 2 49 [])) s)"
proof -
  let ?p = "pb_profile (build_cpu_profile id sample_stacks sample_symbolizer 1 2 49 [])"
  have coherent: "coherent id sample_symbolizer" by (simp only: sample_symbolizer_def from_maps_coherent)
  have "samples_are ?p (resolve_uncached id sample_symbolizer) [] cpu_value_list sample_stacks (pp_samples ?p)"
    using build_cpu_profile_good [OF coherent refl, of sample_stacks 1 2 49 "[]"] by blast
  then obtain s where "pp_samples ?p = [s]"
    by (auto simp: samples_are_def sample_stacks_def list_all2_Cons1)
  with cpu_profile_well_formed [OF coherent refl, of sample_stacks 1 2 49 "[]"] show ?thesis by simp
qed

text \<open>The timeline stays aligned with its timestamps: lists of different lengths are rejected;
  otherwise the returned timestamps are exactly those that could be converted, in order, and the
  profile has one sample for each, with the stack, thread and CPU delta of its own timed sample.\<close>

theorem timeline_aligned:
  assumes "coherent demangle sz"
    and "build_cpu_timeline_profile demangle samples stamps (Some sz) time duration frequency labels =
      Inr (encoded, b)"
  shows "length samples = length stamps \<and> encoded = List.map_filter id stamps \<and>
    length (pp_samples (pb_profile b)) = length encoded \<and>
    samples_are (pb_profile b) (resolve_uncached demangle sz) labels (\<lambda>d. [i64_of_u64 d])
      (map (\<lambda>(t, _). timeline_entry t) (filter (\<lambda>(_, s). s \<noteq> None) (zip samples stamps)))
      (pp_samples (pb_profile b))"
proof -
  let ?new = "new_builder (Some sz) time duration"
  have len: "length samples = length stamps"
    using assms(2) by (auto simp: build_cpu_timeline_profile_def split: if_splits)
  obtain t b1 where s1: "build_value_type ''cpu'' ''nanoseconds'' ?new = (t, b1)" by (rule prod.exhaust)
  obtain d b2 where s2: "intern ''cpu'' b1 = (d, b2)" by (rule prod.exhaust)
  have res: "resolver_ok demangle (resolve_uncached demangle sz) ?new"
    using assms(1) by (simp add: resolver_ok_def new_builder_def)
  define b3 where "b3 = set_types [t] (Some t) (cpu_period frequency) d b2"
  have run: "add_timeline demangle labels (zip samples stamps) [] b3 = (encoded, b)"
    using assms(2) len by (simp add: build_cpu_timeline_profile_def s1 s2 b3_def)
  have start: "good demangle (resolve_uncached demangle sz) b3" "pp_samples (pb_profile b3) = []"
    using timeline_start_good [OF s1 s2 res, of "[t]" "Some t" "cpu_period frequency"] by (simp_all add: b3_def)
  have snds: "List.map_filter snd (zip samples stamps) = List.map_filter id stamps"
    using len by (induction samples stamps rule: list_induct2) (simp_all add: List.map_filter_def)
  have count: "length (filter (\<lambda>(_, s). s \<noteq> None) (zip samples stamps)) = length (List.map_filter id stamps)"
    using len by (induction samples stamps rule: list_induct2) (auto simp: List.map_filter_def)
  from timeline_good [OF start(1) run] start(2) len snds count show ?thesis
    by (auto simp: samples_are_def dest: list_all2_lengthD)
qed

theorem timeline_aligned_witness:
  "\<exists>encoded b. build_cpu_timeline_profile id
      [\<lparr>ts_stack = stack_of_addresses [20], ts_pid = 7, ts_tid = 8, ts_thread_name = None,
        ts_timestamp = 1, ts_cpu_delta = 3\<rparr>] [Some 9] (Some sample_symbolizer) 1 2 49 [] =
      Inr (encoded, b) \<and> encoded = [9]"
proof -
  let ?t = "\<lparr>ts_stack = stack_of_addresses [20], ts_pid = 7, ts_tid = 8, ts_thread_name = None,
        ts_timestamp = 1, ts_cpu_delta = 3\<rparr> :: timed_stack_sample"
  have coh: "coherent id sample_symbolizer" by (simp only: sample_symbolizer_def from_maps_coherent)
  have "\<exists>encoded b. build_cpu_timeline_profile id [?t] [Some 9] (Some sample_symbolizer) 1 2 49 [] =
      Inr (encoded, b)"
    by (simp add: build_cpu_timeline_profile_def split: prod.split)
  then obtain encoded b where run:
    "build_cpu_timeline_profile id [?t] [Some 9] (Some sample_symbolizer) 1 2 49 [] = Inr (encoded, b)"
    by blast
  from timeline_aligned [OF coh run] have "encoded = [9]" by (simp add: List.map_filter_def)
  with run show ?thesis by blast
qed

end
