(* ===== verification/Publish.thy ===== *)
theory Publish
  imports Main
begin

text \<open>
  \<open>atomic_write\<close> of \<open>src/src/pprof.rs\<close>: how every artifact is published.

  A file system maps paths to contents. The calls of the operating system that can fail are the
  record \<open>io_calls\<close>: each field is the error the call returns, if it does. \<open>atomic_write\<close> gives the
  effects it has on the file system, in order, with its result; the temporary file is removed when
  it goes out of scope, as \<open>tempfile\<close> documents. A run that is cut off anywhere has performed a
  prefix of the effects.
\<close>

type_synonym filesystem = "string \<rightharpoonup> string"

datatype io_kind = Invalid_Input | Unsupported | Other_Failure

datatype publish_error =
  Create_Directory_Failed io_kind
| Temporary_Failed io_kind
| Write_Failed io_kind
| Sync_Failed io_kind
| Persist_Failed io_kind
| Sync_Directory_Failed io_kind

record io_calls =
  ic_create_directory :: "io_kind option"
  ic_temporary :: "io_kind option"
  ic_sync :: "io_kind option"
  ic_persist :: "io_kind option"
  ic_sync_directory :: "io_kind option"

text \<open>What the closure writes, chunk by chunk, and the error it ends with.\<close>

record writer =
  wr_chunks :: "string list"
  wr_error :: "io_kind option"

datatype effect =
  Create_File string
| Append_File string string
| Rename_File string string
| Remove_File string

fun perform :: "effect \<Rightarrow> filesystem \<Rightarrow> filesystem" where
  "perform (Create_File t) fs = fs(t \<mapsto> [])"
| "perform (Append_File t c) fs = fs(t := map_option (\<lambda>old. old @ c) (fs t))"
| "perform (Rename_File t p) fs = fs(p := fs t, t := None)"
| "perform (Remove_File t) fs = fs(t := None)"

definition perform_all :: "effect list \<Rightarrow> filesystem \<Rightarrow> filesystem" where
  "perform_all es fs = fold perform es fs"

definition atomic_write ::
  "io_calls \<Rightarrow> writer \<Rightarrow> string \<Rightarrow> string \<Rightarrow> effect list \<times> (publish_error + unit)" where
  "atomic_write calls w temporary path =
     (case ic_create_directory calls of
        Some e \<Rightarrow> ([], Inl (Create_Directory_Failed e))
      | None \<Rightarrow>
     (case ic_temporary calls of
        Some e \<Rightarrow> ([], Inl (Temporary_Failed e))
      | None \<Rightarrow>
     (let written = Create_File temporary # map (Append_File temporary) (wr_chunks w);
          dropped = written @ [Remove_File temporary]
      in case wr_error w of
        Some e \<Rightarrow> (dropped, Inl (Write_Failed e))
      | None \<Rightarrow>
     (case ic_sync calls of
        Some e \<Rightarrow> (dropped, Inl (Sync_Failed e))
      | None \<Rightarrow>
     (case ic_persist calls of
        Some e \<Rightarrow> (dropped, Inl (Persist_Failed e))
      | None \<Rightarrow>
     (let published = written @ [Rename_File temporary path]
      in case ic_sync_directory calls of
        None \<Rightarrow> (published, Inr ())
      | Some e \<Rightarrow>
          (if e = Invalid_Input \<or> e = Unsupported then (published, Inr ())
           else (published, Inl (Sync_Directory_Failed e)))))))))"

section \<open>Laws\<close>

lemma perform_all_append: "perform_all (es @ es') fs = perform_all es' (perform_all es fs)"
  by (simp add: perform_all_def)

lemma perform_all_simps [simp]:
  "perform_all [] fs = fs" "perform_all (e # es) fs = perform_all es (perform e fs)"
  by (simp_all add: perform_all_def)

text \<open>While the temporary file is being written only its own path changes.\<close>

fun only_touches :: "string \<Rightarrow> effect \<Rightarrow> bool" where
  "only_touches t (Create_File u) \<longleftrightarrow> u = t"
| "only_touches t (Append_File u c) \<longleftrightarrow> u = t"
| "only_touches t (Rename_File u p) \<longleftrightarrow> False"
| "only_touches t (Remove_File u) \<longleftrightarrow> u = t"

lemma only_touches_other:
  assumes "\<forall>e \<in> set es. only_touches t e" "q \<noteq> t"
  shows "perform_all es fs q = fs q"
  using assms(1)
proof (induction es arbitrary: fs)
  case Nil
  then show ?case by simp
next
  case (Cons e es)
  then have "perform e fs q = fs q" using assms(2) by (cases e) auto
  with Cons show ?case by simp
qed

lemma append_chunks:
  "fs t = Some s \<Longrightarrow> perform_all (map (Append_File t) cs) fs = fs(t \<mapsto> s @ concat cs)"
  by (induction cs arbitrary: fs s) (auto simp: fun_eq_iff)

lemma prefix_only_touches:
  assumes "\<forall>e \<in> set es. only_touches t e" "es @ [last_effect] = pre @ post" "post \<noteq> []"
  shows "\<forall>e \<in> set pre. only_touches t e"
  using assms by (cases post rule: rev_cases) auto

lemma written_touches:
  "\<forall>e \<in> set (Create_File t # map (Append_File t) cs). only_touches t e"
  by auto

lemma published_all:
  assumes "p \<noteq> t"
  shows "perform_all (Create_File t # map (Append_File t) cs @ [Rename_File t p]) fs =
    fs(p \<mapsto> concat cs, t := None)"
proof -
  have "perform_all (map (Append_File t) cs) (fs(t \<mapsto> [])) = fs(t \<mapsto> concat cs)"
    using append_chunks [of "fs(t \<mapsto> [])" t "[]" cs] by simp
  then have run: "fold perform (map (Append_File t) cs) (fs(t \<mapsto> [])) = fs(t \<mapsto> concat cs)"
    by (simp add: perform_all_def)
  show ?thesis using assms by (simp add: perform_all_append) (simp add: perform_all_def run fun_eq_iff)
qed

text \<open>The three shapes a run can have.\<close>

definition dropped_effects :: "string \<Rightarrow> string list \<Rightarrow> effect list" where
  "dropped_effects t cs = (Create_File t # map (Append_File t) cs) @ [Remove_File t]"

definition published_effects :: "string \<Rightarrow> string \<Rightarrow> string list \<Rightarrow> effect list" where
  "published_effects t p cs = (Create_File t # map (Append_File t) cs) @ [Rename_File t p]"

lemma atomic_write_cases:
  "(\<exists>e. atomic_write calls w t p = ([], Inl e)) \<or>
   (\<exists>e. atomic_write calls w t p = (dropped_effects t (wr_chunks w), Inl e)) \<or>
   wr_error w = None \<and>
   (\<exists>r. atomic_write calls w t p = (published_effects t p (wr_chunks w), r) \<and>
      (r = Inr () \<or> (\<exists>e. r = Inl (Sync_Directory_Failed e))))"
proof (cases "ic_create_directory calls = None \<and> ic_temporary calls = None")
  case False
  then show ?thesis
    by (cases "ic_create_directory calls"; cases "ic_temporary calls"; simp add: atomic_write_def)
next
  case start: True
  show ?thesis
  proof (cases "wr_error w = None \<and> ic_sync calls = None \<and> ic_persist calls = None")
    case False
    with start show ?thesis
      by (cases "wr_error w"; cases "ic_sync calls"; cases "ic_persist calls";
          simp add: atomic_write_def dropped_effects_def Let_def)
  next
    case True
    with start show ?thesis
      by (cases "ic_sync_directory calls"; simp add: atomic_write_def published_effects_def Let_def)
  qed
qed

text \<open>C26: Publishing is atomic: cut off after any of its steps, or failing in any call, it leaves the target
  as it was or holding everything that was to be written, and touches no other file but the
  temporary one, which is gone at the end; success means that the target holds it all, and the only
  failure after which the target may have changed is that of syncing the directory.\<close>

theorem atomic_write_atomic:
  assumes "atomic_write calls w temporary path = (effects, result)"
    and "fs temporary = None" "path \<noteq> temporary" "effects = started @ rest"
  shows "perform_all started fs path \<in> {fs path, Some (concat (wr_chunks w))} \<and>
    (\<forall>q. q \<noteq> path \<and> q \<noteq> temporary \<longrightarrow> perform_all started fs q = fs q) \<and>
    perform_all effects fs temporary = None \<and>
    (result = Inr () \<longrightarrow> wr_error w = None \<and> perform_all effects fs path = Some (concat (wr_chunks w))) \<and>
    (perform_all effects fs path \<noteq> fs path \<longrightarrow> result = Inr () \<or> (\<exists>e. result = Inl (Sync_Directory_Failed e)))"
proof -
  from atomic_write_cases [of calls w temporary path]
  consider (nothing) e where "effects = []" "result = Inl e"
    | (dropped) e where "effects = dropped_effects temporary (wr_chunks w)" "result = Inl e"
    | (published) "effects = published_effects temporary path (wr_chunks w)" "wr_error w = None"
        "result = Inr () \<or> (\<exists>e. result = Inl (Sync_Directory_Failed e))"
    using assms(1) by auto
  then show ?thesis
  proof cases
    case nothing
    with assms show ?thesis by simp
  next
    case dropped
    have all: "\<forall>x \<in> set effects. only_touches temporary x"
      using dropped(1) by (auto simp: dropped_effects_def)
    then have "\<forall>x \<in> set started. only_touches temporary x" using assms(4) by simp
    then have "perform_all started fs q = fs q" if "q \<noteq> temporary" for q
      using that by (rule only_touches_other)
    moreover have "perform_all effects fs temporary = None"
      by (simp add: dropped dropped_effects_def perform_all_append)
    moreover have "perform_all effects fs path = fs path" using all assms(3) by (rule only_touches_other)
    ultimately show ?thesis using assms(3) dropped(2) by simp
  next
    case published
    have final: "perform_all effects fs = fs(path \<mapsto> concat (wr_chunks w), temporary := None)"
      using published_all [OF assms(3), of "wr_chunks w" fs] published(1)
      by (simp add: published_effects_def)
    show ?thesis
    proof (cases "rest = []")
      case True
      then have "started = effects" using assms(4) by simp
      with assms(3) final published(2,3) show ?thesis by simp
    next
      case False
      have "(Create_File temporary # map (Append_File temporary) (wr_chunks w)) @ [Rename_File temporary path] =
          started @ rest"
        using published(1) assms(4) by (simp add: published_effects_def)
      from prefix_only_touches [OF written_touches this False]
      have "perform_all started fs q = fs q" if "q \<noteq> temporary" for q
        using that by (rule only_touches_other)
      with assms(3) final published(2,3) show ?thesis by simp
    qed
  qed
qed

theorem atomic_write_atomic_witness:
  "perform_all [Create_File ''t'', Append_File ''t'' ''a''] [''p'' \<mapsto> ''old''] ''p'' \<in>
     {Some ''old'', Some (concat [''a'', ''b''])}"
proof -
  let ?calls = "\<lparr>ic_create_directory = None, ic_temporary = None, ic_sync = None, ic_persist = None,
      ic_sync_directory = Some Unsupported\<rparr>" and ?w = "\<lparr>wr_chunks = [''a'', ''b''], wr_error = None\<rparr>"
  have run: "atomic_write ?calls ?w ''t'' ''p'' =
      ([Create_File ''t'', Append_File ''t'' ''a'', Append_File ''t'' ''b'', Rename_File ''t'' ''p''], Inr ())"
    by (simp add: atomic_write_def)
  have fresh: "[''p'' \<mapsto> ''old''] ''t'' = None" "''p'' \<noteq> ''t''" by simp_all
  have old: "[''p'' \<mapsto> ''old''] ''p'' = Some ''old''" by simp
  have "perform_all [Create_File ''t'', Append_File ''t'' ''a''] [''p'' \<mapsto> ''old''] ''p'' \<in>
      {[''p'' \<mapsto> ''old''] ''p'', Some (concat (wr_chunks ?w))}"
    by (rule atomic_write_atomic [where fs = "[''p'' \<mapsto> ''old'']" and
          rest = "[Append_File ''t'' ''b'', Rename_File ''t'' ''p'']",
          OF run fresh, THEN conjunct1]) simp
  then show ?thesis unfolding old by simp
qed

end
