(* ===== verification/Docker.thy ===== *)
theory Docker
  imports Text
begin

text \<open>
  The Docker side of \<open>src/src/target.rs\<close>: the request that is sent to the engine's socket, the parsing of
  its HTTP response, the decoding of chunked bodies and the escaping of the container reference.

  Bytes are characters of a \<open>string\<close>. The socket (\<open>exchange\<close>: the response to a request, or failure)
  and the JSON decoder are parameters.
\<close>

section \<open>Types\<close>

datatype http_error =
  Connect_Failed
| Response_Too_Large
| Invalid_Response
| Invalid_Headers
| Missing_Status
| Http_Status nat
| Chunk_Line_Missing
| Chunk_Size_Invalid
| Chunk_Too_Large
| Chunk_Truncated
| Json_Invalid

record docker_inspect =
  di_id :: string
  di_name :: string
  di_running :: bool
  di_pid :: i32

section \<open>Bytes\<close>

definition crlf :: string where
  "crlf = [CHR 0x0D, CHR 0x0A]"

text \<open>\<open>std::str::from_utf8\<close> accepts exactly the well-formed sequences: no overlong form, no surrogate,
  nothing above U+10FFFF.\<close>

definition byte_in :: "nat \<Rightarrow> nat \<Rightarrow> char \<Rightarrow> bool" where
  "byte_in lo hi c \<longleftrightarrow> lo \<le> (of_char c :: nat) \<and> (of_char c :: nat) \<le> hi"

fun valid_utf8 :: "string \<Rightarrow> bool" where
  "valid_utf8 [] = True"
| "valid_utf8 (a # s) =
     (if byte_in 0 127 a then valid_utf8 s
      else case s of
        [] \<Rightarrow> False
      | b # s1 \<Rightarrow>
          if byte_in 194 223 a then byte_in 128 191 b \<and> valid_utf8 s1
          else case s1 of
            [] \<Rightarrow> False
          | c # s2 \<Rightarrow>
              if byte_in 224 239 a
              then byte_in (if a = CHR 0xE0 then 160 else 128) (if a = CHR 0xED then 159 else 191) b \<and>
                   byte_in 128 191 c \<and> valid_utf8 s2
              else case s2 of
                [] \<Rightarrow> False
              | e # s3 \<Rightarrow>
                  byte_in 240 244 a \<and>
                  byte_in (if a = CHR 0xF0 then 144 else 128) (if a = CHR 0xF4 then 143 else 191) b \<and>
                  byte_in 128 191 c \<and> byte_in 128 191 e \<and> valid_utf8 s3)"

definition to_lower :: "char \<Rightarrow> char" where
  "to_lower c = (if byte_in 65 90 c then char_of ((of_char c :: nat) + 32) else c)"

definition eq_ignore_case :: "string \<Rightarrow> string \<Rightarrow> bool" where
  "eq_ignore_case a b \<longleftrightarrow> map to_lower a = map to_lower b"

section \<open>Escaping\<close>

definition plain_byte :: "char \<Rightarrow> bool" where
  "plain_byte c \<longleftrightarrow>
     byte_in 65 90 c \<or> byte_in 97 122 c \<or> byte_in 48 57 c \<or> c = CHR ''-'' \<or> c = CHR ''_'' \<or> c = CHR ''.''"

definition upper_hex :: "nat \<Rightarrow> char" where
  "upper_hex d = char_of (if d < 10 then 48 + d else 55 + d)"

definition percent_byte :: "char \<Rightarrow> string" where
  "percent_byte c =
     (if plain_byte c then [c]
      else [CHR ''%'', upper_hex ((of_char c :: nat) div 16), upper_hex ((of_char c :: nat) mod 16)])"

definition percent_encode_path :: "string \<Rightarrow> string" where
  "percent_encode_path s = concat (map percent_byte s)"

definition docker_request :: "string \<Rightarrow> string" where
  "docker_request reference =
     ''GET /containers/'' @ percent_encode_path reference @ ''/json HTTP/1.1'' @ crlf @
     ''Host: docker'' @ crlf @ ''Connection: close'' @ crlf @ crlf"

section \<open>Chunked bodies\<close>

lemma split_once_str_shorter:
  "split_once_str p s = Some (a, b) \<Longrightarrow> length a + length p + length b = length s"
proof (induction s arbitrary: a)
  case Nil
  then show ?case by (auto split: if_splits)
next
  case (Cons x s)
  show ?case
  proof (cases "starts_with p (x # s)")
    case True
    then have "length p \<le> length (x # s)" by (metis le_add1 length_append starts_with_iff)
    with True Cons.prems show ?thesis by auto
  next
    case False
    with Cons show ?thesis by auto
  qed
qed

text \<open>The size line: up to the first \<open>;\<close>, trimmed, in hexadecimal, as a \<open>usize\<close>.\<close>

definition chunk_size :: "string \<Rightarrow> http_error + u64" where
  "chunk_size line =
     (if \<not> valid_utf8 line then Inl Chunk_Size_Invalid
      else case parse_radix 16 (trim (hd (split_on (CHR '';'') line))) of
             None \<Rightarrow> Inl Chunk_Size_Invalid
           | Some n \<Rightarrow> Inr n)"

function decode_chunks :: "string \<Rightarrow> string \<Rightarrow> http_error + string" where
  "decode_chunks decoded encoded =
     (case split_once_str crlf encoded of
        None \<Rightarrow> Inl Chunk_Line_Missing
      | Some (line, rest) \<Rightarrow>
          (case chunk_size line of
             Inl e \<Rightarrow> Inl e
           | Inr n \<Rightarrow>
               (if n = 0 then Inr decoded
                else case checked_add n 2 of
                       None \<Rightarrow> Inl Chunk_Too_Large
                     | Some chunk_end \<Rightarrow>
                         (if length rest < unat chunk_end \<or>
                             take 2 (drop (unat n) rest) \<noteq> crlf
                          then Inl Chunk_Truncated
                          else decode_chunks (decoded @ take (unat n) rest) (drop (unat chunk_end) rest)))))"
  by pat_completeness auto
termination
  by (relation "measure (length \<circ> snd)")
    (auto dest!: split_once_str_shorter simp: crlf_def)

declare decode_chunks.simps [simp del]

definition decode_chunked :: "string \<Rightarrow> http_error + string" where
  "decode_chunked encoded = decode_chunks [] encoded"

section \<open>The response\<close>

definition max_docker_response_bytes :: nat where
  "max_docker_response_bytes = 4 * 1024 * 1024"

definition response_status :: "string \<Rightarrow> u16 option" where
  "response_status head =
     (case text_lines head of
        [] \<Rightarrow> None
      | line # _ \<Rightarrow>
          (case split_whitespace line of
             _ # s # _ \<Rightarrow> parse_radix 10 s
           | _ \<Rightarrow> None))"

definition is_chunked :: "string \<Rightarrow> bool" where
  "is_chunked head \<longleftrightarrow>
     list_ex (\<lambda>line. case split_once (CHR '':'') line of
                None \<Rightarrow> False
              | Some (name, val) \<Rightarrow>
                  eq_ignore_case name ''transfer-encoding'' \<and>
                  list_ex (\<lambda>enc. eq_ignore_case (trim enc) ''chunked'') (split_on (CHR '','') val))
       (text_lines head)"

definition docker_response :: "string \<Rightarrow> http_error + string option" where
  "docker_response response =
     (if length response > max_docker_response_bytes then Inl Response_Too_Large
      else case split_once_str (crlf @ crlf) response of
        None \<Rightarrow> Inl Invalid_Response
      | Some (head, body) \<Rightarrow>
          if \<not> valid_utf8 head then Inl Invalid_Headers
          else case response_status head of
            None \<Rightarrow> Inl Missing_Status
          | Some status \<Rightarrow>
              if status = 404 then Inr None
              else if status \<noteq> 200 then Inl (Http_Status (unat status))
              else if is_chunked head then map_sum id Some (decode_chunked body)
              else Inr (Some body))"

definition docker_inspect_of ::
  "(string \<Rightarrow> string option) \<Rightarrow> (string \<Rightarrow> docker_inspect option) \<Rightarrow> string \<Rightarrow>
   http_error + docker_inspect option" where
  "docker_inspect_of exchange json reference =
     (case exchange (docker_request reference) of
        None \<Rightarrow> Inl Connect_Failed
      | Some response \<Rightarrow>
          (case docker_response (take (max_docker_response_bytes + 1) response) of
             Inl e \<Rightarrow> Inl e
           | Inr None \<Rightarrow> Inr None
           | Inr (Some body) \<Rightarrow>
               (case json body of None \<Rightarrow> Inl Json_Invalid | Some i \<Rightarrow> Inr (Some i))))"

section \<open>Escaping is injective and safe\<close>

fun hex_value :: "char \<Rightarrow> nat" where
  "hex_value c = (let n = of_char c in if n < 65 then n - 48 else n - 55)"

fun percent_decode :: "string \<Rightarrow> string" where
  "percent_decode [] = []"
| "percent_decode (c # s) =
     (if c = CHR ''%''
      then (case s of
              h # l # rest \<Rightarrow> char_of (16 * hex_value h + hex_value l) # percent_decode rest
            | _ \<Rightarrow> [])
      else c # percent_decode s)"

lemma hex_value_upper: "d < 16 \<Longrightarrow> hex_value (upper_hex d) = d"
  by (simp add: upper_hex_def)

lemma percent_not_plain [simp]: "\<not> plain_byte (CHR ''%'')"
  by (simp add: plain_byte_def byte_in_def)

lemma percent_decode_encode: "percent_decode (percent_encode_path s @ t) = s @ percent_decode t"
proof (induction s)
  case Nil
  then show ?case by (simp add: percent_encode_path_def)
next
  case (Cons c s)
  have enc: "percent_encode_path (c # s) = percent_byte c @ percent_encode_path s"
    by (simp add: percent_encode_path_def)
  show ?case
  proof (cases "plain_byte c")
    case True
    then have "c \<noteq> CHR ''%''" by auto
    with True Cons show ?thesis by (simp add: enc percent_byte_def)
  next
    case False
    have lt: "(of_char c :: nat) < 256" by simp
    have "16 * hex_value (upper_hex (of_char c div 16)) + hex_value (upper_hex (of_char c mod 16)) = of_char c"
      using lt by (simp only: hex_value_upper [of "of_char c div 16"] hex_value_upper [of "of_char c mod 16"]) simp
    with False Cons show ?thesis by (simp add: enc percent_byte_def del: hex_value.simps)
  qed
qed

lemma upper_hex_plain: "d < 16 \<Longrightarrow> plain_byte (upper_hex d)"
  by (auto simp: upper_hex_def plain_byte_def byte_in_def)

lemma percent_encode_chars: "c \<in> set (percent_encode_path s) \<Longrightarrow> plain_byte c \<or> c = CHR ''%''"
proof -
  assume "c \<in> set (percent_encode_path s)"
  then obtain b where "c \<in> set (percent_byte b)" by (auto simp: percent_encode_path_def)
  moreover have "(of_char b :: nat) div 16 < 16" "(of_char b :: nat) mod 16 < 16"
  proof -
    have "(of_char b :: nat) < 256" by simp
    then show "(of_char b :: nat) div 16 < 16" by (simp only: div_less_iff_less_mult)
    show "(of_char b :: nat) mod 16 < 16" by simp
  qed
  ultimately show ?thesis by (auto simp: percent_byte_def upper_hex_plain split: if_splits)
qed

text \<open>C27: A container reference cannot alter the request: whatever bytes it has, the request line the engine
  sees has exactly one target between \<open>/containers/\<close> and \<open>/json\<close> that holds no slash, space, query,
  percent-free control byte or line break, and decoding it gives back the reference.\<close>

theorem docker_request_unforgeable:
  "\<exists>target. docker_request reference =
      ''GET /containers/'' @ target @ ''/json HTTP/1.1'' @ crlf @
      ''Host: docker'' @ crlf @ ''Connection: close'' @ crlf @ crlf \<and>
    set target \<inter> {CHR ''/'', CHR '' '', CHR ''?'', CHR ''#'', CHR 0x0D, CHR 0x0A, CHR 0x00} = {} \<and>
    percent_decode target = reference"
proof (intro exI conjI)
  show "docker_request reference =
      ''GET /containers/'' @ percent_encode_path reference @ ''/json HTTP/1.1'' @ crlf @
      ''Host: docker'' @ crlf @ ''Connection: close'' @ crlf @ crlf"
    by (simp add: docker_request_def)
  show "set (percent_encode_path reference) \<inter>
      {CHR ''/'', CHR '' '', CHR ''?'', CHR ''#'', CHR 0x0D, CHR 0x0A, CHR 0x00} = {}"
    by (auto dest!: percent_encode_chars simp: plain_byte_def byte_in_def)
  show "percent_decode (percent_encode_path reference) = reference"
    using percent_decode_encode [of reference "[]"] by simp
qed

section \<open>Chunked bodies round-trip\<close>

lemma split_once_str_crlf:
  assumes "CHR 0x0D \<notin> set a"
  shows "split_once_str crlf (a @ crlf @ b) = Some (a, b)"
  using assms
proof (induction a)
  case Nil
  then show ?case by (simp add: crlf_def)
next
  case (Cons x a)
  then show ?case by (auto simp: crlf_def)
qed

lemma valid_utf8_ascii: "\<forall>c \<in> set s. byte_in 0 127 c \<Longrightarrow> valid_utf8 s"
  by (induction s) auto

definition chunk_extension :: "string \<Rightarrow> bool" where
  "chunk_extension e \<longleftrightarrow>
     (e = [] \<or> hd e = CHR '';'') \<and> CHR 0x0D \<notin> set e \<and> (\<forall>c \<in> set e. byte_in 0 127 c)"

definition encode_chunk :: "string \<times> string \<Rightarrow> string" where
  "encode_chunk c = (let (e, d) = c in show_radix 16 (length d) @ e @ crlf @ d @ crlf)"

definition chunk_ok :: "string \<times> string \<Rightarrow> bool" where
  "chunk_ok c \<longleftrightarrow> chunk_extension (fst c) \<and> snd c \<noteq> [] \<and> length (snd c) + 2 < 2 ^ 64"

lemma radix16_digit:
  assumes "c \<in> set (show_radix 16 n)"
  shows "digit_value c \<noteq> None"
proof -
  obtain d where "d < 16" "c = show_digit d" using assms show_radix_chars [of 16 c n] by auto
  then show ?thesis using digit_value_show [of d] by simp
qed

lemma digit_ascii: "digit_value c \<noteq> None \<Longrightarrow> byte_in 0 127 c \<and> c \<noteq> CHR '';'' \<and> c \<noteq> CHR 0x0D"
  by (auto simp: digit_value_def byte_in_def Let_def split: if_splits)

lemma chunk_size_header:
  assumes "chunk_extension e" "n < 2 ^ 64"
  shows "chunk_size (show_radix 16 n @ e) = Inr (word_of_nat n)" "CHR 0x0D \<notin> set (show_radix 16 n @ e)"
proof -
  have digits: "\<forall>c \<in> set (show_radix 16 n). byte_in 0 127 c \<and> c \<noteq> CHR '';'' \<and> c \<noteq> CHR 0x0D"
    using radix16_digit digit_ascii by blast
  then have semi: "CHR '';'' \<notin> set (show_radix 16 n)" by blast
  have "hd (split_on (CHR '';'') (show_radix 16 n @ e)) = show_radix 16 n"
  proof (cases e)
    case Nil
    then show ?thesis using split_on_none [OF semi] by simp
  next
    case (Cons c rest)
    with assms(1) have "e = CHR '';'' # rest" by (simp add: chunk_extension_def)
    then show ?thesis using split_on_append [OF semi, of rest] by simp
  qed
  moreover have "valid_utf8 (show_radix 16 n @ e)"
    using assms(1) digits by (intro valid_utf8_ascii) (auto simp: chunk_extension_def)
  ultimately show "chunk_size (show_radix 16 n @ e) = Inr (word_of_nat n)"
    using parse_radix_show [of 16 n, where 'a = 64] assms(2) trim_word [OF word_show_radix [of 16 n]]
    by (simp add: chunk_size_def)
  show "CHR 0x0D \<notin> set (show_radix 16 n @ e)"
    using digits assms(1) by (auto simp: chunk_extension_def)
qed

lemma decode_chunks_zero: "decode_chunks acc (''0'' @ crlf @ trailer) = Inr acc"
proof -
  have "show_radix 16 0 = ''0''" by (subst show_radix.simps) (simp add: show_digit_def char_of_def, code_simp)
  then have "chunk_size ''0'' = Inr 0" "CHR 0x0D \<notin> set ''0''"
    using chunk_size_header [of "[]" 0] by (simp_all add: chunk_extension_def)
  then show ?thesis
    using split_once_str_crlf [of "''0''" trailer] by (subst decode_chunks.simps) simp
qed

lemma decode_chunks_chunk:
  assumes "chunk_ok (e, d)"
  shows "decode_chunks acc (encode_chunk (e, d) @ rest) = decode_chunks (acc @ d) rest"
proof -
  define n :: u64 where "n = word_of_nat (length d)"
  have e: "chunk_extension e" and len: "length d + 2 < 2 ^ 64" "length d < 2 ^ 64" and d: "d \<noteq> []"
    using assms by (simp_all add: chunk_ok_def)
  have n: "unat n = length d" using len(2) by (simp add: n_def unat_word_of_nat)
  have n0: "n \<noteq> 0" using n d by (metis length_0_conv unat_eq_0)
  have sum: "unat (n + 2) = length d + 2"
    using unat_add_no_overflow [of n 2] len(1) n by simp
  have add: "checked_add n 2 = Some (n + 2)"
    using len(1) n by (simp add: checked_add_Some)
  have split: "split_once_str crlf (encode_chunk (e, d) @ rest) = Some (show_radix 16 (length d) @ e, d @ crlf @ rest)"
    using split_once_str_crlf [OF chunk_size_header(2) [OF e len(2)], of "d @ crlf @ rest"]
    by (simp add: encode_chunk_def)
  have two: "length crlf = 2" "take 2 crlf = crlf" "drop 2 crlf = []" by (simp_all add: crlf_def)
  show ?thesis
    using n0 chunk_size_header(1) [OF e len(2), folded n_def]
    by (subst decode_chunks.simps) (simp add: split add sum n two)
qed

text \<open>C28: Chunked bodies round-trip: any sequence of non-empty chunks with any extensions, encoded as HTTP
  prescribes, with any bytes inside the chunks (line breaks included) and any trailer, decodes to the
  concatenation of the chunks.\<close>

theorem decode_chunked_roundtrip:
  assumes "\<forall>c \<in> set chunks. chunk_ok c"
  shows "decode_chunked (concat (map encode_chunk chunks) @ ''0'' @ crlf @ trailer) = Inr (concat (map snd chunks))"
proof -
  have "decode_chunks acc (concat (map encode_chunk chunks) @ ''0'' @ crlf @ trailer) =
      Inr (acc @ concat (map snd chunks))" for acc
    using assms
  proof (induction chunks arbitrary: acc)
    case Nil
    then show ?case by (simp only: list.map concat.simps append_Nil decode_chunks_zero append_Nil2)
  next
    case (Cons c chunks)
    obtain e d where c: "c = (e, d)" by (rule prod.exhaust)
    have "chunk_ok (e, d)" using Cons.prems by (simp add: c)
    from decode_chunks_chunk [OF this] Cons show ?case by (simp add: c)
  qed
  then show ?thesis by (simp add: decode_chunked_def)
qed

theorem decode_chunked_roundtrip_witness:
  "decode_chunked (concat (map encode_chunk [('';x=1'', [CHR 0x0D, CHR 0x0A]), ([], ''ab'')]) @
     ''0'' @ crlf @ crlf) = Inr (concat (map snd [('';x=1'', [CHR 0x0D, CHR 0x0A]), ([], ''ab'')]))"
  by (rule decode_chunked_roundtrip) (simp add: chunk_ok_def chunk_extension_def byte_in_def)

end
