(* ===== verification/Target.thy ===== *)
theory Target
  imports Docker
begin

text \<open>
  \<open>src/src/target.rs\<close> (with the target types of \<open>src/src/diagnostics.rs\<close>): which process is profiled, and
  whether it is still the same one.

  \<^item> \<open>host\<close> holds what the code asks of the machine: environment variables, files, directories, the
    Docker socket, the Kubernetes API and the JSON decoders.
  \<^item> \<open>selector\<close> is what the user asked for, \<open>logical_identity\<close> what it was resolved to first,
    \<open>target_resolver\<close> the state that \<open>refresh\<close> changes.
  \<^item> The laws: the start time is read correctly for every process name; the search for the first
    process of a container finds the smallest matching pid; refreshing never changes the identity.
\<close>

section \<open>Types\<close>

datatype target_kind = Target_Process | Target_Docker | Target_Kubernetes

record target_metadata =
  tm_kind :: target_kind
  tm_pid :: i32
  tm_start_time_ticks :: u64
  tm_container_id :: "string option"
  tm_container_name :: "string option"
  tm_k8s_namespace :: "string option"
  tm_k8s_pod_name :: "string option"
  tm_k8s_pod_uid :: "string option"
  tm_k8s_container_name :: "string option"
  tm_k8s_node_name :: "string option"

datatype io_failure = Not_Found | Other_Io_Failure

datatype target_error =
  Io_Error io_failure
| Stat_Format
| Start_Time_Missing
| Start_Time_Invalid
| Docker_Error http_error
| Docker_Reference_Empty
| Selector_Missing
| Pod_Format
| Docker_Container_Not_Found
| Docker_Container_Not_Running
| Pod_Not_Found
| Kubernetes_Container_Not_Running
| Identity_Changed
| Container_Unknown
| Pod_Without_Containers
| Pod_With_Several_Containers
| Node_Name_Missing
| Wrong_Node
| Container_Id_Unsupported
| Service_Host_Missing
| Certificate_Invalid
| Request_Failed
| Kubernetes_Status u16
| Kubernetes_Body_Unreadable
| Kubernetes_Json_Invalid

record pod =
  pod_uid :: string
  pod_node_name :: "string option"
  pod_containers :: "string list"
  pod_container_statuses :: "(string \<times> string option) list"

record host =
  ho_env :: "string \<Rightarrow> string option"
  ho_read :: "string \<Rightarrow> io_failure + string"
  ho_read_dir :: "string \<Rightarrow> io_failure + (io_failure + string) list"
  ho_docker :: "string \<Rightarrow> string \<Rightarrow> string option"
  ho_inspect_json :: "string \<Rightarrow> docker_inspect option"
  ho_certificate :: "string \<Rightarrow> bool"
  ho_https :: "string \<Rightarrow> string \<Rightarrow> string \<Rightarrow> (u16 \<times> string option) option"
  ho_pod_json :: "string \<Rightarrow> pod option"

record resolved_target =
  rt_pid :: i32
  rt_metadata :: target_metadata

datatype logical_identity =
  Process_Identity i32 u64
| Docker_Identity string
| Kubernetes_Identity string string string string

datatype selector =
  Select_Process i32
| Select_Docker string
| Select_Kubernetes string string "string option"

datatype target_state = Target_Running | Target_Waiting | Target_Gone

datatype resolution = Running resolved_target | Waiting | Gone

record target_resolver =
  tr_selector :: selector
  tr_identity :: logical_identity
  tr_last :: resolved_target

record target_args =
  ta_pid :: "i32 option"
  ta_docker_container :: "string option"
  ta_k8s_pod :: "string option"
  ta_container :: "string option"

section \<open>Text\<close>

definition contains_str :: "string \<Rightarrow> string \<Rightarrow> bool" where
  "contains_str p s \<longleftrightarrow> split_once_str p s \<noteq> None"

definition rsplit_once :: "char \<Rightarrow> string \<Rightarrow> (string \<times> string) option" where
  "rsplit_once c s = map_option (\<lambda>(a, b). (rev b, rev a)) (split_once c (rev s))"

definition show_pid :: "i32 \<Rightarrow> string" where
  "show_pid v = (if sint v < 0 then ''-'' @ show_radix 10 (nat (- sint v)) else show_radix 10 (nat (sint v)))"

definition trim_slashes :: "string \<Rightarrow> string" where
  "trim_slashes s = dropWhile (\<lambda>c. c = CHR ''/'') s"

section \<open>Process identity\<close>

definition parse_start_time :: "string \<Rightarrow> target_error + u64" where
  "parse_start_time stat =
     (case rsplit_once (CHR '')'') stat of
        None \<Rightarrow> Inl Stat_Format
      | Some (_, after_name) \<Rightarrow>
          (let ws = split_whitespace after_name
           in if length ws \<le> 19 then Inl Start_Time_Missing
              else case parse_radix 10 (ws ! 19) of
                     None \<Rightarrow> Inl Start_Time_Invalid
                   | Some t \<Rightarrow> Inr t))"

definition process_start_time :: "host \<Rightarrow> i32 \<Rightarrow> target_error + u64" where
  "process_start_time ho pid =
     (case ho_read ho (''/proc/'' @ show_pid pid @ ''/stat'') of
        Inl e \<Rightarrow> Inl (Io_Error e)
      | Inr stat \<Rightarrow> parse_start_time stat)"

definition process_disappeared :: "target_error \<Rightarrow> bool" where
  "process_disappeared e \<longleftrightarrow> e = Io_Error Not_Found"

definition process_metadata :: "i32 \<Rightarrow> u64 \<Rightarrow> target_metadata" where
  "process_metadata pid ticks =
     \<lparr>tm_kind = Target_Process, tm_pid = pid, tm_start_time_ticks = ticks, tm_container_id = None,
      tm_container_name = None, tm_k8s_namespace = None, tm_k8s_pod_name = None,
      tm_k8s_pod_uid = None, tm_k8s_container_name = None, tm_k8s_node_name = None\<rparr>"

section \<open>Docker\<close>

definition docker_inspect_at :: "host \<Rightarrow> string \<Rightarrow> target_error + docker_inspect option" where
  "docker_inspect_at ho reference =
     (let socket = (case ho_env ho ''RUSTPROFILE_DOCKER_SOCKET'' of
                      None \<Rightarrow> ''/var/run/docker.sock'' | Some s \<Rightarrow> s)
      in map_sum Docker_Error id
           (docker_inspect_of (ho_docker ho socket) (ho_inspect_json ho) reference))"

definition docker_target :: "host \<Rightarrow> docker_inspect \<Rightarrow> target_error + resolved_target option" where
  "docker_target ho ins =
     (if \<not> di_running ins \<or> sint (di_pid ins) \<le> 0 then Inr None
      else case process_start_time ho (di_pid ins) of
             Inl e \<Rightarrow> Inl e
           | Inr ticks \<Rightarrow>
               Inr (Some \<lparr>rt_pid = di_pid ins,
                 rt_metadata =
                   \<lparr>tm_kind = Target_Docker, tm_pid = di_pid ins, tm_start_time_ticks = ticks,
                    tm_container_id = Some (di_id ins),
                    tm_container_name = Some (trim_slashes (di_name ins)), tm_k8s_namespace = None,
                    tm_k8s_pod_name = None, tm_k8s_pod_uid = None, tm_k8s_container_name = None,
                    tm_k8s_node_name = None\<rparr>\<rparr>))"

section \<open>Kubernetes\<close>

definition env_or :: "host \<Rightarrow> string \<Rightarrow> string \<Rightarrow> string" where
  "env_or ho name fallback = (case ho_env ho name of None \<Rightarrow> fallback | Some v \<Rightarrow> v)"

definition bracket_host :: "string \<Rightarrow> string" where
  "bracket_host h =
     (if CHR '':'' \<in> set h \<and> \<not> starts_with ''['' h then ''['' @ h @ '']'' else h)"

definition kubernetes_url :: "host \<Rightarrow> string \<Rightarrow> string \<Rightarrow> string \<Rightarrow> string" where
  "kubernetes_url ho hostname namespace pod_name =
     (let port = (case ho_env ho ''KUBERNETES_SERVICE_PORT_HTTPS'' of
                    Some p \<Rightarrow> p
                  | None \<Rightarrow> env_or ho ''KUBERNETES_SERVICE_PORT'' ''443'')
      in ''https://'' @ bracket_host hostname @ '':'' @ port @ ''/api/v1/namespaces/'' @ namespace @
         ''/pods/'' @ pod_name)"

definition kubernetes_pod :: "host \<Rightarrow> string \<Rightarrow> string \<Rightarrow> target_error + pod option" where
  "kubernetes_pod ho namespace pod_name =
     (case ho_env ho ''KUBERNETES_SERVICE_HOST'' of
        None \<Rightarrow> Inl Service_Host_Missing
      | Some hostname \<Rightarrow>
     (case ho_read ho (env_or ho ''RUSTPROFILE_K8S_TOKEN''
             ''/var/run/secrets/kubernetes.io/serviceaccount/token'') of
        Inl e \<Rightarrow> Inl (Io_Error e)
      | Inr token \<Rightarrow>
     (case ho_read ho (env_or ho ''RUSTPROFILE_K8S_CA''
             ''/var/run/secrets/kubernetes.io/serviceaccount/ca.crt'') of
        Inl e \<Rightarrow> Inl (Io_Error e)
      | Inr ca \<Rightarrow>
          if \<not> ho_certificate ho ca then Inl Certificate_Invalid
          else case ho_https ho (kubernetes_url ho hostname namespace pod_name)
                      (''Bearer '' @ trim token) ca of
            None \<Rightarrow> Inl Request_Failed
          | Some (status, body) \<Rightarrow>
              if status = 404 then Inr None
              else if status \<noteq> 200 then Inl (Kubernetes_Status status)
              else case body of
                None \<Rightarrow> Inl Kubernetes_Body_Unreadable
              | Some b \<Rightarrow>
                  (case ho_pod_json ho b of
                     None \<Rightarrow> Inl Kubernetes_Json_Invalid
                   | Some p \<Rightarrow> Inr (Some p)))))"

definition select_container :: "pod \<Rightarrow> string option \<Rightarrow> target_error + string" where
  "select_container p requested =
     (case requested of
        Some name \<Rightarrow> (if name \<in> set (pod_containers p) then Inr name else Inl Container_Unknown)
      | None \<Rightarrow>
          (case pod_containers p of
             [name] \<Rightarrow> Inr name
           | [] \<Rightarrow> Inl Pod_Without_Containers
           | _ \<Rightarrow> Inl Pod_With_Several_Containers))"

definition is_hex_digit :: "char \<Rightarrow> bool" where
  "is_hex_digit c \<longleftrightarrow> byte_in 48 57 c \<or> byte_in 97 102 c \<or> byte_in 65 70 c"

text \<open>One directory entry of the proc root: the candidate pid, if it is the first process of the
  container. \<open>None\<close> is a \<open>continue\<close>.\<close>

definition ns_pid_is_init :: "string \<Rightarrow> bool option" where
  "ns_pid_is_init status =
     (case List.map_filter (strip_prefix ''NSpid:'') (text_lines status) of
        [] \<Rightarrow> None
      | vals # _ \<Rightarrow>
          (let ws = split_whitespace vals in Some (ws \<noteq> [] \<and> last ws = ''1'')))"

definition init_candidate :: "host \<Rightarrow> string \<Rightarrow> string \<Rightarrow> string \<Rightarrow> i32 option" where
  "init_candidate ho proc_root container_id name =
     (case parse_i32 name of
        None \<Rightarrow> None
      | Some pid \<Rightarrow>
     (case ho_read ho (proc_root @ ''/'' @ name @ ''/cgroup'') of
        Inl _ \<Rightarrow> None
      | Inr cgroup \<Rightarrow>
          if \<not> contains_str container_id cgroup then None
          else case ho_read ho (proc_root @ ''/'' @ name @ ''/status'') of
            Inl _ \<Rightarrow> None
          | Inr status \<Rightarrow> if ns_pid_is_init status = Some True then Some pid else None))"

definition min_i32 :: "i32 \<Rightarrow> i32 \<Rightarrow> i32" where
  "min_i32 a b = (if sint b < sint a then b else a)"

fun scan_entries ::
  "host \<Rightarrow> string \<Rightarrow> string \<Rightarrow> i32 option \<Rightarrow> (io_failure + string) list \<Rightarrow> target_error + i32 option" where
  "scan_entries ho proc_root cid found [] = Inr found"
| "scan_entries ho proc_root cid found (Inl e # rest) = Inl (Io_Error e)"
| "scan_entries ho proc_root cid found (Inr name # rest) =
     (case init_candidate ho proc_root cid name of
        None \<Rightarrow> scan_entries ho proc_root cid found rest
      | Some pid \<Rightarrow>
          scan_entries ho proc_root cid
            (Some (case found of None \<Rightarrow> pid | Some current \<Rightarrow> min_i32 current pid)) rest)"

definition find_container_init_pid :: "host \<Rightarrow> string \<Rightarrow> string \<Rightarrow> target_error + i32 option" where
  "find_container_init_pid ho proc_root cid =
     (case ho_read_dir ho proc_root of
        Inl e \<Rightarrow> Inl (Io_Error e)
      | Inr entries \<Rightarrow> scan_entries ho proc_root cid None entries)"

text \<open>The status entry of the container, and its id without the runtime's scheme.\<close>

definition status_of_container :: "pod \<Rightarrow> string \<Rightarrow> string option" where
  "status_of_container p container =
     (case List.find (\<lambda>(name, _). name = container) (pod_container_statuses p) of
        None \<Rightarrow> None
      | Some (_, cid) \<Rightarrow> cid)"

definition runtime_id :: "string \<Rightarrow> string" where
  "runtime_id cid = (case split_once_str ''://'' cid of None \<Rightarrow> cid | Some (_, i) \<Rightarrow> i)"

definition kubernetes_target ::
  "host \<Rightarrow> string \<Rightarrow> string \<Rightarrow> pod \<Rightarrow> string \<Rightarrow> target_error + resolved_target option" where
  "kubernetes_target ho namespace pod_name p container =
     (case ho_env ho ''NODE_NAME'' of
        None \<Rightarrow> Inl Node_Name_Missing
      | Some expected \<Rightarrow>
          if (case pod_node_name p of None \<Rightarrow> [] | Some n \<Rightarrow> n) \<noteq> expected then Inl Wrong_Node
          else case status_of_container p container of
            None \<Rightarrow> Inr None
          | Some cid \<Rightarrow>
              if cid = [] then Inr None
              else let rid = runtime_id cid in
                if length rid < 12 \<or> \<not> list_all is_hex_digit rid then Inl Container_Id_Unsupported
                else case find_container_init_pid ho (env_or ho ''RUSTPROFILE_PROC_ROOT'' ''/proc'') rid of
                  Inl e \<Rightarrow> Inl e
                | Inr None \<Rightarrow> Inr None
                | Inr (Some pid) \<Rightarrow>
                    (case process_start_time ho pid of
                       Inl e \<Rightarrow> Inl e
                     | Inr ticks \<Rightarrow>
                         Inr (Some \<lparr>rt_pid = pid,
                           rt_metadata =
                             \<lparr>tm_kind = Target_Kubernetes, tm_pid = pid, tm_start_time_ticks = ticks,
                              tm_container_id = Some rid, tm_container_name = None,
                              tm_k8s_namespace = Some namespace, tm_k8s_pod_name = Some pod_name,
                              tm_k8s_pod_uid = Some (pod_uid p), tm_k8s_container_name = Some container,
                              tm_k8s_node_name = pod_node_name p\<rparr>\<rparr>)))"

section \<open>The resolver\<close>

definition selector_from_args :: "target_args \<Rightarrow> target_error + selector" where
  "selector_from_args args =
     (case ta_pid args of
        Some pid \<Rightarrow> Inr (Select_Process pid)
      | None \<Rightarrow>
     (case ta_docker_container args of
        Some reference \<Rightarrow>
          (if trim reference = [] then Inl Docker_Reference_Empty
           else Inr (Select_Docker (trim reference)))
      | None \<Rightarrow>
     (case ta_k8s_pod args of
        None \<Rightarrow> Inl Selector_Missing
      | Some full \<Rightarrow>
          (case split_once (CHR ''/'') full of
             None \<Rightarrow> Inl Pod_Format
           | Some (namespace, name) \<Rightarrow>
               (if namespace = [] \<or> name = [] \<or> CHR ''/'' \<in> set name then Inl Pod_Format
                else Inr (Select_Kubernetes namespace name (ta_container args)))))))"

definition resolve_first :: "host \<Rightarrow> selector \<Rightarrow> target_error + logical_identity \<times> resolved_target" where
  "resolve_first ho sel =
     (case sel of
        Select_Process pid \<Rightarrow>
          (case process_start_time ho pid of
             Inl e \<Rightarrow> Inl e
           | Inr ticks \<Rightarrow>
               Inr (Process_Identity pid ticks, \<lparr>rt_pid = pid, rt_metadata = process_metadata pid ticks\<rparr>))
      | Select_Docker reference \<Rightarrow>
          (case docker_inspect_at ho reference of
             Inl e \<Rightarrow> Inl e
           | Inr None \<Rightarrow> Inl Docker_Container_Not_Found
           | Inr (Some ins) \<Rightarrow>
               (case docker_target ho ins of
                  Inl e \<Rightarrow> Inl e
                | Inr None \<Rightarrow> Inl Docker_Container_Not_Running
                | Inr (Some t) \<Rightarrow> Inr (Docker_Identity (di_id ins), t)))
      | Select_Kubernetes namespace name container \<Rightarrow>
          (case kubernetes_pod ho namespace name of
             Inl e \<Rightarrow> Inl e
           | Inr None \<Rightarrow> Inl Pod_Not_Found
           | Inr (Some p) \<Rightarrow>
               (case select_container p container of
                  Inl e \<Rightarrow> Inl e
                | Inr c \<Rightarrow>
                    (case kubernetes_target ho namespace name p c of
                       Inl e \<Rightarrow> Inl e
                     | Inr None \<Rightarrow> Inl Kubernetes_Container_Not_Running
                     | Inr (Some t) \<Rightarrow>
                         Inr (Kubernetes_Identity namespace name (pod_uid p) c, t)))))"

definition settle :: "target_error + resolved_target option \<Rightarrow> target_error + resolution" where
  "settle r =
     (case r of
        Inr None \<Rightarrow> Inr Waiting
      | Inr (Some t) \<Rightarrow> Inr (Running t)
      | Inl e \<Rightarrow> if process_disappeared e then Inr Waiting else Inl e)"

definition resolve_again :: "host \<Rightarrow> logical_identity \<Rightarrow> target_error + resolution" where
  "resolve_again ho identity =
     (case identity of
        Process_Identity pid ticks \<Rightarrow>
          (if process_start_time ho pid = Inr ticks
           then Inr (Running \<lparr>rt_pid = pid, rt_metadata = process_metadata pid ticks\<rparr>)
           else Inr Gone)
      | Docker_Identity cid \<Rightarrow>
          (case docker_inspect_at ho cid of
             Inl e \<Rightarrow> Inl e
           | Inr None \<Rightarrow> Inr Gone
           | Inr (Some ins) \<Rightarrow> (if di_id ins \<noteq> cid then Inr Gone else settle (docker_target ho ins)))
      | Kubernetes_Identity namespace name uid container \<Rightarrow>
          (case kubernetes_pod ho namespace name of
             Inl e \<Rightarrow> Inl e
           | Inr None \<Rightarrow> Inr Gone
           | Inr (Some p) \<Rightarrow>
               (if pod_uid p \<noteq> uid then Inr Gone
                else settle (kubernetes_target ho namespace name p container))))"

definition resolver_initial :: "host \<Rightarrow> target_args \<Rightarrow> target_error + target_resolver" where
  "resolver_initial ho args =
     (case selector_from_args args of
        Inl e \<Rightarrow> Inl e
      | Inr sel \<Rightarrow>
          (case resolve_first ho sel of
             Inl e \<Rightarrow> Inl e
           | Inr (identity, t) \<Rightarrow> Inr \<lparr>tr_selector = sel, tr_identity = identity, tr_last = t\<rparr>))"

definition refresh :: "host \<Rightarrow> target_resolver \<Rightarrow> (target_error + target_state) \<times> target_resolver" where
  "refresh ho r =
     (case resolve_again ho (tr_identity r) of
        Inl e \<Rightarrow> (Inl e, r)
      | Inr (Running t) \<Rightarrow> (Inr Target_Running, r\<lparr>tr_last := t\<rparr>)
      | Inr Waiting \<Rightarrow> (Inr Target_Waiting, r)
      | Inr Gone \<Rightarrow> (Inr Target_Gone, r))"

definition supports_restart :: "target_resolver \<Rightarrow> bool" where
  "supports_restart r = (case tr_identity r of Process_Identity _ _ \<Rightarrow> False | _ \<Rightarrow> True)"

definition validate_current :: "host \<Rightarrow> target_resolver \<Rightarrow> target_error + unit" where
  "validate_current ho r =
     (case process_start_time ho (rt_pid (tr_last r)) of
        Inl e \<Rightarrow> Inl e
      | Inr current \<Rightarrow>
          (if current \<noteq> tm_start_time_ticks (rt_metadata (tr_last r)) then Inl Identity_Changed else Inr ()))"

text \<open>\<open>splitn(3, ':')\<close> with its three \<open>next()\<close>s.\<close>

definition cgroup_fields :: "string \<Rightarrow> (string \<times> string \<times> string) option" where
  "cgroup_fields line =
     (case split_once (CHR '':'') line of
        None \<Rightarrow> None
      | Some (h, rest) \<Rightarrow> map_option (\<lambda>(c, p). (h, c, p)) (split_once (CHR '':'') rest))"

text \<open>\<open>Path::join\<close> with a relative path without its leading slashes; joining the empty path adds a slash.\<close>

definition cgroup_path :: "host \<Rightarrow> target_resolver \<Rightarrow> target_error + string option" where
  "cgroup_path ho r =
     (if \<not> supports_restart r then Inr None
      else case ho_read ho (''/proc/'' @ show_pid (rt_pid (tr_last r)) @ ''/cgroup'') of
        Inl e \<Rightarrow> Inl (Io_Error e)
      | Inr contents \<Rightarrow>
          (let parsed = List.map_filter cgroup_fields (text_lines contents)
           in case filter (\<lambda>(h, c, _). h = ''0'' \<and> c = []) parsed of
                (_, _, p) # _ \<Rightarrow> Inr (Some (''/sys/fs/cgroup/'' @ trim_slashes p))
              | [] \<Rightarrow>
                  (case filter (\<lambda>(_, c, _). ''perf_event'' \<in> set (split_on (CHR '','') c)) parsed of
                     (_, _, p) # _ \<Rightarrow> Inr (Some (''/sys/fs/cgroup/perf_event/'' @ trim_slashes p))
                   | [] \<Rightarrow> Inr None)))"

section \<open>The start time of a process\<close>

lemma rsplit_once_append:
  assumes "c \<notin> set b"
  shows "rsplit_once c (a @ c # b) = Some (a, b)"
  using split_once_append [of c "rev b" "rev a"] assms by (simp add: rsplit_once_def)

lemma split_whitespace_join:
  assumes "\<forall>w \<in> set ws. is_word w"
  shows "split_whitespace (join '' '' ws) = ws"
  using assms
proof (induction ws rule: induct_list012)
  case 1
  then show ?case by (simp add: split_whitespace_def)
next
  case (2 w)
  then show ?case by (simp add: split_whitespace_word)
next
  case (3 w v ws)
  then have "split_whitespace (w @ '' '' @ join '' '' (v # ws)) = w # split_whitespace (join '' '' (v # ws))"
    by (simp add: split_whitespace_append)
  with 3 show ?case by simp
qed

lemma split_whitespace_newline: "split_whitespace (s @ [CHR 0x0A]) = split_whitespace s"
  using split_words_trailing [of "CHR 0x0A" "[]" s "[]"] by (simp add: split_whitespace_def)

text \<open>What the kernel prints: the name in parentheses is any string, the rest are words.\<close>

definition stat_line :: "i32 \<Rightarrow> string \<Rightarrow> string list \<Rightarrow> string" where
  "stat_line pid comm ws = show_pid pid @ '' ('' @ comm @ '') '' @ join '' '' ws @ [CHR 0x0A]"

lemma parse_start_time_words:
  assumes "\<forall>w \<in> set ws. is_word w \<and> CHR '')'' \<notin> set w" "19 < length ws" "ws ! 19 = show_radix 10 n"
    and "n < 2 ^ 64"
  shows "parse_start_time (stat_line pid comm ws) = Inr (word_of_nat n)"
proof -
  have join_set: "set (join '' '' ws) \<subseteq> insert (CHR '' '') (\<Union> (set ` set ws))"
    by (induction ws rule: induct_list012) auto
  then have "CHR '')'' \<notin> set (CHR '' '' # join '' '' ws @ [CHR 0x0A])" using assms(1) by auto
  then have split: "rsplit_once (CHR '')'') (stat_line pid comm ws) =
      Some (show_pid pid @ '' ('' @ comm, CHR '' '' # join '' '' ws @ [CHR 0x0A])"
    using rsplit_once_append [of "CHR '')''" "CHR '' '' # join '' '' ws @ [CHR 0x0A]" "show_pid pid @ '' ('' @ comm"]
    by (simp add: stat_line_def)
  have words: "split_whitespace (CHR '' '' # join '' '' ws @ [CHR 0x0A]) = ws"
    using assms(1) split_whitespace_newline [of "join '' '' ws"] split_whitespace_join [of ws]
    by (simp add: split_whitespace_space)
  have "(parse_radix 10 (ws ! 19) :: u64 option) = Some (word_of_nat n)"
    unfolding assms(3) using assms(4) by (intro parse_radix_show) simp_all
  then show ?thesis using assms(2) by (simp add: parse_start_time_def split words)
qed

text \<open>The start time of a process is read correctly whatever the process calls itself: for any name,
  with spaces, parentheses or forged fields in it, the result is the twentieth field after the
  closing parenthesis.\<close>

theorem parse_start_time_exact:
  assumes "\<forall>w \<in> set ws. is_word w \<and> CHR '')'' \<notin> set w" "19 < length ws" "ws ! 19 = show_radix 10 n"
    and "n < 2 ^ 64"
  shows "parse_start_time (stat_line pid comm ws) = Inr (word_of_nat n)"
  using assms by (rule parse_start_time_words)

lemma replicate_witness_words: "\<forall>w \<in> set (replicate 20 ''7''). is_word w \<and> CHR '')'' \<notin> set w"
  by (simp add: is_word_def is_ascii_def is_space_def)

lemma replicate_witness_seven: "replicate 20 ''7'' ! 19 = show_radix 10 7"
  by (subst show_radix.simps) (simp add: show_digit_def char_of_def, code_simp)

theorem parse_start_time_exact_witness:
  "parse_start_time (stat_line 7 ''a) S 1 (b'' (replicate 20 ''7'')) = Inr 7"
proof -
  show ?thesis using parse_start_time_exact [OF replicate_witness_words _ replicate_witness_seven, of 7 "''a) S 1 (b''"] by simp
qed

section \<open>The first process of a container\<close>

lemma map_filter_members: "set (List.map_filter f xs) = {y. \<exists>x \<in> set xs. f x = Some y}"
  by (induction xs) (auto simp: List.map_filter_def)

definition smallest :: "i32 list \<Rightarrow> i32 option" where
  "smallest ps = (case ps of [] \<Rightarrow> None | p # rest \<Rightarrow> Some (foldl min_i32 p rest))"

lemma min_i32_sint: "sint (min_i32 a b) = min (sint a) (sint b)"
  by (simp add: min_i32_def)

lemma foldl_min_i32:
  "foldl min_i32 p ps \<in> insert p (set ps) \<and> (\<forall>q \<in> insert p (set ps). sint (foldl min_i32 p ps) \<le> sint q)"
proof (induction ps arbitrary: p)
  case Nil
  then show ?case by simp
next
  case (Cons x ps)
  from Cons.IH [of "min_i32 p x"] show ?case
    by (auto simp: min_i32_sint) (auto simp: min_i32_def split: if_splits)
qed

lemma scan_entries_fold:
  "scan_entries ho proc_root cid found (map Inr names) =
    Inr (let ps = List.map_filter (init_candidate ho proc_root cid) names
         in case found of None \<Rightarrow> smallest ps | Some p \<Rightarrow> Some (foldl min_i32 p ps))"
proof (induction names arbitrary: found)
  case Nil
  then show ?case by (simp add: List.map_filter_def smallest_def split: option.split)
next
  case (Cons n names)
  then show ?case
    by (cases "init_candidate ho proc_root cid n"; cases found)
      (simp_all add: List.map_filter_def smallest_def)
qed

text \<open>The search for a container's first process returns the smallest of all pids in the listing whose
  control group mentions the container and whose innermost namespace pid is 1, and returns nothing
  exactly when there is none; the order of the listing does not matter.\<close>

theorem find_container_init_pid_smallest:
  assumes "ho_read_dir ho proc_root = Inr (map Inr names)"
    and "candidates = {p. \<exists>n \<in> set names. init_candidate ho proc_root cid n = Some p}"
  shows "\<exists>found. find_container_init_pid ho proc_root cid = Inr found \<and>
    (case found of
       None \<Rightarrow> candidates = {}
     | Some p \<Rightarrow> p \<in> candidates \<and> (\<forall>q \<in> candidates. sint p \<le> sint q))"
proof -
  let ?ps = "List.map_filter (init_candidate ho proc_root cid) names"
  have set: "set ?ps = candidates"
    unfolding assms(2) by (simp add: map_filter_members)
  have "find_container_init_pid ho proc_root cid = Inr (smallest ?ps)"
    using scan_entries_fold [of ho proc_root cid None names]
    by (simp add: find_container_init_pid_def assms(1))
  moreover have "case smallest ?ps of
       None \<Rightarrow> candidates = {}
     | Some p \<Rightarrow> p \<in> candidates \<and> (\<forall>q \<in> candidates. sint p \<le> sint q)"
  proof (cases ?ps)
    case Nil
    with set show ?thesis by (simp add: smallest_def)
  next
    case (Cons p rest)
    with set foldl_min_i32 [of p rest] show ?thesis by (auto simp: smallest_def)
  qed
  ultimately show ?thesis by blast
qed

definition sample_host :: host where
  "sample_host =
     \<lparr>ho_env = (\<lambda>_. None), ho_read = (\<lambda>_. Inl Not_Found), ho_read_dir = (\<lambda>_. Inr (map Inr [''x''])),
      ho_docker = (\<lambda>_ _. None), ho_inspect_json = (\<lambda>_. None), ho_certificate = (\<lambda>_. False),
      ho_https = (\<lambda>_ _ _. None), ho_pod_json = (\<lambda>_. None)\<rparr>"

theorem find_container_init_pid_smallest_witness:
  "\<exists>found. find_container_init_pid sample_host ''/proc'' ''abc'' = Inr found"
proof -
  have "ho_read_dir sample_host ''/proc'' = Inr (map Inr [''x''])" by (simp add: sample_host_def)
  from find_container_init_pid_smallest [OF this refl, of "''abc''"] show ?thesis by blast
qed

section \<open>Refreshing keeps the identity\<close>

definition identity_of :: "logical_identity \<Rightarrow> resolved_target \<Rightarrow> bool" where
  "identity_of identity t \<longleftrightarrow>
     tm_pid (rt_metadata t) = rt_pid t \<and>
     (case identity of
        Process_Identity pid ticks \<Rightarrow>
          tm_kind (rt_metadata t) = Target_Process \<and> rt_pid t = pid \<and> tm_start_time_ticks (rt_metadata t) = ticks
      | Docker_Identity cid \<Rightarrow>
          tm_kind (rt_metadata t) = Target_Docker \<and> tm_container_id (rt_metadata t) = Some cid \<and>
          0 < sint (rt_pid t)
      | Kubernetes_Identity namespace name uid container \<Rightarrow>
          tm_kind (rt_metadata t) = Target_Kubernetes \<and> tm_k8s_namespace (rt_metadata t) = Some namespace \<and>
          tm_k8s_pod_name (rt_metadata t) = Some name \<and> tm_k8s_pod_uid (rt_metadata t) = Some uid \<and>
          tm_k8s_container_name (rt_metadata t) = Some container)"

text \<open>A target that is reported as running was seen with its start time on the same machine.\<close>

definition seen_at :: "host \<Rightarrow> resolved_target \<Rightarrow> bool" where
  "seen_at ho t \<longleftrightarrow> process_start_time ho (rt_pid t) = Inr (tm_start_time_ticks (rt_metadata t))"

lemma docker_target_identity:
  "docker_target ho ins = Inr (Some t) \<Longrightarrow> identity_of (Docker_Identity (di_id ins)) t \<and> seen_at ho t"
  by (auto simp: docker_target_def identity_of_def seen_at_def split: if_splits sum.splits)

lemma kubernetes_target_identity:
  assumes "kubernetes_target ho namespace name p c = Inr (Some t)"
  shows "identity_of (Kubernetes_Identity namespace name (pod_uid p) c) t \<and> seen_at ho t"
  using assms unfolding kubernetes_target_def
  by (auto simp: identity_of_def seen_at_def Let_def split: if_splits sum.splits option.splits)

lemma settle_running: "settle r = Inr (Running t) \<Longrightarrow> r = Inr (Some t)"
  by (auto simp: settle_def split: sum.splits option.splits if_splits)

lemma resolve_first_identity:
  assumes "resolve_first ho sel = Inr (identity, t)"
  shows "identity_of identity t \<and> seen_at ho t"
proof (cases sel)
  case (Select_Process pid)
  with assms show ?thesis
    by (auto simp: resolve_first_def identity_of_def process_metadata_def seen_at_def split: sum.splits)
next
  case (Select_Docker reference)
  with assms show ?thesis
    by (auto simp: resolve_first_def split: sum.splits option.splits dest: docker_target_identity)
next
  case (Select_Kubernetes namespace name container)
  with assms show ?thesis
    by (auto simp: resolve_first_def split: sum.splits option.splits dest: kubernetes_target_identity)
qed

lemma resolve_again_identity:
  assumes "resolve_again ho identity = Inr (Running t)"
  shows "identity_of identity t \<and> seen_at ho t"
proof (cases identity)
  case (Process_Identity pid ticks)
  with assms show ?thesis
    by (auto simp: resolve_again_def identity_of_def process_metadata_def seen_at_def split: if_splits)
next
  case (Docker_Identity cid)
  with assms show ?thesis
    by (auto simp: resolve_again_def split: sum.splits option.splits if_splits
        dest!: settle_running docker_target_identity)
next
  case (Kubernetes_Identity namespace name uid container)
  with assms show ?thesis
    by (auto simp: resolve_again_def split: sum.splits option.splits if_splits
        dest!: settle_running kubernetes_target_identity)
qed

text \<open>The states of a resolver, on a machine that changes between the calls.\<close>

inductive resolver_reachable :: "target_args \<Rightarrow> logical_identity \<Rightarrow> target_resolver \<Rightarrow> bool" for args identity where
  start: "resolver_initial ho args = Inr r \<Longrightarrow> tr_identity r = identity \<Longrightarrow> resolver_reachable args identity r"
| refresh: "resolver_reachable args identity r \<Longrightarrow> resolver_reachable args identity (snd (refresh ho r))"

lemma refresh_identity:
  assumes "identity_of (tr_identity r) (tr_last r)"
  shows "tr_identity (snd (refresh ho r)) = tr_identity r \<and>
    identity_of (tr_identity r) (tr_last (snd (refresh ho r)))"
  using assms resolve_again_identity [of ho "tr_identity r"]
  by (auto simp: refresh_def split: sum.splits resolution.splits)

text \<open>C29: Once resolved, a target never turns into another one: in every state that refreshes can lead to,
  on a machine that changes arbitrarily between them, the identity is the first one and the last
  known target has it (the same pid and start time, the same container id, or the same pod and
  container); only a refresh that reports the target as running changes the last known target, and
  then that process was seen with that start time.\<close>

theorem refresh_never_switches:
  assumes "resolver_reachable args identity r"
  shows "tr_identity r = identity \<and> identity_of identity (tr_last r) \<and>
    (fst (refresh ho r) \<noteq> Inr Target_Running \<longrightarrow> snd (refresh ho r) = r) \<and>
    (fst (refresh ho r) = Inr Target_Running \<longrightarrow> seen_at ho (tr_last (snd (refresh ho r))))"
proof -
  have inv: "tr_identity r = identity \<and> identity_of identity (tr_last r)"
    using assms
  proof induction
    case (start ho r)
    then show ?case
      by (auto simp: resolver_initial_def split: sum.splits dest!: resolve_first_identity)
  next
    case (refresh r ho)
    then show ?case using refresh_identity [of r ho] by simp
  qed
  then show ?thesis
    using resolve_again_identity [of ho "tr_identity r"]
    by (auto simp: refresh_def split: sum.splits resolution.splits)
qed

lemma sample_reachable:
  assumes "resolver_initial ho args = Inr r"
  shows "resolver_reachable args (tr_identity r) (snd (refresh ho' r))"
  using assms by (intro resolver_reachable.refresh resolver_reachable.start [of ho]) simp_all

definition sample_process_host :: host where
  "sample_process_host = sample_host\<lparr>ho_read := \<lambda>_. Inr (stat_line 7 ''a'' (replicate 20 ''7''))\<rparr>"

definition sample_args :: target_args where
  "sample_args = \<lparr>ta_pid = Some 7, ta_docker_container = None, ta_k8s_pod = None, ta_container = None\<rparr>"

lemma sample_start: "process_start_time sample_process_host 7 = Inr 7"
  using parse_start_time_words [OF replicate_witness_words _ replicate_witness_seven, of 7 "''a''"]
  by (simp add: process_start_time_def sample_process_host_def)

theorem refresh_never_switches_witness:
  "\<exists>r. resolver_initial sample_process_host sample_args = Inr r \<and>
    identity_of (Process_Identity 7 7) (tr_last (snd (refresh sample_host r)))"
proof -
  let ?t = "\<lparr>rt_pid = 7, rt_metadata = process_metadata 7 7\<rparr>"
  let ?r = "\<lparr>tr_selector = Select_Process 7, tr_identity = Process_Identity 7 7, tr_last = ?t\<rparr>"
  have init: "resolver_initial sample_process_host sample_args = Inr ?r"
    by (simp add: resolver_initial_def selector_from_args_def sample_args_def resolve_first_def sample_start)
  have "resolver_reachable sample_args (Process_Identity 7 7) (snd (refresh sample_host ?r))"
    using sample_reachable [OF init] by simp
  from refresh_never_switches [OF this] init show ?thesis by blast
qed

end
