(* ===== verification/Otlp_Proto.thy ===== *)
theory Otlp_Proto
  imports Prelude
begin

text \<open>
  \<open>src/src/otlp/proto.rs\<close>: the messages of the OTLP profiles signal that the exporter emits or reads,
  one record per message and one datatype for the \<open>oneof\<close>. \<open>AnyValue\<close>, which holds an optional
  value, is an option. Table indices (\<open>i32\<close>) are positions in lists and are naturals here; counters,
  times and values keep their width.
\<close>

datatype any_value =
  String_Value string
| Bool_Value bool
| Int_Value i64
| Double_Value u64
| Array_Value "any_value option list"
| Kvlist_Value "(string \<times> any_value option option) list"
| Bytes_Value "u8 list"

record key_value =
  kv_key :: string
  kv_value :: "any_value option option"

record key_value_and_unit =
  ku_key_strindex :: nat
  ku_value :: "any_value option option"
  ku_unit_strindex :: nat

record otlp_scope =
  sc_name :: string
  sc_version :: string
  sc_attributes :: "key_value list"
  sc_dropped_attributes_count :: u32

record otlp_resource =
  rs_attributes :: "key_value list"
  rs_dropped_attributes_count :: u32

record otlp_value_type =
  ov_type_strindex :: nat
  ov_unit_strindex :: nat

record otlp_sample =
  os_stack_index :: nat
  os_attribute_indices :: "nat list"
  os_link_index :: nat
  os_values :: "i64 list"
  os_timestamps_unix_nano :: "u64 list"

record otlp_mapping =
  om_memory_start :: u64
  om_memory_limit :: u64
  om_file_offset :: u64
  om_filename_strindex :: nat
  om_attribute_indices :: "nat list"

record otlp_stack =
  ok_location_indices :: "nat list"

record otlp_line =
  ol_function_index :: nat
  ol_line :: i64
  ol_column :: i64

record otlp_location =
  oo_mapping_index :: nat
  oo_address :: u64
  oo_lines :: "otlp_line list"
  oo_attribute_indices :: "nat list"

record otlp_function =
  of_name_strindex :: nat
  of_system_name_strindex :: nat
  of_filename_strindex :: nat
  of_start_line :: i64

record otlp_link =
  oi_trace_id :: "u8 list"
  oi_span_id :: "u8 list"

record otlp_profile =
  op_sample_type :: "otlp_value_type option"
  op_samples :: "otlp_sample list"
  op_time_unix_nano :: u64
  op_duration_nano :: u64
  op_period_type :: "otlp_value_type option"
  op_period :: i64
  op_profile_id :: "u8 list"
  op_dropped_attributes_count :: u32
  op_original_payload_format :: string
  op_original_payload :: "u8 list"
  op_attribute_indices :: "nat list"

record profiles_dictionary =
  pd_mapping_table :: "otlp_mapping list"
  pd_location_table :: "otlp_location list"
  pd_function_table :: "otlp_function list"
  pd_link_table :: "otlp_link list"
  pd_string_table :: "string list"
  pd_attribute_table :: "key_value_and_unit list"
  pd_stack_table :: "otlp_stack list"

record scope_profiles =
  sp_scope :: "otlp_scope option"
  sp_profiles :: "otlp_profile list"
  sp_schema_url :: string

record resource_profiles =
  rp_resource :: "otlp_resource option"
  rp_scope_profiles :: "scope_profiles list"
  rp_schema_url :: string

record export_request =
  rq_resource_profiles :: "resource_profiles list"
  rq_dictionary :: "profiles_dictionary option"

record partial_success =
  px_rejected_profiles :: i64
  px_error_message :: string

record export_response =
  rx_partial_success :: "partial_success option"

definition default_otlp_mapping :: otlp_mapping where
  "default_otlp_mapping =
     \<lparr>om_memory_start = 0, om_memory_limit = 0, om_file_offset = 0, om_filename_strindex = 0,
      om_attribute_indices = []\<rparr>"

definition default_otlp_location :: otlp_location where
  "default_otlp_location =
     \<lparr>oo_mapping_index = 0, oo_address = 0, oo_lines = [], oo_attribute_indices = []\<rparr>"

definition default_otlp_function :: otlp_function where
  "default_otlp_function =
     \<lparr>of_name_strindex = 0, of_system_name_strindex = 0, of_filename_strindex = 0, of_start_line = 0\<rparr>"

definition default_key_value_and_unit :: key_value_and_unit where
  "default_key_value_and_unit = \<lparr>ku_key_strindex = 0, ku_value = None, ku_unit_strindex = 0\<rparr>"

definition default_otlp_stack :: otlp_stack where
  "default_otlp_stack = \<lparr>ok_location_indices = []\<rparr>"

end
