(* ===== verification/Otlp_Dictionary.thy ===== *)
theory Otlp_Dictionary
  imports Otlp_Proto Pprof
begin

text \<open>
  The dictionary of an OTLP export (\<open>src/src/otlp/mod.rs\<close>): \<open>DictionaryBuilder\<close> with its interning
  methods, \<open>SourceLookup\<close> into a pprof profile, and the cache of mapping hashes.

  The mapped file of an address range is a parameter (\<open>open_mapping\<close>: its identity and its bytes, or
  failure) and so is the hash function (\<open>sha256\<close>).
\<close>

section \<open>Mapping hashes\<close>

record file_identity =
  fi_device :: u64
  fi_inode :: u64
  fi_length :: u64
  fi_modified_seconds :: i64
  fi_modified_nanoseconds :: i64
  fi_changed_seconds :: i64
  fi_changed_nanoseconds :: i64

record mapping_hash_cache =
  mc_entries :: "(file_identity, string) table"
  mc_order :: "file_identity list"

record hash_env =
  he_open :: "u64 \<Rightarrow> u64 \<Rightarrow> (file_identity \<times> u8 list) option"
  he_sha256 :: "u8 list \<Rightarrow> u8 list"

definition mapping_hash_cache_capacity :: nat where
  "mapping_hash_cache_capacity = 4096"

definition empty_hash_cache :: mapping_hash_cache where
  "empty_hash_cache = \<lparr>mc_entries = [], mc_order = []\<rparr>"

definition hex_encode :: "u8 list \<Rightarrow> string" where
  "hex_encode bs = concat (map (\<lambda>b. [show_digit (unat b div 16), show_digit (unat b mod 16)]) bs)"

text \<open>The first and the last page and the length, which is what the two reads yield; either read fails on
  a file that is shorter than its recorded length.\<close>

definition hash_input :: "file_identity \<Rightarrow> u8 list \<Rightarrow> u8 list option" where
  "hash_input fi bytes =
     (let len = unat (fi_length fi); page = min 4096 len
      in case slice bytes 0 page of
           None \<Rightarrow> None
         | Some first_page \<Rightarrow>
             (case slice bytes (len - page) (len - page + page) of
                None \<Rightarrow> None
              | Some last_page \<Rightarrow> Some (first_page @ last_page @ rev (bytes_of_word (fi_length fi)))))"

definition hash_store :: "file_identity \<Rightarrow> string \<Rightarrow> mapping_hash_cache \<Rightarrow> mapping_hash_cache" where
  "hash_store fi hash c =
     (let c1 = (if length (mc_entries c) \<ge> mapping_hash_cache_capacity
                then case mc_order c of
                       [] \<Rightarrow> c
                     | expired # rest \<Rightarrow>
                         c\<lparr>mc_order := rest, mc_entries := AList.delete expired (mc_entries c)\<rparr>
                else c)
      in c1\<lparr>mc_entries := AList.update fi hash (mc_entries c1), mc_order := mc_order c1 @ [fi]\<rparr>)"

definition htlhash ::
  "hash_env \<Rightarrow> u64 \<Rightarrow> u64 \<Rightarrow> mapping_hash_cache \<Rightarrow> string option \<times> mapping_hash_cache" where
  "htlhash env start limit c =
     (case he_open env start limit of
        None \<Rightarrow> (None, c)
      | Some (fi, bytes) \<Rightarrow>
          (case map_of (mc_entries c) fi of
             Some hash \<Rightarrow> (Some hash, c)
           | None \<Rightarrow>
               (case hash_input fi bytes of
                  None \<Rightarrow> (None, c)
                | Some input \<Rightarrow>
                    (let hash = hex_encode (take 16 (he_sha256 env input))
                     in (Some hash, hash_store fi hash c)))))"

section \<open>Reading a pprof profile\<close>

definition pprof_string :: "pprof \<Rightarrow> nat \<Rightarrow> string" where
  "pprof_string p i = (if i < length (pp_strings p) then pp_strings p ! i else [])"

text \<open>Collecting pairs into a \<open>HashMap\<close>: the last entry with an id wins.\<close>

record source_lookup =
  sk_locations :: "(nat, pp_location) table"
  sk_mappings :: "(nat, pp_mapping) table"
  sk_functions :: "(nat, pp_function) table"

definition collect_by :: "('a \<Rightarrow> nat) \<Rightarrow> 'a list \<Rightarrow> (nat, 'a) table" where
  "collect_by f xs = fold (\<lambda>x m. AList.update (f x) x m) xs []"

definition source_lookup_of :: "pprof \<Rightarrow> source_lookup" where
  "source_lookup_of p =
     \<lparr>sk_locations = collect_by po_id (pp_locations p), sk_mappings = collect_by pm_id (pp_mappings p),
      sk_functions = collect_by pf_id (pp_functions p)\<rparr>"

section \<open>The builder\<close>

type_synonym mapping_key = "u64 \<times> u64 \<times> u64 \<times> string \<times> string"
type_synonym location_key = "u64 \<times> nat \<times> (nat \<times> i64 \<times> i64) list"
type_synonym otlp_function_key = "string \<times> string \<times> string \<times> i64"
type_synonym attribute_key = "string \<times> string"

record dictionary_builder =
  db_hashes :: mapping_hash_cache
  db_strings :: "string list"
  db_string_index :: "(string, nat) table"
  db_mappings :: "otlp_mapping list"
  db_mapping_index :: "(mapping_key, nat) table"
  db_locations :: "otlp_location list"
  db_location_index :: "(location_key, nat) table"
  db_functions :: "otlp_function list"
  db_function_index :: "(otlp_function_key, nat) table"
  db_attributes :: "key_value_and_unit list"
  db_attribute_index :: "(attribute_key, nat) table"
  db_stacks :: "otlp_stack list"
  db_stack_index :: "(nat list, nat) table"

definition new_dictionary :: "mapping_hash_cache \<Rightarrow> dictionary_builder" where
  "new_dictionary hashes =
     \<lparr>db_hashes = hashes, db_strings = [''''], db_string_index = [('''', 0)],
      db_mappings = [default_otlp_mapping], db_mapping_index = [],
      db_locations = [default_otlp_location], db_location_index = [],
      db_functions = [default_otlp_function], db_function_index = [],
      db_attributes = [default_key_value_and_unit], db_attribute_index = [],
      db_stacks = [default_otlp_stack], db_stack_index = []\<rparr>"

definition intern_string :: "string \<Rightarrow> dictionary_builder \<Rightarrow> nat \<times> dictionary_builder" where
  "intern_string s d =
     (case map_of (db_string_index d) s of
        Some i \<Rightarrow> (i, d)
      | None \<Rightarrow>
          (let i = length (db_strings d)
           in (i, d\<lparr>db_strings := db_strings d @ [s],
                    db_string_index := AList.update s i (db_string_index d)\<rparr>)))"

definition push_attribute ::
  "attribute_key \<Rightarrow> key_value_and_unit \<Rightarrow> dictionary_builder \<Rightarrow> nat \<times> dictionary_builder" where
  "push_attribute key entry d =
     (let i = length (db_attributes d)
      in (i, d\<lparr>db_attributes := db_attributes d @ [entry],
               db_attribute_index := AList.update key i (db_attribute_index d)\<rparr>))"

definition show_bool :: "bool \<Rightarrow> string" where
  "show_bool b = (if b then ''true'' else ''false'')"

definition show_i64 :: "i64 \<Rightarrow> string" where
  "show_i64 v = (if sint v < 0 then ''-'' @ show_radix 10 (nat (- sint v)) else show_radix 10 (nat (sint v)))"

definition intern_attribute_string ::
  "string \<Rightarrow> string \<Rightarrow> dictionary_builder \<Rightarrow> nat \<times> dictionary_builder" where
  "intern_attribute_string key val d =
     (let cache_key = (key, ''s:'' @ val)
      in case map_of (db_attribute_index d) cache_key of
           Some i \<Rightarrow> (i, d)
         | None \<Rightarrow>
             (let (k, d1) = intern_string key d
              in push_attribute cache_key
                   \<lparr>ku_key_strindex = k, ku_value = Some (Some (String_Value val)), ku_unit_strindex = 0\<rparr> d1))"

definition intern_attribute_bool ::
  "string \<Rightarrow> bool \<Rightarrow> dictionary_builder \<Rightarrow> nat \<times> dictionary_builder" where
  "intern_attribute_bool key val d =
     (let cache_key = (key, ''b:'' @ show_bool val)
      in case map_of (db_attribute_index d) cache_key of
           Some i \<Rightarrow> (i, d)
         | None \<Rightarrow>
             (let (k, d1) = intern_string key d
              in push_attribute cache_key
                   \<lparr>ku_key_strindex = k, ku_value = Some (Some (Bool_Value val)), ku_unit_strindex = 0\<rparr> d1))"

definition intern_attribute_i64 ::
  "string \<Rightarrow> i64 \<Rightarrow> string \<Rightarrow> dictionary_builder \<Rightarrow> nat \<times> dictionary_builder" where
  "intern_attribute_i64 key val unit d =
     (let cache_key = (key, ''i:'' @ show_i64 val @ '':'' @ unit)
      in case map_of (db_attribute_index d) cache_key of
           Some i \<Rightarrow> (i, d)
         | None \<Rightarrow>
             (let (k, d1) = intern_string key d; (u, d2) = intern_string unit d1
              in push_attribute cache_key
                   \<lparr>ku_key_strindex = k, ku_value = Some (Some (Int_Value val)), ku_unit_strindex = u\<rparr> d2))"

definition intern_pprof_label ::
  "pprof \<Rightarrow> label \<Rightarrow> dictionary_builder \<Rightarrow> nat option \<times> dictionary_builder" where
  "intern_pprof_label p lb d =
     (let key = pprof_string p (lb_key lb)
      in if key = [] then (None, d)
         else if lb_str lb \<noteq> 0
         then (let (i, d1) = intern_attribute_string key (pprof_string p (lb_str lb)) d in (Some i, d1))
         else (let (i, d1) = intern_attribute_i64 key (lb_num lb) (pprof_string p (lb_num_unit lb)) d
               in (Some i, d1)))"

text \<open>The attributes of a mapping, in the order in which the source pushes them.\<close>

definition mapping_attributes ::
  "hash_env \<Rightarrow> pp_mapping \<Rightarrow> string \<Rightarrow> dictionary_builder \<Rightarrow> nat list \<times> dictionary_builder" where
  "mapping_attributes env m build_id d =
     (let (gnu, d1) = (if build_id \<noteq> []
                       then (let (i, d') = intern_attribute_string ''process.executable.build_id.gnu'' build_id d
                             in ([i], d'))
                       else ([], d));
          (hash, hashes) = htlhash env (pm_memory_start m) (pm_memory_limit m) (db_hashes d1);
          d2 = d1\<lparr>db_hashes := hashes\<rparr>;
          (htl, d3) = (case hash of
                         None \<Rightarrow> ([], d2)
                       | Some h \<Rightarrow>
                           (let (i, d') = intern_attribute_string
                                  ''process.executable.build_id.htlhash'' h d2
                            in ([i], d')));
          (f, d4) = intern_attribute_bool ''pprof.mapping.has_functions'' (pm_has_functions m) d3;
          (n, d5) = intern_attribute_bool ''pprof.mapping.has_filenames'' (pm_has_filenames m) d4;
          (l, d6) = intern_attribute_bool ''pprof.mapping.has_line_numbers'' (pm_has_line_numbers m) d5;
          (j, d7) = intern_attribute_bool ''pprof.mapping.has_inline_frames'' (pm_has_inline_frames m) d6
      in (gnu @ htl @ [f, n, l, j], d7))"

definition mapping_key_of :: "pprof \<Rightarrow> pp_mapping \<Rightarrow> mapping_key" where
  "mapping_key_of p m =
     (pm_memory_start m, pm_memory_limit m, pm_file_offset m, pprof_string p (pm_filename m),
      pprof_string p (pm_build_id m))"

definition intern_mapping ::
  "hash_env \<Rightarrow> pprof \<Rightarrow> pp_mapping \<Rightarrow> dictionary_builder \<Rightarrow> nat \<times> dictionary_builder" where
  "intern_mapping env p m d =
     (let key = mapping_key_of p m
      in case map_of (db_mapping_index d) key of
           Some i \<Rightarrow> (i, d)
         | None \<Rightarrow>
             (let (attrs, d1) = mapping_attributes env m (pprof_string p (pm_build_id m)) d;
                  (file, d2) = intern_string (pprof_string p (pm_filename m)) d1;
                  i = length (db_mappings d2);
                  entry = \<lparr>om_memory_start = pm_memory_start m, om_memory_limit = pm_memory_limit m,
                           om_file_offset = pm_file_offset m, om_filename_strindex = file,
                           om_attribute_indices = attrs\<rparr>
              in (i, d2\<lparr>db_mappings := db_mappings d2 @ [entry],
                        db_mapping_index := AList.update key i (db_mapping_index d2)\<rparr>)))"

definition function_key_of :: "pprof \<Rightarrow> pp_function \<Rightarrow> otlp_function_key" where
  "function_key_of p f =
     (pprof_string p (pf_name f), pprof_string p (pf_system_name f), pprof_string p (pf_filename f),
      pf_start_line f)"

definition intern_function ::
  "pprof \<Rightarrow> pp_function \<Rightarrow> dictionary_builder \<Rightarrow> nat \<times> dictionary_builder" where
  "intern_function p f d =
     (let key = function_key_of p f
      in case map_of (db_function_index d) key of
           Some i \<Rightarrow> (i, d)
         | None \<Rightarrow>
             (let (name, d1) = intern_string (pprof_string p (pf_name f)) d;
                  (system, d2) = intern_string (pprof_string p (pf_system_name f)) d1;
                  (file, d3) = intern_string (pprof_string p (pf_filename f)) d2;
                  i = length (db_functions d3);
                  entry = \<lparr>of_name_strindex = name, of_system_name_strindex = system,
                           of_filename_strindex = file, of_start_line = pf_start_line f\<rparr>
              in (i, d3\<lparr>db_functions := db_functions d3 @ [entry],
                        db_function_index := AList.update key i (db_function_index d3)\<rparr>)))"

fun intern_lines ::
  "pprof \<Rightarrow> source_lookup \<Rightarrow> pp_line list \<Rightarrow> dictionary_builder \<Rightarrow> otlp_line list \<times> dictionary_builder" where
  "intern_lines p look [] d = ([], d)"
| "intern_lines p look (ln # rest) d =
     (let (f, d1) = (case map_of (sk_functions look) (pl_function_id ln) of
                       None \<Rightarrow> (0, d) | Some fn \<Rightarrow> intern_function p fn d);
          (ls, d2) = intern_lines p look rest d1
      in (\<lparr>ol_function_index = f, ol_line = pl_line ln, ol_column = pl_column ln\<rparr> # ls, d2))"

definition line_key :: "otlp_line \<Rightarrow> nat \<times> i64 \<times> i64" where
  "line_key l = (ol_function_index l, ol_line l, ol_column l)"

definition intern_location ::
  "hash_env \<Rightarrow> pprof \<Rightarrow> source_lookup \<Rightarrow> pp_location \<Rightarrow> dictionary_builder \<Rightarrow> nat \<times> dictionary_builder" where
  "intern_location env p look lo d =
     (let (m, d1) = (case map_of (sk_mappings look) (po_mapping_id lo) of
                       None \<Rightarrow> (0, d) | Some mapping \<Rightarrow> intern_mapping env p mapping d);
          (ls, d2) = intern_lines p look (po_line lo) d1;
          key = (po_address lo, m, map line_key ls)
      in case map_of (db_location_index d2) key of
           Some i \<Rightarrow> (i, d2)
         | None \<Rightarrow>
             (let (attrs, d3) = (if po_is_folded lo
                                 then (let (i, d') = intern_attribute_bool ''pprof.location.is_folded'' True d2
                                       in ([i], d'))
                                 else ([], d2));
                  i = length (db_locations d3);
                  entry = \<lparr>oo_mapping_index = m, oo_address = po_address lo, oo_lines = ls,
                           oo_attribute_indices = attrs\<rparr>
              in (i, d3\<lparr>db_locations := db_locations d3 @ [entry],
                        db_location_index := AList.update key i (db_location_index d3)\<rparr>)))"

definition intern_stack :: "nat list \<Rightarrow> dictionary_builder \<Rightarrow> nat \<times> dictionary_builder" where
  "intern_stack locs d =
     (case map_of (db_stack_index d) locs of
        Some i \<Rightarrow> (i, d)
      | None \<Rightarrow>
          (let i = length (db_stacks d)
           in (i, d\<lparr>db_stacks := db_stacks d @ [\<lparr>ok_location_indices = locs\<rparr>],
                    db_stack_index := AList.update locs i (db_stack_index d)\<rparr>)))"

definition finish_dictionary :: "dictionary_builder \<Rightarrow> profiles_dictionary" where
  "finish_dictionary d =
     \<lparr>pd_mapping_table = db_mappings d, pd_location_table = db_locations d,
      pd_function_table = db_functions d,
      pd_link_table = [\<lparr>oi_trace_id = replicate 16 0, oi_span_id = replicate 8 0\<rparr>],
      pd_string_table = db_strings d, pd_attribute_table = db_attributes d,
      pd_stack_table = db_stacks d\<rparr>"

end
