(* ===== verification/Otlp.thy ===== *)
theory Otlp
  imports Otlp_Dictionary Target "HOL-Library.List_Lexorder" "HOL-Library.Char_ord"
begin

text \<open>
  \<open>src/src/otlp/mod.rs\<close>: the export of profiles over OTLP.

  \<^item> \<open>convert_profile\<close> turns one sample type of a pprof profile into an OTLP profile; with timestamps it
    groups the samples of one stack and one set of attributes. \<open>encode_profiles\<close> builds the whole
    request. The sixteen random bytes of a profile id are a parameter that can fail.
  \<^item> \<open>resource\<close>, \<open>parse_pairs\<close>, \<open>validate_endpoint\<close> and \<open>config_from\<close> are the configuration.
  \<^item> \<open>export_payload\<close> is the retry loop; sending is a parameter that gives the outcome of each attempt.
\<close>

section \<open>Configuration\<close>

datatype otlp_error =
  Pair_Without_Equals
| Pair_Key_Empty
| Endpoint_Scheme
| Endpoint_Authority
| Protocol_Unsupported
| Header_Newline
| Timeout_Invalid
| Timeout_Zero
| Compression_Unsupported
| Certificate_Missing
| Timeline_Count
| Sample_Type_Bounds
| Profile_Id_Failed

datatype otlp_compression = Compression_None | Compression_Gzip

definition append_profiles_path :: "string \<Rightarrow> string" where
  "append_profiles_path base =
     rev (dropWhile (\<lambda>c. c = CHR ''/'') (rev base)) @ ''/v1development/profiles''"

definition validate_endpoint :: "string \<Rightarrow> otlp_error + unit" where
  "validate_endpoint endpoint =
     (if \<not> (starts_with ''http://'' endpoint \<or> starts_with ''https://'' endpoint) then Inl Endpoint_Scheme
      else let authority = (case split_once_str ''://'' endpoint of
                              None \<Rightarrow> [] | Some (_, rest) \<Rightarrow> hd (split_on (CHR ''/'') rest))
           in if authority = [] \<or> CHR ''@'' \<in> set authority then Inl Endpoint_Authority else Inr ())"

type_synonym pairs = "(string, string) table"

definition insert_pair :: "pairs \<Rightarrow> string \<Rightarrow> otlp_error + pairs" where
  "insert_pair m input =
     (case split_once (CHR ''='') input of
        None \<Rightarrow> Inl Pair_Without_Equals
      | Some (k, v) \<Rightarrow> (if trim k = [] then Inl Pair_Key_Empty else Inr (bt_put (trim k) (trim v) m)))"

fun insert_pairs :: "pairs \<Rightarrow> string list \<Rightarrow> otlp_error + pairs" where
  "insert_pairs m [] = Inr m"
| "insert_pairs m (x # xs) =
     (case insert_pair m x of Inl e \<Rightarrow> Inl e | Inr m' \<Rightarrow> insert_pairs m' xs)"

definition parse_pairs :: "string \<Rightarrow> char \<Rightarrow> otlp_error + pairs" where
  "parse_pairs input delimiter =
     insert_pairs [] (filter (\<lambda>v. trim v \<noteq> []) (split_on delimiter input))"

record otlp_args =
  oa_endpoint :: "string option"
  oa_headers :: "string list"
  oa_timeout :: "nat option"
  oa_compression :: "otlp_compression option"
  oa_ca :: "string option"
  oa_resource_attributes :: "string list"

record otlp_config =
  cf_endpoint :: string
  cf_headers :: "(string \<times> string) list"
  cf_timeout :: nat
  cf_compression :: otlp_compression
  cf_ca :: "string option"
  cf_resource_attributes :: pairs

definition default_timeout :: nat where "default_timeout = 10 * 1000000000"

definition env_either :: "(string \<Rightarrow> string option) \<Rightarrow> string \<Rightarrow> string \<Rightarrow> string option" where
  "env_either env a b = (case env a of Some v \<Rightarrow> Some v | None \<Rightarrow> env b)"

definition has_newline :: "string \<Rightarrow> bool" where
  "has_newline s \<longleftrightarrow> CHR 0x0D \<in> set s \<or> CHR 0x0A \<in> set s"

text \<open>Nanoseconds; the environment gives milliseconds as a \<open>u64\<close>.\<close>

definition otlp_timeout :: "(string \<Rightarrow> string option) \<Rightarrow> nat option \<Rightarrow> otlp_error + nat" where
  "otlp_timeout env given =
     (case given of
        Some t \<Rightarrow> Inr t
      | None \<Rightarrow>
          (case env_either env ''OTEL_EXPORTER_OTLP_PROFILES_TIMEOUT'' ''OTEL_EXPORTER_OTLP_TIMEOUT'' of
             None \<Rightarrow> Inr default_timeout
           | Some v \<Rightarrow>
               (case (parse_radix 10 v :: u64 option) of
                  None \<Rightarrow> Inl Timeout_Invalid
                | Some ms \<Rightarrow> Inr (unat ms * 1000000))))"

definition otlp_headers_from ::
  "(string \<Rightarrow> string option) \<Rightarrow> string list \<Rightarrow> otlp_error + pairs" where
  "otlp_headers_from env given =
     (case parse_pairs (or_default (env_either env ''OTEL_EXPORTER_OTLP_PROFILES_HEADERS''
             ''OTEL_EXPORTER_OTLP_HEADERS'')) (CHR '','') of
        Inl e \<Rightarrow> Inl e
      | Inr m \<Rightarrow>
          (case insert_pairs m given of
             Inl e \<Rightarrow> Inl e
           | Inr m' \<Rightarrow>
               (if list_ex (\<lambda>(k, v). has_newline k \<or> has_newline v) m' then Inl Header_Newline
                else Inr m')))"

definition otlp_compression_from ::
  "(string \<Rightarrow> string option) \<Rightarrow> otlp_compression option \<Rightarrow> otlp_error + otlp_compression" where
  "otlp_compression_from env given =
     (let var = env_either env ''OTEL_EXPORTER_OTLP_PROFILES_COMPRESSION''
                  ''OTEL_EXPORTER_OTLP_COMPRESSION''
      in case given of
           Some c \<Rightarrow> Inr c
         | None \<Rightarrow>
             (case var of
                None \<Rightarrow> Inr Compression_Gzip
              | Some v \<Rightarrow>
                  (if v = ''none'' then Inr Compression_None
                   else if v = ''gzip'' then Inr Compression_Gzip
                   else Inl Compression_Unsupported)))"

definition otlp_attributes_from ::
  "(string \<Rightarrow> string option) \<Rightarrow> string list \<Rightarrow> otlp_error + pairs" where
  "otlp_attributes_from env given =
     (case parse_pairs (or_default (env ''OTEL_RESOURCE_ATTRIBUTES'')) (CHR '','') of
        Inl e \<Rightarrow> Inl e
      | Inr m \<Rightarrow>
          (case insert_pairs m given of
             Inl e \<Rightarrow> Inl e
           | Inr m' \<Rightarrow>
               (case env ''OTEL_SERVICE_NAME'' of
                  Some n \<Rightarrow> Inr (if n \<noteq> [] then bt_put ''service.name'' n m' else m')
                | None \<Rightarrow> Inr m')))"

definition config_from ::
  "(string \<Rightarrow> string option) \<Rightarrow> (string \<Rightarrow> bool) \<Rightarrow> otlp_args \<Rightarrow> otlp_error + otlp_config option" where
  "config_from env is_file args =
     (let endpoint = (case oa_endpoint args of
            Some e \<Rightarrow> Some e
          | None \<Rightarrow> (case env ''OTEL_EXPORTER_OTLP_PROFILES_ENDPOINT'' of
                Some e \<Rightarrow> Some e
              | None \<Rightarrow> map_option append_profiles_path (env ''OTEL_EXPORTER_OTLP_ENDPOINT'')))
      in case endpoint of
           None \<Rightarrow> Inr None
         | Some ep \<Rightarrow>
      (case validate_endpoint ep of Inl e \<Rightarrow> Inl e | Inr _ \<Rightarrow>
       if env_either env ''OTEL_EXPORTER_OTLP_PROFILES_PROTOCOL'' ''OTEL_EXPORTER_OTLP_PROTOCOL''
            \<notin> {None, Some ''http/protobuf''}
       then Inl Protocol_Unsupported
       else
      (case otlp_headers_from env (oa_headers args) of Inl e \<Rightarrow> Inl e | Inr headers \<Rightarrow>
      (case otlp_timeout env (oa_timeout args) of Inl e \<Rightarrow> Inl e | Inr timeout \<Rightarrow>
       if timeout = 0 then Inl Timeout_Zero else
      (case otlp_compression_from env (oa_compression args) of Inl e \<Rightarrow> Inl e | Inr compression \<Rightarrow>
      (let ca = (case oa_ca args of
                   Some c \<Rightarrow> Some c
                 | None \<Rightarrow> env_either env ''OTEL_EXPORTER_OTLP_PROFILES_CERTIFICATE''
                             ''OTEL_EXPORTER_OTLP_CERTIFICATE'')
       in if (case ca of None \<Rightarrow> False | Some p \<Rightarrow> \<not> is_file p) then Inl Certificate_Missing else
      (case otlp_attributes_from env (oa_resource_attributes args) of Inl e \<Rightarrow> Inl e | Inr attributes \<Rightarrow>
         Inr (Some \<lparr>cf_endpoint = ep, cf_headers = headers, cf_timeout = timeout,
                    cf_compression = compression, cf_ca = ca,
                    cf_resource_attributes = attributes\<rparr>))))))))"

section \<open>The resource\<close>

definition string_key_value :: "string \<Rightarrow> string \<Rightarrow> key_value" where
  "string_key_value k v = \<lparr>kv_key = k, kv_value = Some (Some (String_Value v))\<rparr>"

definition put_optional :: "string \<times> string option \<Rightarrow> pairs \<Rightarrow> pairs" where
  "put_optional kv m = (case snd kv of None \<Rightarrow> m | Some v \<Rightarrow> bt_put (fst kv) v m)"

definition kind_name :: "target_kind \<Rightarrow> string" where
  "kind_name k =
     (case k of Target_Process \<Rightarrow> ''process'' | Target_Docker \<Rightarrow> ''docker''
        | Target_Kubernetes \<Rightarrow> ''kubernetes'')"

definition resource :: "target_metadata \<Rightarrow> string \<Rightarrow> pairs \<Rightarrow> otlp_resource" where
  "resource target executable configured =
     (let name = path_file_name executable;
          m1 = (if map_of configured ''service.name'' = None
                then bt_put ''service.name''
                       (case name of Some n \<Rightarrow> ''unknown_service:'' @ n | None \<Rightarrow> ''unknown_service'')
                       configured
                else configured);
          m2 = bt_put ''process.executable.path'' executable m1;
          m3 = fold put_optional
                 [(''process.executable.name'', name),
                  (''container.id'', tm_container_id target),
                  (''container.name'', tm_container_name target),
                  (''k8s.namespace.name'', tm_k8s_namespace target),
                  (''k8s.pod.name'', tm_k8s_pod_name target),
                  (''k8s.pod.uid'', tm_k8s_pod_uid target),
                  (''k8s.container.name'', tm_k8s_container_name target),
                  (''k8s.node.name'', tm_k8s_node_name target)] m2
      in \<lparr>rs_attributes =
            map (\<lambda>(k, v). string_key_value k v) m3 @
            [\<lparr>kv_key = ''process.pid'', kv_value = Some (Some (Int_Value (scast (tm_pid target))))\<rparr>,
             string_key_value ''rustprofile.target.kind'' (kind_name (tm_kind target))],
          rs_dropped_attributes_count = 0\<rparr>)"

section \<open>Converting a profile\<close>

fun intern_labels :: "pprof \<Rightarrow> label list \<Rightarrow> dictionary_builder \<Rightarrow> nat list \<times> dictionary_builder" where
  "intern_labels p [] d = ([], d)"
| "intern_labels p (lb # rest) d =
     (let (i, d1) = intern_pprof_label p lb d; (is, d2) = intern_labels p rest d1
      in (case i of None \<Rightarrow> is | Some j \<Rightarrow> j # is, d2))"

type_synonym sample_groups = "(nat \<times> nat list \<times> nat, nat) table"

definition new_otlp_sample :: "nat \<Rightarrow> nat list \<Rightarrow> i64 \<Rightarrow> u64 list \<Rightarrow> otlp_sample" where
  "new_otlp_sample stack attrs val stamps =
     \<lparr>os_stack_index = stack, os_attribute_indices = attrs, os_link_index = 0, os_values = [val],
      os_timestamps_unix_nano = stamps\<rparr>"

definition add_otlp_sample ::
  "nat \<Rightarrow> nat list \<Rightarrow> i64 \<Rightarrow> u64 option \<Rightarrow> otlp_sample list \<times> sample_groups \<Rightarrow>
   otlp_sample list \<times> sample_groups" where
  "add_otlp_sample stack attrs val stamp state =
     (let (samples, grouped) = state
      in case stamp of
           None \<Rightarrow> (samples @ [new_otlp_sample stack attrs val []], grouped)
         | Some at \<Rightarrow>
             (let key = (stack, attrs, 0)
              in case map_of grouped key of
                   Some i \<Rightarrow>
                     (samples[i := (samples ! i)\<lparr>os_values := os_values (samples ! i) @ [val],
                        os_timestamps_unix_nano := os_timestamps_unix_nano (samples ! i) @ [at]\<rparr>],
                      grouped)
                 | None \<Rightarrow>
                     (samples @ [new_otlp_sample stack attrs val [at]],
                      AList.update key (length samples) grouped)))"

definition nth_or_zero :: "i64 list \<Rightarrow> nat \<Rightarrow> i64" where
  "nth_or_zero vs i = (if i < length vs then vs ! i else 0)"

fun convert_samples ::
  "pprof \<Rightarrow> nat \<Rightarrow> (pp_sample \<times> nat \<times> u64 option) list \<Rightarrow> otlp_sample list \<times> sample_groups \<Rightarrow>
   dictionary_builder \<Rightarrow> otlp_sample list \<times> dictionary_builder" where
  "convert_samples p si [] state d = (fst state, d)"
| "convert_samples p si ((s, stack, stamp) # rest) state d =
     (let (attrs, d1) = intern_labels p (ps_label s) d
      in convert_samples p si rest
           (add_otlp_sample stack attrs (nth_or_zero (ps_value s) si) stamp state) d1)"

definition otlp_value_type_of ::
  "pprof \<Rightarrow> value_type \<Rightarrow> dictionary_builder \<Rightarrow> otlp_value_type \<times> dictionary_builder" where
  "otlp_value_type_of p t d =
     (let (k, d1) = intern_string (pprof_string p (vt_type t)) d;
          (u, d2) = intern_string (pprof_string p (vt_unit t)) d1
      in (\<lparr>ov_type_strindex = k, ov_unit_strindex = u\<rparr>, d2))"

text \<open>One entry per sample with its stack index and, on the timeline, its own timestamp.\<close>

definition sample_inputs :: "pprof \<Rightarrow> nat list \<Rightarrow> u64 list option \<Rightarrow> (pp_sample \<times> nat \<times> u64 option) list" where
  "sample_inputs p stacks stamps =
     map (\<lambda>(i, s, k). (s, k, map_option (\<lambda>ts. ts ! i) stamps)) (enumerate 0 (zip (pp_samples p) stacks))"

definition convert_profile ::
  "u8 list option \<Rightarrow> pprof \<Rightarrow> nat \<Rightarrow> nat list \<Rightarrow> u64 list option \<Rightarrow> dictionary_builder \<Rightarrow>
   (otlp_error + otlp_profile) \<times> dictionary_builder" where
  "convert_profile random p si stacks stamps d =
     (if length (pp_sample_type p) \<le> si then (Inl Sample_Type_Bounds, d)
      else
        let (t, d1) = otlp_value_type_of p (pp_sample_type p ! si) d;
            (pt, d2) = (case pp_period_type p of
                          None \<Rightarrow> (None, d1)
                        | Some v \<Rightarrow> (let (x, d') = otlp_value_type_of p v d1 in (Some x, d')));
            (samples, d3) = convert_samples p si (sample_inputs p stacks stamps) ([], []) d2
        in case random of
             None \<Rightarrow> (Inl Profile_Id_Failed, d3)
           | Some pid \<Rightarrow>
               (Inr \<lparr>op_sample_type = Some t, op_samples = samples,
                     op_time_unix_nano = u64_of_i64 (pp_time_nanos p),
                     op_duration_nano = u64_of_i64 (pp_duration_nanos p), op_period_type = pt,
                     op_period = pp_period p, op_profile_id = pid, op_dropped_attributes_count = 0,
                     op_original_payload_format = [], op_original_payload = [],
                     op_attribute_indices = []\<rparr>, d3))"

section \<open>The request\<close>

fun intern_locations ::
  "hash_env \<Rightarrow> pprof \<Rightarrow> source_lookup \<Rightarrow> nat list \<Rightarrow> dictionary_builder \<Rightarrow> nat list \<times> dictionary_builder" where
  "intern_locations env p look [] d = ([], d)"
| "intern_locations env p look (i # is) d =
     (case map_of (sk_locations look) i of
        None \<Rightarrow> intern_locations env p look is d
      | Some lo \<Rightarrow>
          (let (j, d1) = intern_location env p look lo d;
               (js, d2) = intern_locations env p look is d1
           in (j # js, d2)))"

fun intern_stacks ::
  "hash_env \<Rightarrow> pprof \<Rightarrow> source_lookup \<Rightarrow> pp_sample list \<Rightarrow> dictionary_builder \<Rightarrow>
   nat list \<times> dictionary_builder" where
  "intern_stacks env p look [] d = ([], d)"
| "intern_stacks env p look (s # ss) d =
     (let (locs, d1) = intern_locations env p look (ps_location_id s) d;
          (k, d2) = intern_stack locs d1;
          (ks, d3) = intern_stacks env p look ss d2
      in (k # ks, d3))"

fun convert_types ::
  "(nat \<Rightarrow> u8 list option) \<Rightarrow> pprof \<Rightarrow> nat list \<Rightarrow> u64 list option \<Rightarrow> nat list \<Rightarrow> nat \<Rightarrow>
   dictionary_builder \<Rightarrow> (otlp_error + otlp_profile list) \<times> nat \<times> dictionary_builder" where
  "convert_types random p stacks stamps [] n d = (Inr [], n, d)"
| "convert_types random p stacks stamps (si # sis) n d =
     (case convert_profile (random n) p si stacks stamps d of
        (Inl e, d1) \<Rightarrow> (Inl e, n, d1)
      | (Inr pr, d1) \<Rightarrow>
          (case convert_types random p stacks stamps sis (Suc n) d1 of
             (Inl e, n2, d2) \<Rightarrow> (Inl e, n2, d2)
           | (Inr prs, n2, d2) \<Rightarrow> (Inr (pr # prs), n2, d2)))"

definition scope_attributes :: "pprof \<Rightarrow> key_value list" where
  "scope_attributes p =
     (let order = map (\<lambda>i. Some (Int_Value (word_of_nat i))) [0..<length (pp_sample_type p)];
          default_name = pprof_string p (pp_default_sample_type p)
      in \<lparr>kv_key = ''pprof.scope.sample_type_order'', kv_value = Some (Some (Array_Value order))\<rparr> #
         (if default_name = [] then []
          else [string_key_value ''pprof.scope.default_sample_type'' default_name]))"

fun encode_scopes ::
  "string \<Rightarrow> hash_env \<Rightarrow> (nat \<Rightarrow> u8 list option) \<Rightarrow> (pprof \<times> u64 list option) list \<Rightarrow> nat \<Rightarrow>
   dictionary_builder \<Rightarrow> (otlp_error + scope_profiles list) \<times> nat \<times> dictionary_builder" where
  "encode_scopes version env random [] n d = (Inr [], n, d)"
| "encode_scopes version env random ((p, stamps) # rest) n d =
     (if (case stamps of None \<Rightarrow> False | Some ts \<Rightarrow> length ts \<noteq> length (pp_samples p))
      then (Inl Timeline_Count, n, d)
      else
        let (stacks, d1) = intern_stacks env p (source_lookup_of p) (pp_samples p) d
        in case convert_types random p stacks stamps [0..<length (pp_sample_type p)] n d1 of
             (Inl e, n2, d2) \<Rightarrow> (Inl e, n2, d2)
           | (Inr prs, n2, d2) \<Rightarrow>
               (let scope = \<lparr>sp_scope = Some \<lparr>sc_name = ''rustprofile'', sc_version = version,
                               sc_attributes = scope_attributes p, sc_dropped_attributes_count = 0\<rparr>,
                             sp_profiles = prs, sp_schema_url = []\<rparr>
                in case encode_scopes version env random rest n2 d2 of
                     (Inl e, n3, d3) \<Rightarrow> (Inl e, n3, d3)
                   | (Inr scopes, n3, d3) \<Rightarrow> (Inr (scope # scopes), n3, d3)))"

text \<open>The mapping hashes live on in the cache, also when the export fails. The count of profiles
  saturates as a \<open>u32\<close>.\<close>

definition encode_profiles ::
  "string \<Rightarrow> hash_env \<Rightarrow> (nat \<Rightarrow> u8 list option) \<Rightarrow> pprof list \<Rightarrow> (pprof \<times> u64 list) option \<Rightarrow>
   target_metadata \<Rightarrow> string \<Rightarrow> otlp_config \<Rightarrow> mapping_hash_cache \<Rightarrow>
   (otlp_error + export_request \<times> u32) \<times> mapping_hash_cache" where
  "encode_profiles version env random sources timeline target executable config hashes =
     (let inputs = map (\<lambda>p. (p, None)) sources @
                   (case timeline of None \<Rightarrow> [] | Some (p, ts) \<Rightarrow> [(p, Some ts)])
      in case encode_scopes version env random inputs 0 (new_dictionary hashes) of
           (Inl e, _, d) \<Rightarrow> (Inl e, db_hashes d)
         | (Inr scopes, n, d) \<Rightarrow>
             (Inr (\<lparr>rq_resource_profiles =
                      [\<lparr>rp_resource = Some (resource target executable (cf_resource_attributes config)),
                        rp_scope_profiles = scopes, rp_schema_url = []\<rparr>],
                    rq_dictionary = Some (finish_dictionary d)\<rparr>,
                   word_of_nat (min n (2 ^ 32 - 1))),
              db_hashes d))"

section \<open>Sending\<close>

record send_error =
  se_retryable :: bool
  se_retry_after :: "u64 option"
  se_message :: string

datatype transport_error =
  Transport_Io | Transport_Timeout | Host_Not_Found | Transport_Protocol | Connection_Failed
| Transport_Other

text \<open>What one request comes to: no response; or a status with its \<open>Retry-After\<close> header and its body,
  which may be unreadable or too large.\<close>

datatype reply = No_Reply transport_error string | Reply u16 "string option" "string option"

definition retryable_transport_error :: "transport_error \<Rightarrow> bool" where
  "retryable_transport_error e \<longleftrightarrow> e \<noteq> Transport_Other"

definition retryable_status :: "u16 \<Rightarrow> bool" where
  "retryable_status s \<longleftrightarrow> s \<in> {408, 429, 502, 503, 504}"

definition send_failure :: "bool \<Rightarrow> u64 option \<Rightarrow> string \<Rightarrow> send_error" where
  "send_failure retryable after msg =
     \<lparr>se_retryable = retryable, se_retry_after = after, se_message = msg\<rparr>"

definition send_once ::
  "(string \<Rightarrow> export_response option) \<Rightarrow> reply \<Rightarrow> send_error + (i64 \<times> string option)" where
  "send_once decode r =
     (case r of
        No_Reply e msg \<Rightarrow>
          Inl (send_failure (retryable_transport_error e) None (''OTLP request failed: '' @ msg))
      | Reply status after body \<Rightarrow>
          if status \<noteq> 200
          then Inl (send_failure (retryable_status status) (Option.bind after (parse_radix 10))
                      (''OTLP endpoint returned HTTP '' @ show_radix 10 (unat status)))
          else case body of
            None \<Rightarrow> Inl (send_failure False None ''failed to read OTLP response'')
          | Some bytes \<Rightarrow>
              if bytes = [] then Inr (0, None)
              else case decode bytes of
                None \<Rightarrow> Inl (send_failure False None ''failed to decode OTLP response'')
              | Some response \<Rightarrow>
                  (case rx_partial_success response of
                     None \<Rightarrow> Inr (0, None)
                   | Some partial \<Rightarrow>
                       Inr (px_rejected_profiles partial,
                            if px_error_message partial = [] then None
                            else Some (px_error_message partial))))"

definition prepare_body ::
  "(u8 list \<Rightarrow> (string + u8 list)) \<Rightarrow> otlp_compression \<Rightarrow> u8 list \<Rightarrow> send_error + (u8 list \<times> bool)" where
  "prepare_body gzip compression bytes =
     (case compression of
        Compression_None \<Rightarrow> Inr (bytes, False)
      | Compression_Gzip \<Rightarrow>
          (case gzip bytes of
             Inl msg \<Rightarrow> Inl (send_failure False None msg)
           | Inr out \<Rightarrow> Inr (out, True)))"

section \<open>Retries\<close>

definition max_attempts :: nat where "max_attempts = 5"

text \<open>Durations in milliseconds.\<close>

definition max_retry_delay :: nat where "max_retry_delay = 30000"

text \<open>\<open>jitter\<close> is the millisecond part of the wall clock.\<close>

definition retry_delay :: "nat \<Rightarrow> nat \<Rightarrow> nat" where
  "retry_delay attempt jitter = min (500 * 2 ^ min (attempt - 1) 6) 30000 + jitter mod 250"

definition delay_after :: "nat \<Rightarrow> nat \<Rightarrow> send_error \<Rightarrow> nat" where
  "delay_after attempt jitter e =
     min (case se_retry_after e of Some s \<Rightarrow> unat s * 1000 | None \<Rightarrow> retry_delay attempt jitter)
       max_retry_delay"

record export_outcome =
  eo_delivered :: bool
  eo_attempts :: nat
  eo_rejected_profiles :: i64
  eo_error :: "string option"

text \<open>What the loop observes: the outcome of each attempt, whether the session is stopping before an
  attempt and after a failed one, and the jitter of the delay.\<close>

record network =
  nw_send :: "nat \<Rightarrow> send_error + (i64 \<times> string option)"
  nw_stop_before :: "nat \<Rightarrow> bool"
  nw_stop_after :: "nat \<Rightarrow> bool"
  nw_jitter :: "nat \<Rightarrow> nat"

definition gave_up :: "nat \<Rightarrow> string option \<Rightarrow> export_outcome" where
  "gave_up attempts last_error =
     \<lparr>eo_delivered = False, eo_attempts = attempts, eo_rejected_profiles = 0, eo_error = last_error\<rparr>"

text \<open>\<open>for attempt in 1..=MAX_ATTEMPTS\<close>; the result comes with the delays that were slept.\<close>

function export_loop ::
  "network \<Rightarrow> nat \<Rightarrow> nat \<Rightarrow> string option \<Rightarrow> nat list \<Rightarrow> export_outcome \<times> nat list" where
  "export_loop nw attempt attempts last_error slept =
     (if attempt > max_attempts then (gave_up attempts last_error, slept)
      else if attempt > 1 \<and> nw_stop_before nw attempt then (gave_up attempts last_error, slept)
      else case nw_send nw attempt of
             Inr (rejected, msg) \<Rightarrow>
               (\<lparr>eo_delivered = True, eo_attempts = attempt, eo_rejected_profiles = rejected,
                 eo_error = msg\<rparr>, slept)
           | Inl e \<Rightarrow>
               if \<not> se_retryable e \<or> attempt = max_attempts \<or> nw_stop_after nw attempt
               then (gave_up attempt (Some (se_message e)), slept)
               else export_loop nw (Suc attempt) attempt (Some (se_message e))
                      (slept @ [delay_after attempt (nw_jitter nw attempt) e]))"
  by pat_completeness auto
termination
  by (relation "measure (\<lambda>(_, attempt, _). Suc max_attempts - attempt)") auto

declare export_loop.simps [simp del]

definition export_payload ::
  "(u8 list \<Rightarrow> (string + u8 list)) \<Rightarrow> otlp_config \<Rightarrow> u8 list \<Rightarrow> (u8 list \<times> bool \<Rightarrow> network) \<Rightarrow>
   export_outcome \<times> nat list" where
  "export_payload gzip config bytes network_for =
     (case prepare_body gzip (cf_compression config) bytes of
        Inl e \<Rightarrow> (gave_up 0 (Some (se_message e)), [])
      | Inr prepared \<Rightarrow> export_loop (network_for prepared) 1 0 None [])"

text \<open>The poll of \<open>sleep_interruptibly\<close>: slices of at most a tenth of a second until the deadline or a
  stop; \<open>stops k\<close> is the flag at the \<open>k\<close>-th poll.\<close>

function sleep_slices :: "(nat \<Rightarrow> bool) \<Rightarrow> nat \<Rightarrow> nat \<Rightarrow> nat list" where
  "sleep_slices stops k remaining =
     (if remaining = 0 \<or> stops k then []
      else min 100 remaining # sleep_slices stops (Suc k) (remaining - min 100 remaining))"
  by pat_completeness auto
termination
  by (relation "measure (\<lambda>(_, _, remaining). remaining)") auto

declare sleep_slices.simps [simp del]

section \<open>Laws of the retry loop\<close>

lemma retry_delay_bounds: "500 \<le> retry_delay attempt jitter \<and> retry_delay attempt jitter < 30250"
proof -
  have "(1 :: nat) \<le> 2 ^ k" for k by simp
  then have "500 \<le> 500 * (2 :: nat) ^ min (attempt - 1) 6" by simp
  moreover have "jitter mod 250 < 250" by simp
  ultimately show ?thesis unfolding retry_delay_def by linarith
qed

lemma delay_after_bound: "delay_after attempt jitter e \<le> max_retry_delay"
  by (simp add: delay_after_def)

definition retries :: "network \<Rightarrow> nat \<Rightarrow> bool" where
  "retries nw k \<longleftrightarrow>
     (case nw_send nw k of Inl e \<Rightarrow> se_retryable e \<and> \<not> nw_stop_after nw k \<and> \<not> nw_stop_before nw (Suc k)
      | Inr _ \<Rightarrow> False)"

lemma export_loop_bounds:
  assumes "1 \<le> attempt" "attempt \<le> max_attempts" "attempts < attempt"
    and "export_loop nw attempt attempts last_error slept = (outcome, delays)"
    and "\<forall>d \<in> set slept. d \<le> max_retry_delay" "length slept = attempt - 1"
  shows "eo_attempts outcome \<le> max_attempts \<and> length delays < max_attempts \<and>
    (\<forall>d \<in> set delays. d \<le> max_retry_delay)"
  using assms
proof (induction nw attempt attempts last_error slept rule: export_loop.induct)
  case (1 nw attempt attempts last_error slept)
  show ?case
  proof (cases "attempt > max_attempts \<or> attempt > 1 \<and> nw_stop_before nw attempt")
    case True
    with 1 show ?thesis
      by (subst (asm) export_loop.simps) (auto simp: gave_up_def max_attempts_def split: if_splits)
  next
    case go: False
    show ?thesis
    proof (cases "nw_send nw attempt")
      case (Inr b)
      with go 1 show ?thesis
        by (subst (asm) export_loop.simps) (auto simp: max_attempts_def split: prod.splits)
    next
      case (Inl e)
      show ?thesis
      proof (cases "\<not> se_retryable e \<or> attempt = max_attempts \<or> nw_stop_after nw attempt")
        case True
        with go 1 Inl show ?thesis
          by (subst (asm) export_loop.simps) (auto simp: gave_up_def max_attempts_def)
      next
        case False
        have lt: "attempt < max_attempts" using go False by auto
        have run: "export_loop nw (Suc attempt) attempt (Some (se_message e))
            (slept @ [delay_after attempt (nw_jitter nw attempt) e]) = (outcome, delays)"
          using 1(5) go False Inl by (subst (asm) export_loop.simps) auto
        have "\<forall>d \<in> set (slept @ [delay_after attempt (nw_jitter nw attempt) e]). d \<le> max_retry_delay"
          using 1(6) delay_after_bound by auto
        moreover have "length (slept @ [delay_after attempt (nw_jitter nw attempt) e]) = Suc attempt - 1"
          using 1(2,7) by simp
        ultimately show ?thesis
          using 1(1) [of e] go False Inl run lt by auto
      qed
    qed
  qed
qed

lemma export_loop_delivers:
  assumes "1 \<le> attempt" "attempt \<le> max_attempts" "attempt = 1 \<or> \<not> nw_stop_before nw attempt"
  shows "eo_delivered (fst (export_loop nw attempt attempts last_error slept)) \<longleftrightarrow>
    (\<exists>k r. attempt \<le> k \<and> k \<le> max_attempts \<and> nw_send nw k = Inr r \<and>
       (\<forall>j. attempt \<le> j \<and> j < k \<longrightarrow> retries nw j))"
  using assms
proof (induction nw attempt attempts last_error slept rule: export_loop.induct)
  case (1 nw attempt attempts last_error slept)
  have go: "\<not> attempt > max_attempts" "\<not> (attempt > 1 \<and> nw_stop_before nw attempt)"
    using 1(3,4) by auto
  show ?case
  proof (cases "nw_send nw attempt")
    case (Inr b)
    then have "eo_delivered (fst (export_loop nw attempt attempts last_error slept))"
      using go by (subst export_loop.simps) (auto split: prod.split)
    with Inr 1(3) show ?thesis by (auto intro!: exI [of _ attempt])
  next
    case (Inl e)
    show ?thesis
    proof (cases "\<not> se_retryable e \<or> attempt = max_attempts \<or> nw_stop_after nw attempt")
      case True
      then have no: "\<not> eo_delivered (fst (export_loop nw attempt attempts last_error slept))"
        using go Inl by (subst export_loop.simps) (simp add: gave_up_def)
      have "\<not> (\<exists>k r. attempt \<le> k \<and> k \<le> max_attempts \<and> nw_send nw k = Inr r \<and>
          (\<forall>j. attempt \<le> j \<and> j < k \<longrightarrow> retries nw j))"
      proof (intro notI; elim exE conjE)
        fix k r
        assume k: "attempt \<le> k" "k \<le> max_attempts" "nw_send nw k = Inr r"
          "\<forall>j. attempt \<le> j \<and> j < k \<longrightarrow> retries nw j"
        with Inl have "attempt < k" by (cases "attempt = k") auto
        with k(4) have "retries nw attempt" by simp
        with True Inl k(2) \<open>attempt < k\<close> show False by (auto simp: retries_def)
      qed
      with no show ?thesis by blast
    next
      case False
      let ?next = "export_loop nw (Suc attempt) attempt (Some (se_message e))
          (slept @ [delay_after attempt (nw_jitter nw attempt) e])"
      have step: "export_loop nw attempt attempts last_error slept = ?next"
        using go Inl False by (subst export_loop.simps) auto
      have lt: "Suc attempt \<le> max_attempts" using 1(3) False by auto
      show ?thesis
      proof (cases "nw_stop_before nw (Suc attempt)")
        case True
        then have "\<not> eo_delivered (fst ?next)"
          using lt 1(2) by (subst export_loop.simps) (simp add: gave_up_def)
        moreover have "\<not> retries nw attempt" using True Inl by (simp add: retries_def)
        then have "\<not> (\<exists>k r. attempt \<le> k \<and> k \<le> max_attempts \<and> nw_send nw k = Inr r \<and>
            (\<forall>j. attempt \<le> j \<and> j < k \<longrightarrow> retries nw j))"
          using Inl by (metis Inl_Inr_False le_neq_implies_less order_refl)
        ultimately show ?thesis by (simp add: step)
      next
        case continue: False
        have again: "retries nw attempt" using continue False Inl by (simp add: retries_def)
        have IH: "eo_delivered (fst ?next) \<longleftrightarrow>
            (\<exists>k r. Suc attempt \<le> k \<and> k \<le> max_attempts \<and> nw_send nw k = Inr r \<and>
               (\<forall>j. Suc attempt \<le> j \<and> j < k \<longrightarrow> retries nw j))"
          using 1(1) [OF go Inl False] lt continue by simp
        have "(\<exists>k r. Suc attempt \<le> k \<and> k \<le> max_attempts \<and> nw_send nw k = Inr r \<and>
               (\<forall>j. Suc attempt \<le> j \<and> j < k \<longrightarrow> retries nw j)) \<longleftrightarrow>
            (\<exists>k r. attempt \<le> k \<and> k \<le> max_attempts \<and> nw_send nw k = Inr r \<and>
               (\<forall>j. attempt \<le> j \<and> j < k \<longrightarrow> retries nw j))"
          using Inl again by (metis Inl_Inr_False Suc_leD Suc_leI le_neq_implies_less)
        with IH step show ?thesis by simp
      qed
    qed
  qed
qed

section \<open>Properties\<close>

text \<open>C33: Exporting always ends: at most five attempts and four pauses of at most thirty seconds each,
  whatever the endpoint answers and whatever delay it asks for.\<close>

theorem export_bounded:
  assumes "export_payload gzip config bytes network_for = (outcome, delays)"
  shows "eo_attempts outcome \<le> 5 \<and> length delays \<le> 4 \<and> (\<forall>d \<in> set delays. d \<le> 30000)"
proof (cases "prepare_body gzip (cf_compression config) bytes")
  case (Inl e)
  with assms show ?thesis by (auto simp: export_payload_def gave_up_def)
next
  case (Inr prepared)
  then have "export_loop (network_for prepared) 1 0 None [] = (outcome, delays)"
    using assms by (simp add: export_payload_def)
  from export_loop_bounds [OF _ _ _ this] show ?thesis
    by (auto simp: max_attempts_def max_retry_delay_def)
qed

definition sample_config :: otlp_config where
  "sample_config = \<lparr>cf_endpoint = ''http://h'', cf_headers = [], cf_timeout = 1,
     cf_compression = Compression_None, cf_ca = None, cf_resource_attributes = []\<rparr>"

definition busy_network :: network where
  "busy_network = \<lparr>nw_send = (\<lambda>k. if k < 3 then Inl (send_failure True (Some 100) ''busy'') else Inr (0, None)),
     nw_stop_before = (\<lambda>_. False), nw_stop_after = (\<lambda>_. False), nw_jitter = (\<lambda>_. 7)\<rparr>"

theorem export_bounded_witness:
  "eo_attempts (fst (export_payload Inr sample_config [1] (\<lambda>_. busy_network))) \<le> 5"
  using export_bounded [of Inr sample_config "[1]" "\<lambda>_. busy_network"
      "fst (export_payload Inr sample_config [1] (\<lambda>_. busy_network))"
      "snd (export_payload Inr sample_config [1] (\<lambda>_. busy_network))"] by simp

text \<open>C34: An export is delivered exactly when one of the first five attempts succeeds and every attempt
  before it failed in a way that may be retried without the session stopping meanwhile: no delivery
  is given up early, and none is attempted again after success, a permanent failure or a stop.\<close>

theorem export_delivers:
  assumes "prepare_body gzip (cf_compression config) bytes = Inr prepared"
  shows "eo_delivered (fst (export_payload gzip config bytes network_for)) \<longleftrightarrow>
    (\<exists>k r. 1 \<le> k \<and> k \<le> 5 \<and> nw_send (network_for prepared) k = Inr r \<and>
       (\<forall>j. 1 \<le> j \<and> j < k \<longrightarrow> retries (network_for prepared) j))"
  using export_loop_delivers [of 1 "network_for prepared" 0 None "[]"] assms
  by (simp add: export_payload_def max_attempts_def)

theorem export_delivers_witness:
  "eo_delivered (fst (export_payload Inr sample_config [1] (\<lambda>_. busy_network)))"
proof -
  have prepared: "prepare_body Inr (cf_compression sample_config) [1] = Inr ([1], False)"
    by (simp add: prepare_body_def sample_config_def)
  have "\<exists>k r. 1 \<le> k \<and> k \<le> 5 \<and> nw_send busy_network k = Inr r \<and>
      (\<forall>j. 1 \<le> j \<and> j < k \<longrightarrow> retries busy_network j)"
    by (intro exI [of _ 3] exI [of _ "(0, None)"])
      (auto simp: busy_network_def retries_def send_failure_def)
  then show ?thesis using export_delivers [OF prepared, of "\<lambda>_. busy_network"] by simp
qed

end
