(* ===== verification/Otlp_Laws.thy ===== *)
theory Otlp_Laws
  imports Otlp
begin

text \<open>
  What an OTLP dictionary denotes, and that the export says what its pprof profiles say.

  \<^item> \<open>sref\<close>, \<open>attribute_means\<close>, \<open>fun_is\<close>, \<open>map_is\<close>, \<open>location_means\<close>, \<open>stack_means\<close>: an index of the
    dictionary, read through the tables, is the given string, attribute, function, mapping, frame or
    stack.
  \<^item> \<open>dict_ok\<close>: every hash map of the builder numbers the entries of its table (\<open>keyed\<close>). \<open>dext\<close>: the
    tables only grow, so what an index denotes never changes.
  \<^item> Each interning method preserves \<open>dict_ok\<close>, extends the tables and returns an index with the right
    meaning; the string, stack and hash tables are interpretations of \<open>interner\<close> and \<open>fifo_cache\<close>.
\<close>

section \<open>Denotation\<close>

definition sref :: "dictionary_builder \<Rightarrow> nat \<Rightarrow> string \<Rightarrow> bool" where
  "sref d i s \<longleftrightarrow> i < length (db_strings d) \<and> db_strings d ! i = s"

definition entry_means :: "dictionary_builder \<Rightarrow> string \<times> any_value \<times> string \<Rightarrow> key_value_and_unit \<Rightarrow> bool" where
  "entry_means d a e \<longleftrightarrow>
     (let (key, v, unit) = a
      in sref d (ku_key_strindex e) key \<and> ku_value e = Some (Some v) \<and> sref d (ku_unit_strindex e) unit)"

definition attribute_means :: "dictionary_builder \<Rightarrow> string \<times> any_value \<times> string \<Rightarrow> nat \<Rightarrow> bool" where
  "attribute_means d a i \<longleftrightarrow> i < length (db_attributes d) \<and> entry_means d a (db_attributes d ! i)"

text \<open>The text under which the builder looks an attribute up.\<close>

fun attribute_tag :: "any_value \<Rightarrow> string \<Rightarrow> string option" where
  "attribute_tag (String_Value v) unit = (if unit = [] then Some (''s:'' @ v) else None)"
| "attribute_tag (Bool_Value b) unit = (if unit = [] then Some (''b:'' @ show_bool b) else None)"
| "attribute_tag (Int_Value n) unit = Some (''i:'' @ show_i64 n @ '':'' @ unit)"
| "attribute_tag _ unit = None"

definition attr_is :: "dictionary_builder \<Rightarrow> attribute_key \<Rightarrow> key_value_and_unit \<Rightarrow> bool" where
  "attr_is d k e \<longleftrightarrow>
     (\<exists>v unit. entry_means d (fst k, v, unit) e \<and> attribute_tag v unit = Some (snd k))"

definition fun_is :: "dictionary_builder \<Rightarrow> otlp_function_key \<Rightarrow> otlp_function \<Rightarrow> bool" where
  "fun_is d k f \<longleftrightarrow>
     (let (name, system, file, start) = k
      in sref d (of_name_strindex f) name \<and> sref d (of_system_name_strindex f) system \<and>
         sref d (of_filename_strindex f) file \<and> of_start_line f = start)"

definition map_is :: "dictionary_builder \<Rightarrow> mapping_key \<Rightarrow> otlp_mapping \<Rightarrow> bool" where
  "map_is d k m \<longleftrightarrow>
     (let (start, limit, off, file, build) = k
      in om_memory_start m = start \<and> om_memory_limit m = limit \<and> om_file_offset m = off \<and>
         sref d (om_filename_strindex m) file \<and>
         (build \<noteq> [] \<longrightarrow> (\<exists>i \<in> set (om_attribute_indices m).
            attribute_means d (''process.executable.build_id.gnu'', String_Value build, []) i)))"

definition loc_is :: "location_key \<Rightarrow> otlp_location \<Rightarrow> bool" where
  "loc_is k lo \<longleftrightarrow> k = (oo_address lo, oo_mapping_index lo, map line_key (oo_lines lo))"

definition stk_is :: "nat list \<Rightarrow> otlp_stack \<Rightarrow> bool" where
  "stk_is locs s \<longleftrightarrow> ok_location_indices s = locs"

section \<open>The invariant\<close>

definition dict_ok :: "dictionary_builder \<Rightarrow> bool" where
  "dict_ok d \<longleftrightarrow>
     keyed (\<lambda>s t. t = s) 0 (map_of (db_string_index d)) (db_strings d) \<and> sref d 0 [] \<and>
     keyed (attr_is d) 1 (map_of (db_attribute_index d)) (db_attributes d) \<and>
     keyed (fun_is d) 1 (map_of (db_function_index d)) (db_functions d) \<and>
     keyed (map_is d) 1 (map_of (db_mapping_index d)) (db_mappings d) \<and>
     keyed loc_is 1 (map_of (db_location_index d)) (db_locations d) \<and>
     keyed stk_is 1 (map_of (db_stack_index d)) (db_stacks d)"

definition dext :: "dictionary_builder \<Rightarrow> dictionary_builder \<Rightarrow> bool" where
  "dext d e \<longleftrightarrow>
     grows (db_strings d) (db_strings e) \<and> grows (db_attributes d) (db_attributes e) \<and>
     grows (db_functions d) (db_functions e) \<and> grows (db_mappings d) (db_mappings e) \<and>
     grows (db_locations d) (db_locations e) \<and> grows (db_stacks d) (db_stacks e)"

lemma dext_refl [simp]: "dext d d"
  by (simp add: dext_def)

lemma dext_trans: "dext a b \<Longrightarrow> dext b c \<Longrightarrow> dext a c"
  unfolding dext_def by (meson grows_trans)

lemma sref_ext: "dext d e \<Longrightarrow> sref d i s \<Longrightarrow> sref e i s"
  by (auto simp: dext_def grows_def sref_def)

lemma entry_means_ext: "dext d e \<Longrightarrow> entry_means d a x \<Longrightarrow> entry_means e a x"
  by (auto simp: entry_means_def intro: sref_ext split: prod.splits)

lemma attribute_means_ext: "dext d e \<Longrightarrow> attribute_means d a i \<Longrightarrow> attribute_means e a i"
  unfolding attribute_means_def by (auto simp: dext_def grows_def intro: entry_means_ext [unfolded dext_def grows_def])

lemma attr_is_ext: "dext d e \<Longrightarrow> attr_is d k x \<Longrightarrow> attr_is e k x"
  unfolding attr_is_def using entry_means_ext by blast

lemma fun_is_ext: "dext d e \<Longrightarrow> fun_is d k f \<Longrightarrow> fun_is e k f"
  by (auto simp: fun_is_def intro: sref_ext split: prod.splits)

lemma map_is_ext: "dext d e \<Longrightarrow> map_is d k m \<Longrightarrow> map_is e k m"
  unfolding map_is_def using sref_ext attribute_means_ext by (fastforce split: prod.splits)

text \<open>What a push to one table leaves of the invariant of the others.\<close>

lemma dict_okI:
  assumes ok: "dict_ok d" and ext: "dext d e"
    and "keyed (\<lambda>s t. t = s) 0 (map_of (db_string_index e)) (db_strings e)"
    and "keyed (attr_is d) 1 (map_of (db_attribute_index d)) (db_attributes d) \<Longrightarrow>
      keyed (attr_is e) 1 (map_of (db_attribute_index e)) (db_attributes e)"
    and "keyed (fun_is d) 1 (map_of (db_function_index d)) (db_functions d) \<Longrightarrow>
      keyed (fun_is e) 1 (map_of (db_function_index e)) (db_functions e)"
    and "keyed (map_is d) 1 (map_of (db_mapping_index d)) (db_mappings d) \<Longrightarrow>
      keyed (map_is e) 1 (map_of (db_mapping_index e)) (db_mappings e)"
    and "keyed loc_is 1 (map_of (db_location_index e)) (db_locations e)"
    and "keyed stk_is 1 (map_of (db_stack_index e)) (db_stacks e)"
  shows "dict_ok e"
  using assms sref_ext [OF ext] unfolding dict_ok_def by blast

lemma keyed_attr_ext:
  "dext d e \<Longrightarrow> keyed (attr_is d) b m xs \<Longrightarrow> keyed (attr_is e) b m xs"
  by (erule keyed_mono) (rule attr_is_ext)

lemma keyed_fun_ext: "dext d e \<Longrightarrow> keyed (fun_is d) b m xs \<Longrightarrow> keyed (fun_is e) b m xs"
  by (erule keyed_mono) (rule fun_is_ext)

lemma keyed_map_ext: "dext d e \<Longrightarrow> keyed (map_is d) b m xs \<Longrightarrow> keyed (map_is e) b m xs"
  by (erule keyed_mono) (rule map_is_ext)

lemmas keyed_ext = keyed_attr_ext keyed_fun_ext keyed_map_ext

lemma new_dictionary_ok: "dict_ok (new_dictionary hashes)"
  using indexed_one [of 0 "[] :: string"]
  by (simp add: dict_ok_def new_dictionary_def keyed_def sref_def)

lemma hashes_ok [simp]: "dict_ok (d\<lparr>db_hashes := h\<rparr>) = dict_ok d" "dext d (d\<lparr>db_hashes := h\<rparr>)"
proof -
  have e: "dext d (d\<lparr>db_hashes := h\<rparr>)" "dext (d\<lparr>db_hashes := h\<rparr>) d" by (simp_all add: dext_def)
  then have "attr_is (d\<lparr>db_hashes := h\<rparr>) = attr_is d" "fun_is (d\<lparr>db_hashes := h\<rparr>) = fun_is d"
    "map_is (d\<lparr>db_hashes := h\<rparr>) = map_is d"
    by (auto simp: fun_eq_iff intro: attr_is_ext fun_is_ext map_is_ext)
  then show "dict_ok (d\<lparr>db_hashes := h\<rparr>) = dict_ok d" by (simp add: dict_ok_def sref_def)
  show "dext d (d\<lparr>db_hashes := h\<rparr>)" by (rule e(1))
qed

section \<open>Strings and stacks\<close>

lemma intern_string_step:
  assumes "intern_string s d = (i, d')" "dict_ok d"
  shows "dict_ok d' \<and> dext d d' \<and> sref d' i s"
proof (cases "map_of (db_string_index d) s")
  case (Some j)
  with assms have eq: "i = j" "d' = d" by (simp_all add: intern_string_def)
  have "keyed (\<lambda>s t. t = s) 0 (map_of (db_string_index d)) (db_strings d)"
    using assms(2) by (simp add: dict_ok_def)
  from keyed_found [OF this Some] assms(2) show ?thesis by (simp add: eq sref_def)
next
  case None
  with assms(1) have eq: "i = length (db_strings d)"
    "d' = d\<lparr>db_strings := db_strings d @ [s], db_string_index := AList.update s i (db_string_index d)\<rparr>"
    by (auto simp: intern_string_def Let_def)
  have ext: "dext d d'" by (simp add: eq dext_def)
  have key: "keyed (\<lambda>s t. t = s) 0 (map_of (db_string_index d)) (db_strings d)"
    using assms(2) by (simp add: dict_ok_def)
  have "dict_ok d'"
    using assms(2) keyed_push [OF key None] keyed_ext [OF ext]
    by (intro dict_okI [OF assms(2) ext]) (simp_all add: eq dict_ok_def)
  with ext show ?thesis by (simp add: eq sref_def)
qed

lemma intern_stack_step:
  assumes "intern_stack locs d = (i, d')" "dict_ok d"
  shows "dict_ok d' \<and> dext d d' \<and> 1 \<le> i \<and> i < length (db_stacks d') \<and>
    ok_location_indices (db_stacks d' ! i) = locs"
proof (cases "map_of (db_stack_index d) locs")
  case (Some j)
  with assms have eq: "i = j" "d' = d" by (simp_all add: intern_stack_def)
  have "keyed stk_is 1 (map_of (db_stack_index d)) (db_stacks d)"
    using assms(2) by (simp add: dict_ok_def)
  from keyed_found [OF this Some] assms(2) show ?thesis by (simp add: eq stk_is_def)
next
  case None
  with assms(1) have eq: "i = length (db_stacks d)"
    "d' = d\<lparr>db_stacks := db_stacks d @ [\<lparr>ok_location_indices = locs\<rparr>],
       db_stack_index := AList.update locs i (db_stack_index d)\<rparr>"
    by (auto simp: intern_stack_def Let_def)
  have ext: "dext d d'" by (simp add: eq dext_def)
  have key: "keyed stk_is 1 (map_of (db_stack_index d)) (db_stacks d)"
    using assms(2) by (simp add: dict_ok_def)
  have "1 \<le> length (db_stacks d)" using key by (simp add: keyed_def)
  have "dict_ok d'"
    using assms(2) keyed_push [OF key None, of "\<lparr>ok_location_indices = locs\<rparr>"] keyed_ext [OF ext]
    by (intro dict_okI [OF assms(2) ext]) (simp_all add: eq dict_ok_def stk_is_def)
  with ext \<open>1 \<le> length (db_stacks d)\<close> show ?thesis by (simp add: eq)
qed

section \<open>Attributes\<close>

lemma show_radix_inj:
  assumes "show_radix 10 m = show_radix 10 n"
  shows "m = n"
proof -
  have "parse_digits 10 0 (show_radix 10 m) = parse_digits 10 0 (show_radix 10 n)" using assms by simp
  then show ?thesis by (simp add: parse_digits_show)
qed

lemma show_radix_no_sign:
  "CHR ''-'' \<notin> set (show_radix 10 n)" "CHR '':'' \<notin> set (show_radix 10 n)"
  by (rule show_radix_no_char; simp)+

lemma show_radix_sign_cons: "show_radix 10 n \<noteq> CHR ''-'' # xs" "CHR ''-'' # xs \<noteq> show_radix 10 n"
  using show_radix_no_sign(1) [of n] by (metis list.set_intros(1))+

lemma show_i64_no_colon: "CHR '':'' \<notin> set (show_i64 v)"
  using show_radix_no_sign(2) by (simp add: show_i64_def)

lemma show_i64_neg: "sint v < 0 \<Longrightarrow> show_i64 v = CHR ''-'' # show_radix 10 (nat (- sint v))"
  by (simp only: show_i64_def if_True append_Cons append_Nil)

lemma show_i64_pos: "\<not> sint v < 0 \<Longrightarrow> show_i64 v = show_radix 10 (nat (sint v))"
  by (simp only: show_i64_def if_False)

lemma show_i64_inj:
  assumes eq: "show_i64 a = show_i64 b"
  shows "a = b"
proof -
  have "sint a = sint b"
  proof (cases "sint a < 0")
    case True
    then have neg: "sint b < 0"
      using eq show_radix_sign_cons show_i64_neg show_i64_pos by metis
    have "nat (- sint a) = nat (- sint b)"
      using eq by (intro show_radix_inj) (simp only: show_i64_neg [OF True] show_i64_neg [OF neg] list.inject)
    with True neg show ?thesis by linarith
  next
    case False
    then have pos: "\<not> sint b < 0"
      using eq show_radix_sign_cons show_i64_neg show_i64_pos by metis
    have "nat (sint a) = nat (sint b)"
      using eq by (intro show_radix_inj) (simp only: show_i64_pos [OF False] show_i64_pos [OF pos])
    with False pos show ?thesis by linarith
  qed
  then show ?thesis by (rule signed_word_eqI)
qed

lemma colon_split:
  assumes "a @ CHR '':'' # u = b @ CHR '':'' # v" "CHR '':'' \<notin> set a" "CHR '':'' \<notin> set b"
  shows "a = b \<and> u = v"
  using split_once_append [OF assms(2), of u] split_once_append [OF assms(3), of v] assms(1)
  by (metis option.inject prod.inject)

text \<open>The first character of the text says which kind of value it is for, and the rest which value.\<close>

lemma attribute_tag_cases:
  assumes "attribute_tag v unit = Some t"
  obtains (s) x where "v = String_Value x" "unit = []" "t = CHR ''s'' # CHR '':'' # x"
    | (b) x where "v = Bool_Value x" "unit = []" "t = CHR ''b'' # CHR '':'' # show_bool x"
    | (i) x where "v = Int_Value x" "t = CHR ''i'' # CHR '':'' # show_i64 x @ CHR '':'' # unit"
  using assms by (cases v) (simp_all split: if_splits)

lemma show_bool_inj: "show_bool a = show_bool b \<Longrightarrow> a = b"
  by (simp add: show_bool_def split: if_splits)

lemma attribute_tag_inj:
  assumes "attribute_tag v unit = Some t" "attribute_tag v' unit' = Some t"
  shows "v = v' \<and> unit = unit'"
  using assms(1)
proof (cases rule: attribute_tag_cases)
  case (s x)
  with assms(2) show ?thesis by (elim attribute_tag_cases) simp_all
next
  case (b x)
  with assms(2) show ?thesis by (elim attribute_tag_cases) (auto dest: show_bool_inj)
next
  case (i x)
  note ix = i
  from assms(2) show ?thesis
  proof (cases rule: attribute_tag_cases)
    case (i y)
    with ix have "show_i64 x @ CHR '':'' # unit = show_i64 y @ CHR '':'' # unit'" by simp
    from colon_split [OF this show_i64_no_colon show_i64_no_colon] show_i64_inj [of x y]
    show ?thesis using ix(1) i(1) by simp
  qed (use i in simp_all)
qed

lemma attribute_hit:
  assumes "dict_ok d" "map_of (db_attribute_index d) (key, t) = Some i" "attribute_tag v unit = Some t"
  shows "attribute_means d (key, v, unit) i"
proof -
  have "keyed (attr_is d) 1 (map_of (db_attribute_index d)) (db_attributes d)"
    using assms(1) by (simp add: dict_ok_def)
  from keyed_found [OF this assms(2)] obtain v' unit' where
    "i < length (db_attributes d)" "entry_means d (key, v', unit') (db_attributes d ! i)"
    "attribute_tag v' unit' = Some t"
    by (auto simp: attr_is_def)
  with attribute_tag_inj [OF assms(3)] show ?thesis by (auto simp: attribute_means_def)
qed

lemma push_attribute_step:
  assumes "push_attribute (key, t) e d = (i, d')" "dict_ok d" "map_of (db_attribute_index d) (key, t) = None"
    and "entry_means d (key, v, unit) e" "attribute_tag v unit = Some t"
  shows "dict_ok d' \<and> dext d d' \<and> attribute_means d' (key, v, unit) i"
proof -
  have eq: "i = length (db_attributes d)"
    "d' = d\<lparr>db_attributes := db_attributes d @ [e],
       db_attribute_index := AList.update (key, t) i (db_attribute_index d)\<rparr>"
    using assms(1) by (auto simp: push_attribute_def Let_def)
  have ext: "dext d d'" by (simp add: eq dext_def)
  have key: "keyed (attr_is d) 1 (map_of (db_attribute_index d)) (db_attributes d)"
    using assms(2) by (simp add: dict_ok_def)
  have "attr_is d (key, t) e" using assms(4,5) by (auto simp: attr_is_def)
  note pushed = keyed_attr_ext [OF ext keyed_push [OF key assms(3) this]]
  have "dict_ok d'"
    using assms(2) pushed keyed_ext [OF ext]
    by (intro dict_okI [OF assms(2) ext]) (simp_all add: eq dict_ok_def)
  moreover have "attribute_means d' (key, v, unit) i"
    using entry_means_ext [OF ext assms(4)] by (simp add: attribute_means_def eq)
  ultimately show ?thesis using ext by simp
qed

text \<open>\<open>intern_string\<close> leaves the attribute index alone.\<close>

lemma intern_string_frame:
  "intern_string s d = (i, d') \<Longrightarrow> db_attribute_index d' = db_attribute_index d \<and>
    db_function_index d' = db_function_index d \<and> db_functions d' = db_functions d \<and>
    db_mapping_index d' = db_mapping_index d \<and> db_mappings d' = db_mappings d \<and>
    db_location_index d' = db_location_index d \<and> db_locations d' = db_locations d \<and>
    db_stack_index d' = db_stack_index d \<and> db_stacks d' = db_stacks d"
  by (auto simp: intern_string_def Let_def split: option.splits)

lemma intern_attribute_string_step:
  assumes "intern_attribute_string key val d = (i, d')" "dict_ok d"
  shows "dict_ok d' \<and> dext d d' \<and> attribute_means d' (key, String_Value val, []) i"
proof (cases "map_of (db_attribute_index d) (key, ''s:'' @ val)")
  case (Some j)
  with assms attribute_hit [OF assms(2) Some, of "String_Value val" "[]"] show ?thesis
    by (simp add: intern_attribute_string_def)
next
  case None
  obtain k d1 where s: "intern_string key d = (k, d1)" by (rule prod.exhaust)
  note s1 = intern_string_step [OF s assms(2)]
  have none: "map_of (db_attribute_index d1) (key, ''s:'' @ val) = None"
    using None intern_string_frame [OF s] by simp
  have zero: "sref d1 0 []" using s1 by (simp add: dict_ok_def)
  have push: "push_attribute (key, ''s:'' @ val)
      \<lparr>ku_key_strindex = k, ku_value = Some (Some (String_Value val)), ku_unit_strindex = 0\<rparr> d1 = (i, d')"
    using assms(1) None s by (simp add: intern_attribute_string_def Let_def del: map_of_eq_None_iff)
  have "dict_ok d' \<and> dext d1 d' \<and> attribute_means d' (key, String_Value val, []) i"
    by (rule push_attribute_step [OF push conjunct1 [OF s1] none]) (use s1 zero in \<open>simp_all add: entry_means_def\<close>)
  with s1 show ?thesis by (blast intro: dext_trans)
qed

lemma intern_attribute_bool_step:
  assumes "intern_attribute_bool key val d = (i, d')" "dict_ok d"
  shows "dict_ok d' \<and> dext d d' \<and> attribute_means d' (key, Bool_Value val, []) i"
proof (cases "map_of (db_attribute_index d) (key, ''b:'' @ show_bool val)")
  case (Some j)
  with assms attribute_hit [OF assms(2) Some, of "Bool_Value val" "[]"] show ?thesis
    by (simp add: intern_attribute_bool_def)
next
  case None
  obtain k d1 where s: "intern_string key d = (k, d1)" by (rule prod.exhaust)
  note s1 = intern_string_step [OF s assms(2)]
  have none: "map_of (db_attribute_index d1) (key, ''b:'' @ show_bool val) = None"
    using None intern_string_frame [OF s] by simp
  have zero: "sref d1 0 []" using s1 by (simp add: dict_ok_def)
  have push: "push_attribute (key, ''b:'' @ show_bool val)
      \<lparr>ku_key_strindex = k, ku_value = Some (Some (Bool_Value val)), ku_unit_strindex = 0\<rparr> d1 = (i, d')"
    using assms(1) None s by (simp add: intern_attribute_bool_def Let_def del: map_of_eq_None_iff)
  have "dict_ok d' \<and> dext d1 d' \<and> attribute_means d' (key, Bool_Value val, []) i"
    by (rule push_attribute_step [OF push conjunct1 [OF s1] none]) (use s1 zero in \<open>simp_all add: entry_means_def\<close>)
  with s1 show ?thesis by (blast intro: dext_trans)
qed

lemma intern_attribute_i64_step:
  assumes "intern_attribute_i64 key val unit d = (i, d')" "dict_ok d"
  shows "dict_ok d' \<and> dext d d' \<and> attribute_means d' (key, Int_Value val, unit) i"
proof (cases "map_of (db_attribute_index d) (key, ''i:'' @ show_i64 val @ '':'' @ unit)")
  case (Some j)
  with assms attribute_hit [OF assms(2) Some, of "Int_Value val" unit] show ?thesis
    by (simp add: intern_attribute_i64_def)
next
  case None
  obtain k d1 where s: "intern_string key d = (k, d1)" by (rule prod.exhaust)
  obtain u d2 where s': "intern_string unit d1 = (u, d2)" by (rule prod.exhaust)
  note s1 = intern_string_step [OF s assms(2)]
  note s2 = intern_string_step [OF s' conjunct1 [OF s1]]
  have none: "map_of (db_attribute_index d2) (key, ''i:'' @ show_i64 val @ '':'' @ unit) = None"
    using None intern_string_frame [OF s] intern_string_frame [OF s'] by simp
  have push: "push_attribute (key, ''i:'' @ show_i64 val @ '':'' @ unit)
      \<lparr>ku_key_strindex = k, ku_value = Some (Some (Int_Value val)), ku_unit_strindex = u\<rparr> d2 = (i, d')"
    using assms(1) None s s' by (simp add: intern_attribute_i64_def Let_def del: map_of_eq_None_iff)
  have k: "sref d2 k key" using s1 s2 by (blast intro: sref_ext)
  have "dict_ok d' \<and> dext d2 d' \<and> attribute_means d' (key, Int_Value val, unit) i"
    by (rule push_attribute_step [OF push conjunct1 [OF s2] none]) (use k s2 in \<open>simp_all add: entry_means_def\<close>)
  with s1 s2 show ?thesis by (blast intro: dext_trans)
qed

section \<open>Functions, mappings and locations\<close>

definition same_entities :: "dictionary_builder \<Rightarrow> dictionary_builder \<Rightarrow> bool" where
  "same_entities d e \<longleftrightarrow>
     db_function_index e = db_function_index d \<and> db_functions e = db_functions d \<and>
     db_mapping_index e = db_mapping_index d \<and> db_mappings e = db_mappings d \<and>
     db_location_index e = db_location_index d \<and> db_locations e = db_locations d"

lemma same_entities_trans: "same_entities a b \<Longrightarrow> same_entities b c \<Longrightarrow> same_entities a c"
  by (simp add: same_entities_def)

lemma same_entities_refl [simp]: "same_entities d d" "same_entities d (d\<lparr>db_hashes := h\<rparr>)"
  by (simp_all add: same_entities_def)

lemma intern_string_same: "intern_string s d = (i, d') \<Longrightarrow> same_entities d d'"
  using intern_string_frame unfolding same_entities_def by metis

lemma push_attribute_same: "push_attribute k e d = (i, d') \<Longrightarrow> same_entities d d'"
  by (auto simp: push_attribute_def same_entities_def Let_def)

lemma intern_attribute_same:
  "intern_attribute_string key s d = (i, d') \<Longrightarrow> same_entities d d'"
  "intern_attribute_bool key b d = (i, d') \<Longrightarrow> same_entities d d'"
  unfolding intern_attribute_string_def intern_attribute_bool_def Let_def
  by (auto split: option.splits prod.splits
        dest!: intern_string_same push_attribute_same intro: same_entities_trans)

lemma intern_function_step:
  assumes run: "intern_function p f d = (i, d')" and ok: "dict_ok d"
  shows "dict_ok d' \<and> dext d d' \<and> 1 \<le> i \<and> i < length (db_functions d') \<and>
    fun_is d' (function_key_of p f) (db_functions d' ! i)"
proof (cases "map_of (db_function_index d) (function_key_of p f)")
  case (Some j)
  with run have eq: "i = j" "d' = d" by (simp_all add: intern_function_def)
  have "keyed (fun_is d) 1 (map_of (db_function_index d)) (db_functions d)"
    using ok by (simp add: dict_ok_def)
  from keyed_found [OF this Some] ok show ?thesis by (simp add: eq)
next
  case None
  obtain name d1 where s1: "intern_string (pprof_string p (pf_name f)) d = (name, d1)" by (rule prod.exhaust)
  obtain sys d2 where s2: "intern_string (pprof_string p (pf_system_name f)) d1 = (sys, d2)" by (rule prod.exhaust)
  obtain fl d3 where s3: "intern_string (pprof_string p (pf_filename f)) d2 = (fl, d3)" by (rule prod.exhaust)
  note r1 = intern_string_step [OF s1 ok]
  note r2 = intern_string_step [OF s2 conjunct1 [OF r1]]
  note r3 = intern_string_step [OF s3 conjunct1 [OF r2]]
  define en where "en = \<lparr>of_name_strindex = name, of_system_name_strindex = sys,
    of_filename_strindex = fl, of_start_line = pf_start_line f\<rparr>"
  have eq: "i = length (db_functions d3)" "d' = d3\<lparr>db_functions := db_functions d3 @ [en],
      db_function_index := AList.update (function_key_of p f) i (db_function_index d3)\<rparr>"
    using run None s1 s2 s3
    by (auto simp: intern_function_def Let_def en_def simp del: map_of_eq_None_iff)
  have none: "map_of (db_function_index d3) (function_key_of p f) = None"
    using None intern_string_frame [OF s1] intern_string_frame [OF s2] intern_string_frame [OF s3] by simp
  have is3: "fun_is d3 (function_key_of p f) en"
    using r1 r2 r3 unfolding fun_is_def function_key_of_def en_def by (auto intro: sref_ext)
  have ext: "dext d3 d'" by (simp add: eq dext_def)
  have key: "keyed (fun_is d3) 1 (map_of (db_function_index d3)) (db_functions d3)"
    using r3 by (simp add: dict_ok_def)
  have "1 \<le> length (db_functions d3)" using key by (simp add: keyed_def)
  note pushed = keyed_fun_ext [OF ext keyed_push [OF key none is3]]
  have "dict_ok d'"
    using r3 pushed keyed_ext [OF ext]
    by (intro dict_okI [OF conjunct1 [OF r3] ext]) (simp_all add: eq dict_ok_def)
  moreover have "dext d d'" using r1 r2 r3 ext by (blast intro: dext_trans)
  moreover have "fun_is d' (function_key_of p f) (db_functions d' ! i)"
    using fun_is_ext [OF ext is3] by (simp add: eq)
  ultimately show ?thesis using \<open>1 \<le> length (db_functions d3)\<close> by (simp add: eq)
qed

text \<open>A reference to a function, as a line of a location holds it; \<open>0\<close> when the profile has no function of
  that id.\<close>

definition fun_ref :: "dictionary_builder \<Rightarrow> pprof \<Rightarrow> pp_function option \<Rightarrow> nat \<Rightarrow> bool" where
  "fun_ref d p f i \<longleftrightarrow>
     (case f of None \<Rightarrow> i = 0
      | Some fn \<Rightarrow> 1 \<le> i \<and> i < length (db_functions d) \<and> fun_is d (function_key_of p fn) (db_functions d ! i))"

definition line_means :: "dictionary_builder \<Rightarrow> pprof \<Rightarrow> source_lookup \<Rightarrow> pp_line \<Rightarrow> otlp_line \<Rightarrow> bool" where
  "line_means d p look ln ol \<longleftrightarrow>
     fun_ref d p (map_of (sk_functions look) (pl_function_id ln)) (ol_function_index ol) \<and>
     ol_line ol = pl_line ln \<and> ol_column ol = pl_column ln"

lemma fun_ref_ext: "dext d e \<Longrightarrow> fun_ref d p f i \<Longrightarrow> fun_ref e p f i"
  using fun_is_ext by (auto simp: fun_ref_def dext_def grows_def split: option.splits)

lemma line_means_ext: "dext d e \<Longrightarrow> line_means d p look ln ol \<Longrightarrow> line_means e p look ln ol"
  using fun_ref_ext by (auto simp: line_means_def)

lemma intern_lines_step:
  "intern_lines p look lns d = (ls, d') \<Longrightarrow> dict_ok d \<Longrightarrow>
   dict_ok d' \<and> dext d d' \<and> list_all2 (line_means d' p look) lns ls"
proof (induction lns arbitrary: d ls d')
  case Nil
  then show ?case by simp
next
  case (Cons ln rest)
  obtain f d1 where f: "(case map_of (sk_functions look) (pl_function_id ln) of
      None \<Rightarrow> (0, d) | Some fn \<Rightarrow> intern_function p fn d) = (f, d1)" by (rule prod.exhaust)
  obtain ls' d2 where r: "intern_lines p look rest d1 = (ls', d2)" by (rule prod.exhaust)
  have f1: "dict_ok d1 \<and> dext d d1 \<and> fun_ref d1 p (map_of (sk_functions look) (pl_function_id ln)) f"
  proof (cases "map_of (sk_functions look) (pl_function_id ln)")
    case None
    with f Cons.prems show ?thesis by (simp add: fun_ref_def)
  next
    case (Some fn)
    with f have "intern_function p fn d = (f, d1)" by simp
    from intern_function_step [OF this Cons.prems(2)] Some show ?thesis by (simp add: fun_ref_def)
  qed
  have eq: "ls = \<lparr>ol_function_index = f, ol_line = pl_line ln, ol_column = pl_column ln\<rparr> # ls'" "d' = d2"
    using Cons.prems(1) f r by simp_all
  note IH = Cons.IH [OF r conjunct1 [OF f1]]
  with f1 have "line_means d2 p look ln (hd ls)"
    by (auto simp: eq line_means_def intro: fun_ref_ext)
  with IH f1 show ?case by (auto simp: eq intro: dext_trans)
qed

text \<open>Mappings.\<close>

lemma mapping_attributes_step:
  assumes run: "mapping_attributes env m build d = (attrs, d')" and ok: "dict_ok d"
  shows "dict_ok d' \<and> dext d d' \<and> same_entities d d' \<and>
    (build \<noteq> [] \<longrightarrow> (\<exists>i \<in> set attrs.
       attribute_means d' (''process.executable.build_id.gnu'', String_Value build, []) i))"
proof -
  let ?gnu = "''process.executable.build_id.gnu''"
  obtain gnu d1 where g: "(if build \<noteq> [] then (case intern_attribute_string ?gnu build d of (i, d') \<Rightarrow> ([i], d'))
      else ([], d)) = (gnu, d1)" by (rule prod.exhaust)
  have g1: "dict_ok d1 \<and> dext d d1 \<and> same_entities d d1 \<and>
      (build \<noteq> [] \<longrightarrow> (\<exists>i \<in> set gnu. attribute_means d1 (?gnu, String_Value build, []) i))"
    using g ok by (auto split: if_splits prod.splits
        dest: intern_attribute_string_step intern_attribute_same)
  obtain hash hs where h: "htlhash env (pm_memory_start m) (pm_memory_limit m) (db_hashes d1) = (hash, hs)"
    by (rule prod.exhaust)
  let ?d2 = "d1\<lparr>db_hashes := hs\<rparr>"
  have ok2: "dict_ok ?d2" using g1 by simp
  obtain htl d3 where t: "(case hash of None \<Rightarrow> ([], ?d2)
      | Some h \<Rightarrow> (case intern_attribute_string ''process.executable.build_id.htlhash'' h ?d2 of
            (i, d') \<Rightarrow> ([i], d'))) = (htl, d3)" by (rule prod.exhaust)
  have t1: "dict_ok d3 \<and> dext ?d2 d3 \<and> same_entities ?d2 d3"
    using t ok2 by (auto split: option.splits prod.splits
        dest: intern_attribute_string_step intern_attribute_same)
  obtain f d4 where b1: "intern_attribute_bool ''pprof.mapping.has_functions'' (pm_has_functions m) d3 = (f, d4)"
    by (rule prod.exhaust)
  obtain n d5 where b2: "intern_attribute_bool ''pprof.mapping.has_filenames'' (pm_has_filenames m) d4 = (n, d5)"
    by (rule prod.exhaust)
  obtain l d6 where b3: "intern_attribute_bool ''pprof.mapping.has_line_numbers'' (pm_has_line_numbers m) d5 = (l, d6)"
    by (rule prod.exhaust)
  obtain j d7 where b4: "intern_attribute_bool ''pprof.mapping.has_inline_frames'' (pm_has_inline_frames m) d6 = (j, d7)"
    by (rule prod.exhaust)
  note s1 = intern_attribute_bool_step [OF b1 conjunct1 [OF t1]]
  note s2 = intern_attribute_bool_step [OF b2 conjunct1 [OF s1]]
  note s3 = intern_attribute_bool_step [OF b3 conjunct1 [OF s2]]
  note s4 = intern_attribute_bool_step [OF b4 conjunct1 [OF s3]]
  have eq: "attrs = gnu @ htl @ [f, n, l, j]" "d' = d7"
    using run [unfolded mapping_attributes_def Let_def, unfolded g prod.case h t b1 b2 b3 b4] by simp_all
  have "same_entities d3 d7"
    by (rule same_entities_trans [OF intern_attribute_same(2) [OF b1] same_entities_trans
          [OF intern_attribute_same(2) [OF b2] same_entities_trans
            [OF intern_attribute_same(2) [OF b3] intern_attribute_same(2) [OF b4]]]])
  moreover have "same_entities d d3"
    using g1 t1 by (simp add: same_entities_def)
  ultimately have "same_entities d d7" by (metis same_entities_trans)
  moreover have "dext d3 d7"
    using s1 s2 s3 s4 by (blast intro: dext_trans)
  then have ext: "dext d1 d7"
    using t1 dext_trans [OF hashes_ok(2) [of d1 hs]] by (blast intro: dext_trans)
  moreover have "dext d d7" using g1 ext by (blast intro: dext_trans)
  moreover have "\<exists>i \<in> set attrs. attribute_means d7 (?gnu, String_Value build, []) i" if "build \<noteq> []"
  proof -
    from g1 that obtain i where "i \<in> set gnu" "attribute_means d1 (?gnu, String_Value build, []) i" by blast
    then have "i \<in> set attrs" "attribute_means d7 (?gnu, String_Value build, []) i"
      using attribute_means_ext [OF ext] by (simp_all add: eq)
    then show ?thesis by blast
  qed
  ultimately show ?thesis using s4 unfolding eq by blast
qed

lemma intern_mapping_step:
  assumes run: "intern_mapping env p m d = (i, d')" and ok: "dict_ok d"
  shows "dict_ok d' \<and> dext d d' \<and> 1 \<le> i \<and> i < length (db_mappings d') \<and>
    map_is d' (mapping_key_of p m) (db_mappings d' ! i)"
proof (cases "map_of (db_mapping_index d) (mapping_key_of p m)")
  case (Some j)
  with run have eq: "i = j" "d' = d" by (simp_all add: intern_mapping_def)
  have "keyed (map_is d) 1 (map_of (db_mapping_index d)) (db_mappings d)"
    using ok by (simp add: dict_ok_def)
  from keyed_found [OF this Some] ok show ?thesis by (simp add: eq)
next
  case None
  obtain attrs d1 where a: "mapping_attributes env m (pprof_string p (pm_build_id m)) d = (attrs, d1)"
    by (rule prod.exhaust)
  obtain fl d2 where s: "intern_string (pprof_string p (pm_filename m)) d1 = (fl, d2)" by (rule prod.exhaust)
  note a1 = mapping_attributes_step [OF a ok]
  note s1 = intern_string_step [OF s conjunct1 [OF a1]]
  define en where "en = \<lparr>om_memory_start = pm_memory_start m, om_memory_limit = pm_memory_limit m,
    om_file_offset = pm_file_offset m, om_filename_strindex = fl, om_attribute_indices = attrs\<rparr>"
  have eq: "i = length (db_mappings d2)" "d' = d2\<lparr>db_mappings := db_mappings d2 @ [en],
      db_mapping_index := AList.update (mapping_key_of p m) i (db_mapping_index d2)\<rparr>"
    using run None a s by (auto simp: intern_mapping_def Let_def en_def simp del: map_of_eq_None_iff)
  have none: "map_of (db_mapping_index d2) (mapping_key_of p m) = None"
    using None intern_string_frame [OF s] a1 by (simp add: same_entities_def)
  have ext12: "dext d1 d2" using s1 by blast
  have is2: "map_is d2 (mapping_key_of p m) en"
    using a1 s1 attribute_means_ext [OF ext12] unfolding map_is_def mapping_key_of_def en_def by fastforce
  have ext: "dext d2 d'" by (simp add: eq dext_def)
  have key: "keyed (map_is d2) 1 (map_of (db_mapping_index d2)) (db_mappings d2)"
    using s1 by (simp add: dict_ok_def)
  have "1 \<le> length (db_mappings d2)" using key by (simp add: keyed_def)
  note pushed = keyed_map_ext [OF ext keyed_push [OF key none is2]]
  have "dict_ok d'"
    using s1 pushed keyed_ext [OF ext]
    by (intro dict_okI [OF conjunct1 [OF s1] ext]) (simp_all add: eq dict_ok_def)
  moreover have "dext d d'" using a1 s1 ext by (blast intro: dext_trans)
  moreover have "map_is d' (mapping_key_of p m) (db_mappings d' ! i)"
    using map_is_ext [OF ext is2] by (simp add: eq)
  ultimately show ?thesis using \<open>1 \<le> length (db_mappings d2)\<close> by (simp add: eq)
qed

text \<open>Locations.\<close>

definition map_ref :: "dictionary_builder \<Rightarrow> pprof \<Rightarrow> pp_mapping option \<Rightarrow> nat \<Rightarrow> bool" where
  "map_ref d p m i \<longleftrightarrow>
     (case m of None \<Rightarrow> i = 0
      | Some mp \<Rightarrow> 1 \<le> i \<and> i < length (db_mappings d) \<and> map_is d (mapping_key_of p mp) (db_mappings d ! i))"

definition location_means ::
  "dictionary_builder \<Rightarrow> pprof \<Rightarrow> source_lookup \<Rightarrow> pp_location \<Rightarrow> nat \<Rightarrow> bool" where
  "location_means d p look lo i \<longleftrightarrow>
     1 \<le> i \<and> i < length (db_locations d) \<and> oo_address (db_locations d ! i) = po_address lo \<and>
     map_ref d p (map_of (sk_mappings look) (po_mapping_id lo)) (oo_mapping_index (db_locations d ! i)) \<and>
     list_all2 (line_means d p look) (po_line lo) (oo_lines (db_locations d ! i))"

lemma map_ref_ext: "dext d e \<Longrightarrow> map_ref d p m i \<Longrightarrow> map_ref e p m i"
  using map_is_ext by (auto simp: map_ref_def dext_def grows_def split: option.splits)

lemma location_means_ext:
  assumes ext: "dext d e" and "location_means d p look lo i"
  shows "location_means e p look lo i"
proof -
  have i: "i < length (db_locations d)" using assms(2) by (simp add: location_means_def)
  then have "db_locations e ! i = db_locations d ! i" "i < length (db_locations e)"
    using ext by (simp_all add: dext_def grows_def)
  moreover have "list_all2 (line_means e p look) xs ys" if "list_all2 (line_means d p look) xs ys" for xs ys
    using that line_means_ext [OF ext] by (rule list_all2_mono)
  ultimately show ?thesis using assms(2) map_ref_ext [OF ext] unfolding location_means_def by simp
qed

lemma line_keys_inj: "map line_key xs = map line_key ys \<Longrightarrow> xs = ys"
proof -
  have "a = b" if "line_key a = line_key b" for a b
    using that by (cases a; cases b) (simp add: line_key_def)
  then have "inj line_key" by (simp add: inj_def)
  then show "map line_key xs = map line_key ys \<Longrightarrow> xs = ys" by simp
qed

lemma intern_location_step:
  assumes run: "intern_location env p look lo d = (i, d')" and ok: "dict_ok d"
  shows "dict_ok d' \<and> dext d d' \<and> location_means d' p look lo i"
proof -
  obtain m d1 where m: "(case map_of (sk_mappings look) (po_mapping_id lo) of
      None \<Rightarrow> (0, d) | Some mp \<Rightarrow> intern_mapping env p mp d) = (m, d1)" by (rule prod.exhaust)
  have m1: "dict_ok d1 \<and> dext d d1 \<and> map_ref d1 p (map_of (sk_mappings look) (po_mapping_id lo)) m"
  proof (cases "map_of (sk_mappings look) (po_mapping_id lo)")
    case None
    with m ok show ?thesis by (simp add: map_ref_def)
  next
    case (Some mp)
    with m have "intern_mapping env p mp d = (m, d1)" by simp
    from intern_mapping_step [OF this ok] Some show ?thesis by (simp add: map_ref_def)
  qed
  obtain ls d2 where l: "intern_lines p look (po_line lo) d1 = (ls, d2)" by (rule prod.exhaust)
  note l2 = intern_lines_step [OF l conjunct1 [OF m1]]
  have ext12: "dext d1 d2" using l2 by blast
  note m2 = map_ref_ext [OF ext12]
  define key where "key = (po_address lo, m, map line_key ls)"
  have kd: "keyed loc_is 1 (map_of (db_location_index d2)) (db_locations d2)"
    using l2 by (simp add: dict_ok_def)
  show ?thesis
  proof (cases "map_of (db_location_index d2) key")
    case (Some j)
    with run m l have eq: "i = j" "d' = d2" by (simp_all add: intern_location_def Let_def key_def)
    from keyed_found [OF kd Some] have j: "1 \<le> j" "j < length (db_locations d2)"
        "loc_is key (db_locations d2 ! j)" by simp_all
    then have "oo_address (db_locations d2 ! j) = po_address lo" "oo_mapping_index (db_locations d2 ! j) = m"
        "oo_lines (db_locations d2 ! j) = ls"
      using line_keys_inj [of ls "oo_lines (db_locations d2 ! j)"] by (simp_all add: loc_is_def key_def)
    with j l2 m1 m2 have "location_means d2 p look lo j" by (simp add: location_means_def)
    with m1 l2 show ?thesis by (auto simp: eq intro: dext_trans)
  next
    case None
    obtain attrs d3 where a: "(if po_is_folded lo
        then (case intern_attribute_bool ''pprof.location.is_folded'' True d2 of (i, d') \<Rightarrow> ([i], d'))
        else ([], d2)) = (attrs, d3)" by (rule prod.exhaust)
    have a3: "dict_ok d3 \<and> dext d2 d3 \<and> same_entities d2 d3"
      using a l2 by (auto split: if_splits prod.splits
          dest: intern_attribute_bool_step intern_attribute_same(2))
    define en where "en = \<lparr>oo_mapping_index = m, oo_address = po_address lo, oo_lines = ls,
      oo_attribute_indices = attrs\<rparr>"
    have eq: "i = length (db_locations d3)" "d' = d3\<lparr>db_locations := db_locations d3 @ [en],
        db_location_index := AList.update key i (db_location_index d3)\<rparr>"
      using run [unfolded intern_location_def Let_def, unfolded m prod.case l, folded key_def,
          unfolded None option.case a prod.case, folded en_def] by auto
    have none: "map_of (db_location_index d3) key = None" using None a3 by (simp add: same_entities_def)
    have kd3: "keyed loc_is 1 (map_of (db_location_index d3)) (db_locations d3)"
      using a3 by (simp add: dict_ok_def)
    have "loc_is key en" by (simp add: loc_is_def key_def en_def)
    note pushed = keyed_push [where x = en, OF kd3 none this]
    have ext: "dext d3 d'" by (simp add: eq dext_def)
    have "dict_ok d'"
      using a3 pushed keyed_ext [OF ext]
      by (intro dict_okI [OF conjunct1 [OF a3] ext]) (simp_all add: eq dict_ok_def)
    moreover have ext2: "dext d2 d'" using a3 ext by (blast intro: dext_trans)
    moreover have "dext d d'" using m1 l2 ext2 by (blast intro: dext_trans)
    moreover have "list_all2 (line_means d' p look) (po_line lo) ls"
      using l2 line_means_ext [OF ext2] by (blast intro: list_all2_mono)
    moreover have "map_ref d' p (map_of (sk_mappings look) (po_mapping_id lo)) m"
      using m1 m2 map_ref_ext [OF ext2] by blast
    moreover have "1 \<le> length (db_locations d3)" using kd3 by (simp add: keyed_def)
    ultimately show ?thesis by (simp add: location_means_def eq en_def)
  qed
qed

section \<open>Stacks and labels\<close>

definition stack_means :: "dictionary_builder \<Rightarrow> pprof \<Rightarrow> source_lookup \<Rightarrow> pp_sample \<Rightarrow> nat \<Rightarrow> bool" where
  "stack_means d p look s k \<longleftrightarrow>
     1 \<le> k \<and> k < length (db_stacks d) \<and>
     list_all2 (location_means d p look) (List.map_filter (map_of (sk_locations look)) (ps_location_id s))
       (ok_location_indices (db_stacks d ! k))"

lemma stack_means_ext:
  assumes ext: "dext d e" and "stack_means d p look s k"
  shows "stack_means e p look s k"
proof -
  have "k < length (db_stacks d)" using assms(2) by (simp add: stack_means_def)
  then have "db_stacks e ! k = db_stacks d ! k" "k < length (db_stacks e)"
    using ext by (simp_all add: dext_def grows_def)
  moreover have "list_all2 (location_means e p look) xs ys" if "list_all2 (location_means d p look) xs ys" for xs ys
    using that location_means_ext [OF ext] by (rule list_all2_mono)
  ultimately show ?thesis using assms(2) unfolding stack_means_def by simp
qed

lemma intern_locations_step:
  "intern_locations env p look is d = (js, d') \<Longrightarrow> dict_ok d \<Longrightarrow>
   dict_ok d' \<and> dext d d' \<and>
   list_all2 (location_means d' p look) (List.map_filter (map_of (sk_locations look)) is) js"
proof (induction "is" arbitrary: d js)
  case Nil
  then show ?case by simp
next
  case (Cons i rest)
  show ?case
  proof (cases "map_of (sk_locations look) i")
    case None
    with Cons show ?thesis by simp
  next
    case (Some lo)
    obtain j d1 where j: "intern_location env p look lo d = (j, d1)" by (rule prod.exhaust)
    obtain js' d2 where r: "intern_locations env p look rest d1 = (js', d2)" by (rule prod.exhaust)
    note j1 = intern_location_step [OF j Cons.prems(2)]
    have eq: "js = j # js'" "d' = d2" using Cons.prems(1) Some j r by simp_all
    from Cons.IH [of d1 js'] r j1 eq have IH: "dict_ok d' \<and> dext d1 d' \<and>
        list_all2 (location_means d' p look) (List.map_filter (map_of (sk_locations look)) rest) js'" by simp
    then have "dext d1 d'" by blast
    from location_means_ext [OF this] j1 IH Some show ?thesis by (auto simp: eq(1) intro: dext_trans)
  qed
qed

lemma intern_stacks_step:
  "intern_stacks env p look ss d = (ks, d') \<Longrightarrow> dict_ok d \<Longrightarrow>
   dict_ok d' \<and> dext d d' \<and> list_all2 (stack_means d' p look) ss ks"
proof (induction ss arbitrary: d ks)
  case Nil
  then show ?case by simp
next
  case (Cons s rest)
  obtain locs d1 where l: "intern_locations env p look (ps_location_id s) d = (locs, d1)" by (rule prod.exhaust)
  obtain k d2 where k: "intern_stack locs d1 = (k, d2)" by (rule prod.exhaust)
  obtain ks' d3 where r: "intern_stacks env p look rest d2 = (ks', d3)" by (rule prod.exhaust)
  note l1 = intern_locations_step [OF l Cons.prems(2)]
  note k2 = intern_stack_step [OF k conjunct1 [OF l1]]
  have eq: "ks = k # ks'" "d' = d3" using Cons.prems(1) l k r by simp_all
  from Cons.IH [of d2 ks'] r k2 eq have IH: "dict_ok d' \<and> dext d2 d' \<and>
      list_all2 (stack_means d' p look) rest ks'" by simp
  have "dext d1 d2" using k2 by blast
  then have "list_all2 (location_means d2 p look)
      (List.map_filter (map_of (sk_locations look)) (ps_location_id s)) locs"
    using l1 location_means_ext by (blast intro: list_all2_mono)
  with k2 have "stack_means d2 p look s k" by (simp add: stack_means_def)
  moreover have "dext d2 d'" using IH by blast
  ultimately have "stack_means d' p look s k" by (blast intro: stack_means_ext)
  with IH l1 k2 show ?case by (auto simp: eq(1) intro: dext_trans)
qed

text \<open>What a pprof label says; a label without a key says nothing.\<close>

definition label_attribute :: "pprof \<Rightarrow> label \<Rightarrow> (string \<times> any_value \<times> string) option" where
  "label_attribute p lb =
     (let key = pprof_string p (lb_key lb)
      in if key = [] then None
         else if lb_str lb \<noteq> 0 then Some (key, String_Value (pprof_string p (lb_str lb)), [])
         else Some (key, Int_Value (lb_num lb), pprof_string p (lb_num_unit lb)))"

lemma intern_label_step:
  assumes "intern_pprof_label p lb d = (i, d')" "dict_ok d"
  shows "dict_ok d' \<and> dext d d' \<and> rel_option (attribute_means d') (label_attribute p lb) i"
  using assms
  by (auto simp: intern_pprof_label_def label_attribute_def Let_def split: if_splits prod.splits
      dest: intern_attribute_string_step intern_attribute_i64_step)

definition labels_mean :: "dictionary_builder \<Rightarrow> pprof \<Rightarrow> pp_sample \<Rightarrow> nat list \<Rightarrow> bool" where
  "labels_mean d p s attrs \<longleftrightarrow>
     list_all2 (attribute_means d) (List.map_filter (label_attribute p) (ps_label s)) attrs"

lemma labels_mean_ext: "dext d e \<Longrightarrow> labels_mean d p s attrs \<Longrightarrow> labels_mean e p s attrs"
  unfolding labels_mean_def using attribute_means_ext by (blast intro: list_all2_mono)

lemma intern_labels_step:
  "intern_labels p lbs d = (is, d') \<Longrightarrow> dict_ok d \<Longrightarrow>
   dict_ok d' \<and> dext d d' \<and> list_all2 (attribute_means d') (List.map_filter (label_attribute p) lbs) is"
proof (induction lbs arbitrary: d "is")
  case Nil
  then show ?case by simp
next
  case (Cons lb rest)
  obtain i d1 where i: "intern_pprof_label p lb d = (i, d1)" by (rule prod.exhaust)
  obtain js d2 where r: "intern_labels p rest d1 = (js, d2)" by (rule prod.exhaust)
  note i1 = intern_label_step [OF i Cons.prems(2)]
  have eq: "is = (case i of None \<Rightarrow> js | Some j \<Rightarrow> j # js)" "d' = d2" using Cons.prems(1) i r by simp_all
  from Cons.IH [of d1 js] r i1 eq have IH: "dict_ok d' \<and> dext d1 d' \<and>
      list_all2 (attribute_means d') (List.map_filter (label_attribute p) rest) js" by simp
  then have ext: "dext d1 d'" by blast
  from i1 have "rel_option (attribute_means d1) (label_attribute p lb) i" by blast
  then have "list_all2 (attribute_means d') (List.map_filter (label_attribute p) (lb # rest)) is"
    using IH attribute_means_ext [OF ext] by (cases rule: option.rel_cases) (auto simp: eq(1) List.map_filter_simps)
  with IH i1 show ?case by (blast intro: dext_trans)
qed

section \<open>Samples\<close>

text \<open>The conversion as two passes: the attributes of every sample are interned, then the rows are
  collected.\<close>

type_synonym otlp_row = "nat \<times> nat list \<times> i64 \<times> u64 option"

fun label_rows ::
  "pprof \<Rightarrow> nat \<Rightarrow> (pp_sample \<times> nat \<times> u64 option) list \<Rightarrow> dictionary_builder \<Rightarrow>
   otlp_row list \<times> dictionary_builder" where
  "label_rows p si [] d = ([], d)"
| "label_rows p si ((s, stack, stamp) # rest) d =
     (let (attrs, d1) = intern_labels p (ps_label s) d; (rows, d2) = label_rows p si rest d1
      in ((stack, attrs, nth_or_zero (ps_value s) si, stamp) # rows, d2))"

definition add_row :: "otlp_row \<Rightarrow> otlp_sample list \<times> sample_groups \<Rightarrow> otlp_sample list \<times> sample_groups" where
  "add_row r = (case r of (stack, attrs, val, stamp) \<Rightarrow> add_otlp_sample stack attrs val stamp)"

lemma convert_samples_rows:
  "convert_samples p si inputs state d =
     (fst (fold add_row (fst (label_rows p si inputs d)) state), snd (label_rows p si inputs d))"
  by (induction p si inputs state d rule: convert_samples.induct)
    (simp_all add: Let_def add_row_def split: prod.splits)

definition row_means ::
  "dictionary_builder \<Rightarrow> pprof \<Rightarrow> nat \<Rightarrow> pp_sample \<times> nat \<times> u64 option \<Rightarrow> otlp_row \<Rightarrow> bool" where
  "row_means d p si x r \<longleftrightarrow>
     (case x of (s, stack, stamp) \<Rightarrow> case r of (stack', attrs, val, stamp') \<Rightarrow>
        stack' = stack \<and> stamp' = stamp \<and> val = nth_or_zero (ps_value s) si \<and> labels_mean d p s attrs)"

lemma row_means_ext: "dext d e \<Longrightarrow> row_means d p si x r \<Longrightarrow> row_means e p si x r"
  by (auto simp: row_means_def intro: labels_mean_ext split: prod.splits)

lemma label_rows_step:
  "label_rows p si xs d = (rows, d') \<Longrightarrow> dict_ok d \<Longrightarrow>
   dict_ok d' \<and> dext d d' \<and> list_all2 (row_means d' p si) xs rows"
proof (induction p si xs d arbitrary: rows rule: label_rows.induct)
  case (1 p si d)
  then show ?case by simp
next
  case (2 p si s stack stamp rest d)
  obtain attrs d1 where a: "intern_labels p (ps_label s) d = (attrs, d1)" by (rule prod.exhaust)
  obtain rows' d2 where r: "label_rows p si rest d1 = (rows', d2)" by (rule prod.exhaust)
  note a1 = intern_labels_step [OF a "2.prems"(2)]
  have eq: "rows = (stack, attrs, nth_or_zero (ps_value s) si, stamp) # rows'" "d' = d2"
    using "2.prems"(1) a r by simp_all
  have IH: "dict_ok d2 \<and> dext d1 d2 \<and> list_all2 (row_means d2 p si) rest rows'"
    using "2.IH" [OF a [symmetric] refl] r a1 by (simp add: eq)
  then have "row_means d2 p si (s, stack, stamp) (hd rows)"
    using a1 labels_mean_ext [of d1 d2] by (simp add: row_means_def eq labels_mean_def)
  with IH a1 show ?case by (auto simp: eq intro: dext_trans)
qed

text \<open>Without timestamps every row is a sample of its own.\<close>

definition plain_row :: "otlp_row \<Rightarrow> otlp_sample" where
  "plain_row r = (case r of (stack, attrs, val, stamp) \<Rightarrow> new_otlp_sample stack attrs val [])"

definition row_stamp :: "otlp_row \<Rightarrow> u64 option" where
  "row_stamp r = (case r of (stack, attrs, val, stamp) \<Rightarrow> stamp)"

lemma plain_rows:
  "\<forall>r \<in> set rows. row_stamp r = None \<Longrightarrow>
   fold add_row rows (samples, groups) = (samples @ map plain_row rows, groups)"
  by (induction rows arbitrary: samples)
    (auto simp: add_row_def add_otlp_sample_def plain_row_def row_stamp_def)

text \<open>On the timeline the rows with one stack and one list of attributes share a sample, which holds
  their values and their timestamps in the order of the rows.\<close>

definition row_key :: "otlp_row \<Rightarrow> nat \<times> nat list" where
  "row_key r = (case r of (stack, attrs, val, stamp) \<Rightarrow> (stack, attrs))"

definition row_point :: "otlp_row \<Rightarrow> i64 \<times> u64" where
  "row_point r = (case r of (stack, attrs, val, stamp) \<Rightarrow> (val, the stamp))"

definition sample_key :: "otlp_sample \<Rightarrow> nat \<times> nat list" where
  "sample_key s = (os_stack_index s, os_attribute_indices s)"

definition holds_points :: "otlp_row list \<Rightarrow> otlp_sample \<Rightarrow> bool" where
  "holds_points rows s \<longleftrightarrow>
     length (os_timestamps_unix_nano s) = length (os_values s) \<and>
     zip (os_values s) (os_timestamps_unix_nano s) =
       map row_point (filter (\<lambda>r. row_key r = sample_key s) rows)"

definition group_key :: "nat \<times> nat list \<times> nat \<Rightarrow> otlp_sample \<Rightarrow> bool" where
  "group_key k s \<longleftrightarrow> k = (os_stack_index s, os_attribute_indices s, 0)"

definition groups_ok :: "otlp_row list \<Rightarrow> otlp_sample list \<times> sample_groups \<Rightarrow> bool" where
  "groups_ok rows state \<longleftrightarrow>
     keyed group_key 0 (map_of (snd state)) (fst state) \<and>
     (\<forall>s \<in> set (fst state). holds_points rows s) \<and>
     sample_key ` set (fst state) = row_key ` set rows"

lemma keyed_replace:
  assumes "keyed P b m xs" "\<And>k. P k (xs ! i) \<Longrightarrow> P k y"
  shows "keyed P b m (xs[i := y])"
proof -
  have "P k (xs[i := y] ! j)" if "m k = Some j" for k j
  proof (cases "j = i")
    case True
    with keyed_found [OF assms(1) that] assms(2) show ?thesis by simp
  next
    case False
    with keyed_found [OF assms(1) that] show ?thesis by simp
  qed
  with assms(1) show ?thesis unfolding keyed_def by simp
qed

lemma groups_ok_known:
  assumes ok: "groups_ok rows (samples, groups)" and found: "map_of groups (stack, attrs, 0) = Some i"
    and s': "s' = (samples ! i)\<lparr>os_values := os_values (samples ! i) @ [v],
      os_timestamps_unix_nano := os_timestamps_unix_nano (samples ! i) @ [t]\<rparr>"
  shows "groups_ok (rows @ [(stack, attrs, v, Some t)]) (samples[i := s'], groups)"
proof -
  have kd: "keyed group_key 0 (map_of groups) samples" using ok by (simp add: groups_ok_def)
  from keyed_found [OF kd found] have i: "i < length samples" "sample_key (samples ! i) = (stack, attrs)"
    by (simp_all add: group_key_def sample_key_def)
  have key: "sample_key s' = (stack, attrs)" using i(2) by (simp add: s' sample_key_def)
  have "group_key k s'" if "group_key k (samples ! i)" for k
    using that by (simp add: group_key_def s')
  note kd' = keyed_replace [OF kd this]
  have pts: "holds_points (rows @ [(stack, attrs, v, Some t)]) s" if "s \<in> set (samples[i := s'])" for s
  proof -
    from that obtain j where j: "j < length samples" "s = samples[i := s'] ! j"
      by (auto simp: in_set_conv_nth)
    have old: "holds_points rows (samples ! j)" using ok j(1) by (simp add: groups_ok_def)
    show ?thesis
    proof (cases "j = i")
      case True
      with old j i key show ?thesis by (simp add: holds_points_def row_key_def row_point_def) (simp add: s')
    next
      case False
      have "sample_key (samples ! j) \<noteq> (stack, attrs)"
      proof
        assume eq: "sample_key (samples ! j) = (stack, attrs)"
        have "indexed 0 (map_of groups) (length samples)" using kd by (simp add: keyed_def)
        from indexed_key [OF this, of j] j(1) obtain k where k: "map_of groups k = Some j" by auto
        with keyed_found [OF kd k] eq have "k = (stack, attrs, 0)" by (simp add: group_key_def sample_key_def)
        with k found False show False by simp
      qed
      with False old j show ?thesis by (simp add: holds_points_def row_key_def)
    qed
  qed
  have "map sample_key (samples[i := s']) = map sample_key samples"
    using i key by (simp add: map_update) (metis list_update_id map_update nth_map)
  then have "sample_key ` set (samples[i := s']) = sample_key ` set samples" by (metis list.set_map)
  moreover have "(stack, attrs) \<in> sample_key ` set samples" using i by (metis image_eqI nth_mem)
  moreover have "sample_key ` set samples = row_key ` set rows" using ok by (simp add: groups_ok_def)
  moreover have "row_key (stack, attrs, v, Some t) = (stack, attrs)" by (simp add: row_key_def)
  ultimately have "sample_key ` set (samples[i := s']) = row_key ` set (rows @ [(stack, attrs, v, Some t)])"
    by (simp add: insert_absorb)
  with kd' pts show ?thesis by (simp add: groups_ok_def)
qed

lemma groups_ok_fresh:
  assumes ok: "groups_ok rows (samples, groups)" and none: "map_of groups (stack, attrs, 0) = None"
  shows "groups_ok (rows @ [(stack, attrs, v, Some t)])
    (samples @ [new_otlp_sample stack attrs v [t]], AList.update (stack, attrs, 0) (length samples) groups)"
proof -
  let ?s = "new_otlp_sample stack attrs v [t]"
  have kd: "keyed group_key 0 (map_of groups) samples" using ok by (simp add: groups_ok_def)
  have gk: "group_key (stack, attrs, 0) ?s" by (simp add: group_key_def new_otlp_sample_def)
  have no_sample: "(stack, attrs) \<notin> sample_key ` set samples"
  proof
    assume "(stack, attrs) \<in> sample_key ` set samples"
    then obtain j where j: "j < length samples" "sample_key (samples ! j) = (stack, attrs)"
      by (auto simp: in_set_conv_nth image_iff)
    have "indexed 0 (map_of groups) (length samples)" using kd by (simp add: keyed_def)
    from indexed_key [OF this, of j] j(1) obtain k where k: "map_of groups k = Some j" by auto
    with keyed_found [OF kd k] j have "k = (stack, attrs, 0)" by (simp add: group_key_def sample_key_def)
    with k none show False by simp
  qed
  then have no_row: "(stack, attrs) \<notin> row_key ` set rows" using ok by (simp add: groups_ok_def)
  then have "filter (\<lambda>r. row_key r = (stack, attrs)) rows = []"
    unfolding filter_empty_conv by (metis image_eqI)
  then have new: "holds_points (rows @ [(stack, attrs, v, Some t)]) ?s"
    by (simp add: holds_points_def new_otlp_sample_def sample_key_def row_key_def row_point_def)
  have "holds_points (rows @ [(stack, attrs, v, Some t)]) s" if "s \<in> set samples" for s
    using ok that no_sample by (force simp: groups_ok_def holds_points_def row_key_def)
  then have pts: "\<forall>s \<in> set (samples @ [?s]). holds_points (rows @ [(stack, attrs, v, Some t)]) s"
    using new by auto
  have "keyed group_key 0 (map_of (AList.update (stack, attrs, 0) (length samples) groups)) (samples @ [?s])"
    using keyed_push [OF kd none gk] by (simp add: update_conv')
  with pts ok show ?thesis
    by (simp add: groups_ok_def) (simp add: sample_key_def new_otlp_sample_def row_key_def insert_commute)
qed

lemma groups_ok_row:
  assumes "groups_ok rows st" "row_stamp r = Some t"
  shows "groups_ok (rows @ [r]) (add_row r st)"
proof -
  obtain samples groups where st: "st = (samples, groups)" by (rule prod.exhaust)
  obtain stack attrs v where r: "r = (stack, attrs, v, Some t)"
    using assms(2) by (cases r) (auto simp: row_stamp_def)
  show ?thesis
  proof (cases "map_of groups (stack, attrs, 0)")
    case None
    with groups_ok_fresh [OF assms(1) [unfolded st] None] show ?thesis
      by (simp add: st r add_row_def add_otlp_sample_def Let_def del: map_of_eq_None_iff)
  next
    case (Some i)
    from groups_ok_known [OF assms(1) [unfolded st] Some refl] show ?thesis
      by (simp add: st r add_row_def add_otlp_sample_def Let_def Some)
  qed
qed

lemma groups_ok_rows:
  "groups_ok done_rows st \<Longrightarrow> \<forall>r \<in> set rows. row_stamp r \<noteq> None \<Longrightarrow>
   groups_ok (done_rows @ rows) (fold add_row rows st)"
proof (induction rows arbitrary: done_rows st)
  case Nil
  then show ?case by simp
next
  case (Cons r rows)
  from Cons.prems(2) obtain t where "row_stamp r = Some t" by auto
  from groups_ok_row [OF Cons.prems(1) this] Cons.IH [of "done_rows @ [r]" "add_row r st"] Cons.prems(2)
  show ?case by simp
qed

lemma group_keys_distinct:
  assumes "groups_ok rows (samples, groups)"
  shows "distinct (map sample_key samples)"
  unfolding distinct_conv_nth
proof (intro allI impI)
  fix i j
  assume ij: "i < length (map sample_key samples)" "j < length (map sample_key samples)" "i \<noteq> j"
  have kd: "keyed group_key 0 (map_of groups) samples" using assms by (simp add: groups_ok_def)
  then have ix: "indexed 0 (map_of groups) (length samples)" by (simp add: keyed_def)
  obtain k l where kl: "map_of groups k = Some i" "map_of groups l = Some j"
    using indexed_key [OF ix, of i] indexed_key [OF ix, of j] ij by auto
  then have "group_key k (samples ! i)" "group_key l (samples ! j)" using keyed_found [OF kd] by blast+
  then show "map sample_key samples ! i \<noteq> map sample_key samples ! j"
    using kl ij by (auto simp: group_key_def sample_key_def)
qed

text \<open>The samples of a timeline profile, from its rows.\<close>

definition grouped_samples :: "otlp_row list \<Rightarrow> otlp_sample list \<Rightarrow> bool" where
  "grouped_samples rows samples \<longleftrightarrow>
     distinct (map sample_key samples) \<and> sample_key ` set samples = row_key ` set rows \<and>
     (\<forall>s \<in> set samples. holds_points rows s)"

lemma timeline_rows:
  assumes "\<forall>r \<in> set rows. row_stamp r \<noteq> None"
  shows "grouped_samples rows (fst (fold add_row rows ([], [])))"
proof -
  have "groups_ok [] ([], [])" by (simp add: groups_ok_def keyed_def)
  from groups_ok_rows [OF this assms] have ok: "groups_ok rows (fold add_row rows ([], []))" by simp
  moreover obtain samples groups where st: "fold add_row rows ([], []) = (samples, groups)"
    by (rule prod.exhaust)
  ultimately show ?thesis
    using group_keys_distinct [of rows samples groups] by (simp add: grouped_samples_def groups_ok_def)
qed

section \<open>Profiles\<close>

definition otlp_type_is :: "dictionary_builder \<Rightarrow> pprof \<Rightarrow> value_type \<Rightarrow> otlp_value_type \<Rightarrow> bool" where
  "otlp_type_is d p t o' \<longleftrightarrow>
     sref d (ov_type_strindex o') (pprof_string p (vt_type t)) \<and>
     sref d (ov_unit_strindex o') (pprof_string p (vt_unit t))"

lemma otlp_type_is_ext: "dext d e \<Longrightarrow> otlp_type_is d p t o' \<Longrightarrow> otlp_type_is e p t o'"
  by (auto simp: otlp_type_is_def intro: sref_ext)

lemma otlp_value_type_step:
  assumes "otlp_value_type_of p t d = (o', d')" "dict_ok d"
  shows "dict_ok d' \<and> dext d d' \<and> otlp_type_is d' p t o'"
proof -
  obtain k d1 where s1: "intern_string (pprof_string p (vt_type t)) d = (k, d1)" by (rule prod.exhaust)
  obtain u d2 where s2: "intern_string (pprof_string p (vt_unit t)) d1 = (u, d2)" by (rule prod.exhaust)
  note r1 = intern_string_step [OF s1 assms(2)]
  note r2 = intern_string_step [OF s2 conjunct1 [OF r1]]
  have "o' = \<lparr>ov_type_strindex = k, ov_unit_strindex = u\<rparr>" "d' = d2"
    using assms(1) s1 s2 by (simp_all add: otlp_value_type_of_def)
  with r1 r2 show ?thesis by (auto simp: otlp_type_is_def intro: sref_ext dext_trans)
qed

text \<open>The rows of a profile: for each of its samples the stack, the attributes, the value of the type
  and, on the timeline, the time.\<close>

definition sample_row ::
  "dictionary_builder \<Rightarrow> pprof \<Rightarrow> nat \<Rightarrow> pp_sample \<Rightarrow> otlp_row \<Rightarrow> bool" where
  "sample_row d p si s r \<longleftrightarrow>
     (case r of (stack, attrs, val, stamp) \<Rightarrow>
        stack_means d p (source_lookup_of p) s stack \<and> labels_mean d p s attrs \<and>
        val = nth_or_zero (ps_value s) si)"

lemma sample_row_ext: "dext d e \<Longrightarrow> sample_row d p si s r \<Longrightarrow> sample_row e p si s r"
  by (auto simp: sample_row_def intro: stack_means_ext labels_mean_ext split: prod.splits)

definition profile_samples ::
  "dictionary_builder \<Rightarrow> pprof \<Rightarrow> u64 list option \<Rightarrow> nat \<Rightarrow> otlp_sample list \<Rightarrow> bool" where
  "profile_samples d p stamps si samples \<longleftrightarrow>
     (\<exists>rows. list_all2 (sample_row d p si) (pp_samples p) rows \<and>
        (case stamps of
           None \<Rightarrow> samples = map plain_row rows
         | Some ts \<Rightarrow> map row_stamp rows = map Some ts \<and> grouped_samples rows samples))"

lemma profile_samples_ext:
  assumes "dext d e" "profile_samples d p stamps si samples"
  shows "profile_samples e p stamps si samples"
proof -
  have "list_all2 (sample_row e p si) xs rows" if "list_all2 (sample_row d p si) xs rows" for xs rows
    using that sample_row_ext [OF assms(1)] by (rule list_all2_mono)
  with assms(2) show ?thesis unfolding profile_samples_def by blast
qed

definition profile_means ::
  "dictionary_builder \<Rightarrow> pprof \<Rightarrow> u64 list option \<Rightarrow> nat \<Rightarrow> otlp_profile \<Rightarrow> bool" where
  "profile_means d p stamps si pr \<longleftrightarrow>
     rel_option (otlp_type_is d p) (Some (pp_sample_type p ! si)) (op_sample_type pr) \<and>
     rel_option (otlp_type_is d p) (pp_period_type p) (op_period_type pr) \<and>
     op_period pr = pp_period p \<and> op_time_unix_nano pr = u64_of_i64 (pp_time_nanos p) \<and>
     op_duration_nano pr = u64_of_i64 (pp_duration_nanos p) \<and>
     profile_samples d p stamps si (op_samples pr)"

lemma profile_means_ext:
  assumes ext: "dext d e" and means: "profile_means d p stamps si pr"
  shows "profile_means e p stamps si pr"
proof -
  have "rel_option (otlp_type_is e p) a b" if "rel_option (otlp_type_is d p) a b" for a b
    using that otlp_type_is_ext [OF ext] by (rule option.rel_mono_strong)
  with means profile_samples_ext [OF ext] show ?thesis unfolding profile_means_def by blast
qed

lemma sample_inputs_rows:
  assumes stacks: "list_all2 (stack_means d p (source_lookup_of p)) (pp_samples p) stacks"
    and rows: "list_all2 (row_means d p si) (sample_inputs p stacks stamps) rows"
    and count: "\<And>ts. stamps = Some ts \<Longrightarrow> length ts = length (pp_samples p)"
  shows "list_all2 (sample_row d p si) (pp_samples p) rows \<and>
    map row_stamp rows = (case stamps of None \<Rightarrow> replicate (length (pp_samples p)) None | Some ts \<Rightarrow> map Some ts)"
proof -
  have len: "length stacks = length (pp_samples p)" using stacks by (simp add: list_all2_lengthD)
  then have lens: "length (sample_inputs p stacks stamps) = length (pp_samples p)"
    by (simp add: sample_inputs_def)
  have nth: "sample_inputs p stacks stamps ! i = (pp_samples p ! i, stacks ! i, map_option (\<lambda>ts. ts ! i) stamps)"
    if "i < length (pp_samples p)" for i
    using that len by (simp add: sample_inputs_def nth_enumerate_eq)
  have lr: "length rows = length (pp_samples p)" using rows lens by (simp add: list_all2_lengthD)
  have row: "row_means d p si (pp_samples p ! i, stacks ! i, map_option (\<lambda>ts. ts ! i) stamps) (rows ! i)"
    if "i < length (pp_samples p)" for i
    using list_all2_nthD [OF rows, of i] that nth lens by simp
  have "sample_row d p si (pp_samples p ! i) (rows ! i)" if "i < length (pp_samples p)" for i
    using row [OF that] list_all2_nthD [OF stacks that]
    by (cases "rows ! i") (simp add: row_means_def sample_row_def)
  then have "list_all2 (sample_row d p si) (pp_samples p) rows"
    using lr by (simp add: list_all2_conv_all_nth)
  moreover have "row_stamp (rows ! i) = map_option (\<lambda>ts. ts ! i) stamps" if "i < length (pp_samples p)" for i
    using row [OF that] by (cases "rows ! i") (simp add: row_means_def row_stamp_def)
  then have "map row_stamp rows = (case stamps of None \<Rightarrow> replicate (length (pp_samples p)) None | Some ts \<Rightarrow> map Some ts)"
    using lr count by (auto intro!: nth_equalityI split: option.splits)
  ultimately show ?thesis by simp
qed

lemma converted_samples:
  assumes run: "convert_samples p si (sample_inputs p stacks stamps) ([], []) d = (samples, d')" and ok: "dict_ok d"
    and stacks: "list_all2 (stack_means d p (source_lookup_of p)) (pp_samples p) stacks"
    and count: "\<And>ts. stamps = Some ts \<Longrightarrow> length ts = length (pp_samples p)"
  shows "dict_ok d' \<and> dext d d' \<and> profile_samples d' p stamps si samples"
proof -
  obtain rows d1 where r: "label_rows p si (sample_inputs p stacks stamps) d = (rows, d1)" by (rule prod.exhaust)
  note r1 = label_rows_step [OF r ok]
  have eq: "samples = fst (fold add_row rows ([], []))" "d' = d1"
    using run r by (simp_all add: convert_samples_rows)
  have "dext d d1" using r1 by blast
  then have "list_all2 (stack_means d1 p (source_lookup_of p)) (pp_samples p) stacks"
    using stacks stack_means_ext by (blast intro: list_all2_mono)
  from sample_inputs_rows [OF this _ count] r1
  have rows: "list_all2 (sample_row d1 p si) (pp_samples p) rows"
    "map row_stamp rows = (case stamps of None \<Rightarrow> replicate (length (pp_samples p)) None | Some ts \<Rightarrow> map Some ts)"
    by blast+
  have "profile_samples d1 p stamps si samples"
  proof (cases stamps)
    case None
    then have "row_stamp r = None" if "r \<in> set rows" for r
      using rows(2) that by (metis image_eqI in_set_replicate list.set_map option.case(1))
    then have "samples = map plain_row rows" using plain_rows [of rows "[]" "[]"] by (simp add: eq)
    with rows(1) None show ?thesis by (auto simp: profile_samples_def)
  next
    case (Some ts)
    with rows(2) have st: "map row_stamp rows = map Some ts" by simp
    then have "row_stamp r \<noteq> None" if "r \<in> set rows" for r
      using that by (metis (no_types, lifting) ex_map_conv image_eqI list.set_map option.distinct(1))
    with timeline_rows [of rows] rows(1) st Some show ?thesis by (auto simp: profile_samples_def eq)
  qed
  with r1 show ?thesis by (simp add: eq)
qed

lemma convert_profile_step:
  assumes run: "convert_profile random p si stacks stamps d = (res, d')" and ok: "dict_ok d"
    and si: "si < length (pp_sample_type p)"
    and stacks: "list_all2 (stack_means d p (source_lookup_of p)) (pp_samples p) stacks"
    and count: "\<And>ts. stamps = Some ts \<Longrightarrow> length ts = length (pp_samples p)"
  shows "dict_ok d' \<and> dext d d' \<and>
    (case res of Inl e \<Rightarrow> e = Profile_Id_Failed \<and> random = None
     | Inr pr \<Rightarrow> random = Some (op_profile_id pr) \<and> profile_means d' p stamps si pr)"
proof -
  obtain t d1 where t: "otlp_value_type_of p (pp_sample_type p ! si) d = (t, d1)" by (rule prod.exhaust)
  obtain pt d2 where pt: "(case pp_period_type p of None \<Rightarrow> (None, d1)
      | Some v \<Rightarrow> (let (x, d') = otlp_value_type_of p v d1 in (Some x, d'))) = (pt, d2)" by (rule prod.exhaust)
  obtain samples d3 where s: "convert_samples p si (sample_inputs p stacks stamps) ([], []) d2 = (samples, d3)"
    by (rule prod.exhaust)
  note t1 = otlp_value_type_step [OF t ok]
  have pt2: "dict_ok d2 \<and> dext d1 d2 \<and> rel_option (otlp_type_is d2 p) (pp_period_type p) pt"
    using pt t1 by (auto split: option.splits prod.splits dest: otlp_value_type_step)
  have "dext d d2" using t1 pt2 by (blast intro: dext_trans)
  then have stacks2: "list_all2 (stack_means d2 p (source_lookup_of p)) (pp_samples p) stacks"
    using stacks stack_means_ext by (blast intro: list_all2_mono)
  note s3 = converted_samples [OF s conjunct1 [OF pt2] stacks2 count]
  then have ext23: "dext d2 d3" by blast
  have "otlp_type_is d3 p (pp_sample_type p ! si) t"
    using t1 pt2 ext23 by (blast intro: otlp_type_is_ext)
  moreover have "rel_option (otlp_type_is d3 p) (pp_period_type p) pt"
    using pt2 otlp_type_is_ext [OF ext23] by (blast intro: option.rel_mono_strong)
  ultimately have means: "profile_means d3 p stamps si
      \<lparr>op_sample_type = Some t, op_samples = samples, op_time_unix_nano = u64_of_i64 (pp_time_nanos p),
       op_duration_nano = u64_of_i64 (pp_duration_nanos p), op_period_type = pt,
       op_period = pp_period p, op_profile_id = pid, op_dropped_attributes_count = 0,
       op_original_payload_format = [], op_original_payload = [], op_attribute_indices = []\<rparr>" for pid
    using s3 by (simp add: profile_means_def)
  have "dext d d3" using \<open>dext d d2\<close> ext23 by (rule dext_trans)
  with run si t pt s s3 means show ?thesis
    by (cases random) (auto simp: convert_profile_def Let_def)
qed

lemma convert_types_step:
  assumes "convert_types random p stacks stamps sis n d = (res, n', d')" "dict_ok d"
    and "\<forall>si \<in> set sis. si < length (pp_sample_type p)"
    and "list_all2 (stack_means d p (source_lookup_of p)) (pp_samples p) stacks"
    and "\<And>ts. stamps = Some ts \<Longrightarrow> length ts = length (pp_samples p)"
  shows "dict_ok d' \<and> dext d d' \<and>
    (case res of Inl e \<Rightarrow> e = Profile_Id_Failed \<and> (\<exists>k. random k = None)
     | Inr prs \<Rightarrow> n' = n + length sis \<and> list_all2 (profile_means d' p stamps) sis prs)"
  using assms
proof (induction sis arbitrary: n d res n' d')
  case Nil
  then show ?case by auto
next
  case (Cons si sis)
  obtain r d1 where c: "convert_profile (random n) p si stacks stamps d = (r, d1)" by (rule prod.exhaust)
  note c1 = convert_profile_step [OF c Cons.prems(2) _ Cons.prems(4,5)]
  then have c1: "dict_ok d1 \<and> dext d d1 \<and> (case r of Inl e \<Rightarrow> e = Profile_Id_Failed \<and> random n = None
     | Inr pr \<Rightarrow> random n = Some (op_profile_id pr) \<and> profile_means d1 p stamps si pr)"
    using Cons.prems(3) by auto
  show ?case
  proof (cases r)
    case (Inl e)
    with Cons.prems(1) c c1 show ?thesis by auto
  next
    case (Inr pr)
    obtain res2 n2 d2 where r: "convert_types random p stacks stamps sis (Suc n) d1 = (res2, n2, d2)"
      by (metis prod.exhaust)
    have "dext d d1" using c1 by blast
    then have "list_all2 (stack_means d1 p (source_lookup_of p)) (pp_samples p) stacks"
      using Cons.prems(4) stack_means_ext by (blast intro: list_all2_mono)
    note IH = Cons.IH [OF r conjunct1 [OF c1] _ this Cons.prems(5)]
    then have IH: "dict_ok d2 \<and> dext d1 d2 \<and>
        (case res2 of Inl e \<Rightarrow> e = Profile_Id_Failed \<and> (\<exists>k. random k = None)
         | Inr prs \<Rightarrow> n2 = Suc n + length sis \<and> list_all2 (profile_means d2 p stamps) sis prs)"
      using Cons.prems(3) by auto
    have "dext d1 d2" using IH by blast
    then have pm: "profile_means d2 p stamps si pr"
      using c1 Inr by (auto intro: profile_means_ext)
    have ext: "dext d d2" using \<open>dext d d1\<close> \<open>dext d1 d2\<close> by (rule dext_trans)
    show ?thesis
    proof (cases res2)
      case (Inl e)
      with Cons.prems(1) c Inr r IH ext show ?thesis by auto
    next
      case (Inr prs)
      with Cons.prems(1) c \<open>r = Inr pr\<close> r IH ext pm show ?thesis by auto
    qed
  qed
qed

text \<open>One scope per profile, one OTLP profile per sample type.\<close>

definition scope_means :: "dictionary_builder \<Rightarrow> pprof \<times> u64 list option \<Rightarrow> scope_profiles \<Rightarrow> bool" where
  "scope_means d input sc \<longleftrightarrow>
     list_all2 (profile_means d (fst input) (snd input)) [0..<length (pp_sample_type (fst input))]
       (sp_profiles sc)"

lemma scope_means_ext: "dext d e \<Longrightarrow> scope_means d x sc \<Longrightarrow> scope_means e x sc"
  unfolding scope_means_def using profile_means_ext by (blast intro: list_all2_mono)

definition bad_timeline :: "pprof \<times> u64 list option \<Rightarrow> bool" where
  "bad_timeline x \<longleftrightarrow> (case snd x of None \<Rightarrow> False | Some ts \<Rightarrow> length ts \<noteq> length (pp_samples (fst x)))"

definition profile_count :: "(pprof \<times> u64 list option) list \<Rightarrow> nat" where
  "profile_count inputs = sum_list (map (\<lambda>x. length (pp_sample_type (fst x))) inputs)"

lemma encode_scopes_step:
  "encode_scopes version env random inputs n d = (res, n', d') \<Longrightarrow> dict_ok d \<Longrightarrow>
   dict_ok d' \<and> dext d d' \<and>
   (case res of
      Inl e \<Rightarrow> e = Timeline_Count \<and> (\<exists>x \<in> set inputs. bad_timeline x) \<or>
              e = Profile_Id_Failed \<and> (\<exists>k. random k = None)
    | Inr scopes \<Rightarrow> n' = n + profile_count inputs \<and> list_all2 (scope_means d') inputs scopes)"
proof (induction inputs arbitrary: n d res n' d')
  case Nil
  then show ?case by (auto simp: profile_count_def)
next
  case (Cons x rest)
  obtain p stamps where x: "x = (p, stamps)" by (rule prod.exhaust)
  show ?case
  proof (cases "bad_timeline x")
    case True
    with Cons.prems show ?thesis by (auto simp: x bad_timeline_def split: option.splits)
  next
    case False
    then have count: "length ts = length (pp_samples p)" if "stamps = Some ts" for ts
      using that by (simp add: x bad_timeline_def)
    have good: "\<not> (case stamps of None \<Rightarrow> False | Some ts \<Rightarrow> length ts \<noteq> length (pp_samples p))"
      using False by (cases stamps) (simp_all add: x bad_timeline_def)
    obtain stacks d1 where s: "intern_stacks env p (source_lookup_of p) (pp_samples p) d = (stacks, d1)"
      by (rule prod.exhaust)
    note s1 = intern_stacks_step [OF s Cons.prems(2)]
    obtain r n2 d2 where c: "convert_types random p stacks stamps [0..<length (pp_sample_type p)] n d1 = (r, n2, d2)"
      by (metis prod.exhaust)
    have "dict_ok d2 \<and> dext d1 d2 \<and>
      (case r of Inl e \<Rightarrow> e = Profile_Id_Failed \<and> (\<exists>k. random k = None)
       | Inr prs \<Rightarrow> n2 = n + length [0..<length (pp_sample_type p)] \<and>
           list_all2 (profile_means d2 p stamps) [0..<length (pp_sample_type p)] prs)"
      by (rule convert_types_step [OF c]) (use s1 count in auto)
    note c2 = this
    have "dext d d1" "dext d1 d2" using s1 c2 by blast+
    then have ext2: "dext d d2" by (rule dext_trans)
    show ?thesis
    proof (cases r)
      case (Inl e)
      with Cons.prems(1) s c c2 ext2 good show ?thesis by (auto simp: x)
    next
      case (Inr prs)
      obtain r3 n3 d3 where e: "encode_scopes version env random rest n2 d2 = (r3, n3, d3)"
        by (metis prod.exhaust)
      note IH = Cons.IH [OF e conjunct1 [OF c2]]
      then have "dext d2 d3" by blast
      with ext2 have ext3: "dext d d3" by (rule dext_trans)
      show ?thesis
      proof (cases r3)
        case (Inl e')
        with Cons.prems(1) s c Inr e IH ext3 good show ?thesis by (auto simp: x)
      next
        case (Inr scopes)
        with Cons.prems(1) s c \<open>r = Inr prs\<close> e good obtain sc where
          eq: "res = Inr (sc # scopes)" "n' = n3" "d' = d3" "sp_profiles sc = prs"
          by (auto simp: x)
        have "scope_means d2 x sc" using c2 \<open>r = Inr prs\<close> by (simp add: scope_means_def x eq)
        then have "scope_means d3 x sc" using \<open>dext d2 d3\<close> by (blast intro: scope_means_ext)
        with IH c2 \<open>r = Inr prs\<close> Inr ext3 show ?thesis by (simp add: eq profile_count_def x)
      qed
    qed
  qed
qed

section \<open>The cache of mapping hashes\<close>

definition hash_ok :: "mapping_hash_cache \<Rightarrow> bool" where
  "hash_ok c \<longleftrightarrow>
     tab_wf (mc_entries c) \<and> distinct (mc_order c) \<and> tab_keys (mc_entries c) = set (mc_order c) \<and>
     length (mc_order c) \<le> mapping_hash_cache_capacity"

lemma hash_length: "hash_ok c \<Longrightarrow> length (mc_entries c) = length (mc_order c)"
  by (simp add: hash_ok_def length_tab_keys distinct_card)

lemma hash_store_order:
  assumes "hash_ok c"
  shows "mc_order (hash_store fi h c) =
    (if mapping_hash_cache_capacity \<le> length (mc_order c) then tl (mc_order c) else mc_order c) @ [fi]"
  using hash_length [OF assms] by (auto simp: hash_store_def Let_def split: list.split)

lemma hash_store_get:
  assumes "hash_ok c"
  shows "map_of (mc_entries (hash_store fi h c)) =
    (if mapping_hash_cache_capacity \<le> length (mc_order c)
     then (map_of (mc_entries c))(hd (mc_order c) := None) else map_of (mc_entries c))(fi \<mapsto> h)"
  using hash_length [OF assms]
  by (auto simp: hash_store_def Let_def mapping_hash_cache_capacity_def split: list.split)

lemma hash_store_ok:
  assumes ok: "hash_ok c" and new: "map_of (mc_entries c) fi = None"
  shows "hash_ok (hash_store fi h c)"
proof -
  have order: "fi \<notin> set (mc_order c)" "distinct (mc_order c)"
    and keys: "dom (map_of (mc_entries c)) = set (mc_order c)"
    using ok new by (auto simp: hash_ok_def map_of_eq_None_iff tab_keys_dom)
  have "tab_wf (mc_entries (hash_store fi h c))"
    using ok by (auto simp: hash_ok_def hash_store_def Let_def split: list.split)
  moreover have "dom (map_of (mc_entries (hash_store fi h c))) = set (mc_order (hash_store fi h c))"
    using order keys
    by (cases "mc_order c")
      (auto simp: hash_store_get [OF ok] hash_store_order [OF ok] mapping_hash_cache_capacity_def)
  moreover have "distinct (mc_order (hash_store fi h c))"
    "length (mc_order (hash_store fi h c)) \<le> mapping_hash_cache_capacity"
    using order ok
    by (cases "mc_order c", auto simp: hash_store_order [OF ok] hash_ok_def mapping_hash_cache_capacity_def)+
  ultimately show ?thesis by (simp add: hash_ok_def tab_keys_dom)
qed

interpretation hashes: fifo_cache
  "\<lambda>c. map_of (mc_entries c)" mc_order hash_store mapping_hash_cache_capacity hash_ok
proof unfold_locales
  fix c fi h
  show "0 < mapping_hash_cache_capacity" by (simp add: mapping_hash_cache_capacity_def)
  show "distinct (mc_order c)" if "hash_ok c"
    using that unfolding hash_ok_def by blast
  show "dom (map_of (mc_entries c)) = set (mc_order c)" if "hash_ok c"
    using that by (simp add: hash_ok_def tab_keys_dom)
  show "length (mc_order c) \<le> mapping_hash_cache_capacity" if "hash_ok c"
    using that unfolding hash_ok_def by blast
  show "hash_ok (hash_store fi h c)" if "hash_ok c" "map_of (mc_entries c) fi = None"
    using that by (rule hash_store_ok)
qed (rule hash_store_order hash_store_get; assumption)+

text \<open>Hashing goes through the cache: with files that do not change under one identity, the text is the
  hash of the file whether or not it was cached.\<close>

definition file_hash :: "hash_env \<Rightarrow> file_identity \<Rightarrow> u8 list \<Rightarrow> string option" where
  "file_hash env fi bytes = map_option (\<lambda>x. hex_encode (take 16 (he_sha256 env x))) (hash_input fi bytes)"

definition hash_coherent :: "hash_env \<Rightarrow> (file_identity \<Rightarrow> u8 list) \<Rightarrow> mapping_hash_cache \<Rightarrow> bool" where
  "hash_coherent env content c \<longleftrightarrow>
     hash_ok c \<and> (\<forall>fi h. map_of (mc_entries c) fi = Some h \<longrightarrow> file_hash env fi (content fi) = Some h)"

lemma htlhash_step:
  assumes run: "htlhash env start limit c = (h, c')" and ok: "hash_coherent env content c"
    and files: "\<And>fi bytes. he_open env start limit = Some (fi, bytes) \<Longrightarrow> bytes = content fi"
  shows "h = Option.bind (he_open env start limit) (\<lambda>(fi, bytes). file_hash env fi bytes) \<and>
    hash_coherent env content c'"
proof (cases "he_open env start limit")
  case None
  with run ok show ?thesis by (simp add: htlhash_def)
next
  case (Some fb)
  then obtain fi bytes where o': "he_open env start limit = Some (fi, bytes)" by (cases fb) simp
  note content = files [OF o']
  show ?thesis
  proof (cases "map_of (mc_entries c) fi")
    case (Some t)
    then have "file_hash env fi (content fi) = Some t" using ok unfolding hash_coherent_def by blast
    with run ok o' Some content show ?thesis by (simp add: htlhash_def)
  next
    case None
    show ?thesis
    proof (cases "hash_input fi bytes")
      case None
      with run ok o' \<open>map_of (mc_entries c) fi = None\<close> show ?thesis
        by (simp add: htlhash_def file_hash_def del: map_of_eq_None_iff)
    next
      case (Some input)
      let ?h = "hex_encode (take 16 (he_sha256 env input))"
      have eq: "h = Some ?h" "c' = hash_store fi ?h c"
        using run o' None Some by (simp_all add: htlhash_def Let_def del: map_of_eq_None_iff)
      have fh: "file_hash env fi (content fi) = Some ?h" using Some content by (simp add: file_hash_def)
      have hok: "hash_ok c" using ok by (simp add: hash_coherent_def)
      have "file_hash env g (content g) = Some w" if w: "map_of (mc_entries c') g = Some w" for g w
      proof (cases "g = fi")
        case True
        with w fh hashes.stored_found [OF hok None, of ?h] show ?thesis by (simp add: eq)
      next
        case False
        with w have "map_of (mc_entries c) g = Some w"
          by (auto simp: eq hash_store_get [OF hok] split: if_splits)
        with ok show ?thesis unfolding hash_coherent_def by blast
      qed
      with hash_store_ok [OF hok None] show ?thesis
        using o' fh content by (simp add: eq hash_coherent_def)
    qed
  qed
qed

interpretation dictionary_strings: interner 0 "\<lambda>d. map_of (db_string_index d)" db_strings
  "\<lambda>d s t. t = s" intern_string dict_ok
proof unfold_locales
  fix d s i
  assume ok: "dict_ok d"
  then have kd: "keyed (\<lambda>s t. t = s) 0 (map_of (db_string_index d)) (db_strings d)" by (simp add: dict_ok_def)
  then show "indexed 0 (map_of (db_string_index d)) (length (db_strings d))" by (simp add: keyed_def)
  show "db_strings d ! (i - 0) = s" if "map_of (db_string_index d) s = Some i"
    using keyed_found [OF kd that] by simp
  show "dict_ok (snd (intern_string s d))"
    using intern_string_step [OF prod.collapse [symmetric] ok] by blast
qed (simp_all add: intern_string_def Let_def del: map_of_eq_None_iff)

interpretation dictionary_stacks: interner 1 "\<lambda>d. map_of (db_stack_index d)" "\<lambda>d. drop 1 (db_stacks d)"
  "\<lambda>d locs s. ok_location_indices s = locs" intern_stack dict_ok
proof unfold_locales
  fix d locs i
  assume ok: "dict_ok d"
  then have kd: "keyed stk_is 1 (map_of (db_stack_index d)) (db_stacks d)" by (simp add: dict_ok_def)
  then have pos: "1 \<le> length (db_stacks d)" by (simp add: keyed_def)
  from kd show "indexed 1 (map_of (db_stack_index d)) (length (drop 1 (db_stacks d)))"
    by (simp add: keyed_def)
  show "ok_location_indices (drop 1 (db_stacks d) ! (i - 1)) = locs" if "map_of (db_stack_index d) locs = Some i"
    using keyed_found [OF kd that] by (simp add: stk_is_def)
  show "dict_ok (snd (intern_stack locs d))"
    using intern_stack_step [OF prod.collapse [symmetric] ok] by blast
  show "fst (intern_stack locs d) = 1 + length (drop 1 (db_stacks d)) \<and>
      map_of (db_stack_index (snd (intern_stack locs d))) =
        (map_of (db_stack_index d))(locs \<mapsto> 1 + length (drop 1 (db_stacks d)))"
    if "map_of (db_stack_index d) locs = None"
    using that pos Suc_pred' [of "length (db_stacks d)"]
    by (simp add: intern_stack_def Let_def Suc_le_eq del: map_of_eq_None_iff)
qed (simp_all add: intern_stack_def)

section \<open>Properties\<close>

definition export_inputs ::
  "pprof list \<Rightarrow> (pprof \<times> u64 list) option \<Rightarrow> (pprof \<times> u64 list option) list" where
  "export_inputs sources timeline =
     map (\<lambda>p. (p, None)) sources @ (case timeline of None \<Rightarrow> [] | Some (p, ts) \<Rightarrow> [(p, Some ts)])"

lemma encode_profiles_cases:
  assumes "encode_profiles version env random sources timeline target exe config hashes = (res, hashes')"
  obtains (failed) e n d where
    "encode_scopes version env random (export_inputs sources timeline) 0 (new_dictionary hashes) = (Inl e, n, d)"
    "hashes' = db_hashes d" "res = Inl e"
  | (encoded) scopes n d where
    "encode_scopes version env random (export_inputs sources timeline) 0 (new_dictionary hashes) = (Inr scopes, n, d)"
    "hashes' = db_hashes d"
    "res = Inr (\<lparr>rq_resource_profiles =
           [\<lparr>rp_resource = Some (resource target exe (cf_resource_attributes config)),
             rp_scope_profiles = scopes, rp_schema_url = []\<rparr>],
         rq_dictionary = Some (finish_dictionary d)\<rparr>, word_of_nat (min n (2 ^ 32 - 1)))"
proof -
  obtain r n d where e: "encode_scopes version env random (export_inputs sources timeline) 0
      (new_dictionary hashes) = (r, n, d)" by (metis prod.exhaust)
  note run = assms [unfolded encode_profiles_def Let_def export_inputs_def [symmetric], unfolded e]
  show thesis
  proof (cases r)
    case (Inl x)
    with run e show thesis by (intro failed) auto
  next
    case (Inr scopes)
    with run e show thesis by (intro encoded) auto
  qed
qed

text \<open>C30: An export says what its pprof profiles say. The request holds one scope per profile, in order,
  with one OTLP profile per sample type; read through the finished dictionary, whose tables hold every
  entry once, each OTLP profile has the type, period, start and duration of its source and, for every
  source sample, the stack of its locations (address, mapping, functions and lines of each), its
  labels as attributes and its value of that type. Timeline samples of one stack and one set of labels
  share an OTLP sample that holds their values beside their timestamps in order, and no two OTLP
  samples have the same stack and attributes. The number of profiles is returned, saturated.\<close>

theorem export_denotes:
  assumes "encode_profiles version env random sources timeline target exe config hashes =
    (Inr (request, n), hashes')"
  shows "\<exists>d scopes.
    request = \<lparr>rq_resource_profiles =
        [\<lparr>rp_resource = Some (resource target exe (cf_resource_attributes config)),
          rp_scope_profiles = scopes, rp_schema_url = []\<rparr>],
      rq_dictionary = Some (finish_dictionary d)\<rparr> \<and>
    hashes' = db_hashes d \<and> dict_ok d \<and>
    list_all2 (scope_means d) (export_inputs sources timeline) scopes \<and>
    unat n = min (profile_count (export_inputs sources timeline)) (2 ^ 32 - 1)"
proof -
  from assms obtain scopes k d where
    run: "encode_scopes version env random (export_inputs sources timeline) 0 (new_dictionary hashes) =
      (Inr scopes, k, d)" "hashes' = db_hashes d"
    and out: "request = \<lparr>rq_resource_profiles =
        [\<lparr>rp_resource = Some (resource target exe (cf_resource_attributes config)),
          rp_scope_profiles = scopes, rp_schema_url = []\<rparr>],
      rq_dictionary = Some (finish_dictionary d)\<rparr>" "n = word_of_nat (min k (2 ^ 32 - 1))"
    by (cases rule: encode_profiles_cases) simp_all
  have "min k (2 ^ 32 - 1) < 2 ^ LENGTH(32)" by simp
  from unat_word_of_nat [OF this] have "unat n = min k (2 ^ 32 - 1)" by (simp only: out(2))
  with run out(1) encode_scopes_step [OF run(1) new_dictionary_ok] show ?thesis by auto
qed

definition tiny_pprof :: pprof where
  "tiny_pprof =
     \<lparr>pp_sample_type = [\<lparr>vt_type = 1, vt_unit = 2\<rparr>],
      pp_samples = [\<lparr>ps_location_id = [1], ps_value = [5],
        ps_label = [\<lparr>lb_key = 3, lb_str = 0, lb_num = 7, lb_num_unit = 0\<rparr>]\<rparr>],
      pp_mappings = [], pp_locations = [\<lparr>po_id = 1, po_mapping_id = 0, po_address = 20, po_line = [],
        po_is_folded = False\<rparr>], pp_functions = [],
      pp_strings = ['''', ''cpu'', ''ns'', ''tid''], pp_drop_frames = 0, pp_keep_frames = 0,
      pp_time_nanos = 1, pp_duration_nanos = 2, pp_period_type = None, pp_period = 0, pp_comment = [],
      pp_default_sample_type = 0, pp_doc_url = 0\<rparr>"

definition tiny_target :: target_metadata where
  "tiny_target = \<lparr>tm_kind = Target_Process, tm_pid = 1, tm_start_time_ticks = 1, tm_container_id = None,
     tm_container_name = None, tm_k8s_namespace = None, tm_k8s_pod_name = None, tm_k8s_pod_uid = None,
     tm_k8s_container_name = None, tm_k8s_node_name = None\<rparr>"

definition no_files :: hash_env where
  "no_files = \<lparr>he_open = (\<lambda>_ _. None), he_sha256 = (\<lambda>_. [])\<rparr>"

lemma encodes_inr:
  assumes "\<And>k. random k \<noteq> None" "\<forall>x \<in> set (export_inputs sources timeline). \<not> bad_timeline x"
  shows "\<exists>request n hashes'.
    encode_profiles version env random sources timeline target exe config hashes = (Inr (request, n), hashes')"
proof -
  obtain res hashes' where e: "encode_profiles version env random sources timeline target exe config hashes =
      (res, hashes')" by (rule prod.exhaust)
  from e show ?thesis
  proof (cases rule: encode_profiles_cases)
    case (failed x n d)
    from encode_scopes_step [OF failed(1) new_dictionary_ok] assms show ?thesis by auto
  next
    case (encoded scopes n d)
    with e show ?thesis by blast
  qed
qed

theorem export_denotes_witness:
  "\<exists>request n hashes'.
    encode_profiles ''1'' no_files (\<lambda>_. Some [1]) [tiny_pprof] (Some (tiny_pprof, [9])) tiny_target ''/bin/x''
      \<lparr>cf_endpoint = [], cf_headers = [], cf_timeout = 1, cf_compression = Compression_None, cf_ca = None,
       cf_resource_attributes = []\<rparr> empty_hash_cache = (Inr (request, n), hashes') \<and>
    unat n = 2"
proof -
  have "\<not> bad_timeline x" if "x \<in> set (export_inputs [tiny_pprof] (Some (tiny_pprof, [9])))" for x
    using that by (auto simp: export_inputs_def bad_timeline_def tiny_pprof_def)
  then obtain request n hashes' where e:
    "encode_profiles ''1'' no_files (\<lambda>_. Some [1]) [tiny_pprof] (Some (tiny_pprof, [9])) tiny_target ''/bin/x''
      \<lparr>cf_endpoint = [], cf_headers = [], cf_timeout = 1, cf_compression = Compression_None, cf_ca = None,
       cf_resource_attributes = []\<rparr> empty_hash_cache = (Inr (request, n), hashes')"
    using encodes_inr [of "\<lambda>_. Some [1]" "[tiny_pprof]" "Some (tiny_pprof, [9])"] by blast
  have "unat n = 2"
    using export_denotes [OF e] by (auto simp: export_inputs_def profile_count_def tiny_pprof_def)
  with e show ?thesis by blast
qed

text \<open>Encoding fails only when the timeline's timestamps do not match its samples or when no random
  profile id can be had; a sample type is never out of bounds.\<close>

theorem export_errors:
  assumes "encode_profiles version env random sources timeline target exe config hashes = (Inl e, hashes')"
  shows "e = Timeline_Count \<and> (\<exists>p ts. timeline = Some (p, ts) \<and> length ts \<noteq> length (pp_samples p)) \<or>
    e = Profile_Id_Failed \<and> (\<exists>k. random k = None)"
  using assms
proof (cases rule: encode_profiles_cases)
  case (failed x n d)
  with encode_scopes_step [OF failed(1) new_dictionary_ok] show ?thesis
    by (auto simp: export_inputs_def bad_timeline_def split: option.splits)
qed simp

theorem export_errors_witness:
  "\<exists>h. encode_profiles ''1'' no_files (\<lambda>_. Some [1]) [] (Some (tiny_pprof, [])) tiny_target ''/bin/x''
      \<lparr>cf_endpoint = [], cf_headers = [], cf_timeout = 1, cf_compression = Compression_None, cf_ca = None,
       cf_resource_attributes = []\<rparr> empty_hash_cache = (Inl Timeline_Count, h) \<and>
    length ([] :: u64 list) \<noteq> length (pp_samples tiny_pprof)"
proof -
  have e: "encode_profiles ''1'' no_files (\<lambda>_. Some [1]) [] (Some (tiny_pprof, [])) tiny_target ''/bin/x''
      \<lparr>cf_endpoint = [], cf_headers = [], cf_timeout = 1, cf_compression = Compression_None, cf_ca = None,
       cf_resource_attributes = []\<rparr> empty_hash_cache = (Inl Timeline_Count, empty_hash_cache)"
    by (simp add: encode_profiles_def tiny_pprof_def new_dictionary_def)
  show ?thesis using export_errors [OF e] e by auto
qed

text \<open>C32: The cache of mapping hashes is transparent and bounded: while a file does not change under one
  identity, the hash of a mapping is that of its file whether or not it was cached, and the cache never
  exceeds 4096 entries.\<close>

theorem mapping_hash_memo:
  assumes "htlhash env start limit c = (h, c')" "hash_coherent env content c"
    and "\<And>fi bytes. he_open env start limit = Some (fi, bytes) \<Longrightarrow> bytes = content fi"
  shows "h = Option.bind (he_open env start limit) (\<lambda>(fi, bytes). file_hash env fi bytes) \<and>
    hash_coherent env content c' \<and> length (mc_entries c') \<le> 4096"
  using htlhash_step [OF assms] hash_length [of c']
  by (auto simp: hash_coherent_def hash_ok_def mapping_hash_cache_capacity_def)

definition one_file :: hash_env where
  "one_file = \<lparr>he_open = (\<lambda>_ _. Some (\<lparr>fi_device = 1, fi_inode = 2, fi_length = 1, fi_modified_seconds = 0,
     fi_modified_nanoseconds = 0, fi_changed_seconds = 0, fi_changed_nanoseconds = 0\<rparr>, [255])),
     he_sha256 = (\<lambda>x. x)\<rparr>"

theorem mapping_hash_memo_witness:
  "fst (htlhash one_file 0 1 empty_hash_cache) = Some ''ffff0000000000000001''"
proof -
  obtain h c' where r: "htlhash one_file 0 1 empty_hash_cache = (h, c')" by (rule prod.exhaust)
  have "hash_coherent one_file (\<lambda>_. [255]) empty_hash_cache"
    by (simp add: hash_coherent_def hash_ok_def empty_hash_cache_def)
  from mapping_hash_memo [OF r this]
  have "h = Option.bind (he_open one_file 0 1) (\<lambda>(fi, bytes). file_hash one_file fi bytes)"
    by (simp add: one_file_def)
  also have "\<dots> = Some ''ffff0000000000000001''" by code_simp
  finally show ?thesis using r by simp
qed

end
