(* ===== verification/Export_Chain.thy ===== *)
theory Export_Chain
  imports Pprof_Laws Otlp_Laws
begin

text \<open>
  From samples to the wire: a CPU profile built by \<open>src/src/pprof.rs\<close> and exported by
  \<open>src/src/otlp/mod.rs\<close>. Both formats intern everything; here the two denotations are composed, so that
  the OTLP request is read back to the sampled addresses and what resolving them gives.

  \<open>frame_is\<close>, \<open>label_export\<close> and \<open>exported_row\<close> say what an exported frame, label and sample are in terms
  of the resolver and the attributed stacks.
\<close>

section \<open>Looking up by id\<close>

lemma map_of_collect:
  "map_of (fold (\<lambda>x m. AList.update (f x) x m) xs t) k =
   (case filter (\<lambda>x. f x = k) (rev xs) of [] \<Rightarrow> map_of t k | x # _ \<Rightarrow> Some x)"
proof (induction xs rule: rev_induct)
  case Nil
  then show ?case by simp
next
  case (snoc x xs)
  then show ?case by (auto simp: update_conv')
qed

lemma collect_by_position:
  assumes ids: "\<forall>i < length xs. f (xs ! i) = i + 1" and k: "1 \<le> k" "k \<le> length xs"
  shows "map_of (collect_by f xs) k = Some (xs ! (k - 1))"
proof -
  have at: "f x = k \<longleftrightarrow> x = xs ! (k - 1)" if "x \<in> set xs" for x
  proof -
    from that obtain i where i: "i < length xs" "x = xs ! i" by (auto simp: in_set_conv_nth)
    with ids have fx: "f x = i + 1" by simp
    have fk: "f (xs ! (k - 1)) = k" using ids k by auto
    show ?thesis
    proof
      assume "f x = k"
      with fx have "i = k - 1" by simp
      with i show "x = xs ! (k - 1)" by simp
    qed (use fk in simp)
  qed
  have fk: "f (xs ! (k - 1)) = k" using ids k by auto
  have "xs ! (k - 1) \<in> set (filter (\<lambda>x. f x = k) (rev xs))" using k fk by simp
  moreover have "set (filter (\<lambda>x. f x = k) (rev xs)) \<subseteq> {xs ! (k - 1)}" using at by auto
  ultimately obtain rest where "filter (\<lambda>x. f x = k) (rev xs) = xs ! (k - 1) # rest"
    by (cases "filter (\<lambda>x. f x = k) (rev xs)") auto
  then show ?thesis unfolding collect_by_def map_of_collect by simp
qed

lemma pprof_string_is: "str_is p i s \<Longrightarrow> pprof_string p i = s"
  by (simp add: str_is_def pprof_string_def)

section \<open>Frames\<close>

definition mapping_rep :: "dictionary_builder \<Rightarrow> mapping_info option \<Rightarrow> nat \<Rightarrow> bool" where
  "mapping_rep d m j \<longleftrightarrow>
     (case m of None \<Rightarrow> j = 0
      | Some k \<Rightarrow> 1 \<le> j \<and> j < length (db_mappings d) \<and>
          map_is d (mi_start k, mi_limit k, mi_offset k, mi_filename k, or_default (mi_build_id k))
            (db_mappings d ! j))"

definition frame_line :: "dictionary_builder \<Rightarrow> symbolized_line \<Rightarrow> otlp_line \<Rightarrow> bool" where
  "frame_line d l ol \<longleftrightarrow>
     ol_line ol = sl_line l \<and> 1 \<le> ol_function_index ol \<and> ol_function_index ol < length (db_functions d) \<and>
     (let f = db_functions d ! ol_function_index ol
      in sref d (of_name_strindex f) (sl_function l) \<and> sref d (of_system_name_strindex f) (sl_system_name l) \<and>
         sref d (of_filename_strindex f) (or_default (sl_filename l)))"

definition frame_is :: "dictionary_builder \<Rightarrow> u64 \<Rightarrow> resolved_location \<Rightarrow> nat \<Rightarrow> bool" where
  "frame_is d addr r i \<longleftrightarrow>
     1 \<le> i \<and> i < length (db_locations d) \<and> oo_address (db_locations d ! i) = addr \<and>
     mapping_rep d (rl_mapping r) (oo_mapping_index (db_locations d ! i)) \<and>
     list_all2 (frame_line d) (rl_lines r) (oo_lines (db_locations d ! i))"

lemma line_chain:
  assumes ids: "ids_ok p" and pl: "line_is p l ln" and ol: "line_means d p (source_lookup_of p) ln ol"
  shows "frame_line d l ol"
proof -
  let ?i = "pl_function_id ln" and ?f = "pp_functions p ! (pl_function_id ln - 1)"
  have i: "1 \<le> ?i" "?i \<le> length (pp_functions p)" and f: "function_is p (function_key l) ?f"
    using pl by (simp_all add: line_is_def nth_id_def)
  have "map_of (sk_functions (source_lookup_of p)) ?i = Some ?f"
    using collect_by_position [of "pp_functions p" pf_id ?i] ids i by (simp add: ids_ok_def source_lookup_of_def)
  with ol have "fun_ref d p (Some ?f) (ol_function_index ol)" by (simp add: line_means_def)
  with f pl ol show ?thesis
    by (auto simp: fun_ref_def fun_is_def function_key_of_def function_is_def function_key_def frame_line_def
        Let_def line_is_def line_means_def dest: pprof_string_is)
qed

lemma mapping_chain:
  assumes ids: "ids_ok p" and pm: "mapping_ref_is p m i"
    and om: "map_ref d p (map_of (sk_mappings (source_lookup_of p)) i) j"
  shows "mapping_rep d m j"
proof (cases m)
  case None
  have "map_of (collect_by pm_id (pp_mappings p)) 0 = None"
  proof -
    have "pm_id x \<noteq> 0" if "x \<in> set (pp_mappings p)" for x
      using that ids by (auto simp: ids_ok_def in_set_conv_nth)
    then have "filter (\<lambda>x. pm_id x = 0) (rev (pp_mappings p)) = []" by (simp add: filter_empty_conv)
    then show ?thesis unfolding collect_by_def map_of_collect by simp
  qed
  with None pm om show ?thesis
    by (simp add: mapping_ref_is_def map_ref_def mapping_rep_def source_lookup_of_def)
next
  case (Some k)
  let ?m = "pp_mappings p ! (i - 1)"
  have i: "1 \<le> i" "i \<le> length (pp_mappings p)" and is_k: "mapping_is p k ?m"
    using pm Some by (simp_all add: mapping_ref_is_def nth_id_def)
  have "map_of (sk_mappings (source_lookup_of p)) i = Some ?m"
    using collect_by_position [of "pp_mappings p" pm_id i] ids i by (simp add: ids_ok_def source_lookup_of_def)
  with om have om: "1 \<le> j" "j < length (db_mappings d)" "map_is d (mapping_key_of p ?m) (db_mappings d ! j)"
    by (simp_all add: map_ref_def)
  have "mapping_key_of p ?m = (mi_start k, mi_limit k, mi_offset k, mi_filename k, or_default (mi_build_id k))"
    using is_k by (auto simp: mapping_is_def core_is_def pm_core_def mapping_key_of_def dest: pprof_string_is)
  with om show ?thesis by (simp add: mapping_rep_def Some)
qed

lemma location_chain:
  assumes ids: "ids_ok p" and pl: "location_is p addr r lo"
    and ol: "location_means d p (source_lookup_of p) lo i"
  shows "frame_is d addr r i"
proof -
  let ?o = "db_locations d ! i"
  have "list_all2 (frame_line d) (rl_lines r) (oo_lines ?o)"
  proof (rule list_all2_trans [where bs = "po_line lo"])
    show "list_all2 (line_is p) (rl_lines r) (po_line lo)" using pl by (simp add: location_is_def)
    show "list_all2 (line_means d p (source_lookup_of p)) (po_line lo) (oo_lines ?o)"
      using ol by (simp add: location_means_def)
  qed (rule line_chain [OF ids])
  moreover have "mapping_rep d (rl_mapping r) (oo_mapping_index ?o)"
    by (rule mapping_chain [OF ids, of _ "po_mapping_id lo"]) (use pl ol in \<open>simp_all add: location_is_def location_means_def\<close>)
  ultimately show ?thesis using pl ol by (simp add: frame_is_def location_is_def location_means_def)
qed

lemma stack_lookup:
  assumes ids: "ids_ok p" and st: "stack_is p R addrs is"
  shows "list_all2 (\<lambda>a lo. location_is p a (R a) lo) addrs
    (List.map_filter (map_of (sk_locations (source_lookup_of p))) is)"
  using st
proof (induction addrs arbitrary: "is")
  case Nil
  then show ?case by (simp add: stack_is_def List.map_filter_simps)
next
  case (Cons a addrs)
  then obtain i rest where eq: "is = i # rest" and rest: "stack_is p R addrs rest"
    and i: "1 \<le> i" "i \<le> length (pp_locations p)" "location_is p a (R a) (pp_locations p ! (i - 1))"
    by (auto simp: stack_is_def nth_id_def list_all2_Cons1)
  have "map_of (sk_locations (source_lookup_of p)) i = Some (pp_locations p ! (i - 1))"
    using collect_by_position [of "pp_locations p" po_id i] ids i by (simp add: ids_ok_def source_lookup_of_def)
  with Cons.IH [OF rest] i show ?case by (simp add: eq List.map_filter_simps)
qed

lemma stack_chain:
  assumes ids: "ids_ok p" and st: "stack_is p R addrs (ps_location_id s)"
    and os: "stack_means d p (source_lookup_of p) s k"
  shows "list_all2 (\<lambda>a i. frame_is d a (R a) i) addrs (ok_location_indices (db_stacks d ! k))"
proof (rule list_all2_trans)
  show "list_all2 (\<lambda>a lo. location_is p a (R a) lo) addrs
      (List.map_filter (map_of (sk_locations (source_lookup_of p))) (ps_location_id s))"
    by (rule stack_lookup [OF ids st])
  show "list_all2 (location_means d p (source_lookup_of p))
      (List.map_filter (map_of (sk_locations (source_lookup_of p))) (ps_location_id s))
      (ok_location_indices (db_stacks d ! k))"
    using os by (simp add: stack_means_def)
qed (rule location_chain [OF ids])

section \<open>Labels\<close>

text \<open>An empty text has string index 0, which is how a pprof label says that it is a number; such a label
  is exported as the number it carries, zero.\<close>

fun label_export :: "label_meaning \<Rightarrow> (string \<times> any_value \<times> string) option" where
  "label_export (Text_Label k v) =
     (if k = [] then None
      else if v = [] then Some (k, Int_Value 0, []) else Some (k, String_Value v, []))"
| "label_export (Number_Label k n) = (if k = [] then None else Some (k, Int_Value (ucast n), []))"

lemma empty_string_index:
  assumes "distinct (pp_strings p)" "pp_strings p ! 0 = []" "str_is p i s"
  shows "i = 0 \<longleftrightarrow> s = []"
proof
  assume "i = 0"
  with assms show "s = []" by (simp add: str_is_def)
next
  assume "s = []"
  with assms show "i = 0" unfolding str_is_def
    by (metis length_pos_if_in_set nth_eq_iff_index_eq nth_mem)
qed

lemma label_chain:
  assumes wf: "distinct (pp_strings p)" "pp_strings p ! 0 = []" and is_m: "label_is p m lb"
  shows "label_attribute p lb = label_export m"
proof -
  have zero: "pprof_string p 0 = []"
    using wf(2) by (simp add: pprof_string_def)
  show ?thesis
  proof (cases m)
    case (Text_Label k v)
    with is_m have "pprof_string p (lb_key lb) = k" "pprof_string p (lb_str lb) = v" "lb_num lb = 0"
        "lb_num_unit lb = 0" "lb_str lb = 0 \<longleftrightarrow> v = []"
      using empty_string_index [OF wf, of "lb_str lb" v] by (simp_all add: pprof_string_is)
    with zero show ?thesis by (simp add: label_attribute_def Text_Label Let_def)
  next
    case (Number_Label k n)
    with is_m have "pprof_string p (lb_key lb) = k" "lb_str lb = 0" "lb_num lb = ucast n" "lb_num_unit lb = 0"
      by (simp_all add: pprof_string_is)
    with zero show ?thesis by (simp add: label_attribute_def Number_Label Let_def)
  qed
qed

lemma labels_chain:
  assumes wf: "distinct (pp_strings p)" "pp_strings p ! 0 = []" and ls: "list_all2 (label_is p) ms lbs"
  shows "List.map_filter (label_attribute p) lbs = List.map_filter label_export ms"
  using ls
proof (induction rule: list_all2_induct)
  case Nil
  then show ?case by (simp add: List.map_filter_simps)
next
  case (Cons m ms lb lbs)
  with label_chain [OF wf Cons.hyps(1)] show ?case by (simp add: List.map_filter_simps split: option.split)
qed

section \<open>The exported samples\<close>

definition exported_row ::
  "dictionary_builder \<Rightarrow> (u64 \<Rightarrow> resolved_location) \<Rightarrow> (string \<times> string) list \<Rightarrow> nat \<Rightarrow>
   attributed_stack \<times> cpu_values \<Rightarrow> otlp_row \<Rightarrow> bool" where
  "exported_row d R labels si entry r \<longleftrightarrow>
     (case entry of (key, v) \<Rightarrow> case r of (stack, attrs, val, stamp) \<Rightarrow>
        1 \<le> stack \<and> stack < length (db_stacks d) \<and>
        list_all2 (\<lambda>a i. frame_is d a (R a) i) (addresses_of (as_stack key))
          (ok_location_indices (db_stacks d ! stack)) \<and>
        list_all2 (attribute_means d) (List.map_filter label_export (meaning labels key)) attrs \<and>
        val = cpu_value_list v ! si)"

lemma row_chain:
  assumes ids: "ids_ok p" and wf: "distinct (pp_strings p)" "pp_strings p ! 0 = []"
    and s: "sample_is p R (addresses_of (as_stack key)) (cpu_value_list v) (meaning labels key) s"
    and r: "sample_row d p si s r" and si: "si < 2"
  shows "exported_row d R labels si (key, v) r"
proof -
  obtain stack attrs val stamp where req: "r = (stack, attrs, val, stamp)" by (metis prod.exhaust)
  from r have st: "stack_means d p (source_lookup_of p) s stack" and at: "labels_mean d p s attrs"
    and val: "val = nth_or_zero (ps_value s) si" by (simp_all add: req sample_row_def)
  from s have frames: "stack_is p R (addresses_of (as_stack key)) (ps_location_id s)"
    and vals: "ps_value s = cpu_value_list v" and lbs: "list_all2 (label_is p) (meaning labels key) (ps_label s)"
    by (simp_all add: sample_is_def labels_are_def)
  have "list_all2 (attribute_means d) (List.map_filter label_export (meaning labels key)) attrs"
    using at labels_chain [OF wf lbs] by (simp add: labels_mean_def)
  moreover have "val = cpu_value_list v ! si"
    using si by (simp add: val vals nth_or_zero_def cpu_value_list_def)
  ultimately show ?thesis
    using stack_chain [OF ids frames st] st by (simp add: exported_row_def req stack_means_def)
qed

text \<open>C31: From samples to the wire: when a CPU profile is built from attributed stacks and exported, the
  request carries one scope with two OTLP profiles, the sample counts and the CPU time. In both, sample
  by sample and in order, the stack read through the finished dictionary has one frame per sampled
  address, with the address, the mapping (range, offset, file, build id) and the lines (function, linker
  name, file, line number) that resolving it gives; the attributes are the configured labels and the
  identity of the thread; and the value is the counter or the time of the stack.\<close>

theorem cpu_export_chain:
  assumes "coherent demangle sz"
    and "p = pb_profile (build_cpu_profile demangle samples sz time duration frequency labels)"
    and "encode_profiles version env random [p] None target exe config hashes = (Inr (request, n), hashes')"
  shows "\<exists>d sc counts times.
    rq_dictionary request = Some (finish_dictionary d) \<and>
    map rp_scope_profiles (rq_resource_profiles request) = [[sc]] \<and> sp_profiles sc = [counts, times] \<and>
    (\<exists>rows. op_samples counts = map plain_row rows \<and>
       list_all2 (exported_row d (resolve_uncached demangle sz) labels 0) samples rows) \<and>
    (\<exists>rows. op_samples times = map plain_row rows \<and>
       list_all2 (exported_row d (resolve_uncached demangle sz) labels 1) samples rows)"
proof -
  let ?R = "resolve_uncached demangle sz"
  note built = build_cpu_profile_good [OF assms(1) refl, of samples time duration frequency labels,
      folded assms(2)]
  have inv: "ids_ok p" "pp_strings p ! 0 = []" "distinct (pp_strings p)"
    using built good_tables by (auto simp: good_def builder_inv_def tables_wf_def assms(2))
  have "length (pp_sample_type p) = 2"
    using built by (auto simp: cpu_head_is_def dest: list_all2_lengthD)
  then have two: "[0..<length (pp_sample_type p)] = [0, 1]" by (simp add: upt_rec)
  from assms(3) obtain scopes k d where
    run: "encode_scopes version env random (export_inputs [p] None) 0 (new_dictionary hashes) = (Inr scopes, k, d)"
    and out: "rq_dictionary request = Some (finish_dictionary d)"
      "map rp_scope_profiles (rq_resource_profiles request) = [scopes]"
    by (cases rule: encode_profiles_cases) simp_all
  from encode_scopes_step [OF run new_dictionary_ok] obtain sc where sc: "scopes = [sc]"
    and means: "list_all2 (profile_means d p None) [0, 1] (sp_profiles sc)"
    by (auto simp: export_inputs_def list_all2_Cons1 scope_means_def two)
  then obtain counts times where prs: "sp_profiles sc = [counts, times]"
    and m: "profile_means d p None 0 counts" "profile_means d p None 1 times"
    by (auto simp: list_all2_Cons1)
  have rows: "\<exists>rows. op_samples pr = map plain_row rows \<and> list_all2 (exported_row d ?R labels si) samples rows"
    if "profile_means d p None si pr" "si < 2" for si pr
  proof -
    from that(1) obtain rows where r: "list_all2 (sample_row d p si) (pp_samples p) rows"
      "op_samples pr = map plain_row rows"
      by (auto simp: profile_means_def profile_samples_def)
    have "list_all2 (exported_row d ?R labels si) samples rows"
    proof (rule list_all2_trans [OF _ _ r(1)])
      show "list_all2 (\<lambda>(key, v) s. sample_is p ?R (addresses_of (as_stack key)) (cpu_value_list v)
          (meaning labels key) s) samples (pp_samples p)"
        using built by (simp add: samples_are_def assms(2))
    qed (use row_chain [OF inv(1,3,2)] that(2) in \<open>auto split: prod.splits\<close>)
    with r(2) show ?thesis by blast
  qed
  show ?thesis using out rows [OF m(1)] rows [OF m(2)] prs by (auto simp: sc)
qed

theorem cpu_export_chain_witness:
  "\<exists>request n hashes' d.
    encode_profiles ''1'' no_files (\<lambda>_. Some [1])
      [pb_profile (build_cpu_profile id sample_stacks sample_symbolizer 1 2 49 [])] None tiny_target ''/bin/x''
      sample_config empty_hash_cache = (Inr (request, n), hashes') \<and>
    rq_dictionary request = Some (finish_dictionary d)"
proof -
  let ?p = "pb_profile (build_cpu_profile id sample_stacks sample_symbolizer 1 2 49 [])"
  have "\<not> bad_timeline x" if "x \<in> set (export_inputs [?p] None)" for x
    using that by (auto simp: export_inputs_def bad_timeline_def)
  then obtain request n hashes' where e: "encode_profiles ''1'' no_files (\<lambda>_. Some [1]) [?p] None tiny_target
      ''/bin/x'' sample_config empty_hash_cache = (Inr (request, n), hashes')"
    using encodes_inr [of "\<lambda>_. Some [1]" "[?p]" None] by blast
  have c: "coherent id sample_symbolizer" by (simp only: sample_symbolizer_def from_maps_coherent)
  obtain d where "rq_dictionary request = Some (finish_dictionary d)"
    using cpu_export_chain [OF c refl e] by blast
  with e show ?thesis by blast
qed

end
