(* ===== verification/Diagnostics.thy ===== *)
theory Diagnostics
  imports Target Config
begin

text \<open>
  \<open>src/src/diagnostics.rs\<close>: what a session reports about each window. The records are written as JSON
  by a library; here they are the data that the window writer and the exporter update.
  \<open>average_depth\<close>, a quotient of two counters in floating point, is kept as the pair of its counters
  (\<open>None\<close> for the \<open>0.0\<close> of an empty window).
\<close>

record module_report =
  md_path :: string
  md_build_id :: "string option"
  md_has_eh_frame :: bool
  md_has_debug_frame :: bool
  md_symbol_count :: nat

record allocator_report =
  ar_requested :: allocator_choice
  ar_detected :: "string option"
  ar_module :: "string option"
  ar_complete :: bool
  ar_reason :: "string option"

record capability_report =
  ca_perf :: bool
  ca_lifecycle_bpf :: bool
  ca_heap_bpf :: bool
  ca_off_cpu_bpf :: bool
  ca_container_cgroup :: bool
  ca_cgroup_path :: "string option"
  ca_perf_map :: bool
  ca_jitdump :: bool

record check_report =
  ck_schema_version :: u32
  ck_pid :: i32
  ck_target :: target_metadata
  ck_executable :: string
  ck_architecture :: string
  ck_kernel_release :: string
  ck_kernel_supported :: bool
  ck_running_as_root :: bool
  ck_thread_count :: nat
  ck_modules :: "module_report list"
  ck_has_unwind_info :: bool
  ck_allocator :: allocator_report
  ck_capabilities :: capability_report
  ck_warnings :: "string list"
  ck_errors :: "string list"

definition is_recordable :: "check_report \<Rightarrow> bool" where
  "is_recordable report \<longleftrightarrow> ck_errors report = []"

record cpu_diagnostics =
  cd_requested_mode :: "unwind_mode option"
  cd_selected_mode :: "unwind_mode option"
  cd_fallback_reason :: "string option"
  cd_samples :: u64
  cd_usable_samples :: u64
  cd_cpu_nanoseconds :: i64
  cd_lost_samples :: u64
  cd_malformed_samples :: u64
  cd_truncated_samples :: u64
  cd_invalid_addresses :: u64
  cd_aggregation_dropped_samples :: u64
  cd_aggregation_dropped_nanoseconds :: i64
  cd_average_depth :: "(u64 \<times> u64) option"
  cd_symbolized_locations :: u64
  cd_total_locations :: u64
  cd_attributed_series :: u64
  cd_thread_attribution_dropped_samples :: u64

record event_order_diagnostics =
  eo_reorder_window_nanos :: u64
  eo_max_pending_events :: nat
  eo_peak_pending_events :: nat
  eo_forced_flushes :: u64
  eo_late_events_dropped :: u64
  eo_timeline_events_dropped :: u64

record off_cpu_window_diagnostics =
  ow_requested :: bool
  ow_enabled :: bool
  ow_reason :: "string option"
  ow_switch_out_events :: u64
  ow_completed_intervals :: u64
  ow_incomplete_intervals :: u64
  ow_nanoseconds :: i64
  ow_aggregation_dropped_events :: u64
  ow_ring_buffer_drops :: u64

record firefox_diagnostics =
  fd_enabled :: bool
  fd_format :: "string option"
  fd_samples :: u64
  fd_dropped_samples :: u64
  fd_error :: "string option"

record jit_diagnostics =
  jd_perf_map_files :: u64
  jd_jitdump_files :: u64
  jd_mappings_loaded :: u64
  jd_mappings_dropped :: u64

record scope_diagnostics =
  sd_requested :: string
  sd_effective :: string
  sd_cgroup_path :: "string option"
  sd_degraded_reason :: "string option"

record backpressure_diagnostics =
  bd_derived_outputs_shed :: bool
  bd_pending_windows :: nat
  bd_files_skipped :: u64
  bd_otlp_skipped :: bool

record heap_diagnostics =
  hd_allocator :: "string option"
  hd_allocation_events :: u64
  hd_sampled_allocations :: u64
  hd_sampled_frees :: u64
  hd_alloc_objects :: i64
  hd_alloc_space :: i64
  hd_inuse_objects :: i64
  hd_inuse_space :: i64
  hd_dropped_alloc_objects :: i64
  hd_dropped_alloc_space :: i64
  hd_dropped_inuse_objects :: i64
  hd_dropped_inuse_space :: i64
  hd_live_samples :: u64
  hd_ring_buffer_drops :: u64
  hd_map_evictions :: u64
  hd_map_update_failures :: u64
  hd_pending_overwrites :: u64
  hd_unfinished_returns :: u64
  hd_stack_samples :: u64
  hd_usable_stacks :: u64
  hd_stack_failures :: u64
  hd_average_depth :: "(u64 \<times> u64) option"
  hd_symbolized_locations :: u64
  hd_total_locations :: u64
  hd_since_attach :: bool

datatype otlp_status = Otlp_Disabled | Otlp_Pending | Otlp_Exported | Otlp_Partial | Otlp_Failed | Otlp_Dropped

record otlp_diagnostics =
  od_status :: otlp_status
  od_profiles :: u32
  od_attempts :: nat
  od_rejected_profiles :: i64
  od_timeline_enabled :: bool
  od_timeline_samples :: u64
  od_timeline_dropped_samples :: u64
  od_timeline_timestamp_errors :: u64
  od_error :: "string option"

definition otlp_disabled :: otlp_diagnostics where
  "otlp_disabled =
     \<lparr>od_status = Otlp_Disabled, od_profiles = 0, od_attempts = 0, od_rejected_profiles = 0,
      od_timeline_enabled = False, od_timeline_samples = 0, od_timeline_dropped_samples = 0,
      od_timeline_timestamp_errors = 0, od_error = None\<rparr>"

record window_diagnostics =
  wd_schema_version :: u32
  wd_session_id :: string
  wd_pid :: i32
  wd_target :: target_metadata
  wd_started_unix_nanos :: i64
  wd_ended_unix_nanos :: i64
  wd_profiles_requested :: "profile_kind list"
  wd_profiles_written :: "profile_kind list"
  wd_allocator_probe :: allocator_report
  wd_cpu :: cpu_diagnostics
  wd_heap :: heap_diagnostics
  wd_off_cpu :: off_cpu_window_diagnostics
  wd_event_order :: event_order_diagnostics
  wd_firefox :: firefox_diagnostics
  wd_jit :: jit_diagnostics
  wd_scope :: scope_diagnostics
  wd_output_backpressure :: backpressure_diagnostics
  wd_otlp :: otlp_diagnostics
  wd_outputs :: "string list"
  wd_warnings :: "string list"

end
