(* ===== verification/Cpu_Window.thy ===== *)
theory Cpu_Window
  imports Event_Sorter Diagnostics
begin

text \<open>
  The CPU window of \<open>src/src/platform/linux/record.rs\<close>: \<open>CpuWindow\<close> with its bounded tables and
  \<open>ingest_cpu_batch\<close>, which takes a batch through the event sorter, decides sample by sample which call
  stack it has, and aggregates it.

  Parameters: the DWARF unwinder of the process (from registers and stack bytes to an outcome; see
  \<open>unwind_bytes\<close> in \<open>Unwind\<close>), and reading \<open>/proc/<pid>/task/<tid>/comm\<close>.

  The laws: \<open>sample_verdict\<close> says what becomes of a sample whatever the window holds; a window holds
  exactly the usable samples among those that left the sorter, up to what its counters report as
  dropped, and every table stays within its bound.
\<close>

section \<open>The window\<close>

record cpu_window =
  cw_samples :: "(attributed_stack, cpu_values) table"
  cw_stack_interner :: "(stack, stack) table"
  cw_fallback_pid :: u32
  cw_max_stacks :: nat
  cw_max_thread_attributions :: nat
  cw_timeline_enabled :: bool
  cw_max_timeline_samples :: nat
  cw_timeline :: "timed_stack_sample list"
  cw_timeline_samples :: u64
  cw_timeline_dropped :: u64
  cw_thread_names :: "(u32 \<times> u32, string option) table"
  cw_thread_attribution_dropped :: u64
  cw_total_samples :: u64
  cw_usable_samples :: u64
  cw_lost_samples :: u64
  cw_malformed_samples :: u64
  cw_truncated_samples :: u64
  cw_invalid_addresses :: u64
  cw_aggregation_dropped_samples :: u64
  cw_aggregation_dropped_nanoseconds :: i64
  cw_depth_sum :: u64
  cw_seen_addresses :: "u64 list"

definition new_cpu_window :: "i32 \<Rightarrow> nat \<Rightarrow> nat \<Rightarrow> bool \<Rightarrow> nat \<Rightarrow> cpu_window" where
  "new_cpu_window pid max_stacks max_thread_attributions timeline_enabled max_timeline_samples =
     \<lparr>cw_samples = [], cw_stack_interner = [],
      cw_fallback_pid = (if sint pid < 0 then 0 else ucast pid),
      cw_max_stacks = max_stacks, cw_max_thread_attributions = max_thread_attributions,
      cw_timeline_enabled = timeline_enabled, cw_max_timeline_samples = max_timeline_samples,
      cw_timeline = [], cw_timeline_samples = 0, cw_timeline_dropped = 0, cw_thread_names = [],
      cw_thread_attribution_dropped = 0, cw_total_samples = 0, cw_usable_samples = 0,
      cw_lost_samples = 0, cw_malformed_samples = 0, cw_truncated_samples = 0,
      cw_invalid_addresses = 0, cw_aggregation_dropped_samples = 0,
      cw_aggregation_dropped_nanoseconds = 0, cw_depth_sum = 0, cw_seen_addresses = []\<rparr>"

definition cpu_window_diagnostics ::
  "unwind_mode \<Rightarrow> unwind_mode \<Rightarrow> string option \<Rightarrow> cpu_window \<Rightarrow> cpu_diagnostics" where
  "cpu_window_diagnostics requested selected fallback_reason w =
     \<lparr>cd_requested_mode = Some requested, cd_selected_mode = Some selected,
      cd_fallback_reason = fallback_reason, cd_samples = cw_total_samples w,
      cd_usable_samples = cw_usable_samples w,
      cd_cpu_nanoseconds = fold (\<lambda>(_, v) total. i64_sat_add total (cpu_nanoseconds v)) (cw_samples w) 0,
      cd_lost_samples = cw_lost_samples w, cd_malformed_samples = cw_malformed_samples w,
      cd_truncated_samples = cw_truncated_samples w, cd_invalid_addresses = cw_invalid_addresses w,
      cd_aggregation_dropped_samples = cw_aggregation_dropped_samples w,
      cd_aggregation_dropped_nanoseconds = cw_aggregation_dropped_nanoseconds w,
      cd_average_depth =
        (if cw_usable_samples w = 0 then None else Some (cw_depth_sum w, cw_usable_samples w)),
      cd_symbolized_locations = 0, cd_total_locations = 0,
      cd_attributed_series = word_of_nat (length (cw_samples w)),
      cd_thread_attribution_dropped_samples = cw_thread_attribution_dropped w\<rparr>"

definition comm_name :: "string option \<Rightarrow> string option" where
  "comm_name comm =
     (case comm of None \<Rightarrow> None | Some c \<Rightarrow> (let name = trim_end c in if name = [] then None else Some name))"

definition window_thread_name ::
  "(u32 \<Rightarrow> u32 \<Rightarrow> string option) \<Rightarrow> u32 \<Rightarrow> u32 \<Rightarrow> cpu_window \<Rightarrow> string option \<times> cpu_window" where
  "window_thread_name comm pid tid w =
     (case map_of (cw_thread_names w) (pid, tid) of
        Some name \<Rightarrow> (name, w)
      | None \<Rightarrow>
          if cw_max_thread_attributions w \<le> length (cw_thread_names w)
          then (None, w\<lparr>cw_thread_attribution_dropped := sat_add (cw_thread_attribution_dropped w) 1\<rparr>)
          else (let name = comm_name (comm pid tid)
                in (name, w\<lparr>cw_thread_names := AList.update (pid, tid) name (cw_thread_names w)\<rparr>)))"

definition window_intern_stack :: "stack \<Rightarrow> cpu_window \<Rightarrow> stack \<times> cpu_window" where
  "window_intern_stack s w =
     (case map_of (cw_stack_interner w) s of
        Some interned \<Rightarrow> (interned, w)
      | None \<Rightarrow>
          (s, if length (cw_stack_interner w) < cw_max_stacks w
              then w\<lparr>cw_stack_interner := AList.update s s (cw_stack_interner w)\<rparr> else w))"

section \<open>What becomes of a sample\<close>

datatype verdict = Fatal "unwind_error option" | Rejected | Usable "u64 list" bool

definition frame_pointer_verdict :: "addr_range list \<Rightarrow> u64 list \<Rightarrow> cpu_window \<Rightarrow> verdict \<times> cpu_window" where
  "frame_pointer_verdict ranges fs w =
     (let valid = length (filter (contains ranges) fs);
          (cyclic, seen) = has_address_cycle fs (cw_seen_addresses w);
          w1 = w\<lparr>cw_invalid_addresses :=
                   sat_add (cw_invalid_addresses w) (word_of_nat (length fs - valid)),
                 cw_seen_addresses := seen\<rparr>
      in (if valid \<noteq> length fs \<or> fs = [] \<or> cyclic then Rejected
          else Usable fs (length fs = default_max_frames), w1))"

type_synonym process_unwinder = "raw_registers \<Rightarrow> u8 list \<Rightarrow> unwind_outcome"

definition count_invalid :: "cpu_window \<Rightarrow> cpu_window" where
  "count_invalid w = w\<lparr>cw_invalid_addresses := cw_invalid_addresses w + 1\<rparr>"

definition dwarf_verdict ::
  "process_unwinder option \<Rightarrow> bool \<Rightarrow> stack_snapshot \<Rightarrow> cpu_window \<Rightarrow> verdict \<times> cpu_window" where
  "dwarf_verdict unwinder allow_partial snapshot w =
     (case unwinder of
        Some run \<Rightarrow>
          (let o' = run (ss_registers snapshot) (ss_bytes snapshot)
           in if uo_fatal o' then (Fatal (uo_error o'), w)
              else if uo_frames o' = [] \<or>
                \<not> allow_partial \<and> length (uo_frames o') = 1 \<and> uo_error o' \<noteq> None
              then (Rejected, count_invalid w)
              else (Usable (uo_frames o') (uo_truncated o'), w))
      | None \<Rightarrow>
          (if allow_partial \<and> rr_ip (ss_registers snapshot) \<noteq> 0
           then (Usable [rr_ip (ss_registers snapshot)] False, w)
           else (Rejected, count_invalid w)))"

definition judge ::
  "addr_range list \<Rightarrow> process_unwinder option \<Rightarrow> bool \<Rightarrow> perf_sample_data \<Rightarrow> cpu_window \<Rightarrow> verdict \<times> cpu_window" where
  "judge ranges unwinder allow_partial data w =
     (case data of
        Frame_Pointer fs \<Rightarrow> frame_pointer_verdict ranges fs w
      | Dwarf snapshot \<Rightarrow> dwarf_verdict unwinder allow_partial snapshot w)"

text \<open>The buffer of a snapshot goes back to the batch's pool before its outcome is looked at.\<close>

definition recycle_data :: "perf_sample_data \<Rightarrow> perf_batch \<Rightarrow> perf_batch" where
  "recycle_data data batch =
     (case data of Frame_Pointer _ \<Rightarrow> batch
      | Dwarf snapshot \<Rightarrow> recycle_stack_buffer (length (ss_bytes snapshot)) batch)"

section \<open>Aggregation\<close>

definition sample_period :: "u32 \<Rightarrow> u64 \<Rightarrow> i64" where
  "sample_period frequency period =
     i64_of_u64 (if period = 0 then 1000000000 div ucast (max frequency 1) else period)"

definition record_timeline ::
  "stack \<Rightarrow> u32 \<Rightarrow> u32 \<Rightarrow> string option \<Rightarrow> u64 \<Rightarrow> i64 \<Rightarrow> cpu_window \<Rightarrow> cpu_window" where
  "record_timeline s pid tid name time period w =
     (if \<not> cw_timeline_enabled w then w
      else
        let w1 = w\<lparr>cw_timeline_samples := sat_add (cw_timeline_samples w) 1\<rparr>
        in if length (cw_timeline w1) < cw_max_timeline_samples w1
           then w1\<lparr>cw_timeline := cw_timeline w1 @
                     [\<lparr>ts_stack = s, ts_pid = pid, ts_tid = tid, ts_thread_name = name,
                       ts_timestamp = time, ts_cpu_delta = u64_of_i64 period\<rparr>]\<rparr>
           else w1\<lparr>cw_timeline_dropped := sat_add (cw_timeline_dropped w1) 1\<rparr>)"

definition add_cpu :: "i64 \<Rightarrow> cpu_values \<Rightarrow> cpu_values" where
  "add_cpu period v =
     v\<lparr>cpu_samples := i64_sat_add (cpu_samples v) 1,
       cpu_nanoseconds := i64_sat_add (cpu_nanoseconds v) period\<rparr>"

definition aggregate_cpu :: "attributed_stack \<Rightarrow> nat \<Rightarrow> i64 \<Rightarrow> cpu_window \<Rightarrow> cpu_window" where
  "aggregate_cpu key depth period w =
     (case bounded_merge (cw_max_stacks w) key (add_cpu period) (add_cpu period cpu_values_default)
             (cw_samples w) of
        Some samples \<Rightarrow>
          w\<lparr>cw_samples := samples, cw_usable_samples := cw_usable_samples w + 1,
            cw_depth_sum := sat_add (cw_depth_sum w) (word_of_nat depth)\<rparr>
      | None \<Rightarrow>
          w\<lparr>cw_aggregation_dropped_samples := sat_add (cw_aggregation_dropped_samples w) 1,
            cw_aggregation_dropped_nanoseconds :=
              i64_sat_add (cw_aggregation_dropped_nanoseconds w) period\<rparr>)"

definition attribute_sample ::
  "(u32 \<Rightarrow> u32 \<Rightarrow> string option) \<Rightarrow> u32 \<Rightarrow> perf_sample \<Rightarrow> u64 list \<Rightarrow> bool \<Rightarrow> cpu_window \<Rightarrow> cpu_window" where
  "attribute_sample comm frequency s fs truncated w =
     (let w1 = (if truncated then w\<lparr>cw_truncated_samples := cw_truncated_samples w + 1\<rparr> else w);
          (st, w2) = window_intern_stack (stack_of_addresses fs) w1;
          period = sample_period frequency (ps_period s);
          pid = (if ps_pid s = 0 then cw_fallback_pid w2 else ps_pid s);
          (name, w3) = window_thread_name comm pid (ps_tid s) w2;
          w4 = record_timeline st pid (ps_tid s) name (ps_time s) period w3
      in aggregate_cpu \<lparr>as_stack = st, as_pid = pid, as_tid = ps_tid s, as_thread_name = name\<rparr>
           (length fs) period w4)"

section \<open>Ingesting a batch\<close>

record ingest_env =
  ie_ranges :: "addr_range list"
  ie_unwinder :: "process_unwinder option"
  ie_allow_partial :: bool
  ie_frequency :: u32
  ie_comm :: "u32 \<Rightarrow> u32 \<Rightarrow> string option"

datatype ingest_error = Ambiguous_Code_Address "unwind_error option"

fun ingest_samples ::
  "ingest_env \<Rightarrow> perf_sample list \<Rightarrow> perf_batch \<Rightarrow> cpu_window \<Rightarrow>
   (ingest_error + unit) \<times> perf_batch \<times> cpu_window" where
  "ingest_samples env [] batch w = (Inr (), batch, w)"
| "ingest_samples env (s # rest) batch w =
     (let w1 = w\<lparr>cw_total_samples := cw_total_samples w + 1\<rparr>;
          (v, w2) = judge (ie_ranges env) (ie_unwinder env) (ie_allow_partial env) (ps_data s) w1;
          batch1 = recycle_data (ps_data s) batch
      in case v of
           Fatal e \<Rightarrow> (Inl (Ambiguous_Code_Address e), batch1, w2)
         | Rejected \<Rightarrow> ingest_samples env rest batch1 w2
         | Usable fs truncated \<Rightarrow>
             ingest_samples env rest batch1
               (attribute_sample (ie_comm env) (ie_frequency env) s fs truncated w2))"

definition push_all :: "perf_sample list \<Rightarrow> event_sorter \<Rightarrow> event_sorter \<times> perf_sample list" where
  "push_all ss sorter = fold (\<lambda>s (st, ready). push_sample s st ready) ss (sorter, [])"

definition ingest_cpu_batch ::
  "ingest_env \<Rightarrow> bool \<Rightarrow> perf_batch \<Rightarrow> cpu_window \<Rightarrow> event_sorter \<Rightarrow>
   (ingest_error + unit) \<times> perf_batch \<times> cpu_window \<times> event_sorter" where
  "ingest_cpu_batch env flush batch w sorter =
     (let w1 = w\<lparr>cw_lost_samples := sat_add (cw_lost_samples w) (pb_lost_samples batch),
                 cw_malformed_samples :=
                   sat_add (cw_malformed_samples w) (pb_malformed_records batch)\<rparr>;
          (sorter1, ready1) = push_all (pb_samples batch) sorter;
          (sorter2, ready) = (if flush then flush_sorter sorter1 ready1 else (sorter1, ready1));
          (result, batch', w2) = ingest_samples env ready (batch\<lparr>pb_samples := []\<rparr>) w1
      in (result, batch', w2, sorter2))"

section \<open>The fate of a sample\<close>

text \<open>What becomes of a sample does not depend on the window.\<close>

definition fate :: "ingest_env \<Rightarrow> perf_sample_data \<Rightarrow> verdict" where
  "fate env data =
     (case data of
        Frame_Pointer fs \<Rightarrow>
          (if fs \<noteq> [] \<and> distinct fs \<and> (\<forall>a \<in> set fs. contains (ie_ranges env) a)
           then Usable fs (length fs = default_max_frames) else Rejected)
      | Dwarf snapshot \<Rightarrow>
          (case ie_unwinder env of
             Some run \<Rightarrow>
               (let o' = run (ss_registers snapshot) (ss_bytes snapshot)
                in if uo_fatal o' then Fatal (uo_error o')
                   else if uo_frames o' = [] \<or>
                     \<not> ie_allow_partial env \<and> length (uo_frames o') = 1 \<and> uo_error o' \<noteq> None
                   then Rejected else Usable (uo_frames o') (uo_truncated o'))
           | None \<Rightarrow>
               (if ie_allow_partial env \<and> rr_ip (ss_registers snapshot) \<noteq> 0
                then Usable [rr_ip (ss_registers snapshot)] False else Rejected)))"

lemma judge_fate:
  "fst (judge (ie_ranges env) (ie_unwinder env) (ie_allow_partial env) data w) = fate env data"
  by (cases data)
    (auto simp: judge_def fate_def frame_pointer_verdict_def dwarf_verdict_def Let_def length_filter_all
      has_address_cycle_def fst_insert_all split: option.splits prod.splits
      dest: arg_cong [of _ _ fst])

text \<open>Judging only touches the counter of invalid addresses and the scratch set.\<close>

definition judged :: "cpu_window \<Rightarrow> cpu_window \<Rightarrow> bool" where
  "judged w w' \<longleftrightarrow>
     w' = w\<lparr>cw_invalid_addresses := cw_invalid_addresses w', cw_seen_addresses := cw_seen_addresses w'\<rparr>"

lemma judge_judged: "judged w (snd (judge ranges unwinder allow_partial data w))"
  by (cases data; cases w)
    (auto simp: judged_def judge_def frame_pointer_verdict_def dwarf_verdict_def count_invalid_def Let_def
      split: option.splits prod.splits)

text \<open>The usable samples of a list, and the key, count and time that they stand for.\<close>

type_synonym usable_sample = "perf_sample \<times> u64 list \<times> bool"

definition usable_of :: "ingest_env \<Rightarrow> perf_sample \<Rightarrow> usable_sample list" where
  "usable_of env s = (case fate env (ps_data s) of Usable fs t \<Rightarrow> [(s, fs, t)] | _ \<Rightarrow> [])"

definition usables :: "ingest_env \<Rightarrow> perf_sample list \<Rightarrow> usable_sample list" where
  "usables env ss = concat (map (usable_of env) ss)"

definition sample_ns :: "ingest_env \<Rightarrow> perf_sample \<Rightarrow> nat" where
  "sample_ns env s = i64_nat (sample_period (ie_frequency env) (ps_period s))"

definition cpu_time :: "ingest_env \<Rightarrow> usable_sample list \<Rightarrow> nat" where
  "cpu_time env us = (\<Sum>(s, _) \<leftarrow> us. sample_ns env s)"

definition usable_key :: "ingest_env \<Rightarrow> u32 \<Rightarrow> usable_sample \<Rightarrow> attributed_stack" where
  "usable_key env fallback u =
     (case u of (s, fs, t) \<Rightarrow>
        let pid = (if ps_pid s = 0 then fallback else ps_pid s)
        in \<lparr>as_stack = stack_of_addresses fs, as_pid = pid, as_tid = ps_tid s,
            as_thread_name = comm_name (ie_comm env pid (ps_tid s))\<rparr>)"

definition stands_for :: "ingest_env \<Rightarrow> usable_sample list \<Rightarrow> cpu_values \<Rightarrow> bool" where
  "stands_for env us v \<longleftrightarrow>
     0 \<le> sint (cpu_samples v) \<and> i64_nat (cpu_samples v) = length us \<and>
     0 \<le> sint (cpu_nanoseconds v) \<and> i64_nat (cpu_nanoseconds v) = cpu_time env us"

lemma usables_simps [simp]: "usables env [] = []" "usables env (ss @ [s]) = usables env ss @ usable_of env s"
  by (simp_all add: usables_def)

lemma cpu_time_simps [simp]:
  "cpu_time env [] = 0" "cpu_time env (us @ vs) = cpu_time env us + cpu_time env vs"
  "cpu_time env ((s, x) # us) = sample_ns env s + cpu_time env us"
  by (simp_all add: cpu_time_def)

lemma sample_period_nonneg: "0 \<le> sint (sample_period f p)"
  by (simp add: sample_period_def i64_nonneg_of)

lemma cpu_time_filter: "cpu_time env (filter P us) \<le> cpu_time env us"
  by (induction us) (auto simp: cpu_time_def split: prod.splits)

section \<open>The invariant\<close>

definition tables_bounded :: "cpu_window \<Rightarrow> bool" where
  "tables_bounded w \<longleftrightarrow>
     tab_wf (cw_samples w) \<and> length (cw_samples w) \<le> cw_max_stacks w \<and>
     length (cw_stack_interner w) \<le> cw_max_stacks w \<and>
     length (cw_thread_names w) \<le> cw_max_thread_attributions w \<and>
     length (cw_timeline w) \<le> cw_max_timeline_samples w"

definition caches_right :: "ingest_env \<Rightarrow> cpu_window \<Rightarrow> bool" where
  "caches_right env w \<longleftrightarrow>
     (\<forall>s t. map_of (cw_stack_interner w) s = Some t \<longrightarrow> t = s) \<and>
     (\<forall>pid tid n. map_of (cw_thread_names w) (pid, tid) = Some n \<longrightarrow> n = comm_name (ie_comm env pid tid))"

text \<open>The counters against the usable samples: \<open>us\<close> are those seen, \<open>ss\<close> all samples.\<close>

definition counters_right :: "ingest_env \<Rightarrow> nat \<Rightarrow> usable_sample list \<Rightarrow> cpu_window \<Rightarrow> bool" where
  "counters_right env n us w \<longleftrightarrow>
     unat (cw_total_samples w) = n \<and>
     unat (cw_usable_samples w) + unat (cw_aggregation_dropped_samples w) = length us \<and>
     tab_sum (\<lambda>v. i64_nat (cpu_samples v)) (cw_samples w) = unat (cw_usable_samples w) \<and>
     tab_sum (\<lambda>v. i64_nat (cpu_nanoseconds v)) (cw_samples w) +
       i64_nat (cw_aggregation_dropped_nanoseconds w) = cpu_time env us \<and>
     (\<forall>v \<in> snd ` set (cw_samples w). 0 \<le> sint (cpu_samples v) \<and> 0 \<le> sint (cpu_nanoseconds v)) \<and>
     0 \<le> sint (cw_aggregation_dropped_nanoseconds w) \<and>
     (cw_timeline_enabled w \<longrightarrow>
        unat (cw_timeline_samples w) = length us \<and>
        length (cw_timeline w) + unat (cw_timeline_dropped w) = length us)"

definition table_exact :: "ingest_env \<Rightarrow> usable_sample list \<Rightarrow> cpu_window \<Rightarrow> bool" where
  "table_exact env us w \<longleftrightarrow>
     (\<forall>key. let mine = filter (\<lambda>u. usable_key env (cw_fallback_pid w) u = key) us
        in case map_of (cw_samples w) key of
             None \<Rightarrow> mine = []
           | Some v \<Rightarrow> mine \<noteq> [] \<and> stands_for env mine v)"

definition window_inv :: "ingest_env \<Rightarrow> nat \<Rightarrow> usable_sample list \<Rightarrow> cpu_window \<Rightarrow> bool" where
  "window_inv env n us w \<longleftrightarrow>
     tables_bounded w \<and> caches_right env w \<and> counters_right env n us w \<and>
     (cw_aggregation_dropped_samples w = 0 \<and> cw_thread_attribution_dropped w = 0 \<longrightarrow> table_exact env us w)"

lemma new_window_inv: "window_inv env 0 [] (new_cpu_window pid ms ma te mt)"
  by (simp add: window_inv_def tables_bounded_def caches_right_def counters_right_def table_exact_def
      new_cpu_window_def)

section \<open>One usable sample\<close>

text \<open>Interning the stack and naming the thread only touch their caches.\<close>

definition prepared :: "cpu_window \<Rightarrow> cpu_window \<Rightarrow> bool" where
  "prepared w w' \<longleftrightarrow>
     w' = w\<lparr>cw_truncated_samples := cw_truncated_samples w', cw_stack_interner := cw_stack_interner w',
            cw_thread_names := cw_thread_names w',
            cw_thread_attribution_dropped := cw_thread_attribution_dropped w'\<rparr>"

lemma prepared_trans: "prepared a b \<Longrightarrow> prepared b c \<Longrightarrow> prepared a c"
  by (cases a; cases b; cases c) (simp add: prepared_def)

lemma window_intern_stack_step:
  assumes "window_intern_stack s w = (st, w')" "tables_bounded w" "caches_right env w"
  shows "st = s \<and> prepared w w' \<and> tables_bounded w' \<and> caches_right env w' \<and>
    cw_thread_attribution_dropped w' = cw_thread_attribution_dropped w"
proof (cases "map_of (cw_stack_interner w) s")
  case None
  with assms show ?thesis
    by (cases w)
      (auto simp: window_intern_stack_def prepared_def tables_bounded_def caches_right_def length_update
        simp del: map_of_eq_None_iff split: if_splits)
next
  case (Some t)
  with assms have "st = t" "w' = w" by (simp_all add: window_intern_stack_def)
  with assms(2,3) Some show ?thesis by (cases w) (auto simp: prepared_def caches_right_def)
qed

lemma sat_add_one_ne_0: "sat_add x 1 \<noteq> (0 :: u64)"
proof
  assume "sat_add x 1 = (0 :: u64)"
  then have "unat (sat_add x 1) = 0" by simp
  then show False by (simp add: unat_sat_add)
qed

lemma window_thread_name_step:
  assumes "window_thread_name (ie_comm env) pid tid w = (name, w')" "tables_bounded w" "caches_right env w"
  shows "prepared w w' \<and> tables_bounded w' \<and> caches_right env w' \<and>
    (cw_thread_attribution_dropped w' = 0 \<longrightarrow>
       cw_thread_attribution_dropped w = 0 \<and> name = comm_name (ie_comm env pid tid))"
proof (cases "map_of (cw_thread_names w) (pid, tid)")
  case None
  with assms show ?thesis
    by (cases w)
      (auto simp: window_thread_name_def prepared_def tables_bounded_def caches_right_def length_update
        sat_add_one_ne_0 Let_def simp del: map_of_eq_None_iff split: if_splits)
next
  case (Some n)
  with assms have "name = n" "w' = w" by (simp_all add: window_thread_name_def)
  with assms(2,3) Some show ?thesis by (cases w) (auto simp: prepared_def caches_right_def)
qed

lemma prepared_fields:
  assumes "prepared w w'"
  shows "cw_samples w' = cw_samples w" "cw_fallback_pid w' = cw_fallback_pid w"
    "cw_max_stacks w' = cw_max_stacks w" "cw_timeline_enabled w' = cw_timeline_enabled w"
    "cw_max_timeline_samples w' = cw_max_timeline_samples w" "cw_timeline w' = cw_timeline w"
    "cw_timeline_samples w' = cw_timeline_samples w" "cw_timeline_dropped w' = cw_timeline_dropped w"
    "cw_total_samples w' = cw_total_samples w" "cw_usable_samples w' = cw_usable_samples w"
    "cw_aggregation_dropped_samples w' = cw_aggregation_dropped_samples w"
    "cw_aggregation_dropped_nanoseconds w' = cw_aggregation_dropped_nanoseconds w"
  by (subst assms [unfolded prepared_def], simp)+

lemma prepared_counters: "prepared w w' \<Longrightarrow> counters_right env n us w' = counters_right env n us w"
  by (simp add: counters_right_def prepared_fields)

lemma prepared_exact: "prepared w w' \<Longrightarrow> table_exact env us w' = table_exact env us w"
  by (simp add: table_exact_def prepared_fields)

text \<open>The timeline.\<close>

definition timeline_right :: "nat \<Rightarrow> cpu_window \<Rightarrow> bool" where
  "timeline_right n w \<longleftrightarrow>
     (cw_timeline_enabled w \<longrightarrow>
        unat (cw_timeline_samples w) = n \<and> length (cw_timeline w) + unat (cw_timeline_dropped w) = n) \<and>
     length (cw_timeline w) \<le> cw_max_timeline_samples w"

lemma unat_sat_add_one: "unat (x :: u64) < 2 ^ 63 \<Longrightarrow> unat (sat_add x 1) = unat x + 1"
  by (simp add: unat_sat_add)

lemma record_timeline_frame:
  "\<exists>tl ts td. record_timeline s pid tid name time period w =
     w\<lparr>cw_timeline := tl, cw_timeline_samples := ts, cw_timeline_dropped := td\<rparr>"
  by (cases w) (auto simp: record_timeline_def Let_def)

lemma record_timeline_step:
  assumes "timeline_right n w" "n < 2 ^ 63"
  shows "timeline_right (Suc n) (record_timeline s pid tid name time period w)"
proof (cases "cw_timeline_enabled w")
  case False
  with assms show ?thesis by (simp add: record_timeline_def timeline_right_def)
next
  case True
  with assms have "unat (cw_timeline_samples w) < 2 ^ 63" "unat (cw_timeline_dropped w) < 2 ^ 63"
    by (auto simp: timeline_right_def)
  note one = this [THEN unat_sat_add_one]
  show ?thesis
  proof (cases "length (cw_timeline w) < cw_max_timeline_samples w")
    case True
    with \<open>cw_timeline_enabled w\<close> assms one show ?thesis
      by (simp add: record_timeline_def timeline_right_def Let_def del: One_nat_def)
  next
    case False
    with \<open>cw_timeline_enabled w\<close> assms one show ?thesis
      by (simp add: record_timeline_def timeline_right_def Let_def del: One_nat_def)
  qed
qed

text \<open>Aggregation.\<close>

definition agg_right :: "ingest_env \<Rightarrow> usable_sample list \<Rightarrow> cpu_window \<Rightarrow> bool" where
  "agg_right env us w \<longleftrightarrow>
     unat (cw_usable_samples w) + unat (cw_aggregation_dropped_samples w) = length us \<and>
     tab_sum (\<lambda>v. i64_nat (cpu_samples v)) (cw_samples w) = unat (cw_usable_samples w) \<and>
     tab_sum (\<lambda>v. i64_nat (cpu_nanoseconds v)) (cw_samples w) +
       i64_nat (cw_aggregation_dropped_nanoseconds w) = cpu_time env us \<and>
     (\<forall>v \<in> snd ` set (cw_samples w). 0 \<le> sint (cpu_samples v) \<and> 0 \<le> sint (cpu_nanoseconds v)) \<and>
     0 \<le> sint (cw_aggregation_dropped_nanoseconds w) \<and>
     tab_wf (cw_samples w) \<and> length (cw_samples w) \<le> cw_max_stacks w"

lemma i64_nat_add_exact:
  "0 \<le> sint a \<Longrightarrow> 0 \<le> sint b \<Longrightarrow> i64_nat a + i64_nat b < 2 ^ 63 \<Longrightarrow>
   i64_nat (i64_sat_add a b) = i64_nat a + i64_nat b"
  by (subst i64_nat_sat_add) simp_all

lemma sint_one_i64: "sint (1 :: i64) = 1"
  by simp

lemma add_cpu_values:
  assumes "0 \<le> sint (cpu_samples v)" "0 \<le> sint (cpu_nanoseconds v)" "0 \<le> sint period"
    and "i64_nat (cpu_samples v) + 1 < 2 ^ 63" "i64_nat (cpu_nanoseconds v) + i64_nat period < 2 ^ 63"
  shows "0 \<le> sint (cpu_samples (add_cpu period v))" "0 \<le> sint (cpu_nanoseconds (add_cpu period v))"
    "i64_nat (cpu_samples (add_cpu period v)) = i64_nat (cpu_samples v) + 1"
    "i64_nat (cpu_nanoseconds (add_cpu period v)) = i64_nat (cpu_nanoseconds v) + i64_nat period"
proof -
  have one: "0 \<le> sint (1 :: i64)" "i64_nat (1 :: i64) = 1" by simp_all
  show "0 \<le> sint (cpu_samples (add_cpu period v))"
    unfolding add_cpu_def using i64_nonneg_sat_add [OF assms(1) one(1)] by simp
  show "0 \<le> sint (cpu_nanoseconds (add_cpu period v))"
    unfolding add_cpu_def using i64_nonneg_sat_add [OF assms(2,3)] by simp
  show "i64_nat (cpu_samples (add_cpu period v)) = i64_nat (cpu_samples v) + 1"
    unfolding add_cpu_def using i64_nat_add_exact [OF assms(1) one(1)] assms(4) one(2) by simp
  show "i64_nat (cpu_nanoseconds (add_cpu period v)) = i64_nat (cpu_nanoseconds v) + i64_nat period"
    unfolding add_cpu_def using i64_nat_add_exact [OF assms(2,3,5)] by simp
qed

lemma default_cpu_values:
  "cpu_samples cpu_values_default = 0" "cpu_nanoseconds cpu_values_default = 0"
  by (simp_all add: cpu_values_default_def)

lemma unat_plus_one: "unat (x :: u64) < 2 ^ 63 \<Longrightarrow> unat (x + 1) = unat x + 1"
  using unat_add_no_overflow [of x 1] by simp

lemma bounded_merge_values:
  assumes "bounded_merge cap k f v0 m = Some m'" "x \<in> snd ` set m'"
  shows "x \<in> snd ` set m \<or> x = v0 \<or> (\<exists>v. map_of m k = Some v \<and> x = f v)"
proof -
  have upd: "snd ` set (AList.update k y m) \<subseteq> insert y (snd ` set m)" for y
    by (induction m) auto
  show ?thesis
  proof (cases "map_of m k")
    case None
    with assms(1) have "m' = AList.update k v0 m" by (simp add: bounded_merge_def split: if_splits)
    with upd [of v0] assms(2) show ?thesis by blast
  next
    case (Some v)
    with assms(1) have "m' = AList.update k (f v) m" by (simp add: bounded_merge_def)
    with upd [of "f v"] assms(2) Some show ?thesis by blast
  qed
qed

lemma map_of_snd: "map_of m k = Some v \<Longrightarrow> v \<in> snd ` set m"
  by (metis image_eqI map_of_SomeD snd_conv)

lemma aggregate_cpu_step:
  assumes right: "agg_right env us w" and u: "sample_ns env (fst u) = i64_nat period" "0 \<le> sint period"
    and small: "length us + 1 < 2 ^ 63" "cpu_time env us + i64_nat period < 2 ^ 63"
  shows "agg_right env (us @ [u]) (aggregate_cpu key depth period w)"
proof -
  let ?f = "add_cpu period" and ?v0 = "add_cpu period cpu_values_default"
  let ?n = "\<lambda>v. i64_nat (cpu_samples v)" and ?t = "\<lambda>v. i64_nat (cpu_nanoseconds v)"
  have time: "cpu_time env (us @ [u]) = cpu_time env us + i64_nat period"
    using u(1) by (cases u) simp
  have counts: "unat (cw_usable_samples w) < 2 ^ 63" "unat (cw_aggregation_dropped_samples w) < 2 ^ 63"
    using right small(1) by (auto simp: agg_right_def)
  have zero: "?n cpu_values_default = 0" "?t cpu_values_default = 0" "0 \<le> sint (cpu_samples cpu_values_default)"
    "0 \<le> sint (cpu_nanoseconds cpu_values_default)" by (simp_all add: default_cpu_values)
  have period63: "i64_nat period < 2 ^ 63" using small(2) by linarith
  note v0 = add_cpu_values [OF zero(3,4) u(2)]
  have v0': "0 \<le> sint (cpu_samples ?v0)" "0 \<le> sint (cpu_nanoseconds ?v0)" "?n ?v0 = 1" "?t ?v0 = i64_nat period"
    using v0 period63 zero by simp_all
  have fv: "0 \<le> sint (cpu_samples (?f v))" "0 \<le> sint (cpu_nanoseconds (?f v))"
    "?n (?f v) = ?n v + 1" "?t (?f v) = ?t v + i64_nat period" if "map_of (cw_samples w) key = Some v" for v
  proof -
    have nn: "0 \<le> sint (cpu_samples v)" "0 \<le> sint (cpu_nanoseconds v)"
      using right map_of_snd [OF that] by (auto simp: agg_right_def)
    have "?n v \<le> unat (cw_usable_samples w)" "?t v \<le> cpu_time env us"
      using right tab_sum_ge [OF that, of ?n] tab_sum_ge [OF that, of ?t] by (auto simp: agg_right_def)
    moreover have "unat (cw_usable_samples w) + 1 < 2 ^ 63"
      using right small(1) unfolding agg_right_def by linarith
    ultimately have "?n v + 1 < 2 ^ 63" "?t v + i64_nat period < 2 ^ 63" using small(2) by linarith+
    from add_cpu_values [OF nn u(2) this]
    show "0 \<le> sint (cpu_samples (?f v))" "0 \<le> sint (cpu_nanoseconds (?f v))"
      "?n (?f v) = ?n v + 1" "?t (?f v) = ?t v + i64_nat period" .
  qed
  show ?thesis
  proof (cases "bounded_merge (cw_max_stacks w) key ?f ?v0 (cw_samples w)")
    case None
    have nn: "0 \<le> sint (cw_aggregation_dropped_nanoseconds w)" using right by (simp add: agg_right_def)
    have "i64_nat (cw_aggregation_dropped_nanoseconds w) + i64_nat period < 2 ^ 63"
      using right small(2) unfolding agg_right_def by linarith
    note add = i64_nat_add_exact [OF nn u(2) this]
    show ?thesis
      using right None time add unat_sat_add_one [OF counts(2)] i64_nonneg_sat_add [OF nn u(2)]
      by (simp add: agg_right_def aggregate_cpu_def)
  next
    case (Some m)
    have wf: "tab_wf (cw_samples w)" and len: "length (cw_samples w) \<le> cw_max_stacks w"
      using right by (simp_all add: agg_right_def)
    have n: "tab_sum ?n m = tab_sum ?n (cw_samples w) + 1"
      by (rule bounded_merge_sum [OF Some wf]) (use fv v0' in simp_all)
    have t: "tab_sum ?t m = tab_sum ?t (cw_samples w) + i64_nat period"
      by (rule bounded_merge_sum [OF Some wf]) (use fv v0' in simp_all)
    have nn: "0 \<le> sint (cpu_samples x) \<and> 0 \<le> sint (cpu_nanoseconds x)" if "x \<in> snd ` set m" for x
      using bounded_merge_values [OF Some that] right v0'(1,2) fv(1,2) by (auto simp: agg_right_def)
    show ?thesis
      using right Some time n t nn unat_plus_one [OF counts(1)] bounded_merge_length [OF Some len]
        bounded_merge_wf [OF Some wf]
      by (simp add: agg_right_def aggregate_cpu_def)
  qed
qed

lemma stands_for_add:
  assumes "stands_for env mine v" "sample_ns env (fst u) = i64_nat period" "0 \<le> sint period"
    and "length mine + 1 < 2 ^ 63" "cpu_time env mine + i64_nat period < 2 ^ 63"
  shows "stands_for env (mine @ [u]) (add_cpu period v)"
proof -
  have v: "0 \<le> sint (cpu_samples v)" "0 \<le> sint (cpu_nanoseconds v)"
    "i64_nat (cpu_samples v) + 1 < 2 ^ 63" "i64_nat (cpu_nanoseconds v) + i64_nat period < 2 ^ 63"
    using assms by (simp_all add: stands_for_def)
  have "cpu_time env (mine @ [u]) = cpu_time env mine + i64_nat period" using assms(2) by (cases u) simp
  with add_cpu_values [OF v(1,2) assms(3) v(3,4)] assms(1) show ?thesis by (simp add: stands_for_def)
qed

lemma stands_for_default: "stands_for env [] cpu_values_default"
  by (simp add: stands_for_def default_cpu_values)

lemma aggregate_cpu_exact:
  assumes exact: "table_exact env us w"
    and u: "sample_ns env (fst u) = i64_nat period" "0 \<le> sint period"
    and small: "length us + 1 < 2 ^ 63" "cpu_time env us + i64_nat period < 2 ^ 63"
    and key: "key = usable_key env (cw_fallback_pid w) u"
    and kept: "cw_aggregation_dropped_samples (aggregate_cpu key depth period w) = 0"
  shows "table_exact env (us @ [u]) (aggregate_cpu key depth period w)"
proof (cases "bounded_merge (cw_max_stacks w) key (add_cpu period) (add_cpu period cpu_values_default) (cw_samples w)")
  case None
  with kept show ?thesis by (simp add: aggregate_cpu_def sat_add_one_ne_0)
next
  case (Some m)
  let ?mine = "\<lambda>k. filter (\<lambda>u. usable_key env (cw_fallback_pid w) u = k)"
  have after: "cw_samples (aggregate_cpu key depth period w) = m"
    "cw_fallback_pid (aggregate_cpu key depth period w) = cw_fallback_pid w"
    using Some by (simp_all add: aggregate_cpu_def)
  have old: "case map_of (cw_samples w) k of None \<Rightarrow> ?mine k us = []
      | Some v \<Rightarrow> ?mine k us \<noteq> [] \<and> stands_for env (?mine k us) v" for k
    using exact unfolding table_exact_def Let_def by blast
  have sub: "length (?mine key us) \<le> length us" "cpu_time env (?mine key us) \<le> cpu_time env us"
    by (simp, rule cpu_time_filter)
  have bounds: "length (?mine key us) + 1 < 2 ^ 63" "cpu_time env (?mine key us) + i64_nat period < 2 ^ 63"
    using sub small by linarith+
  have "case map_of m k of None \<Rightarrow> ?mine k (us @ [u]) = []
      | Some v \<Rightarrow> ?mine k (us @ [u]) \<noteq> [] \<and> stands_for env (?mine k (us @ [u])) v" for k
  proof (cases "k = key")
    case False
    then have same: "map_of m k = map_of (cw_samples w) k" by (simp add: bounded_merge_map_of [OF Some])
    have mine: "?mine k (us @ [u]) = ?mine k us" using False key by auto
    show ?thesis unfolding same mine by (rule old)
  next
    case True
    have new: "?mine k (us @ [u]) = ?mine key us @ [u]" using key True by simp
    show ?thesis
    proof (cases "map_of (cw_samples w) key")
      case None
      with old [of key] have nil: "?mine key us = []" by simp
      have "stands_for env ([] @ [u]) (add_cpu period cpu_values_default)"
        by (rule stands_for_add [OF stands_for_default u]) (use bounds nil in simp_all)
      with None new nil True show ?thesis by (simp add: bounded_merge_map_of [OF Some])
    next
      case (Some v)
      with old [of key] have "stands_for env (?mine key us) v" by simp
      from stands_for_add [OF this u bounds] new True Some
      show ?thesis by (simp add: bounded_merge_map_of [OF \<open>bounded_merge _ _ _ _ _ = Some m\<close>])
    qed
  qed
  then show ?thesis unfolding table_exact_def after Let_def by blast
qed

lemma counters_parts:
  "counters_right env n us w \<and> tables_bounded w \<longleftrightarrow>
     unat (cw_total_samples w) = n \<and> agg_right env us w \<and> timeline_right (length us) w \<and>
     length (cw_stack_interner w) \<le> cw_max_stacks w \<and>
     length (cw_thread_names w) \<le> cw_max_thread_attributions w"
  by (auto simp: counters_right_def agg_right_def timeline_right_def tables_bounded_def)

lemma aggregate_cpu_frame:
  "\<exists>s u d ad an. aggregate_cpu key depth period w =
     w\<lparr>cw_samples := s, cw_usable_samples := u, cw_depth_sum := d, cw_aggregation_dropped_samples := ad,
       cw_aggregation_dropped_nanoseconds := an\<rparr>"
  by (cases w) (auto simp: aggregate_cpu_def split: option.splits)

lemma attribute_sample_step:
  assumes inv: "window_inv env n us w" and u: "u = (s, fs, truncated)"
    and small: "length us + 1 < 2 ^ 63" "cpu_time env (us @ [u]) < 2 ^ 63"
  shows "window_inv env n (us @ [u]) (attribute_sample (ie_comm env) (ie_frequency env) s fs truncated w) \<and>
    cw_fallback_pid (attribute_sample (ie_comm env) (ie_frequency env) s fs truncated w) = cw_fallback_pid w"
proof -
  define w1 where "w1 = (if truncated then w\<lparr>cw_truncated_samples := cw_truncated_samples w + 1\<rparr> else w)"
  define period where "period = sample_period (ie_frequency env) (ps_period s)"
  define pid where "pid = (if ps_pid s = 0 then cw_fallback_pid w else ps_pid s)"
  obtain st w2 where i: "window_intern_stack (stack_of_addresses fs) w1 = (st, w2)" by (rule prod.exhaust)
  obtain name w3 where t: "window_thread_name (ie_comm env) pid (ps_tid s) w2 = (name, w3)" by (rule prod.exhaust)
  define w4 where "w4 = record_timeline st pid (ps_tid s) name (ps_time s) period w3"
  define key where "key = \<lparr>as_stack = st, as_pid = pid, as_tid = ps_tid s, as_thread_name = name\<rparr>"
  have inv: "tables_bounded w" "caches_right env w" "counters_right env n us w"
    "cw_aggregation_dropped_samples w = 0 \<and> cw_thread_attribution_dropped w = 0 \<longrightarrow> table_exact env us w"
    using inv by (simp_all add: window_inv_def)
  have p1: "prepared w w1" "tables_bounded w1" "caches_right env w1"
    "cw_thread_attribution_dropped w1 = cw_thread_attribution_dropped w"
    using inv(1,2) by (cases w, auto simp: w1_def prepared_def tables_bounded_def caches_right_def)+
  note p2 = window_intern_stack_step [OF i p1(2,3)]
  note p3 = window_thread_name_step [OF t conjunct1 [OF conjunct2 [OF conjunct2 [OF p2]]]]
  have p3: "prepared w2 w3" "tables_bounded w3" "caches_right env w3"
    "cw_thread_attribution_dropped w3 = 0 \<longrightarrow>
       cw_thread_attribution_dropped w = 0 \<and> name = comm_name (ie_comm env pid (ps_tid s))"
    using p2 p3 p1(4) by auto
  have fallback: "cw_fallback_pid w2 = cw_fallback_pid w"
    using p2 prepared_fields(2) [OF p1(1)] prepared_fields(2) [of w1 w2] by simp
  have prep: "prepared w w3" using p1(1) p2 p3(1) by (blast intro: prepared_trans)
  then have c3: "counters_right env n us w3" using inv(3) by (simp add: prepared_counters)
  with p3(2) have parts: "unat (cw_total_samples w3) = n" "agg_right env us w3" "timeline_right (length us) w3"
      "length (cw_stack_interner w3) \<le> cw_max_stacks w3"
      "length (cw_thread_names w3) \<le> cw_max_thread_attributions w3"
    using counters_parts by blast+
  have out: "attribute_sample (ie_comm env) (ie_frequency env) s fs truncated w =
      aggregate_cpu key (length fs) period w4"
    unfolding attribute_sample_def Let_def w1_def [symmetric] i prod.case fallback pid_def [symmetric]
      period_def [symmetric] t w4_def key_def by (rule refl)
  have t4: "timeline_right (Suc (length us)) w4"
    unfolding w4_def by (rule record_timeline_step [OF parts(3)]) (use small in simp)
  obtain tl ts td where w4: "w4 = w3\<lparr>cw_timeline := tl, cw_timeline_samples := ts, cw_timeline_dropped := td\<rparr>"
    unfolding w4_def using record_timeline_frame by blast
  have a4: "agg_right env us w4" using parts(2) by (simp add: agg_right_def w4)
  have ns: "sample_ns env (fst u) = i64_nat period" "0 \<le> sint period"
    by (simp_all add: u sample_ns_def period_def sample_period_nonneg)
  have bound: "cpu_time env us + i64_nat period < 2 ^ 63" using small(2) ns(1) by (simp add: u)
  define w5 where "w5 = aggregate_cpu key (length fs) period w4"
  note a5 = aggregate_cpu_step [OF a4 ns small(1) bound, of key "length fs", folded w5_def]
  obtain sa ua da ad an where W5: "w5 =
      w4\<lparr>cw_samples := sa, cw_usable_samples := ua, cw_depth_sum := da, cw_aggregation_dropped_samples := ad,
         cw_aggregation_dropped_nanoseconds := an\<rparr>"
    unfolding w5_def using aggregate_cpu_frame by blast
  have "timeline_right (length (us @ [u])) w5" using t4 by (simp add: W5 timeline_right_def)
  then have "counters_right env n (us @ [u]) w5 \<and> tables_bounded w5"
    unfolding counters_parts using a5 parts by (simp add: W5 w4)
  moreover have "caches_right env w5" using p3(3) by (simp add: W5 w4 caches_right_def)
  moreover have "table_exact env (us @ [u]) w5"
    if "cw_aggregation_dropped_samples w5 = 0" "cw_thread_attribution_dropped w5 = 0"
    unfolding w5_def
  proof (rule aggregate_cpu_exact [OF _ ns small(1) bound _ that(1) [unfolded w5_def]])
    have at: "cw_thread_attribution_dropped w3 = 0" using that(2) by (simp add: W5 w4)
    have "cw_aggregation_dropped_samples w3 = 0"
      using that(1) by (auto simp: w5_def aggregate_cpu_def w4 sat_add_one_ne_0 split: option.splits)
    then have ag: "cw_aggregation_dropped_samples w = 0" using prepared_fields(11) [OF prep] by simp
    have "table_exact env us w3" using inv(4) ag at p3(4) prepared_exact [OF prep] by blast
    then show "table_exact env us w4" by (simp add: table_exact_def w4)
    show "key = usable_key env (cw_fallback_pid w4) u"
      using at p3(4) p2 prepared_fields(2) [OF prep]
      by (simp add: key_def usable_key_def u w4 pid_def Let_def)
  qed
  moreover have "cw_fallback_pid w5 = cw_fallback_pid w"
    using prepared_fields(2) [OF prep] by (simp add: W5 w4)
  ultimately show ?thesis unfolding out w5_def [symmetric] window_inv_def by blast
qed

section \<open>Batches\<close>

lemma judged_inv: "judged w w' \<Longrightarrow> window_inv env n us w' = window_inv env n us w"
  by (subst judged_def [THEN iffD1], assumption)
    (simp add: window_inv_def tables_bounded_def caches_right_def counters_right_def table_exact_def)

lemma judged_fallback: assumes "judged w w'" shows "cw_fallback_pid w' = cw_fallback_pid w"
  by (subst assms [unfolded judged_def], simp)

lemma counted_inv:
  assumes "window_inv env n us w" "n < 2 ^ 63"
  shows "window_inv env (Suc n) us (w\<lparr>cw_total_samples := cw_total_samples w + 1\<rparr>)"
proof -
  have "unat (cw_total_samples w) < 2 ^ 63" using assms by (simp add: window_inv_def counters_right_def)
  from unat_plus_one [OF this] assms(1) show ?thesis
    by (simp add: window_inv_def tables_bounded_def caches_right_def counters_right_def table_exact_def)
qed

lemma length_usable_of: "length (usable_of env s) \<le> 1"
  by (simp add: usable_of_def split: verdict.split)

lemma usables_Cons [simp]: "usables env (s # ss) = usable_of env s @ usables env ss"
  by (simp add: usables_def)

lemma length_usables: "length (usables env ss) \<le> length ss"
proof (induction ss)
  case (Cons s ss)
  then show ?case using length_usable_of [of env s] by simp
qed (simp add: usables_def)

lemma ingest_samples_step:
  assumes "ingest_samples env ss batch w = (Inr (), batch', w')" "window_inv env n us w"
    and "n + length ss < 2 ^ 63" "length us \<le> n" "cpu_time env (us @ usables env ss) < 2 ^ 63"
  shows "window_inv env (n + length ss) (us @ usables env ss) w' \<and>
    cw_fallback_pid w' = cw_fallback_pid w"
  using assms
proof (induction ss arbitrary: batch w n us)
  case Nil
  then show ?case by (simp add: usables_def)
next
  case (Cons s rest)
  define w1 where "w1 = w\<lparr>cw_total_samples := cw_total_samples w + 1\<rparr>"
  obtain v w2 where j: "judge (ie_ranges env) (ie_unwinder env) (ie_allow_partial env) (ps_data s) w1 = (v, w2)"
    by (rule prod.exhaust)
  have v: "v = fate env (ps_data s)" using judge_fate [of env "ps_data s" w1] j by simp
  have jw: "judged w1 w2" using judge_judged [of w1] j by (metis snd_conv)
  have inv1: "window_inv env (Suc n) us w1"
    unfolding w1_def by (rule counted_inv [OF Cons.prems(2)]) (use Cons.prems(3) in simp)
  then have inv2: "window_inv env (Suc n) us w2" using judged_inv [OF jw] by blast
  have fb: "cw_fallback_pid w2 = cw_fallback_pid w"
    using judged_fallback [OF jw] by (simp add: w1_def)
  note run = Cons.prems(1) [simplified ingest_samples.simps Let_def, folded w1_def, unfolded j prod.case]
  show ?case
  proof (cases v)
    case (Fatal e)
    with run show ?thesis by simp
  next
    case Rejected
    with v have none: "usable_of env s = []" by (simp add: usable_of_def)
    have "window_inv env (Suc n + length rest) (us @ usables env rest) w' \<and>
        cw_fallback_pid w' = cw_fallback_pid w2"
      by (rule Cons.IH [where n = "Suc n"]) (use run Rejected inv2 Cons.prems none in auto)
    with fb none show ?thesis by simp
  next
    case (Usable fs truncated)
    then have one: "usable_of env s = [(s, fs, truncated)]" using v by (simp add: usable_of_def)
    let ?u = "(s, fs, truncated)"
    have len: "length us + 1 < 2 ^ 63" using Cons.prems(3,4) by simp
    have time: "cpu_time env (us @ [?u]) < 2 ^ 63" using Cons.prems(5) by (simp add: one)
    note a = attribute_sample_step [OF inv2 refl len time]
    let ?w3 = "attribute_sample (ie_comm env) (ie_frequency env) s fs truncated w2"
    have "window_inv env (Suc n + length rest) ((us @ [?u]) @ usables env rest) w' \<and>
        cw_fallback_pid w' = cw_fallback_pid ?w3"
      by (rule Cons.IH [where n = "Suc n"]) (use run Usable a Cons.prems one in auto)
    with fb one a show ?thesis by simp
  qed
qed

text \<open>Batches in turn; the second component tells whether the sorter is flushed.\<close>

fun ingest_run ::
  "ingest_env \<Rightarrow> (perf_batch \<times> bool) list \<Rightarrow> cpu_window \<Rightarrow> event_sorter \<Rightarrow>
   (ingest_error + unit) \<times> cpu_window \<times> event_sorter" where
  "ingest_run env [] w sorter = (Inr (), w, sorter)"
| "ingest_run env ((batch, flush) # rest) w sorter =
     (case ingest_cpu_batch env flush batch w sorter of
        (Inl e, _, w', sorter') \<Rightarrow> (Inl e, w', sorter')
      | (Inr _, _, w', sorter') \<Rightarrow> ingest_run env rest w' sorter')"

lemma push_all_step:
  assumes "push_all ss sorter = (sorter', ready)" "sorter_ok sorter"
  shows "sorter_ok sorter' \<and>
    mset ready + mset (sorter_contents sorter') = mset (sorter_contents sorter) + mset ss"
proof -
  have "sorter_ok st' \<and> mset rd' + mset (sorter_contents st') =
      mset rd + mset (sorter_contents st) + mset ss"
    if "fold (\<lambda>s (st, ready). push_sample s st ready) ss (st, rd) = (st', rd')" "sorter_ok st" for st rd st' rd'
    using that
  proof (induction ss arbitrary: st rd)
    case Nil
    then show ?case by simp
  next
    case (Cons s ss)
    obtain st1 rd1 where p: "push_sample s st rd = (st1, rd1)" by (rule prod.exhaust)
    note mv = push_sample_moves [OF Cons.prems(2) p]
    then have "mset (rd1 @ sorter_contents st1) = mset (rd @ insert_late s (sorter_contents st))" by simp
    then have m: "mset rd1 + mset (sorter_contents st1) = mset rd + mset (sorter_contents st) + {#s#}" by simp
    from Cons.IH [of st1 rd1] Cons.prems(1) p mv m show ?case by simp
  qed
  from this [of sorter "[]" sorter' ready] assms show ?thesis by (simp add: push_all_def)
qed

lemma ingest_run_step:
  assumes "ingest_run env batches w sorter = (Inr (), w', sorter')" "sorter_ok sorter"
  shows "\<exists>processed. sorter_ok sorter' \<and>
    mset processed + mset (sorter_contents sorter') =
      mset (sorter_contents sorter) + mset (concat (map (pb_samples \<circ> fst) batches)) \<and>
    (\<forall>n us. window_inv env n us w \<longrightarrow> n + length processed < 2 ^ 63 \<longrightarrow> length us \<le> n \<longrightarrow>
       cpu_time env (us @ usables env processed) < 2 ^ 63 \<longrightarrow>
       window_inv env (n + length processed) (us @ usables env processed) w')"
  using assms
proof (induction batches arbitrary: w sorter)
  case Nil
  then show ?case by (intro exI [of _ "[]"]) (simp add: usables_def)
next
  case (Cons bf rest)
  obtain batch flush where bf: "bf = (batch, flush)" by (rule prod.exhaust)
  define w1 where "w1 = w\<lparr>cw_lost_samples := sat_add (cw_lost_samples w) (pb_lost_samples batch),
    cw_malformed_samples := sat_add (cw_malformed_samples w) (pb_malformed_records batch)\<rparr>"
  obtain s1 ready1 where p: "push_all (pb_samples batch) sorter = (s1, ready1)" by (rule prod.exhaust)
  obtain s2 ready where f: "(if flush then flush_sorter s1 ready1 else (s1, ready1)) = (s2, ready)"
    by (rule prod.exhaust)
  obtain r b' w2 where i: "ingest_samples env ready (batch\<lparr>pb_samples := []\<rparr>) w1 = (r, b', w2)"
    by (metis prod.exhaust)
  have batch: "ingest_cpu_batch env flush batch w sorter = (r, b', w2, s2)"
    unfolding ingest_cpu_batch_def Let_def w1_def [symmetric] p prod.case f i by (rule refl)
  have run: "r = Inr ()" "ingest_run env rest w2 s2 = (Inr (), w', sorter')"
    using Cons.prems(1) batch by (auto simp: bf split: sum.splits)
  note ps = push_all_step [OF p Cons.prems(2)]
  have fl: "sorter_ok s2 \<and> mset ready + mset (sorter_contents s2) = mset ready1 + mset (sorter_contents s1)"
  proof (cases flush)
    case True
    with f have "flush_sorter s1 ready1 = (s2, ready)" by simp
    note mv = flush_sorter_moves [OF conjunct1 [OF ps] this]
    then have "ready @ sorter_contents s2 = ready1 @ sorter_contents s1" "sorter_ok s2"
      unfolding moves_def by blast+
    then show ?thesis by (metis mset_append)
  next
    case False
    with f ps show ?thesis by simp
  qed
  from Cons.IH [OF run(2) conjunct1 [OF fl]] obtain more where more: "sorter_ok sorter'"
    "mset more + mset (sorter_contents sorter') =
      mset (sorter_contents s2) + mset (concat (map (pb_samples \<circ> fst) rest))"
    "\<And>n us. window_inv env n us w2 \<Longrightarrow> n + length more < 2 ^ 63 \<Longrightarrow> length us \<le> n \<Longrightarrow>
       cpu_time env (us @ usables env more) < 2 ^ 63 \<Longrightarrow>
       window_inv env (n + length more) (us @ usables env more) w'" by blast
  have us: "usables env (ready @ more) = usables env ready @ usables env more" by (simp add: usables_def)
  have "window_inv env (n + length (ready @ more)) (us @ usables env (ready @ more)) w'"
    if "window_inv env n us w" "n + length (ready @ more) < 2 ^ 63" "length us \<le> n"
      "cpu_time env (us @ usables env (ready @ more)) < 2 ^ 63" for n us
  proof -
    have "window_inv env n us w1"
      using that(1) by (simp add: w1_def window_inv_def tables_bounded_def caches_right_def counters_right_def
          table_exact_def)
    from ingest_samples_step [OF i [unfolded run(1)] this] that
    have mid: "window_inv env (n + length ready) (us @ usables env ready) w2" by (simp add: us)
    have "length (us @ usables env ready) \<le> n + length ready"
      using that(3) length_usables [of env ready] by simp
    from more(3) [OF mid _ this] that show ?thesis by (simp add: us add.assoc)
  qed
  moreover have "mset (ready @ more) + mset (sorter_contents sorter') =
      mset (sorter_contents sorter) + mset (concat (map (pb_samples \<circ> fst) (bf # rest)))"
  proof -
    let ?rest = "mset (concat (map (pb_samples \<circ> fst) rest))"
    have "mset (ready @ more) + mset (sorter_contents sorter') =
        mset ready + (mset more + mset (sorter_contents sorter'))" by (simp add: add.assoc)
    also have "\<dots> = (mset ready + mset (sorter_contents s2)) + ?rest"
      unfolding more(2) by (simp add: add.assoc)
    also have "\<dots> = mset (sorter_contents sorter) + mset (pb_samples batch) + ?rest"
      using fl ps by (simp only:)
    finally show ?thesis by (simp add: bf add.assoc)
  qed
  ultimately show ?case using more(1) by blast
qed

text \<open>Without a DWARF unwinder that can meet an ambiguous address, ingesting never fails.\<close>

lemma ingest_samples_ok:
  "(\<And>data e. fate env data \<noteq> Fatal e) \<Longrightarrow> fst (ingest_samples env ss batch w) = Inr ()"
proof (induction ss arbitrary: batch w)
  case Nil
  then show ?case by simp
next
  case (Cons s rest)
  let ?w1 = "w\<lparr>cw_total_samples := cw_total_samples w + 1\<rparr>"
  obtain v w2 where j: "judge (ie_ranges env) (ie_unwinder env) (ie_allow_partial env) (ps_data s) ?w1 = (v, w2)"
    by (rule prod.exhaust)
  then have "v = fate env (ps_data s)" using judge_fate [of env "ps_data s" ?w1] by simp
  then have nf: "v \<noteq> Fatal e" for e using Cons.prems by simp
  show ?case
  proof (cases v)
    case (Fatal e)
    with nf [of e] show ?thesis by simp
  qed (use Cons in \<open>simp_all add: Let_def j\<close>)
qed

lemma ingest_run_ok:
  assumes "\<And>data e. fate env data \<noteq> Fatal e"
  shows "fst (ingest_run env batches w sorter) = Inr ()"
proof (induction batches arbitrary: w sorter)
  case Nil
  then show ?case by simp
next
  case (Cons bf rest)
  obtain batch flush where bf: "bf = (batch, flush)" by (rule prod.exhaust)
  obtain r b' w' s' where i: "ingest_cpu_batch env flush batch w sorter = (r, b', w', s')" by (metis prod.exhaust)
  have "r = Inr ()"
    using i ingest_samples_ok [OF assms] by (auto simp: ingest_cpu_batch_def Let_def split: prod.splits)
      (metis fst_conv)
  with i Cons show ?case by (simp add: bf)
qed

section \<open>Properties\<close>

text \<open>C35: A CPU window accounts for every sample. After any batches, each in turn pushed through the event
  sorter and ingested without an ambiguous address, the samples processed and those the sorter still
  holds are together the samples of the batches; the window counts the processed ones; the usable
  among them are the aggregated plus the dropped ones, with their CPU time conserved between the
  stacks and the dropped time; no table exceeds its bound; and when nothing was dropped, the window
  maps exactly the attributed stacks of the usable samples, each to their number and CPU time. (The
  bounds on the number of samples and the total time exclude overflow of the 64-bit counters.)\<close>

theorem cpu_window_accounts:
  assumes "ingest_run env batches (new_cpu_window pid max_stacks max_threads timeline max_timeline)
      (new_sorter reorder max_pending) = (Inr (), w, sorter)"
    and "length (concat (map (pb_samples \<circ> fst) batches)) < 2 ^ 63"
    and "(\<Sum>s \<leftarrow> concat (map (pb_samples \<circ> fst) batches). sample_ns env s) < 2 ^ 63"
  shows "\<exists>processed.
    mset processed + mset (sorter_contents sorter) = mset (concat (map (pb_samples \<circ> fst) batches)) \<and>
    window_inv env (length processed) (usables env processed) w"
proof -
  let ?all = "concat (map (pb_samples \<circ> fst) batches)"
  have empty: "sorter_ok (new_sorter reorder max_pending)" "sorter_contents (new_sorter reorder max_pending) = []"
    by (simp_all add: new_sorter_def sorter_ok_def sorter_contents_def)
  from ingest_run_step [OF assms(1) empty(1)] obtain processed where p:
    "mset processed + mset (sorter_contents sorter) = mset ?all"
    "\<And>n us. window_inv env n us (new_cpu_window pid max_stacks max_threads timeline max_timeline) \<Longrightarrow>
       n + length processed < 2 ^ 63 \<Longrightarrow> length us \<le> n \<Longrightarrow>
       cpu_time env (us @ usables env processed) < 2 ^ 63 \<Longrightarrow>
       window_inv env (n + length processed) (us @ usables env processed) w"
    by (auto simp: empty(2))
  have "length processed + length (sorter_contents sorter) = length ?all"
    using arg_cong [OF p(1), of size] by simp
  then have len: "length processed < 2 ^ 63" using assms(2) by simp
  have "cpu_time env (usables env ss) \<le> (\<Sum>s \<leftarrow> ss. sample_ns env s)" for ss
  proof (induction ss)
    case (Cons s ss)
    then show ?case by (auto simp: usable_of_def split: verdict.split)
  qed (simp add: usables_def)
  moreover have "(\<Sum>s \<leftarrow> processed. sample_ns env s) + (\<Sum>s \<leftarrow> sorter_contents sorter. sample_ns env s) =
      (\<Sum>s \<leftarrow> ?all. sample_ns env s)"
    using arg_cong [OF p(1), of "\<lambda>m. sum_mset (image_mset (sample_ns env) m)"]
    by (simp add: sum_mset_sum_list [symmetric])
  ultimately have "cpu_time env (usables env processed) < 2 ^ 63"
    using assms(3) by (metis (no_types, lifting) le_add1 le_less_trans)
  with p(1) p(2) [OF new_window_inv] len show ?thesis by auto
qed

definition plain_env :: ingest_env where
  "plain_env = \<lparr>ie_ranges = [(16, 64)], ie_unwinder = None, ie_allow_partial = True,
     ie_frequency = 49, ie_comm = (\<lambda>_ _. Some ''worker'')\<rparr>"

definition fp_sample :: "u64 \<Rightarrow> u64 list \<Rightarrow> perf_sample" where
  "fp_sample time as = \<lparr>ps_pid = 7, ps_tid = 8, ps_time = time, ps_period = 5, ps_data = Frame_Pointer as\<rparr>"

definition two_batches :: "(perf_batch \<times> bool) list" where
  "two_batches =
     [(perf_batch_default\<lparr>pb_samples := [fp_sample 3 [20, 24], fp_sample 2 [20, 20]]\<rparr>, False),
      (perf_batch_default\<lparr>pb_samples := [fp_sample 4 [20, 24]]\<rparr>, True)]"

theorem cpu_window_accounts_witness:
  "\<exists>w sorter processed.
    ingest_run plain_env two_batches (new_cpu_window 7 2 2 True 1) (new_sorter 0 4) = (Inr (), w, sorter) \<and>
    mset processed + mset (sorter_contents sorter) = mset (concat (map (pb_samples \<circ> fst) two_batches)) \<and>
    window_inv plain_env (length processed) (usables plain_env processed) w"
proof -
  have ok: "fst (ingest_run plain_env two_batches (new_cpu_window 7 2 2 True 1) (new_sorter 0 4)) = Inr ()"
    by (rule ingest_run_ok) (simp add: fate_def plain_env_def split: perf_sample_data.split)
  obtain w sorter where r:
    "ingest_run plain_env two_batches (new_cpu_window 7 2 2 True 1) (new_sorter 0 4) = (Inr (), w, sorter)"
    using ok by (metis prod.collapse)
  have small: "length (concat (map (pb_samples \<circ> fst) two_batches)) < 2 ^ 63"
    "(\<Sum>s \<leftarrow> concat (map (pb_samples \<circ> fst) two_batches). sample_ns plain_env s) < 2 ^ 63"
    by (simp_all add: two_batches_def fp_sample_def sample_ns_def sample_period_def i64_of_u64_def)
  show ?thesis using cpu_window_accounts [OF r small] r by blast
qed

end
