(* ===== verification/Cli.thy ===== *)
theory Cli
  imports Otlp
begin

text \<open>
  The options of a recording (\<open>src/src/cli.rs\<close>): the records that \<open>clap\<close> fills in. Durations are
  nanoseconds. \<open>parse_positive\<close> is the value parser of the bounds.
\<close>

record symbol_args =
  sa_symbol_dirs :: "string list"
  sa_debuginfod :: "string option"

record record_args =
  ra_target :: target_args
  ra_pid :: i32
  ra_resume_pid :: "i32 option"
  ra_launch_cgroup :: "string option"
  ra_profiles :: "profile_kind list"
  ra_duration :: nat
  ra_window :: nat
  ra_unwind :: unwind_mode
  ra_cpu_frequency :: u32
  ra_alloc_interval :: u64
  ra_allocator :: allocator_choice
  ra_output :: string
  ra_keep_windows :: nat
  ra_max_stacks :: nat
  ra_max_pending_events :: nat
  ra_max_timeline_samples :: nat
  ra_otlp_timeline :: bool
  ra_event_reorder_window :: nat
  ra_firefox_profile :: "firefox_profile_format option"
  ra_svg :: bool
  ra_allow_partial :: bool
  ra_max_threads :: nat
  ra_symbols :: symbol_args
  ra_otlp :: otlp_args

text \<open>The options of \<open>launch\<close>, which has no target of its own.\<close>

record launch_args =
  la_command :: "string list"
  la_profiles :: "profile_kind list"
  la_duration :: nat
  la_window :: nat
  la_unwind :: unwind_mode
  la_cpu_frequency :: u32
  la_alloc_interval :: u64
  la_allocator :: allocator_choice
  la_output :: string
  la_keep_windows :: nat
  la_max_stacks :: nat
  la_max_pending_events :: nat
  la_max_timeline_samples :: nat
  la_otlp_timeline :: bool
  la_event_reorder_window :: nat
  la_firefox_profile :: "firefox_profile_format option"
  la_svg :: bool
  la_allow_partial :: bool
  la_max_threads :: nat
  la_symbols :: symbol_args
  la_otlp :: otlp_args

datatype import_format = Import_Auto | Import_Perf_Data | Import_Simpleperf

record import_args =
  ia_input :: string
  ia_format :: import_format
  ia_output :: string
  ia_window :: nat
  ia_firefox_profile :: "firefox_profile_format option"
  ia_max_stacks :: nat
  ia_max_timeline_samples :: nat

section \<open>Checking the options\<close>

datatype cli_error =
  Not_A_Number
| Not_Positive
| Invalid_Symbol_Configuration "symbol_error list"
| Window_Zero
| Reorder_Exceeds_Window
| No_Profiles
| Max_Threads_Zero
| Otlp_Configuration otlp_error
| Timeline_Without_Cpu
| Timeline_Without_Endpoint
and symbol_error = Missing_Symbol_Directory string | Debuginfod_Scheme

definition parse_positive_usize :: "string \<Rightarrow> cli_error + nat" where
  "parse_positive_usize text =
     (case (parse_radix 10 text :: u64 option) of
        None \<Rightarrow> Inl Not_A_Number
      | Some n \<Rightarrow> if n = 0 then Inl Not_Positive else Inr (unat n))"

definition symbol_configuration_errors :: "(string \<Rightarrow> bool) \<Rightarrow> symbol_args \<Rightarrow> symbol_error list" where
  "symbol_configuration_errors is_dir args =
     map Missing_Symbol_Directory (filter (\<lambda>d. \<not> is_dir d) (sa_symbol_dirs args)) @
     (case sa_debuginfod args of
        None \<Rightarrow> []
      | Some url \<Rightarrow>
          if starts_with ''https://'' url \<or> starts_with ''http://'' url then [] else [Debuginfod_Scheme])"

definition validate_otlp_timeline :: "profile_kind list \<Rightarrow> bool \<Rightarrow> bool \<Rightarrow> cli_error + unit" where
  "validate_otlp_timeline profiles enabled otlp_configured =
     (if \<not> enabled then Inr ()
      else if Cpu \<notin> set profiles then Inl Timeline_Without_Cpu
      else if \<not> otlp_configured then Inl Timeline_Without_Endpoint
      else Inr ())"

text \<open>\<open>retain(|p| seen.insert(p))\<close>: the first occurrence of each kind stays.\<close>

fun keep_first :: "'a list \<Rightarrow> 'a list \<Rightarrow> 'a list" where
  "keep_first seen [] = []"
| "keep_first seen (x # xs) = (if x \<in> set seen then keep_first seen xs else x # keep_first (x # seen) xs)"

definition validate_record_args ::
  "(string \<Rightarrow> bool) \<Rightarrow> (string \<Rightarrow> string option) \<Rightarrow> (string \<Rightarrow> bool) \<Rightarrow> record_args \<Rightarrow> cli_error + record_args" where
  "validate_record_args is_dir env is_file args =
     (let errors = symbol_configuration_errors is_dir (ra_symbols args)
      in if errors \<noteq> [] then Inl (Invalid_Symbol_Configuration errors)
         else
           let args' = args\<lparr>ra_profiles := keep_first [] (ra_profiles args)\<rparr>
           in if ra_window args' = 0 then Inl Window_Zero
              else if ra_event_reorder_window args' > ra_window args' then Inl Reorder_Exceeds_Window
              else if ra_profiles args' = [] then Inl No_Profiles
              else if ra_max_threads args' = 0 then Inl Max_Threads_Zero
              else case config_from env is_file (ra_otlp args') of
                     Inl e \<Rightarrow> Inl (Otlp_Configuration e)
                   | Inr config \<Rightarrow>
                       (case validate_otlp_timeline (ra_profiles args') (ra_otlp_timeline args')
                               (config \<noteq> None) of
                          Inl e \<Rightarrow> Inl e
                        | Inr _ \<Rightarrow> Inr args'))"

text \<open>The recording options of a launched command: the child is its own target, suspended until the
  collectors are attached.\<close>

definition record_args_of_launch :: "i32 \<Rightarrow> string option \<Rightarrow> launch_args \<Rightarrow> record_args" where
  "record_args_of_launch pid cgroup args =
     \<lparr>ra_target = \<lparr>ta_pid = Some pid, ta_docker_container = None, ta_k8s_pod = None, ta_container = None\<rparr>,
      ra_pid = pid, ra_resume_pid = Some pid, ra_launch_cgroup = cgroup, ra_profiles = la_profiles args,
      ra_duration = la_duration args, ra_window = la_window args, ra_unwind = la_unwind args,
      ra_cpu_frequency = la_cpu_frequency args, ra_alloc_interval = la_alloc_interval args,
      ra_allocator = la_allocator args, ra_output = la_output args,
      ra_keep_windows = la_keep_windows args, ra_max_stacks = la_max_stacks args,
      ra_max_pending_events = la_max_pending_events args,
      ra_max_timeline_samples = la_max_timeline_samples args,
      ra_otlp_timeline = la_otlp_timeline args,
      ra_event_reorder_window = la_event_reorder_window args,
      ra_firefox_profile = la_firefox_profile args, ra_svg = la_svg args,
      ra_allow_partial = la_allow_partial args, ra_max_threads = la_max_threads args,
      ra_symbols = la_symbols args, ra_otlp = la_otlp args\<rparr>"

section \<open>Laws\<close>

lemma keep_first_set: "set (keep_first seen xs) = set xs - set seen"
  by (induction xs arbitrary: seen) auto

lemma keep_first_distinct: "distinct (keep_first seen xs)"
  by (induction xs arbitrary: seen) (auto simp: keep_first_set)

text \<open>What a recording can rely on once its options were accepted.\<close>

definition args_sound :: "record_args \<Rightarrow> bool" where
  "args_sound args \<longleftrightarrow>
     distinct (ra_profiles args) \<and> ra_profiles args \<noteq> [] \<and> 0 < ra_window args \<and>
     ra_event_reorder_window args \<le> ra_window args \<and> 0 < ra_max_threads args \<and>
     (ra_otlp_timeline args \<longrightarrow> Cpu \<in> set (ra_profiles args))"

lemma validated_args_sound:
  assumes "validate_record_args is_dir env is_file args = Inr args'"
  shows "args_sound args' \<and> set (ra_profiles args') = set (ra_profiles args) \<and>
    args' = args\<lparr>ra_profiles := ra_profiles args'\<rparr> \<and>
    (ra_otlp_timeline args \<longrightarrow> (\<exists>config. config_from env is_file (ra_otlp args) = Inr (Some config)))"
  using assms
  by (auto simp: validate_record_args_def validate_otlp_timeline_def args_sound_def Let_def keep_first_set
      keep_first_distinct split: if_splits sum.splits)

end
