(* ===== verification/Window_Plan.thy ===== *)
theory Window_Plan
  imports Cpu_Window Cli
begin

text \<open>
  A window on its way to disk (\<open>src/src/platform/linux/record.rs\<close>): \<open>WindowOutput\<close>, how \<open>record\<close> plans
  its files and diagnostics when a window ends, the shedding of derived outputs under backpressure,
  and \<open>PerfClockAnchor\<close>, which converts the timestamps of the timeline.
\<close>

section \<open>The clock of the timeline\<close>

record clock_anchor =
  an_monotonic_nanos :: u64
  an_unix_nanos :: i64

text \<open>\<open>clock_gettime\<close> gives seconds and nanoseconds; \<open>Inl\<close> when the call fails or a part is negative.\<close>

definition capture_anchor :: "(int \<times> int) option \<Rightarrow> i64 \<Rightarrow> string + clock_anchor" where
  "capture_anchor monotonic now =
     (case monotonic of
        None \<Rightarrow> Inl ''failed to read CLOCK_MONOTONIC''
      | Some (sec, nsec) \<Rightarrow>
          if sec < 0 then Inl ''CLOCK_MONOTONIC returned before zero''
          else if nsec < 0 then Inl ''CLOCK_MONOTONIC nanoseconds were negative''
          else Inr \<lparr>an_monotonic_nanos =
                      sat_add (sat_mul (word_of_int sec) 1000000000) (word_of_int nsec),
                    an_unix_nanos = now\<rparr>)"

text \<open>The \<open>i128\<close> arithmetic cannot overflow on 64-bit operands and is done in \<^typ>\<open>int\<close>.\<close>

definition to_unix_nanos :: "clock_anchor \<Rightarrow> u64 \<Rightarrow> i64 \<Rightarrow> i64 \<Rightarrow> u64 option" where
  "to_unix_nanos anchor perf_timestamp started ended =
     (let t = sint (an_unix_nanos anchor) + (uint perf_timestamp - uint (an_monotonic_nanos anchor))
      in if t < - (2 ^ 63) \<or> 2 ^ 63 \<le> t then None
         else if t < sint started \<or> sint ended < t then None
         else if t < 0 then None
         else Some (word_of_int t))"

section \<open>A window on its way to disk\<close>

record window_output =
  wo_cpu :: "(string \<times> string option \<times> (attributed_stack, cpu_values) table \<times> u32 \<times> bool) option"
  wo_heap :: "(string \<times> string option \<times> (stack, heap_values) table \<times> u64) option"
  wo_off_cpu :: "(string \<times> string option \<times> (attributed_stack, off_cpu_values) table \<times> bool) option"
  wo_firefox :: "(string \<times> firefox_profile_format) option"
  wo_timeline :: "timed_stack_sample list"
  wo_timeline_frequency :: u32
  wo_timeline_raw :: bool
  wo_otlp_timeline :: bool
  wo_clock_anchor :: clock_anchor
  wo_diagnostics_path :: string
  wo_diagnostics :: window_diagnostics
  wo_started_unix_nanos :: i64
  wo_duration_nanos :: i64
  wo_target_labels :: "(string \<times> string) list"
  wo_executable :: string
  wo_export_otlp :: bool

abbreviation update_otlp :: "(otlp_diagnostics \<Rightarrow> otlp_diagnostics) \<Rightarrow> window_output \<Rightarrow> window_output" where
  "update_otlp f win \<equiv> win\<lparr>wo_diagnostics := (wo_diagnostics win)\<lparr>wd_otlp := f (wd_otlp (wo_diagnostics win))\<rparr>\<rparr>"

definition svg_paths :: "window_output \<Rightarrow> string list" where
  "svg_paths win =
     (case wo_cpu win of Some (_, Some p, _) \<Rightarrow> [p] | _ \<Rightarrow> []) @
     (case wo_heap win of Some (_, Some p, _) \<Rightarrow> [p] | _ \<Rightarrow> []) @
     (case wo_off_cpu win of Some (_, Some p, _) \<Rightarrow> [p] | _ \<Rightarrow> [])"

definition drop_svgs :: "window_output \<Rightarrow> window_output" where
  "drop_svgs win =
     win\<lparr>wo_cpu := map_option (\<lambda>(p, _, rest). (p, None, rest)) (wo_cpu win),
         wo_heap := map_option (\<lambda>(p, _, rest). (p, None, rest)) (wo_heap win),
         wo_off_cpu := map_option (\<lambda>(p, _, rest). (p, None, rest)) (wo_off_cpu win)\<rparr>"

definition backpressure_warning :: string where
  "backpressure_warning =
     ''derived outputs were shed to keep continuous collection ahead of output backpressure''"

definition shed_firefox :: "window_output \<Rightarrow> window_output" where
  "shed_firefox win =
     (let d = wo_diagnostics win; f = wd_firefox d
      in win\<lparr>wo_firefox := None,
             wo_diagnostics := d\<lparr>wd_firefox :=
               f\<lparr>fd_dropped_samples :=
                    sat_add (fd_dropped_samples f) (word_of_nat (length (wo_timeline win))),
                 fd_error := Some ''Firefox output skipped because the previous window was still being written''\<rparr>\<rparr>\<rparr>)"

definition shed_otlp :: "window_output \<Rightarrow> window_output" where
  "shed_otlp win =
     update_otlp (\<lambda>o'. o'\<lparr>od_status := Otlp_Dropped,
         od_error := Some ''OTLP output skipped because the previous window was still being written''\<rparr>)
       (win\<lparr>wo_export_otlp := False\<rparr>)"

definition otlp_is_disabled :: "window_output \<Rightarrow> bool" where
  "otlp_is_disabled win \<longleftrightarrow> od_status (wd_otlp (wo_diagnostics win)) = Otlp_Disabled"

definition shed_derived_outputs :: "nat \<Rightarrow> window_output \<Rightarrow> window_output" where
  "shed_derived_outputs pending win =
     (let removed = remdups (svg_paths win @ (case wo_firefox win of None \<Rightarrow> [] | Some (p, _) \<Rightarrow> [p]));
          win1 = drop_svgs win;
          win2 = (if wo_firefox win1 = None then win1 else shed_firefox win1);
          skip = wo_export_otlp win2 \<and> \<not> otlp_is_disabled win2;
          win3 = (if skip then shed_otlp win2 else win2);
          win4 = (if wo_firefox win3 = None \<and> (\<not> wo_export_otlp win3 \<or> otlp_is_disabled win3)
                  then win3\<lparr>wo_timeline := []\<rparr> else win3);
          d = wo_diagnostics win4
      in if removed = [] \<and> \<not> skip then win4
         else win4\<lparr>wo_diagnostics := d\<lparr>
                wd_output_backpressure :=
                  \<lparr>bd_derived_outputs_shed = True, bd_pending_windows = pending,
                   bd_files_skipped = word_of_nat (length removed),
                   bd_otlp_skipped = (\<not> wo_export_otlp win4)\<rparr>,
                wd_outputs := filter (\<lambda>p. p \<notin> set removed) (wd_outputs d),
                wd_warnings := wd_warnings d @ [backpressure_warning]\<rparr>\<rparr>)"

section \<open>The plan of a window\<close>

definition show_int :: "int \<Rightarrow> string" where
  "show_int i = (if i < 0 then CHR ''-'' # show_nat (nat (- i)) else show_nat (nat i))"

text \<open>The format \<open>{:06}\<close>: at least six digits.\<close>

definition pad_index :: "nat \<Rightarrow> string" where
  "pad_index n = replicate (6 - length (show_nat n)) CHR ''0'' @ show_nat n"

text \<open>\<open>Path::join\<close> with a relative name.\<close>

definition join_name :: "string \<Rightarrow> string \<Rightarrow> string" where
  "join_name dir name =
     (if dir = [] \<or> ends_with ''/'' dir then dir @ name else dir @ ''/'' @ name)"

definition window_basename :: "string \<Rightarrow> nat \<Rightarrow> i64 \<Rightarrow> string" where
  "window_basename session index started =
     session @ ''-'' @ pad_index index @ ''-'' @ show_int (sint started)"

text \<open>The local variables of \<open>record\<close> at the end of a window.\<close>

record window_facts =
  wf_session_id :: string
  wf_index :: nat
  wf_started :: i64
  wf_ended :: i64
  wf_anchor :: clock_anchor
  wf_cgroup :: "string option"
  wf_selected_mode :: unwind_mode
  wf_fallback_reason :: "string option"
  wf_cpu_window :: cpu_window
  wf_heap :: "((stack, heap_values) table \<times> heap_diagnostics) option"
  wf_off_cpu :: "((attributed_stack, off_cpu_values) table \<times> off_cpu_window_diagnostics) option"
  wf_heap_failure :: "string option"
  wf_off_cpu_failure :: "string option"
  wf_warnings :: "string list"
  wf_jit_files :: "u64 \<times> u64"
  wf_sorter_stats :: "nat \<times> u64"
  wf_otlp_enabled :: bool

definition no_heap_diagnostics :: "string option \<Rightarrow> heap_diagnostics" where
  "no_heap_diagnostics allocator =
     \<lparr>hd_allocator = allocator, hd_allocation_events = 0, hd_sampled_allocations = 0, hd_sampled_frees = 0,
      hd_alloc_objects = 0, hd_alloc_space = 0, hd_inuse_objects = 0, hd_inuse_space = 0,
      hd_dropped_alloc_objects = 0, hd_dropped_alloc_space = 0, hd_dropped_inuse_objects = 0,
      hd_dropped_inuse_space = 0, hd_live_samples = 0, hd_ring_buffer_drops = 0, hd_map_evictions = 0,
      hd_map_update_failures = 0, hd_pending_overwrites = 0, hd_unfinished_returns = 0,
      hd_stack_samples = 0, hd_usable_stacks = 0, hd_stack_failures = 0, hd_average_depth = None,
      hd_symbolized_locations = 0, hd_total_locations = 0, hd_since_attach = False\<rparr>"

definition no_off_cpu_diagnostics :: "bool \<Rightarrow> string option \<Rightarrow> off_cpu_window_diagnostics" where
  "no_off_cpu_diagnostics requested reason =
     \<lparr>ow_requested = requested, ow_enabled = False, ow_reason = reason, ow_switch_out_events = 0,
      ow_completed_intervals = 0, ow_incomplete_intervals = 0, ow_nanoseconds = 0,
      ow_aggregation_dropped_events = 0, ow_ring_buffer_drops = 0\<rparr>"

definition add_heap_totals :: "(stack, heap_values) table \<Rightarrow> heap_diagnostics \<Rightarrow> heap_diagnostics" where
  "add_heap_totals profile d =
     fold (\<lambda>(_, v) d.
       d\<lparr>hd_alloc_objects := i64_sat_add (hd_alloc_objects d) (hv_alloc_objects v),
         hd_alloc_space := i64_sat_add (hd_alloc_space d) (hv_alloc_space v),
         hd_inuse_objects := i64_sat_add (hd_inuse_objects d) (hv_inuse_objects v),
         hd_inuse_space := i64_sat_add (hd_inuse_space d) (hv_inuse_space v)\<rparr>) profile d"

definition window_heap_diagnostics :: "check_report \<Rightarrow> window_facts \<Rightarrow> heap_diagnostics" where
  "window_heap_diagnostics preflight facts =
     (case wf_heap facts of
        None \<Rightarrow> no_heap_diagnostics (ar_detected (ck_allocator preflight))
      | Some (profile, d) \<Rightarrow> add_heap_totals profile d)"

definition window_off_cpu_diagnostics :: "record_args \<Rightarrow> window_facts \<Rightarrow> off_cpu_window_diagnostics" where
  "window_off_cpu_diagnostics args facts =
     (case wf_off_cpu facts of
        None \<Rightarrow> no_off_cpu_diagnostics (Off_Cpu \<in> set (ra_profiles args)) (wf_off_cpu_failure facts)
      | Some (_, d) \<Rightarrow> d)"

definition window_warnings :: "record_args \<Rightarrow> cpu_diagnostics \<Rightarrow> heap_diagnostics \<Rightarrow> string list \<Rightarrow> string list" where
  "window_warnings args cd heap_d warnings =
     (let dropped = i64_sat_add (hd_dropped_alloc_objects heap_d) (hd_dropped_inuse_objects heap_d)
      in warnings @
         (if cd_aggregation_dropped_samples cd = 0 then []
          else [''CPU aggregation reached --max-stacks='' @ show_nat (ra_max_stacks args) @ ''; '' @
                show_nat (unat (cd_aggregation_dropped_samples cd)) @
                '' valid samples were omitted from profile output'']) @
         (if dropped = 0 then []
          else [''heap aggregation reached --max-stacks='' @ show_nat (ra_max_stacks args) @
                ''; omitted values are reported in heap aggregation_dropped_* diagnostics'']))"

text \<open>The quality of the frame-pointer stacks of the window. The program divides in floating point; for
  counters below \<open>2 ^ 49\<close> its comparison with \<open>0.90\<close> is the exact one, since the quotient and the literal
  are rounded the same way.\<close>

definition below_ninety :: "u64 \<Rightarrow> u64 \<Rightarrow> bool" where
  "below_ninety good seen \<longleftrightarrow> seen \<noteq> 0 \<and> 10 * unat good < 9 * unat seen"

definition low_fp_quality :: "record_args \<Rightarrow> window_facts \<Rightarrow> heap_diagnostics \<Rightarrow> bool" where
  "low_fp_quality args facts heap_d \<longleftrightarrow>
     ra_unwind args = Unwind_Auto \<and> wf_selected_mode facts = Unwind_Fp \<and>
     (below_ninety (cw_usable_samples (wf_cpu_window facts)) (cw_total_samples (wf_cpu_window facts)) \<or>
      below_ninety (hd_usable_stacks heap_d) (hd_stack_samples heap_d))"

definition profile_labels :: "target_metadata \<Rightarrow> (string \<times> string) list" where
  "profile_labels target =
     (''process.pid'', show_int (sint (tm_pid target))) #
     concat (map (\<lambda>(key, value). case value of None \<Rightarrow> [] | Some v \<Rightarrow> [(key, v)])
       [(''container.id'', tm_container_id target), (''container.name'', tm_container_name target),
        (''k8s.namespace.name'', tm_k8s_namespace target), (''k8s.pod.name'', tm_k8s_pod_name target),
        (''k8s.pod.uid'', tm_k8s_pod_uid target), (''k8s.container.name'', tm_k8s_container_name target),
        (''k8s.node.name'', tm_k8s_node_name target)])"

text \<open>The files of the window.\<close>

record window_files =
  fl_cpu :: string
  fl_heap :: string
  fl_off_cpu :: string
  fl_cpu_svg :: "string option"
  fl_heap_svg :: "string option"
  fl_off_cpu_svg :: "string option"
  fl_diagnostics :: string
  fl_firefox :: "string option"

definition firefox_extension :: "firefox_profile_format \<Rightarrow> string" where
  "firefox_extension format = (case format of Fmt_Json \<Rightarrow> ''json.gz'' | Fmt_Jslb \<Rightarrow> ''jslb.gz'')"

definition plan_files :: "record_args \<Rightarrow> window_facts \<Rightarrow> window_files" where
  "plan_files args facts =
     (let base = window_basename (wf_session_id facts) (wf_index facts) (wf_started facts);
          path = (\<lambda>prefix suffix. join_name (ra_output args) (prefix @ base @ suffix));
          svg = (\<lambda>prefix. if ra_svg args then Some (path prefix ''.svg'') else None)
      in \<lparr>fl_cpu = path ''cpu-'' ''.pb.gz'', fl_heap = path ''heap-'' ''.pb.gz'',
          fl_off_cpu = path ''off-cpu-'' ''.pb.gz'', fl_cpu_svg = svg ''cpu-'',
          fl_heap_svg = svg ''heap-'', fl_off_cpu_svg = svg ''off-cpu-'',
          fl_diagnostics = path ''diagnostics-'' ''.json'',
          fl_firefox = map_option (\<lambda>format. path ''firefox-'' (CHR ''.'' # firefox_extension format))
            (ra_firefox_profile args)\<rparr>)"

definition wants_cpu :: "record_args \<Rightarrow> bool" where
  "wants_cpu args \<longleftrightarrow> Cpu \<in> set (ra_profiles args)"

definition plan_outputs :: "record_args \<Rightarrow> window_facts \<Rightarrow> string list" where
  "plan_outputs args facts =
     (let files = plan_files args facts;
          optional = (\<lambda>p. case p of None \<Rightarrow> [] | Some f \<Rightarrow> [f])
      in (if wants_cpu args then fl_cpu files # optional (fl_cpu_svg files) else []) @
         (if wf_heap facts \<noteq> None then fl_heap files # optional (fl_heap_svg files) else []) @
         (if wf_off_cpu facts \<noteq> None then fl_off_cpu files # optional (fl_off_cpu_svg files) else []) @
         optional (fl_firefox files) @ [fl_diagnostics files])"

definition plan_written :: "record_args \<Rightarrow> window_facts \<Rightarrow> profile_kind list" where
  "plan_written args facts =
     (if wants_cpu args then [Cpu] else []) @ (if wf_heap facts \<noteq> None then [Heap] else []) @
     (if wf_off_cpu facts \<noteq> None then [Off_Cpu] else [])"

definition plan_scope :: "record_args \<Rightarrow> check_report \<Rightarrow> window_facts \<Rightarrow> scope_diagnostics" where
  "plan_scope args preflight facts =
     (let mixed = (wf_cgroup facts \<noteq> None \<and> Heap \<in> set (ra_profiles args))
      in \<lparr>sd_requested = (if tm_kind (ck_target preflight) = Target_Process then ''process''
                          else ''container_cgroup''),
          sd_effective = (if mixed then ''mixed_process_and_cgroup''
                          else if wf_cgroup facts \<noteq> None then ''container_cgroup'' else ''process''),
          sd_cgroup_path = wf_cgroup facts,
          sd_degraded_reason =
            (if mixed then Some ''CPU and off-CPU use the container cgroup; sampled heap currently uses the container init process''
             else None)\<rparr>)"

definition i64_sat_sub :: "i64 \<Rightarrow> i64 \<Rightarrow> i64" where
  "i64_sat_sub a b = word_of_int (max (- (2 ^ 63)) (min (2 ^ 63 - 1) (sint a - sint b)))"

definition plan_firefox :: "record_args \<Rightarrow> window_facts \<Rightarrow> firefox_diagnostics" where
  "plan_firefox args facts =
     (let on = (ra_firefox_profile args \<noteq> None); w = wf_cpu_window facts
      in \<lparr>fd_enabled = on,
          fd_format = map_option (\<lambda>f. case f of Fmt_Json \<Rightarrow> ''json'' | Fmt_Jslb \<Rightarrow> ''jslb'') (ra_firefox_profile args),
          fd_samples = (if on then cw_timeline_samples w else 0),
          fd_dropped_samples = (if on then cw_timeline_dropped w else 0), fd_error = None\<rparr>)"

definition plan_otlp :: "record_args \<Rightarrow> window_facts \<Rightarrow> otlp_diagnostics" where
  "plan_otlp args facts =
     (if wf_otlp_enabled facts
      then \<lparr>od_status = Otlp_Pending, od_profiles = 0, od_attempts = 0, od_rejected_profiles = 0,
            od_timeline_enabled = ra_otlp_timeline args, od_timeline_samples = 0,
            od_timeline_dropped_samples =
              (if ra_otlp_timeline args then cw_timeline_dropped (wf_cpu_window facts) else 0),
            od_timeline_timestamp_errors = 0, od_error = None\<rparr>
      else otlp_disabled)"

definition plan_diagnostics :: "record_args \<Rightarrow> check_report \<Rightarrow> window_facts \<Rightarrow> window_diagnostics" where
  "plan_diagnostics args preflight facts =
     (let w = wf_cpu_window facts;
          cd = cpu_window_diagnostics (ra_unwind args) (wf_selected_mode facts) (wf_fallback_reason facts) w;
          heap_d = window_heap_diagnostics preflight facts;
          probe = ck_allocator preflight
      in \<lparr>wd_schema_version = 3, wd_session_id = wf_session_id facts, wd_pid = ra_pid args,
          wd_target = ck_target preflight, wd_started_unix_nanos = wf_started facts,
          wd_ended_unix_nanos = wf_ended facts, wd_profiles_requested = ra_profiles args,
          wd_profiles_written = plan_written args facts,
          wd_allocator_probe =
            (case wf_heap_failure facts of
               None \<Rightarrow> probe | Some reason \<Rightarrow> probe\<lparr>ar_complete := False, ar_reason := Some reason\<rparr>),
          wd_cpu = cd, wd_heap = heap_d, wd_off_cpu = window_off_cpu_diagnostics args facts,
          wd_event_order =
            \<lparr>eo_reorder_window_nanos =
               (if ra_event_reorder_window args < 2 ^ 64 then word_of_nat (ra_event_reorder_window args) else - 1),
             eo_max_pending_events = ra_max_pending_events args,
             eo_peak_pending_events = fst (wf_sorter_stats facts), eo_forced_flushes = snd (wf_sorter_stats facts),
             eo_late_events_dropped = 0, eo_timeline_events_dropped = cw_timeline_dropped w\<rparr>,
          wd_firefox = plan_firefox args facts,
          wd_jit = \<lparr>jd_perf_map_files = fst (wf_jit_files facts), jd_jitdump_files = snd (wf_jit_files facts),
                    jd_mappings_loaded = 0, jd_mappings_dropped = 0\<rparr>,
          wd_scope = plan_scope args preflight facts,
          wd_output_backpressure =
            \<lparr>bd_derived_outputs_shed = False, bd_pending_windows = 0, bd_files_skipped = 0, bd_otlp_skipped = False\<rparr>,
          wd_otlp = plan_otlp args facts, wd_outputs = plan_outputs args facts,
          wd_warnings = window_warnings args cd heap_d (wf_warnings facts)\<rparr>)"

definition plan_window :: "record_args \<Rightarrow> check_report \<Rightarrow> window_facts \<Rightarrow> window_output" where
  "plan_window args preflight facts =
     (let files = plan_files args facts; w = wf_cpu_window facts; raw = (wf_cgroup facts \<noteq> None)
      in \<lparr>wo_cpu =
            (if wants_cpu args
             then Some (fl_cpu files, fl_cpu_svg files, cw_samples w, ra_cpu_frequency args, raw) else None),
          wo_heap =
            map_option (\<lambda>(profile, _). (fl_heap files, fl_heap_svg files, profile, ra_alloc_interval args)) (wf_heap facts),
          wo_off_cpu = map_option (\<lambda>(profile, _). (fl_off_cpu files, fl_off_cpu_svg files, profile, raw)) (wf_off_cpu facts),
          wo_firefox =
            (case fl_firefox files of None \<Rightarrow> None
             | Some path \<Rightarrow> map_option (\<lambda>format. (path, format)) (ra_firefox_profile args)),
          wo_timeline = cw_timeline w, wo_timeline_frequency = ra_cpu_frequency args, wo_timeline_raw = raw,
          wo_otlp_timeline = ra_otlp_timeline args, wo_clock_anchor = wf_anchor facts,
          wo_diagnostics_path = fl_diagnostics files, wo_diagnostics = plan_diagnostics args preflight facts,
          wo_started_unix_nanos = wf_started facts,
          wo_duration_nanos = i64_sat_sub (wf_ended facts) (wf_started facts),
          wo_target_labels = profile_labels (ck_target preflight), wo_executable = ck_executable preflight,
          wo_export_otlp = True\<rparr>)"

text \<open>Which mappings matter to unwinding and symbols.\<close>

definition unwind_maps_changed :: "map_entry list \<Rightarrow> map_entry list \<Rightarrow> bool" where
  "unwind_maps_changed previous current \<longleftrightarrow>
     filter (\<lambda>m. me_inode m \<noteq> 0 \<and> is_executable m) previous \<noteq>
     filter (\<lambda>m. me_inode m \<noteq> 0 \<and> is_executable m) current"

section \<open>Laws\<close>

text \<open>The files a window is to write, and that its diagnostics list exactly these.\<close>

definition paths_of :: "(string \<times> string option \<times> 'a) option \<Rightarrow> string set" where
  "paths_of part = (case part of None \<Rightarrow> {} | Some (p, svg, _) \<Rightarrow> insert p (set_option svg))"

definition firefox_paths :: "window_output \<Rightarrow> string set" where
  "firefox_paths win = (case wo_firefox win of None \<Rightarrow> {} | Some (p, _) \<Rightarrow> {p})"

definition window_paths :: "window_output \<Rightarrow> string set" where
  "window_paths win =
     paths_of (wo_cpu win) \<union> paths_of (wo_heap win) \<union> paths_of (wo_off_cpu win) \<union>
     firefox_paths win \<union> {wo_diagnostics_path win}"

definition planned :: "window_output \<Rightarrow> bool" where
  "planned win \<longleftrightarrow> set (wd_outputs (wo_diagnostics win)) = window_paths win"

lemma plan_window_planned: "planned (plan_window args preflight facts)"
  by (cases "wf_heap facts"; cases "wf_off_cpu facts"; cases "ra_firefox_profile args"; cases "ra_svg args")
    (auto simp: planned_def plan_window_def plan_diagnostics_def plan_outputs_def plan_files_def window_paths_def
      paths_of_def firefox_paths_def Let_def split_beta split: if_splits)

lemma join_name_inject [simp]: "join_name d a = join_name d b \<longleftrightarrow> a = b"
  by (simp add: join_name_def)

lemma parse_zeros: "parse_digits 10 0 (replicate k CHR ''0'' @ s) = parse_digits 10 0 s"
  by (induction k) (simp_all add: to_digit_def digit_value_def)

lemma parse_pad_index: "parse_digits 10 0 (pad_index n) = Some n"
  unfolding pad_index_def parse_zeros by (rule parse_digits_show) simp_all

lemma pad_index_inject: "pad_index m = pad_index n \<Longrightarrow> m = n"
  by (metis parse_pad_index option.inject)

lemma pad_index_no_dash: "CHR ''-'' \<notin> set (pad_index n)"
  using show_radix_no_char [of 10 "CHR ''-''" n] by (auto simp: pad_index_def)

lemma takeWhile_dash: "CHR ''-'' \<notin> set x \<Longrightarrow> takeWhile (\<lambda>c. c \<noteq> CHR ''-'') (x @ CHR ''-'' # y) = x"
  by (induction x) auto

lemma until_dash:
  "x @ CHR ''-'' # y = x' @ CHR ''-'' # y' \<Longrightarrow> CHR ''-'' \<notin> set x \<Longrightarrow> CHR ''-'' \<notin> set x' \<Longrightarrow> x = x'"
  using takeWhile_dash [of x y] takeWhile_dash [of x' y'] by simp

lemma basename_inject:
  assumes "window_basename session i a @ s = window_basename session j b @ t"
  shows "i = j"
  using assms until_dash [of "pad_index i" "show_int (sint a) @ s" "pad_index j" "show_int (sint b) @ t"]
  by (simp add: window_basename_def pad_index_no_dash pad_index_inject)

definition file_shapes :: "(string \<times> string) list" where
  "file_shapes =
     [(''cpu-'', ''.pb.gz''), (''cpu-'', ''.svg''), (''heap-'', ''.pb.gz''), (''heap-'', ''.svg''),
      (''off-cpu-'', ''.pb.gz''), (''off-cpu-'', ''.svg''), (''firefox-'', ''.json.gz''),
      (''firefox-'', ''.jslb.gz''), (''diagnostics-'', ''.json'')]"

lemma plan_outputs_shape:
  assumes "p \<in> set (plan_outputs args facts)"
  shows "\<exists>(prefix, suffix) \<in> set file_shapes. p = join_name (ra_output args)
    (prefix @ window_basename (wf_session_id facts) (wf_index facts) (wf_started facts) @ suffix)"
proof (cases "ra_firefox_profile args")
  case None
  with assms show ?thesis
    by (auto simp: plan_outputs_def plan_files_def file_shapes_def Let_def split: if_splits)
next
  case (Some format)
  with assms show ?thesis
    by (cases format)
      (auto simp: plan_outputs_def plan_files_def file_shapes_def firefox_extension_def Let_def split: if_splits)
qed

definition shape_of_first :: "char \<Rightarrow> string" where
  "shape_of_first c =
     (if c = CHR ''c'' then ''cpu-'' else if c = CHR ''h'' then ''heap-'' else if c = CHR ''o'' then ''off-cpu-''
      else if c = CHR ''f'' then ''firefox-'' else ''diagnostics-'')"

lemma shape_by_first: "(p, s) \<in> set file_shapes \<Longrightarrow> p \<noteq> [] \<and> p = shape_of_first (hd p)"
proof -
  have "list_all (\<lambda>(p, s). p \<noteq> [] \<and> p = shape_of_first (hd p)) file_shapes"
    by (simp add: file_shapes_def shape_of_first_def)
  then show "(p, s) \<in> set file_shapes \<Longrightarrow> ?thesis" by (auto simp: list_all_iff)
qed

lemma shape_prefix:
  assumes "(p, s) \<in> set file_shapes" "(q, t) \<in> set file_shapes" "p @ x = q @ y"
  shows "p = q"
  using shape_by_first [OF assms(1)] shape_by_first [OF assms(2)] assms(3) by (metis hd_append2)

lemma plan_outputs_distinct: "distinct (plan_outputs args facts)"
  by (auto simp: plan_outputs_def plan_files_def firefox_extension_def Let_def
      split: option.splits firefox_profile_format.splits)

lemma plan_outputs_disjoint:
  assumes "wf_session_id facts = wf_session_id facts'" "ra_output args = ra_output args'"
    "wf_index facts \<noteq> wf_index facts'"
  shows "set (plan_outputs args facts) \<inter> set (plan_outputs args' facts') = {}"
proof (rule ccontr)
  assume "set (plan_outputs args facts) \<inter> set (plan_outputs args' facts') \<noteq> {}"
  then obtain p where in1: "p \<in> set (plan_outputs args facts)" and in2: "p \<in> set (plan_outputs args' facts')"
    by blast
  from plan_outputs_shape [OF in1] plan_outputs_shape [OF in2] assms(1,2)
  obtain a s b t where shapes: "(a, s) \<in> set file_shapes" "(b, t) \<in> set file_shapes"
    and eq: "a @ window_basename (wf_session_id facts) (wf_index facts) (wf_started facts) @ s =
      b @ window_basename (wf_session_id facts) (wf_index facts') (wf_started facts') @ t" by auto
  from shape_prefix [OF shapes eq] eq basename_inject
  have "wf_index facts = wf_index facts'" by blast
  with assms(3) show False by contradiction
qed

text \<open>Shedding drops the flame graphs, the Firefox file and the OTLP export, and nothing of the profiles.\<close>

definition derived_paths :: "window_output \<Rightarrow> string list" where
  "derived_paths win = svg_paths win @ (case wo_firefox win of None \<Rightarrow> [] | Some (p, _) \<Rightarrow> [p])"

definition primary_paths :: "window_output \<Rightarrow> string set" where
  "primary_paths win =
     set_option (map_option fst (wo_cpu win)) \<union> set_option (map_option fst (wo_heap win)) \<union>
     set_option (map_option fst (wo_off_cpu win)) \<union> {wo_diagnostics_path win}"

definition without_svg :: "('a \<times> 'b \<times> 'c) option \<Rightarrow> ('a \<times> 'c) option" where
  "without_svg part = map_option (\<lambda>(p, _, rest). (p, rest)) part"

lemma paths_of_split:
  "paths_of part = set_option (map_option fst part) \<union> (case part of Some (_, Some p, _) \<Rightarrow> {p} | _ \<Rightarrow> {})"
  by (auto simp: paths_of_def split: option.split)

lemma window_paths_split: "window_paths win = primary_paths win \<union> set (derived_paths win)"
  by (auto simp: window_paths_def primary_paths_def derived_paths_def svg_paths_def paths_of_split firefox_paths_def
      split: option.split)

lemma drop_svgs_fields:
  "without_svg (wo_cpu (drop_svgs win)) = without_svg (wo_cpu win)"
  "without_svg (wo_heap (drop_svgs win)) = without_svg (wo_heap win)"
  "without_svg (wo_off_cpu (drop_svgs win)) = without_svg (wo_off_cpu win)"
  "svg_paths (drop_svgs win) = []" "primary_paths (drop_svgs win) = primary_paths win"
  "wo_firefox (drop_svgs win) = wo_firefox win" "wo_diagnostics (drop_svgs win) = wo_diagnostics win"
  "wo_timeline (drop_svgs win) = wo_timeline win" "wo_export_otlp (drop_svgs win) = wo_export_otlp win"
  by (cases "wo_cpu win"; cases "wo_heap win"; cases "wo_off_cpu win";
      auto simp: drop_svgs_def without_svg_def svg_paths_def primary_paths_def)+

lemma shed_firefox_fields:
  "wo_cpu (shed_firefox win) = wo_cpu win" "wo_heap (shed_firefox win) = wo_heap win"
  "wo_off_cpu (shed_firefox win) = wo_off_cpu win" "svg_paths (shed_firefox win) = svg_paths win"
  "primary_paths (shed_firefox win) = primary_paths win" "wo_firefox (shed_firefox win) = None"
  "wd_outputs (wo_diagnostics (shed_firefox win)) = wd_outputs (wo_diagnostics win)"
  "wd_otlp (wo_diagnostics (shed_firefox win)) = wd_otlp (wo_diagnostics win)"
  "wd_warnings (wo_diagnostics (shed_firefox win)) = wd_warnings (wo_diagnostics win)"
  "wo_export_otlp (shed_firefox win) = wo_export_otlp win"
  by (simp_all add: shed_firefox_def Let_def svg_paths_def primary_paths_def)

lemma shed_otlp_fields:
  "wo_cpu (shed_otlp win) = wo_cpu win" "wo_heap (shed_otlp win) = wo_heap win"
  "wo_off_cpu (shed_otlp win) = wo_off_cpu win" "svg_paths (shed_otlp win) = svg_paths win"
  "primary_paths (shed_otlp win) = primary_paths win" "wo_firefox (shed_otlp win) = wo_firefox win"
  "wd_outputs (wo_diagnostics (shed_otlp win)) = wd_outputs (wo_diagnostics win)"
  "od_status (wd_otlp (wo_diagnostics (shed_otlp win))) = Otlp_Dropped"
  "wo_export_otlp (shed_otlp win) = False"
  by (simp_all add: shed_otlp_def svg_paths_def primary_paths_def)

lemma shed_fields:
  shows "without_svg (wo_cpu (shed_derived_outputs n win)) = without_svg (wo_cpu win)"
    "without_svg (wo_heap (shed_derived_outputs n win)) = without_svg (wo_heap win)"
    "without_svg (wo_off_cpu (shed_derived_outputs n win)) = without_svg (wo_off_cpu win)"
    "svg_paths (shed_derived_outputs n win) = []" "wo_firefox (shed_derived_outputs n win) = None"
    "primary_paths (shed_derived_outputs n win) = primary_paths win"
    "wo_export_otlp (shed_derived_outputs n win) \<longleftrightarrow> wo_export_otlp win \<and> otlp_is_disabled win"
    "wd_outputs (wo_diagnostics (shed_derived_outputs n win)) =
       filter (\<lambda>p. p \<notin> set (derived_paths win)) (wd_outputs (wo_diagnostics win))"
proof -
  define win1 where "win1 = drop_svgs win"
  define win2 where "win2 = (if wo_firefox win1 = None then win1 else shed_firefox win1)"
  define skip where "skip = (wo_export_otlp win2 \<and> \<not> otlp_is_disabled win2)"
  define win3 where "win3 = (if skip then shed_otlp win2 else win2)"
  define win4 where "win4 = (if wo_firefox win3 = None \<and> (\<not> wo_export_otlp win3 \<or> otlp_is_disabled win3)
                  then win3\<lparr>wo_timeline := []\<rparr> else win3)"
  define gone where "gone = remdups (derived_paths win)"
  have run: "shed_derived_outputs n win =
      (if gone = [] \<and> \<not> skip then win4
       else win4\<lparr>wo_diagnostics := (wo_diagnostics win4)\<lparr>
         wd_output_backpressure := \<lparr>bd_derived_outputs_shed = True, bd_pending_windows = n,
           bd_files_skipped = word_of_nat (length gone), bd_otlp_skipped = (\<not> wo_export_otlp win4)\<rparr>,
         wd_outputs := filter (\<lambda>p. p \<notin> set gone) (wd_outputs (wo_diagnostics win4)),
         wd_warnings := wd_warnings (wo_diagnostics win4) @ [backpressure_warning]\<rparr>\<rparr>)"
    unfolding shed_derived_outputs_def Let_def gone_def derived_paths_def win4_def win3_def skip_def win2_def win1_def ..
  note f1 = drop_svgs_fields [of win, folded win1_def]
  have f2: "wo_cpu win2 = wo_cpu win1" "wo_heap win2 = wo_heap win1" "wo_off_cpu win2 = wo_off_cpu win1"
    "svg_paths win2 = svg_paths win1" "primary_paths win2 = primary_paths win1" "wo_firefox win2 = None"
    "wd_outputs (wo_diagnostics win2) = wd_outputs (wo_diagnostics win1)"
    "wo_export_otlp win2 = wo_export_otlp win1" "otlp_is_disabled win2 = otlp_is_disabled win1"
    by (simp_all add: win2_def shed_firefox_fields otlp_is_disabled_def)
  have f3: "wo_cpu win3 = wo_cpu win2" "wo_heap win3 = wo_heap win2" "wo_off_cpu win3 = wo_off_cpu win2"
    "svg_paths win3 = svg_paths win2" "primary_paths win3 = primary_paths win2" "wo_firefox win3 = None"
    "wd_outputs (wo_diagnostics win3) = wd_outputs (wo_diagnostics win2)"
    "wo_export_otlp win3 = (wo_export_otlp win2 \<and> otlp_is_disabled win2)"
    by (auto simp: win3_def shed_otlp_fields f2 skip_def)
  have f4: "wo_cpu win4 = wo_cpu win3" "wo_heap win4 = wo_heap win3" "wo_off_cpu win4 = wo_off_cpu win3"
    "svg_paths win4 = svg_paths win3" "primary_paths win4 = primary_paths win3" "wo_firefox win4 = None"
    "wd_outputs (wo_diagnostics win4) = wd_outputs (wo_diagnostics win3)"
    "wo_export_otlp win4 = wo_export_otlp win3"
    by (simp_all add: win4_def f3(6) svg_paths_def primary_paths_def)
  have dis1: "otlp_is_disabled win1 = otlp_is_disabled win" by (simp add: otlp_is_disabled_def f1)
  have nothing: "derived_paths win = []" if "gone = []" using that by (simp add: gone_def)
  show "without_svg (wo_cpu (shed_derived_outputs n win)) = without_svg (wo_cpu win)"
    "without_svg (wo_heap (shed_derived_outputs n win)) = without_svg (wo_heap win)"
    "without_svg (wo_off_cpu (shed_derived_outputs n win)) = without_svg (wo_off_cpu win)"
    "svg_paths (shed_derived_outputs n win) = []" "wo_firefox (shed_derived_outputs n win) = None"
    "primary_paths (shed_derived_outputs n win) = primary_paths win"
    "wo_export_otlp (shed_derived_outputs n win) \<longleftrightarrow> wo_export_otlp win \<and> otlp_is_disabled win"
    "wd_outputs (wo_diagnostics (shed_derived_outputs n win)) =
       filter (\<lambda>p. p \<notin> set (derived_paths win)) (wd_outputs (wo_diagnostics win))"
    using f1 f2 f3 f4 dis1 nothing
    by (auto simp: run svg_paths_def primary_paths_def gone_def)
qed

lemma plan_primary_derived:
  "primary_paths (plan_window args preflight facts) \<inter> set (derived_paths (plan_window args preflight facts)) = {}"
  by (cases "wf_heap facts"; cases "wf_off_cpu facts"; cases "ra_firefox_profile args")
    (auto simp: primary_paths_def derived_paths_def svg_paths_def plan_window_def plan_files_def Let_def split_beta
      firefox_extension_def split: option.splits firefox_profile_format.splits if_splits)

lemma shed_planned:
  assumes "planned win" "primary_paths win \<inter> set (derived_paths win) = {}"
  shows "planned (shed_derived_outputs n win)"
    "set (wd_outputs (wo_diagnostics (shed_derived_outputs n win))) = primary_paths win"
proof -
  show shed: "set (wd_outputs (wo_diagnostics (shed_derived_outputs n win))) = primary_paths win"
    using assms by (auto simp: shed_fields planned_def window_paths_split)
  have "derived_paths (shed_derived_outputs n win) = []" by (simp add: derived_paths_def shed_fields)
  then show "planned (shed_derived_outputs n win)"
    using shed by (simp only: planned_def window_paths_split shed_fields) simp
qed

lemma plan_otlp_disabled: "otlp_is_disabled (plan_window args preflight facts) \<longleftrightarrow> \<not> wf_otlp_enabled facts"
  by (simp add: otlp_is_disabled_def plan_window_def plan_diagnostics_def plan_otlp_def otlp_disabled_def Let_def)

text \<open>C37: Under backpressure a window loses derived outputs only: the paths, samples and settings of its CPU,
  heap and off-CPU profiles stay as they were planned, no flame graph or Firefox file is left, an OTLP
  export that was configured is off, and the diagnostics list exactly the files that will still be
  written, each once.\<close>

theorem shed_keeps_profiles:
  "without_svg (wo_cpu (shed_derived_outputs pending (plan_window args preflight facts))) =
     without_svg (wo_cpu (plan_window args preflight facts)) \<and>
   without_svg (wo_heap (shed_derived_outputs pending (plan_window args preflight facts))) =
     without_svg (wo_heap (plan_window args preflight facts)) \<and>
   without_svg (wo_off_cpu (shed_derived_outputs pending (plan_window args preflight facts))) =
     without_svg (wo_off_cpu (plan_window args preflight facts)) \<and>
   svg_paths (shed_derived_outputs pending (plan_window args preflight facts)) = [] \<and>
   wo_firefox (shed_derived_outputs pending (plan_window args preflight facts)) = None \<and>
   (wo_export_otlp (shed_derived_outputs pending (plan_window args preflight facts)) \<longleftrightarrow> \<not> wf_otlp_enabled facts) \<and>
   set (wd_outputs (wo_diagnostics (shed_derived_outputs pending (plan_window args preflight facts)))) =
     window_paths (shed_derived_outputs pending (plan_window args preflight facts)) \<and>
   distinct (wd_outputs (wo_diagnostics (shed_derived_outputs pending (plan_window args preflight facts))))"
proof -
  let ?win = "plan_window args preflight facts"
  have "planned (shed_derived_outputs pending ?win)"
    by (rule shed_planned [OF plan_window_planned plan_primary_derived])
  moreover have "wd_outputs (wo_diagnostics ?win) = plan_outputs args facts"
    by (simp add: plan_window_def plan_diagnostics_def Let_def)
  moreover have "wo_export_otlp ?win" by (simp add: plan_window_def Let_def)
  ultimately show ?thesis
    using plan_outputs_distinct [of args facts] by (simp add: shed_fields plan_otlp_disabled planned_def)
qed

section \<open>A small session for the examples\<close>

definition small_target :: target_metadata where
  "small_target = \<lparr>tm_kind = Target_Process, tm_pid = 7, tm_start_time_ticks = 1, tm_container_id = None,
     tm_container_name = None, tm_k8s_namespace = None, tm_k8s_pod_name = None, tm_k8s_pod_uid = None,
     tm_k8s_container_name = None, tm_k8s_node_name = None\<rparr>"

definition small_report :: check_report where
  "small_report = \<lparr>ck_schema_version = 1, ck_pid = 7, ck_target = small_target, ck_executable = ''/bin/x'',
     ck_architecture = ''x86_64'', ck_kernel_release = ''6.1'', ck_kernel_supported = True,
     ck_running_as_root = True, ck_thread_count = 1, ck_modules = [], ck_has_unwind_info = True,
     ck_allocator = \<lparr>ar_requested = Alloc_Auto, ar_detected = None, ar_module = None, ar_complete = False,
       ar_reason = None\<rparr>,
     ck_capabilities = \<lparr>ca_perf = True, ca_lifecycle_bpf = True, ca_heap_bpf = True, ca_off_cpu_bpf = True,
       ca_container_cgroup = False, ca_cgroup_path = None, ca_perf_map = False, ca_jitdump = False\<rparr>,
     ck_warnings = [], ck_errors = []\<rparr>"

definition small_args :: record_args where
  "small_args = \<lparr>ra_target = \<lparr>ta_pid = Some 7, ta_docker_container = None, ta_k8s_pod = None, ta_container = None\<rparr>,
     ra_pid = 7, ra_resume_pid = None, ra_launch_cgroup = None, ra_profiles = [Cpu], ra_duration = 0,
     ra_window = 60000000000, ra_unwind = Unwind_Fp, ra_cpu_frequency = 99, ra_alloc_interval = 524288,
     ra_allocator = Alloc_Auto, ra_output = ''out'', ra_keep_windows = 2, ra_max_stacks = 16,
     ra_max_pending_events = 16, ra_max_timeline_samples = 16, ra_otlp_timeline = False,
     ra_event_reorder_window = 100000000, ra_firefox_profile = None, ra_svg = True, ra_allow_partial = False,
     ra_max_threads = 16, ra_symbols = \<lparr>sa_symbol_dirs = [], sa_debuginfod = None\<rparr>,
     ra_otlp = \<lparr>oa_endpoint = None, oa_headers = [], oa_timeout = None, oa_compression = None, oa_ca = None,
       oa_resource_attributes = []\<rparr>\<rparr>"

definition small_facts :: "nat \<Rightarrow> window_facts" where
  "small_facts index = \<lparr>wf_session_id = ''s'', wf_index = index, wf_started = 5, wf_ended = 9,
     wf_anchor = \<lparr>an_monotonic_nanos = 2, an_unix_nanos = 5\<rparr>, wf_cgroup = Some ''/c'',
     wf_selected_mode = Unwind_Fp, wf_fallback_reason = None, wf_cpu_window = new_cpu_window 7 16 16 False 16,
     wf_heap = None, wf_off_cpu = None, wf_heap_failure = None, wf_off_cpu_failure = None, wf_warnings = [],
     wf_jit_files = (0, 0), wf_sorter_stats = (0, 0), wf_otlp_enabled = False\<rparr>"

definition small_window :: "nat \<Rightarrow> window_output" where
  "small_window index = plan_window small_args small_report (small_facts index)"

lemma small_window_planned: "planned (small_window index)"
  by (simp add: small_window_def plan_window_planned)

lemma show_five: "show_int 5 = ''5''"
  by (simp add: show_int_def) (subst show_radix.simps, simp add: show_digit_def char_of_def bit_0)

lemma small_window_outputs:
  "wd_outputs (wo_diagnostics (small_window index)) =
     (let base = ''s-'' @ pad_index index @ ''-5''
      in [''out/cpu-'' @ base @ ''.pb.gz'', ''out/cpu-'' @ base @ ''.svg'', ''out/diagnostics-'' @ base @ ''.json''])"
proof -
  have "wd_outputs (wo_diagnostics (small_window index)) = plan_outputs small_args (small_facts index)"
    by (simp add: small_window_def plan_window_def plan_diagnostics_def Let_def)
  then show ?thesis
    by (simp add: plan_outputs_def plan_files_def small_args_def small_facts_def wants_cpu_def window_basename_def
        join_name_def ends_with_def show_five Let_def)
qed

end
