(* ===== verification/Window_Output.thy ===== *)
theory Window_Output
  imports Window_Plan Publish
begin

text \<open>
  Writing a window (\<open>src/src/platform/linux/record.rs\<close>): \<open>WindowOutput::write\<close> with all artifacts of a
  window, the rollback of an incomplete one, and the retention of the last windows.

  Publishing one file is \<open>atomic_write\<close> (\<open>Publish\<close>); here it is a parameter with three outcomes: the
  file is there, the file is there but an error is returned (its directory could not be synced), or the
  file is not there. Removing a file and syncing a directory can fail. The files of the output
  directory are a set of paths.
\<close>

section \<open>The file system and the worker\<close>

datatype publish_outcome = Published | Unsynced string | Unpublished string

record output_env =
  ov_publish :: "string \<Rightarrow> publish_outcome"
  ov_remove :: "string \<Rightarrow> string option"
  ov_sync :: "string \<Rightarrow> (io_kind \<times> string) option"
  ov_refresh :: "symbolizer \<Rightarrow> symbolizer"
  ov_demangle :: "string \<Rightarrow> string"
  ov_version :: string
  ov_hash :: hash_env
  ov_random :: "nat \<Rightarrow> u8 list option"
  ov_show_error :: "otlp_error \<Rightarrow> string"

record worker =
  wk_symbolizer :: symbolizer
  wk_retained :: "string list list"
  wk_hashes :: mapping_hash_cache
  wk_files :: "string set"

definition publish :: "output_env \<Rightarrow> string \<Rightarrow> worker \<Rightarrow> (string + unit) \<times> worker" where
  "publish env path wk =
     (case ov_publish env path of
        Published \<Rightarrow> (Inr (), wk\<lparr>wk_files := insert path (wk_files wk)\<rparr>)
      | Unsynced e \<Rightarrow> (Inl e, wk\<lparr>wk_files := insert path (wk_files wk)\<rparr>)
      | Unpublished e \<Rightarrow> (Inl e, wk))"

text \<open>\<open>None\<close> is success, also for a file that is not there.\<close>

definition remove_file :: "output_env \<Rightarrow> string \<Rightarrow> worker \<Rightarrow> string option \<times> worker" where
  "remove_file env path wk =
     (if path \<notin> wk_files wk then (None, wk)
      else case ov_remove env path of
             Some e \<Rightarrow> (Some e, wk)
           | None \<Rightarrow> (None, wk\<lparr>wk_files := wk_files wk - {path}\<rparr>))"

text \<open>A failing step ends the writing of the window.\<close>

definition and_then ::
  "(string + 'a) \<times> worker \<Rightarrow> ('a \<Rightarrow> worker \<Rightarrow> (string + 'b) \<times> worker) \<Rightarrow> (string + 'b) \<times> worker" where
  "and_then r f = (case r of (Inl e, wk) \<Rightarrow> (Inl e, wk) | (Inr x, wk) \<Rightarrow> f x wk)"

definition publish_optional :: "output_env \<Rightarrow> string option \<Rightarrow> worker \<Rightarrow> (string + unit) \<times> worker" where
  "publish_optional env path wk = (case path of None \<Rightarrow> (Inr (), wk) | Some p \<Rightarrow> publish env p wk)"

section \<open>Writing\<close>

text \<open>What the parts of the window hand on: the window with its diagnostics, and the profiles to export.\<close>

type_synonym draft = "window_output \<times> pprof list"

definition keep_symbolizer :: "profile_builder \<Rightarrow> worker \<Rightarrow> worker" where
  "keep_symbolizer b wk =
     (case pb_symbolizer b of None \<Rightarrow> wk | Some sz \<Rightarrow> wk\<lparr>wk_symbolizer := sz\<rparr>)"

definition write_cpu :: "output_env \<Rightarrow> bool \<Rightarrow> draft \<Rightarrow> worker \<Rightarrow> (string + draft) \<times> worker" where
  "write_cpu env wants_otlp draft wk =
     (let (win, profiles) = draft
      in case wo_cpu win of
           None \<Rightarrow> (Inr draft, wk)
         | Some (path, svg, samples, frequency, raw) \<Rightarrow>
             (let b = (if raw
                       then build_raw_cpu_profile samples (wo_started_unix_nanos win) (wo_duration_nanos win)
                              (ucast (1000000000 div max frequency 1 :: u32))
                       else build_cpu_profile (ov_demangle env) samples (wk_symbolizer wk)
                              (wo_started_unix_nanos win) (wo_duration_nanos win) frequency
                              (wo_target_labels win));
                  stats = (if raw then \<lparr>es_symbolized_locations = 0, es_total_locations = 0\<rparr> else pb_stats b);
                  d = wo_diagnostics win;
                  win' = win\<lparr>wo_cpu := None, wo_diagnostics := d\<lparr>wd_cpu := (wd_cpu d)\<lparr>
                           cd_symbolized_locations := word_of_nat (es_symbolized_locations stats),
                           cd_total_locations := word_of_nat (es_total_locations stats)\<rparr>\<rparr>\<rparr>
              in and_then (publish env path (keep_symbolizer b wk)) (\<lambda>_ wk.
                 and_then (publish_optional env svg wk) (\<lambda>_ wk.
                   (Inr (win', if wants_otlp \<and> \<not> wo_otlp_timeline win
                               then profiles @ [pb_profile b] else profiles), wk)))))"

definition write_heap :: "output_env \<Rightarrow> bool \<Rightarrow> draft \<Rightarrow> worker \<Rightarrow> (string + draft) \<times> worker" where
  "write_heap env wants_otlp draft wk =
     (let (win, profiles) = draft
      in case wo_heap win of
           None \<Rightarrow> (Inr draft, wk)
         | Some (path, svg, samples, interval) \<Rightarrow>
             (let b = build_heap_profile (ov_demangle env) samples (wk_symbolizer wk)
                        (wo_started_unix_nanos win) (wo_duration_nanos win) interval (wo_target_labels win);
                  stats = pb_stats b;
                  d = wo_diagnostics win;
                  win' = win\<lparr>wo_heap := None, wo_diagnostics := d\<lparr>wd_heap := (wd_heap d)\<lparr>
                           hd_symbolized_locations := word_of_nat (es_symbolized_locations stats),
                           hd_total_locations := word_of_nat (es_total_locations stats)\<rparr>\<rparr>\<rparr>
              in and_then (publish env path (keep_symbolizer b wk)) (\<lambda>_ wk.
                 and_then (publish_optional env svg wk) (\<lambda>_ wk.
                   (Inr (win', if wants_otlp then profiles @ [pb_profile b] else profiles), wk)))))"

definition write_off_cpu :: "output_env \<Rightarrow> bool \<Rightarrow> draft \<Rightarrow> worker \<Rightarrow> (string + draft) \<times> worker" where
  "write_off_cpu env wants_otlp draft wk =
     (let (win, profiles) = draft
      in case wo_off_cpu win of
           None \<Rightarrow> (Inr draft, wk)
         | Some (path, svg, samples, raw) \<Rightarrow>
             (let b = (if raw
                       then build_raw_off_cpu_profile samples (wo_started_unix_nanos win) (wo_duration_nanos win)
                       else build_off_cpu_profile (ov_demangle env) samples (wk_symbolizer wk)
                              (wo_started_unix_nanos win) (wo_duration_nanos win) (wo_target_labels win))
              in and_then (publish env path (keep_symbolizer b wk)) (\<lambda>_ wk.
                 and_then (publish_optional env svg wk) (\<lambda>_ wk.
                   (Inr (win\<lparr>wo_off_cpu := None\<rparr>,
                         if wants_otlp then profiles @ [pb_profile b] else profiles), wk)))))"

definition timeline_stamps :: "window_output \<Rightarrow> u64 option list" where
  "timeline_stamps win =
     (let ended = i64_sat_add (wo_started_unix_nanos win) (wo_duration_nanos win)
      in map (\<lambda>s. to_unix_nanos (wo_clock_anchor win) (ts_timestamp s) (wo_started_unix_nanos win) ended)
           (wo_timeline win))"

definition build_timeline ::
  "output_env \<Rightarrow> bool \<Rightarrow> window_output \<Rightarrow> worker \<Rightarrow>
   (string + (window_output \<times> (pprof \<times> u64 list) option)) \<times> worker" where
  "build_timeline env wants_otlp win wk =
     (if \<not> (wants_otlp \<and> wo_otlp_timeline win) then (Inr (win, None), wk)
      else
        let stamps = timeline_stamps win;
            errors = length (filter (\<lambda>t. t = None) stamps)
        in case build_cpu_timeline_profile (ov_demangle env) (wo_timeline win) stamps
                  (if wo_timeline_raw win then None else Some (wk_symbolizer wk))
                  (wo_started_unix_nanos win) (wo_duration_nanos win) (wo_timeline_frequency win)
                  (wo_target_labels win) of
             Inl _ \<Rightarrow> (Inl ''timeline timestamp count does not match sample count'', wk)
           | Inr (encoded, b) \<Rightarrow>
               (Inr (update_otlp (\<lambda>o'. o'\<lparr>od_timeline_samples := word_of_nat (length encoded),
                        od_timeline_timestamp_errors := word_of_nat errors\<rparr>) win,
                     Some (pb_profile b, encoded)),
                keep_symbolizer b wk))"

text \<open>The Firefox writer asks the symbolizer for the names of JIT frames, root first.\<close>

definition firefox_frame :: "(string \<Rightarrow> string) \<Rightarrow> u64 \<Rightarrow> symbolizer \<Rightarrow> symbolizer" where
  "firefox_frame demangle addr sz =
     (case mapping_for_address sz addr of
        None \<Rightarrow> sz
      | Some m \<Rightarrow> if starts_with ''[jit:'' (mi_filename m) then snd (resolve demangle addr sz) else sz)"

definition firefox_symbols ::
  "(string \<Rightarrow> string) \<Rightarrow> timed_stack_sample list \<Rightarrow> symbolizer \<Rightarrow> symbolizer" where
  "firefox_symbols demangle samples sz =
     fold (\<lambda>s sz. fold (firefox_frame demangle) (rev (addresses_of (ts_stack s))) sz) samples sz"

definition write_firefox :: "output_env \<Rightarrow> window_output \<Rightarrow> worker \<Rightarrow> (string + unit) \<times> worker" where
  "write_firefox env win wk =
     (case wo_firefox win of
        None \<Rightarrow> (Inr (), wk)
      | Some (path, format) \<Rightarrow>
          publish env path
            (if wo_timeline_raw win then wk
             else wk\<lparr>wk_symbolizer := firefox_symbols (ov_demangle env) (wo_timeline win) (wk_symbolizer wk)\<rparr>))"

text \<open>One OTLP request for the profiles of the window; a failure is only reported.\<close>

record export_job =
  ej_payload :: "export_request \<times> u32"
  ej_path :: string
  ej_diagnostics :: window_diagnostics

definition encode_part ::
  "output_env \<Rightarrow> otlp_config option \<Rightarrow> window_output \<Rightarrow> pprof list \<Rightarrow> (pprof \<times> u64 list) option \<Rightarrow> worker \<Rightarrow>
   window_output \<times> (export_request \<times> u32) option \<times> worker" where
  "encode_part env config win profiles timeline wk =
     (case config of
        Some cfg \<Rightarrow>
          if wo_export_otlp win
          then (case encode_profiles (ov_version env) (ov_hash env) (ov_random env) profiles timeline
                       (wd_target (wo_diagnostics win)) (wo_executable win) cfg (wk_hashes wk) of
                  (Inr (request, n), hashes) \<Rightarrow>
                    (update_otlp (\<lambda>o'. o'\<lparr>od_profiles := n\<rparr>) win, Some (request, n), wk\<lparr>wk_hashes := hashes\<rparr>)
                | (Inl e, hashes) \<Rightarrow>
                    (update_otlp (\<lambda>o'. o'\<lparr>od_status := Otlp_Failed,
                         od_error := Some (''OTLP encoding failed: '' @ ov_show_error env e)\<rparr>) win,
                     None, wk\<lparr>wk_hashes := hashes\<rparr>))
          else (win, None, wk)
      | None \<Rightarrow> (win, None, wk))"

definition count_jit :: "worker \<Rightarrow> window_output \<Rightarrow> window_output" where
  "count_jit wk win =
     (let d = wo_diagnostics win
      in win\<lparr>wo_diagnostics := d\<lparr>wd_jit := (wd_jit d)\<lparr>
           jd_mappings_loaded := word_of_nat (jit_mapping_count (wk_symbolizer wk))\<rparr>\<rparr>\<rparr>)"

section \<open>Retention\<close>

fun remove_window :: "output_env \<Rightarrow> string list \<Rightarrow> worker \<Rightarrow> (string + unit) \<times> worker" where
  "remove_window env [] wk = (Inr (), wk)"
| "remove_window env (path # paths) wk =
     (case remove_file env path wk of
        (Some e, wk1) \<Rightarrow> (Inl e, wk1)
      | (None, wk1) \<Rightarrow> remove_window env paths wk1)"

text \<open>The oldest window is taken off the queue before its files are removed.\<close>

fun prune_session_windows :: "output_env \<Rightarrow> nat \<Rightarrow> string list list \<Rightarrow> worker \<Rightarrow> (string + unit) \<times> worker" where
  "prune_session_windows env keep [] wk = (Inr (), wk\<lparr>wk_retained := []\<rparr>)"
| "prune_session_windows env keep (oldest # windows) wk =
     (if length (oldest # windows) \<le> keep then (Inr (), wk\<lparr>wk_retained := oldest # windows\<rparr>)
      else case remove_window env oldest wk of
             (Inl e, wk1) \<Rightarrow> (Inl e, wk1\<lparr>wk_retained := windows\<rparr>)
           | (Inr _, wk1) \<Rightarrow> prune_session_windows env keep windows wk1)"

definition write_inner ::
  "output_env \<Rightarrow> nat \<Rightarrow> otlp_config option \<Rightarrow> window_output \<Rightarrow> worker \<Rightarrow>
   (string + export_job option) \<times> worker" where
  "write_inner env keep config win wk0 =
     (let wants_otlp = (config \<noteq> None \<and> wo_export_otlp win);
          start = wk0\<lparr>wk_symbolizer := ov_refresh env (wk_symbolizer wk0)\<rparr>
      in and_then (write_cpu env wants_otlp (win, []) start) (\<lambda>draft wk.
         and_then (write_heap env wants_otlp draft wk) (\<lambda>draft wk.
         and_then (write_off_cpu env wants_otlp draft wk) (\<lambda>(win, profiles) wk.
         and_then (build_timeline env wants_otlp win wk) (\<lambda>(win, timeline) wk.
         and_then (write_firefox env win wk) (\<lambda>_ wk.
           (case encode_part env config (count_jit wk (win\<lparr>wo_firefox := None\<rparr>)) profiles timeline wk of
              (win, payload, wk) \<Rightarrow>
                and_then (publish env (wo_diagnostics_path win) wk) (\<lambda>_ wk.
                and_then (prune_session_windows env keep
                            (wk_retained wk @ [wd_outputs (wo_diagnostics win)]) wk) (\<lambda>_ wk.
                  (Inr (map_option (\<lambda>p. \<lparr>ej_payload = p, ej_path = wo_diagnostics_path win,
                          ej_diagnostics = wo_diagnostics win\<rparr>) payload), wk))))))))))"

section \<open>Rollback\<close>

text \<open>\<open>Path::parent\<close> of a path to a file, \<open>.\<close> for a path without one.\<close>

definition strip_slashes :: "string \<Rightarrow> string" where
  "strip_slashes p = rev (dropWhile (\<lambda>c. c = CHR ''/'') (rev p))"

definition parent_dir :: "string \<Rightarrow> string" where
  "parent_dir p =
     (if strip_slashes p = [] then ''.''
      else let d = rev (dropWhile (\<lambda>c. c \<noteq> CHR ''/'') (rev (strip_slashes p)))
           in if d \<noteq> [] \<and> strip_slashes d = [] then ''/'' else strip_slashes d)"

fun remove_outputs ::
  "output_env \<Rightarrow> string list \<Rightarrow> string list \<Rightarrow> string list \<Rightarrow> worker \<Rightarrow> (string list \<times> string list) \<times> worker" where
  "remove_outputs env [] dirs failures wk = ((dirs, failures), wk)"
| "remove_outputs env (path # paths) dirs failures wk =
     (if path \<notin> wk_files wk then remove_outputs env paths dirs failures wk
      else case remove_file env path wk of
             (None, wk1) \<Rightarrow> remove_outputs env paths (List.insert (parent_dir path) dirs) failures wk1
           | (Some e, wk1) \<Rightarrow> remove_outputs env paths dirs (failures @ [path @ '': '' @ e]) wk1)"

definition sync_failures :: "output_env \<Rightarrow> string list \<Rightarrow> string list" where
  "sync_failures env dirs =
     concat (map (\<lambda>dir. case ov_sync env dir of
                          None \<Rightarrow> []
                        | Some (kind, e) \<Rightarrow>
                            if kind = Invalid_Input \<or> kind = Unsupported then [] else [dir @ '': '' @ e]) dirs)"

text \<open>The error that stopped the window, with the files and directories that could not be cleaned up.\<close>

record write_error =
  we_error :: string
  we_leftovers :: "string list"

definition rollback_incomplete_window ::
  "output_env \<Rightarrow> string list \<Rightarrow> string \<Rightarrow> worker \<Rightarrow> write_error \<times> worker" where
  "rollback_incomplete_window env outputs error wk =
     (case remove_outputs env outputs [] [] wk of
        ((dirs, failures), wk1) \<Rightarrow>
          (\<lparr>we_error = error, we_leftovers = failures @ sync_failures env dirs\<rparr>, wk1))"

definition write_window ::
  "output_env \<Rightarrow> nat \<Rightarrow> otlp_config option \<Rightarrow> window_output \<Rightarrow> worker \<Rightarrow>
   (write_error + export_job option) \<times> worker" where
  "write_window env keep config win wk =
     (case write_inner env keep config win wk of
        (Inr job, wk1) \<Rightarrow> (Inr job, wk1)
      | (Inl e, wk1) \<Rightarrow>
          (case rollback_incomplete_window env (wd_outputs (wo_diagnostics win)) e wk1 of
             (err, wk2) \<Rightarrow> (Inl err, wk2)))"

section \<open>Laws\<close>

lemma and_then_simps [simp]:
  "and_then (Inl e, wk) f = (Inl e, wk)" "and_then (Inr x, wk) f = f x wk"
  by (simp_all add: and_then_def)

text \<open>What a part of the writing does to the files: it adds some of the given paths, all of them when it
  succeeds.\<close>

definition writes :: "string set \<Rightarrow> worker \<Rightarrow> ('e + 'a) \<times> worker \<Rightarrow> bool" where
  "writes ps wk r \<longleftrightarrow>
     wk_files wk \<subseteq> wk_files (snd r) \<and> wk_files (snd r) \<subseteq> wk_files wk \<union> ps \<and>
     wk_retained (snd r) = wk_retained wk \<and> (\<forall>x. fst r = Inr x \<longrightarrow> ps \<subseteq> wk_files (snd r))"

lemma writes_nothing:
  "wk_files wk' = wk_files wk \<Longrightarrow> wk_retained wk' = wk_retained wk \<Longrightarrow> writes {} wk (r, wk')"
  by (simp add: writes_def)

lemma writes_and_then:
  assumes "writes ps wk r" "\<And>x wk'. r = (Inr x, wk') \<Longrightarrow> writes qs wk' (f x wk')"
  shows "writes (ps \<union> qs) wk (and_then r f)"
proof (cases r)
  case (Pair res wk')
  show ?thesis
  proof (cases res)
    case (Inl e)
    with assms(1) Pair show ?thesis by (auto simp: writes_def)
  next
    case (Inr x)
    with assms(2) Pair have "writes qs wk' (f x wk')" by simp
    with assms(1) Pair Inr show ?thesis by (auto simp: writes_def)
  qed
qed

lemma writes_start:
  "writes ps wk' r \<Longrightarrow> wk_files wk' = wk_files wk \<Longrightarrow> wk_retained wk' = wk_retained wk \<Longrightarrow> writes ps wk r"
  by (simp add: writes_def)

lemma publish_writes: "writes {p} wk (publish env p wk)"
  by (auto simp: writes_def publish_def split: publish_outcome.split)

lemma publish_optional_writes: "writes (set_option p) wk (publish_optional env p wk)"
  by (cases p) (simp_all add: publish_optional_def publish_writes writes_nothing)

lemma keep_symbolizer_same [simp]:
  "wk_files (keep_symbolizer b wk) = wk_files wk" "wk_retained (keep_symbolizer b wk) = wk_retained wk"
  by (simp_all add: keep_symbolizer_def split: option.split)

text \<open>The two files of a profile.\<close>

lemma profile_writes:
  "writes (insert p (set_option svg)) wk
     (and_then (publish env p (keep_symbolizer b wk)) (\<lambda>_ wk.
      and_then (publish_optional env svg wk) (\<lambda>_ wk. (Inr x, wk))))"
proof -
  have "writes ({p} \<union> (set_option svg \<union> {})) wk
     (and_then (publish env p (keep_symbolizer b wk)) (\<lambda>_ wk.
      and_then (publish_optional env svg wk) (\<lambda>_ wk. (Inr x, wk))))"
    by (intro writes_and_then publish_optional_writes writes_nothing)
      (auto intro: writes_start [OF publish_writes])
  then show ?thesis by simp
qed

lemma write_cpu_writes: "writes (paths_of (wo_cpu (fst draft))) wk (write_cpu env wants draft wk)"
  by (auto simp: write_cpu_def Let_def paths_of_def split_beta profile_writes writes_nothing
      split: option.split)

lemma write_heap_writes: "writes (paths_of (wo_heap (fst draft))) wk (write_heap env wants draft wk)"
  by (auto simp: write_heap_def Let_def paths_of_def split_beta profile_writes writes_nothing
      split: option.split)

lemma write_off_cpu_writes: "writes (paths_of (wo_off_cpu (fst draft))) wk (write_off_cpu env wants draft wk)"
  by (auto simp: write_off_cpu_def Let_def paths_of_def split_beta profile_writes writes_nothing
      split: option.split)

lemma build_timeline_writes: "writes {} wk (build_timeline env wants win wk)"
  by (auto simp: build_timeline_def Let_def writes_nothing split: sum.split)

lemma write_firefox_writes: "writes (firefox_paths win) wk (write_firefox env win wk)"
  by (auto simp: write_firefox_def firefox_paths_def writes_nothing publish_writes
      intro: writes_start [OF publish_writes] split: option.split)

text \<open>What the parts leave of the plan of the window.\<close>

definition same_plan :: "window_output \<Rightarrow> window_output \<Rightarrow> bool" where
  "same_plan win win' \<longleftrightarrow>
     wo_firefox win' = wo_firefox win \<and> wo_diagnostics_path win' = wo_diagnostics_path win \<and>
     wd_outputs (wo_diagnostics win') = wd_outputs (wo_diagnostics win)"

lemma and_then_Inr:
  "and_then r f = (Inr y, wk') \<Longrightarrow> \<exists>x wk. r = (Inr x, wk) \<and> f x wk = (Inr y, wk')"
  by (cases r; cases "fst r") (auto simp: and_then_def)

lemma profile_result:
  "and_then r (\<lambda>_ wk. and_then (f wk) (\<lambda>_ wk. (Inr x, wk))) = (Inr y, wk') \<Longrightarrow> y = x"
  by (auto dest!: and_then_Inr)

lemma write_cpu_plan:
  assumes "write_cpu env wants draft wk = (Inr draft', wk')"
  shows "same_plan (fst draft) (fst draft')" "wo_heap (fst draft') = wo_heap (fst draft)"
    "wo_off_cpu (fst draft') = wo_off_cpu (fst draft)"
  using assms
  by (auto simp: write_cpu_def Let_def split_beta same_plan_def dest!: profile_result split: option.splits)

lemma write_heap_plan:
  assumes "write_heap env wants draft wk = (Inr draft', wk')"
  shows "same_plan (fst draft) (fst draft')" "wo_off_cpu (fst draft') = wo_off_cpu (fst draft)"
  using assms
  by (auto simp: write_heap_def Let_def split_beta same_plan_def dest!: profile_result split: option.splits)

lemma write_off_cpu_plan:
  assumes "write_off_cpu env wants draft wk = (Inr draft', wk')"
  shows "same_plan (fst draft) (fst draft')"
  using assms
  by (auto simp: write_off_cpu_def Let_def split_beta same_plan_def dest!: profile_result split: option.splits)

lemma build_timeline_plan:
  assumes "build_timeline env wants win wk = (Inr res, wk')"
  shows "same_plan win (fst res)"
  using assms by (auto simp: build_timeline_def Let_def same_plan_def split: if_splits sum.splits)

lemma same_plan_refl: "same_plan win win"
  by (simp add: same_plan_def)

lemma same_plan_trans [trans]: "same_plan a b \<Longrightarrow> same_plan b c \<Longrightarrow> same_plan a c"
  by (simp add: same_plan_def)

lemma encode_part_plan:
  assumes "encode_part env config (count_jit wk0 (win\<lparr>wo_firefox := None\<rparr>)) profiles timeline wk = (win', payload, wk')"
  shows "wo_diagnostics_path win' = wo_diagnostics_path win"
    "wd_outputs (wo_diagnostics win') = wd_outputs (wo_diagnostics win)"
    "wk_files wk' = wk_files wk" "wk_retained wk' = wk_retained wk"
  using assms
  by (auto simp: encode_part_def count_jit_def Let_def split: option.splits if_splits prod.splits sum.splits)

text \<open>Removing files.\<close>

lemma remove_file_files:
  "remove_file env p wk = (r, wk') \<Longrightarrow>
     wk_files wk' \<subseteq> wk_files wk \<and> wk_files wk - {p} \<subseteq> wk_files wk' \<and> (r = None \<longrightarrow> p \<notin> wk_files wk')"
  by (cases "p \<in> wk_files wk"; cases "ov_remove env p"; fastforce simp: remove_file_def)

lemma remove_window_files:
  "remove_window env ps wk = (r, wk') \<Longrightarrow>
     wk_files wk' \<subseteq> wk_files wk \<and> wk_files wk - set ps \<subseteq> wk_files wk' \<and>
     (\<forall>x. r = Inr x \<longrightarrow> wk_files wk' = wk_files wk - set ps)"
proof (induction env ps wk arbitrary: r wk' rule: remove_window.induct)
  case (1 env wk)
  then show ?case by auto
next
  case (2 env p ps wk)
  obtain e wk1 where rm: "remove_file env p wk = (e, wk1)" by (rule prod.exhaust)
  show ?case
  proof (cases e)
    case None
    from 2(1) [OF rm [symmetric] None] 2(2) rm None
    have "wk_files wk' \<subseteq> wk_files wk1 \<and> wk_files wk1 - set ps \<subseteq> wk_files wk' \<and>
      (\<forall>x. r = Inr x \<longrightarrow> wk_files wk' = wk_files wk1 - set ps)" by simp
    moreover have "wk_files wk1 \<subseteq> wk_files wk" "wk_files wk - {p} \<subseteq> wk_files wk1" "p \<notin> wk_files wk1"
      using remove_file_files [OF rm] None by simp_all
    ultimately show ?thesis by auto
  next
    case (Some msg)
    with 2(2) rm remove_file_files [OF rm] show ?thesis by auto
  qed
qed

lemma remove_outputs_files:
  "remove_outputs env ps dirs fails wk = ((dirs', fails'), wk') \<Longrightarrow>
     wk_files wk' \<subseteq> wk_files wk \<and> wk_files wk - set ps \<subseteq> wk_files wk' \<and>
     (fails' = [] \<longrightarrow> fails = [] \<and> set ps \<inter> wk_files wk' = {})"
proof (induction env ps dirs fails wk arbitrary: dirs' fails' wk' rule: remove_outputs.induct)
  case (1 env dirs fails wk)
  then show ?case by auto
next
  case (2 env p ps dirs fails wk)
  show ?case
  proof (cases "p \<in> wk_files wk")
    case False
    with 2(1) 2(4) show ?thesis by auto
  next
    case True
    obtain e wk1 where rm: "remove_file env p wk = (e, wk1)" by (rule prod.exhaust)
    show ?thesis
    proof (cases e)
      case None
      from 2(2) [OF _ rm [symmetric] None] 2(4) True rm None
      have "wk_files wk' \<subseteq> wk_files wk1 \<and> wk_files wk1 - set ps \<subseteq> wk_files wk' \<and>
        (fails' = [] \<longrightarrow> fails = [] \<and> set ps \<inter> wk_files wk' = {})" by simp
      with remove_file_files [OF rm] None show ?thesis by auto
    next
      case (Some msg)
      from 2(3) [OF _ rm [symmetric] Some] 2(4) True rm Some
      have "wk_files wk' \<subseteq> wk_files wk1 \<and> wk_files wk1 - set ps \<subseteq> wk_files wk' \<and> fails' \<noteq> []" by auto
      with remove_file_files [OF rm] show ?thesis by auto
    qed
  qed
qed

definition expired :: "nat \<Rightarrow> string list list \<Rightarrow> string set" where
  "expired keep windows = set (concat (take (length windows - keep) windows))"

definition kept :: "nat \<Rightarrow> string list list \<Rightarrow> string list list" where
  "kept keep windows = drop (length windows - keep) windows"

lemma prune_files:
  "prune_session_windows env keep windows wk = (r, wk') \<Longrightarrow>
     wk_files wk' \<subseteq> wk_files wk \<and> wk_files wk - expired keep windows \<subseteq> wk_files wk' \<and>
     (\<forall>x. r = Inr x \<longrightarrow> wk_files wk' = wk_files wk - expired keep windows \<and>
        wk_retained wk' = kept keep windows)"
proof (induction env keep windows wk arbitrary: r wk' rule: prune_session_windows.induct)
  case (1 env keep wk)
  then show ?case by (auto simp: expired_def kept_def)
next
  case (2 env keep oldest windows wk)
  show ?case
  proof (cases "length (oldest # windows) \<le> keep")
    case True
    with 2(2) show ?thesis by (auto simp: expired_def kept_def)
  next
    case False
    then have later: "expired keep (oldest # windows) = set oldest \<union> expired keep windows"
      "kept keep (oldest # windows) = kept keep windows"
      by (simp_all add: expired_def kept_def Suc_diff_le)
    obtain res wk1 where rm: "remove_window env oldest wk = (res, wk1)" by (rule prod.exhaust)
    show ?thesis
    proof (cases res)
      case (Inl e)
      with 2(2) False rm have "wk_files wk' = wk_files wk1" "r = Inl e" by auto
      with remove_window_files [OF rm] later show ?thesis by auto
    next
      case (Inr u)
      have run: "prune_session_windows env keep windows wk1 = (r, wk')" using 2(2) False rm Inr by simp
      from 2(1) [OF False rm [symmetric] Inr run]
      have "wk_files wk' \<subseteq> wk_files wk1 \<and> wk_files wk1 - expired keep windows \<subseteq> wk_files wk' \<and>
        (\<forall>x. r = Inr x \<longrightarrow> wk_files wk' = wk_files wk1 - expired keep windows \<and>
           wk_retained wk' = kept keep windows)" .
      moreover have "wk_files wk1 = wk_files wk - set oldest" using remove_window_files [OF rm] Inr by simp
      ultimately show ?thesis unfolding later by auto
    qed
  qed
qed

text \<open>The parts of a window, up to its profiles and its Firefox file.\<close>

definition finish_window ::
  "output_env \<Rightarrow> nat \<Rightarrow> otlp_config option \<Rightarrow> window_output \<Rightarrow> pprof list \<Rightarrow> (pprof \<times> u64 list) option \<Rightarrow>
   worker \<Rightarrow> (string + export_job option) \<times> worker" where
  "finish_window env keep config win profiles timeline wk =
     (case encode_part env config (count_jit wk (win\<lparr>wo_firefox := None\<rparr>)) profiles timeline wk of
        (win, payload, wk) \<Rightarrow>
          and_then (publish env (wo_diagnostics_path win) wk) (\<lambda>_ wk.
          and_then (prune_session_windows env keep (wk_retained wk @ [wd_outputs (wo_diagnostics win)]) wk) (\<lambda>_ wk.
            (Inr (map_option (\<lambda>p. \<lparr>ej_payload = p, ej_path = wo_diagnostics_path win,
                    ej_diagnostics = wo_diagnostics win\<rparr>) payload), wk))))"

text \<open>What writing and pruning do to the files and the queue of windows.\<close>

definition writes_pruned :: "nat \<Rightarrow> string list \<Rightarrow> string set \<Rightarrow> worker \<Rightarrow> ('e + 'a) \<times> worker \<Rightarrow> bool" where
  "writes_pruned keep outputs ps wk r \<longleftrightarrow>
     wk_files wk - expired keep (wk_retained wk @ [outputs]) \<subseteq> wk_files (snd r) \<and>
     wk_files (snd r) \<subseteq> wk_files wk \<union> ps \<and>
     (\<forall>x. fst r = Inr x \<longrightarrow>
        wk_files (snd r) = (wk_files wk \<union> ps) - expired keep (wk_retained wk @ [outputs]) \<and>
        wk_retained (snd r) = kept keep (wk_retained wk @ [outputs]))"

lemma writes_pruned_and_then:
  assumes "writes ps wk r"
    "\<And>x wk'. r = (Inr x, wk') \<Longrightarrow> writes_pruned keep outputs qs wk' (f x wk')"
  shows "writes_pruned keep outputs (ps \<union> qs) wk (and_then r f)"
proof (cases r)
  case (Pair res wk')
  show ?thesis
  proof (cases res)
    case (Inl e)
    with assms(1) Pair show ?thesis by (auto simp: writes_def writes_pruned_def)
  next
    case (Inr x)
    from assms(2) [of x wk'] Pair Inr have "writes_pruned keep outputs qs wk' (f x wk')" by simp
    moreover have "wk_retained wk' = wk_retained wk" "wk_files wk' = wk_files wk \<union> ps"
      using assms(1) Pair Inr by (auto simp: writes_def)
    moreover have "and_then r f = f x wk'" using Pair Inr by simp
    ultimately show ?thesis by (auto simp: writes_pruned_def)
  qed
qed

lemma prune_pruned:
  "writes_pruned keep outputs {} wk
     (and_then (prune_session_windows env keep (wk_retained wk @ [outputs]) wk) (\<lambda>_ wk. (Inr x, wk)))"
proof -
  obtain res wk' where run: "prune_session_windows env keep (wk_retained wk @ [outputs]) wk = (res, wk')"
    by (rule prod.exhaust)
  from prune_files [OF run] show ?thesis by (cases res) (auto simp: run writes_pruned_def)
qed

lemma finish_window_writes:
  "writes_pruned keep (wd_outputs (wo_diagnostics win)) {wo_diagnostics_path win} wk
     (finish_window env keep config win profiles timeline wk)"
proof -
  obtain win' payload wk' where
    enc: "encode_part env config (count_jit wk (win\<lparr>wo_firefox := None\<rparr>)) profiles timeline wk = (win', payload, wk')"
    by (metis prod.exhaust)
  note plan = encode_part_plan [OF enc]
  have "writes_pruned keep (wd_outputs (wo_diagnostics win)) ({wo_diagnostics_path win} \<union> {}) wk
     (finish_window env keep config win profiles timeline wk)"
    unfolding finish_window_def enc prod.case plan
    by (rule writes_pruned_and_then)
      (auto intro: writes_start [OF publish_writes] prune_pruned simp: plan)
  then show ?thesis by simp
qed

lemma write_inner_finish:
  "write_inner env keep config win wk0 =
     (let wants = (config \<noteq> None \<and> wo_export_otlp win);
          start = wk0\<lparr>wk_symbolizer := ov_refresh env (wk_symbolizer wk0)\<rparr>
      in and_then (write_cpu env wants (win, []) start) (\<lambda>draft wk.
         and_then (write_heap env wants draft wk) (\<lambda>draft wk.
         and_then (write_off_cpu env wants draft wk) (\<lambda>draft wk.
         and_then (build_timeline env wants (fst draft) wk) (\<lambda>res wk.
         and_then (write_firefox env (fst res) wk) (\<lambda>_ wk.
           finish_window env keep config (fst res) (snd draft) (snd res) wk))))))"
  by (simp add: write_inner_def finish_window_def split_def Let_def)

lemma write_inner_writes:
  "writes_pruned keep (wd_outputs (wo_diagnostics win)) (window_paths win) wk
     (write_inner env keep config win wk)"
proof -
  let ?P = "\<lambda>ps wk r. writes_pruned keep (wd_outputs (wo_diagnostics win)) ps wk r"
  let ?last = "\<lambda>draft res wk. finish_window env keep config (fst res) (snd draft) (snd res) wk"
  define wants where "wants = (config \<noteq> None \<and> wo_export_otlp win)"
  define start where "start = wk\<lparr>wk_symbolizer := ov_refresh env (wk_symbolizer wk)\<rparr>"
  have fin: "?P {wo_diagnostics_path win} wk' (?last draft res wk')"
    if "same_plan win (fst res)" for draft :: draft and res :: "window_output \<times> (pprof \<times> u64 list) option" and wk'
    using finish_window_writes [of keep "fst res" wk' env config "snd draft" "snd res"] that
    by (simp add: same_plan_def)
  have firefox: "?P (firefox_paths win \<union> {wo_diagnostics_path win}) wk'
      (and_then (write_firefox env (fst res) wk') (\<lambda>_ wk. ?last draft res wk))"
    if plan: "same_plan win (fst res)" for draft :: draft and res :: "window_output \<times> (pprof \<times> u64 list) option" and wk'
  proof -
    have "firefox_paths (fst res) = firefox_paths win" using plan by (simp add: same_plan_def firefox_paths_def)
    with write_firefox_writes [of "fst res" wk' env] have "writes (firefox_paths win) wk' (write_firefox env (fst res) wk')"
      by simp
    then show ?thesis by (rule writes_pruned_and_then) (rule fin [OF plan])
  qed
  have timeline: "?P ({} \<union> (firefox_paths win \<union> {wo_diagnostics_path win})) wk'
      (and_then (build_timeline env wants (fst draft) wk') (\<lambda>res wk.
        and_then (write_firefox env (fst res) wk) (\<lambda>_ wk. ?last draft res wk)))"
    if plan: "same_plan win (fst draft)" for draft :: draft and wk'
    by (rule writes_pruned_and_then [OF build_timeline_writes], rule firefox)
      (rule same_plan_trans [OF plan build_timeline_plan])
  have off: "?P (paths_of (wo_off_cpu win) \<union> ({} \<union> (firefox_paths win \<union> {wo_diagnostics_path win}))) wk'
      (and_then (write_off_cpu env wants draft wk') (\<lambda>draft wk.
        and_then (build_timeline env wants (fst draft) wk) (\<lambda>res wk.
        and_then (write_firefox env (fst res) wk) (\<lambda>_ wk. ?last draft res wk))))"
    if plan: "same_plan win (fst draft)" "wo_off_cpu (fst draft) = wo_off_cpu win" for draft :: draft and wk'
    by (rule writes_pruned_and_then [OF write_off_cpu_writes [of draft wk' env wants, unfolded plan]], rule timeline)
      (rule same_plan_trans [OF plan(1) write_off_cpu_plan])
  have heap: "?P (paths_of (wo_heap win) \<union> (paths_of (wo_off_cpu win) \<union> ({} \<union> (firefox_paths win \<union> {wo_diagnostics_path win})))) wk'
      (and_then (write_heap env wants draft wk') (\<lambda>draft wk.
        and_then (write_off_cpu env wants draft wk) (\<lambda>draft wk.
        and_then (build_timeline env wants (fst draft) wk) (\<lambda>res wk.
        and_then (write_firefox env (fst res) wk) (\<lambda>_ wk. ?last draft res wk)))))"
    if plan: "same_plan win (fst draft)" "wo_off_cpu (fst draft) = wo_off_cpu win"
      "wo_heap (fst draft) = wo_heap win" for draft :: draft and wk'
    by (rule writes_pruned_and_then [OF write_heap_writes [of draft wk' env wants, unfolded plan]], rule off)
      (rule same_plan_trans [OF plan(1) write_heap_plan(1)], assumption, simp add: write_heap_plan(2) plan)
  have "?P (paths_of (wo_cpu win) \<union> (paths_of (wo_heap win) \<union> (paths_of (wo_off_cpu win) \<union>
      ({} \<union> (firefox_paths win \<union> {wo_diagnostics_path win}))))) start (write_inner env keep config win wk)"
    unfolding write_inner_finish Let_def wants_def [symmetric] start_def [symmetric]
    by (rule writes_pruned_and_then [OF write_cpu_writes [of "(win, [])" start env wants, unfolded fst_conv]],
        rule heap) (drule write_cpu_plan, simp)+
  then show ?thesis
    by (simp add: writes_pruned_def start_def window_paths_def Un_assoc)
qed

text \<open>The queue of the windows on disk.\<close>

definition retained_ok :: "worker \<Rightarrow> bool" where
  "retained_ok wk \<longleftrightarrow> distinct (concat (wk_retained wk)) \<and> (\<forall>ws \<in> set (wk_retained wk). set ws \<subseteq> wk_files wk)"

lemma kept_expired_disjoint:
  assumes "distinct (concat windows)" "ws \<in> set (kept keep windows)"
  shows "set ws \<inter> expired keep windows = {}"
proof -
  have "distinct (concat (take (length windows - keep) windows) @ concat (drop (length windows - keep) windows))"
    using assms(1) by (metis append_take_drop_id concat_append)
  with assms(2) show ?thesis by (auto simp: kept_def expired_def)
qed

lemma kept_distinct: "distinct (concat windows) \<Longrightarrow> distinct (concat (kept keep windows))"
  by (metis append_take_drop_id concat_append distinct_append kept_def)

lemma kept_last: "0 < keep \<Longrightarrow> ws \<in> set (kept keep (windows @ [ws]))"
  by (simp add: kept_def)

lemma rollback_files:
  assumes "rollback_incomplete_window env outputs error wk = (err, wk')"
  shows "wk_files wk' \<subseteq> wk_files wk" "wk_files wk - set outputs \<subseteq> wk_files wk'"
    "we_leftovers err = [] \<Longrightarrow> set outputs \<inter> wk_files wk' = {}" "we_error err = error"
proof -
  obtain dirs fails wk1 where rm: "remove_outputs env outputs [] [] wk = ((dirs, fails), wk1)"
    by (metis prod.exhaust)
  with assms have err: "err = \<lparr>we_error = error, we_leftovers = fails @ sync_failures env dirs\<rparr>" "wk' = wk1"
    by (auto simp: rollback_incomplete_window_def)
  from remove_outputs_files [OF rm] show "wk_files wk' \<subseteq> wk_files wk" "wk_files wk - set outputs \<subseteq> wk_files wk'"
    "we_leftovers err = [] \<Longrightarrow> set outputs \<inter> wk_files wk' = {}" "we_error err = error"
    by (simp_all add: err)
qed

lemma write_window_ok:
  assumes "write_window env keep config win wk = (Inr job, wk')" "planned win"
  shows "wk_files wk' = (wk_files wk \<union> set (wd_outputs (wo_diagnostics win))) -
           expired keep (wk_retained wk @ [wd_outputs (wo_diagnostics win)])"
    "wk_retained wk' = kept keep (wk_retained wk @ [wd_outputs (wo_diagnostics win)])"
proof -
  have "write_inner env keep config win wk = (Inr job, wk')"
    using assms(1) by (auto simp: write_window_def split: prod.splits sum.splits)
  with write_inner_writes [of keep win wk env config] assms(2)
  show "wk_files wk' = (wk_files wk \<union> set (wd_outputs (wo_diagnostics win))) -
           expired keep (wk_retained wk @ [wd_outputs (wo_diagnostics win)])"
    "wk_retained wk' = kept keep (wk_retained wk @ [wd_outputs (wo_diagnostics win)])"
    by (auto simp: writes_pruned_def planned_def)
qed

text \<open>C36: A window is published as a whole. When writing it fails and every file could be cleaned up, none of
  its files is left, no other file appeared, and only files of expired windows are gone. When it
  succeeds, the last \<open>keep_windows\<close> windows are the ones retained, all files of each of them are on
  disk, and exactly the files of expired windows were removed.\<close>

theorem window_write_atomic:
  assumes "write_window env keep config win wk = (result, wk')" "planned win" "retained_ok wk"
    and "distinct (concat (wk_retained wk @ [wd_outputs (wo_diagnostics win)]))"
  shows "(\<forall>err. result = Inl err \<longrightarrow>
      (we_leftovers err = [] \<longrightarrow> set (wd_outputs (wo_diagnostics win)) \<inter> wk_files wk' = {}) \<and>
      wk_files wk' \<subseteq> wk_files wk \<union> set (wd_outputs (wo_diagnostics win)) \<and>
      wk_files wk - set (wd_outputs (wo_diagnostics win)) -
        expired keep (wk_retained wk @ [wd_outputs (wo_diagnostics win)]) \<subseteq> wk_files wk') \<and>
    (\<forall>job. result = Inr job \<longrightarrow>
      wk_retained wk' = kept keep (wk_retained wk @ [wd_outputs (wo_diagnostics win)]) \<and> retained_ok wk' \<and>
      wk_files wk' = (wk_files wk \<union> set (wd_outputs (wo_diagnostics win))) -
        expired keep (wk_retained wk @ [wd_outputs (wo_diagnostics win)]))"
proof (cases result)
  case (Inl err)
  obtain res wk1 where inner: "write_inner env keep config win wk = (res, wk1)" by (rule prod.exhaust)
  with assms(1) Inl obtain e where
    roll: "rollback_incomplete_window env (wd_outputs (wo_diagnostics win)) e wk1 = (err, wk')"
    by (auto simp: write_window_def split: prod.splits sum.splits)
  note rb = rollback_files [OF roll]
  have "wk_files wk1 \<subseteq> wk_files wk \<union> set (wd_outputs (wo_diagnostics win))"
    "wk_files wk - expired keep (wk_retained wk @ [wd_outputs (wo_diagnostics win)]) \<subseteq> wk_files wk1"
    using write_inner_writes [of keep win wk env config] assms(2)
    by (auto simp: inner writes_pruned_def planned_def)
  with rb Inl show ?thesis by blast
next
  case (Inr job)
  note ok = write_window_ok [OF assms(1) [unfolded Inr] assms(2)]
  have "set ws \<subseteq> wk_files wk'" if ws: "ws \<in> set (wk_retained wk')" for ws
  proof -
    have kept: "ws \<in> set (kept keep (wk_retained wk @ [wd_outputs (wo_diagnostics win)]))" using ws ok(2) by simp
    then have "ws \<in> set (wk_retained wk) \<or> ws = wd_outputs (wo_diagnostics win)"
      by (auto simp: kept_def dest: in_set_dropD)
    then have "set ws \<subseteq> wk_files wk \<union> set (wd_outputs (wo_diagnostics win))"
      using assms(3) by (auto simp: retained_ok_def)
    with kept_expired_disjoint [OF assms(4) kept] ok(1) show ?thesis by blast
  qed
  moreover have "distinct (concat (wk_retained wk'))" unfolding ok(2) using assms(4) by (rule kept_distinct)
  ultimately have "retained_ok wk'" by (simp add: retained_ok_def)
  with ok Inr show ?thesis by simp
qed

lemma remove_outputs_all:
  assumes "\<And>p. ov_remove env p = None"
  shows "snd (fst (remove_outputs env ps dirs fails wk)) = fails"
  using assms
  by (induction env ps dirs fails wk rule: remove_outputs.induct) (auto simp: remove_file_def)

definition small_env :: output_env where
  "small_env = \<lparr>ov_publish = (\<lambda>p. if ends_with ''.svg'' p then Unpublished ''disk full'' else Published),
     ov_remove = (\<lambda>_. None), ov_sync = (\<lambda>_. None), ov_refresh = id, ov_demangle = id, ov_version = ''1'',
     ov_hash = \<lparr>he_open = (\<lambda>_ _. None), he_sha256 = (\<lambda>_. [])\<rparr>, ov_random = (\<lambda>_. None),
     ov_show_error = (\<lambda>_. ''error'')\<rparr>"

definition small_symbolizer :: symbolizer where
  "small_symbolizer = \<lparr>sz_modules = [], sz_ranges = [], sz_resolved = [], sz_resolved_order = [],
     sz_perf_map_modified = None, sz_jit_symbols = [], sz_jitdump_fingerprint = [], sz_jitdump_symbols = []\<rparr>"

definition small_worker :: worker where
  "small_worker = \<lparr>wk_symbolizer = small_symbolizer, wk_retained = [[''old'']], wk_hashes = empty_hash_cache,
     wk_files = {''old'', ''other''}\<rparr>"

lemma small_cpu:
  "wo_cpu (small_window 3) =
     Some (''out/cpu-s-'' @ pad_index 3 @ ''-5.pb.gz'', Some (''out/cpu-s-'' @ pad_index 3 @ ''-5.svg''), [], 99, True)"
  by (simp add: small_window_def plan_window_def plan_files_def small_args_def small_facts_def wants_cpu_def
      window_basename_def join_name_def ends_with_def new_cpu_window_def show_five Let_def)

lemma publish_small: "publish small_env (p @ ''.pb.gz'') wk = (Inr (), wk\<lparr>wk_files := insert (p @ ''.pb.gz'') (wk_files wk)\<rparr>)"
  "publish small_env (p @ ''.svg'') wk = (Inl ''disk full'', wk)"
  by (simp_all add: publish_def small_env_def ends_with_def)

lemma small_write_fails: "\<exists>wk'. write_inner small_env 2 None (small_window 3) small_worker = (Inl ''disk full'', wk')"
proof -
  have "\<exists>wk'. write_cpu small_env False (small_window 3, []) wk = (Inl ''disk full'', wk')" for wk
    using publish_small(1) [of "''out/cpu-s-'' @ pad_index 3 @ ''-5''"]
      publish_small(2) [of "''out/cpu-s-'' @ pad_index 3 @ ''-5''"]
    by (simp add: write_cpu_def small_cpu publish_optional_def Let_def)
  then obtain wk' where
    "write_cpu small_env False (small_window 3, [])
       (small_worker\<lparr>wk_symbolizer := ov_refresh small_env (wk_symbolizer small_worker)\<rparr>) = (Inl ''disk full'', wk')"
    by blast
  then show ?thesis by (simp add: write_inner_def)
qed

text \<open>The flame graph cannot be written: the profile beside it is removed again, the old files stay.\<close>

theorem window_write_atomic_witness:
  "\<exists>err wk'. write_window small_env 2 None (small_window 3) small_worker = (Inl err, wk') \<and>
     set (wd_outputs (wo_diagnostics (small_window 3))) \<inter> wk_files wk' = {} \<and> {''old'', ''other''} \<subseteq> wk_files wk'"
proof -
  obtain wk1 where inner: "write_inner small_env 2 None (small_window 3) small_worker = (Inl ''disk full'', wk1)"
    using small_write_fails by blast
  obtain err wk' where roll: "rollback_incomplete_window small_env (wd_outputs (wo_diagnostics (small_window 3)))
      ''disk full'' wk1 = (err, wk')" by (rule prod.exhaust)
  have run: "write_window small_env 2 None (small_window 3) small_worker = (Inl err, wk')"
    by (simp add: write_window_def inner roll)
  obtain dirs fails wk2 where rm:
    "remove_outputs small_env (wd_outputs (wo_diagnostics (small_window 3))) [] [] wk1 = ((dirs, fails), wk2)"
    by (metis prod.exhaust)
  have "fails = []"
    using remove_outputs_all [of small_env "wd_outputs (wo_diagnostics (small_window 3))" "[]" "[]" wk1] rm
    by (simp add: small_env_def)
  moreover have "sync_failures small_env dirs = []" by (simp add: sync_failures_def small_env_def)
  ultimately have clean: "we_leftovers err = []"
    using roll rm by (simp add: rollback_incomplete_window_def) auto
  have ok: "retained_ok small_worker" by (simp add: retained_ok_def small_worker_def)
  have fresh: "distinct (concat (wk_retained small_worker @ [wd_outputs (wo_diagnostics (small_window 3))]))"
    by (simp add: small_worker_def small_window_outputs Let_def)
  have "expired 2 (wk_retained small_worker @ [wd_outputs (wo_diagnostics (small_window 3))]) = {}"
    by (simp add: expired_def small_worker_def)
  with window_write_atomic [OF run small_window_planned ok fresh] clean run
  show ?thesis by (auto simp: small_worker_def small_window_outputs Let_def)
qed

end
