(* ===== verification/Output_Writer.thy ===== *)
theory Output_Writer
  imports Window_Output
begin

text \<open>
  The output threads of a session (\<open>OutputWriter\<close> and \<open>OtlpExporter\<close> of
  \<open>src/src/platform/linux/record.rs\<close>) as a state machine. The recording thread hands windows to the
  writer over a channel of capacity one and reads its completions; the writer hands export jobs to the
  exporter over a channel of capacity four. Each operation of the source is a function on the state;
  \<open>output_step\<close> interleaves the three threads.

  The outcome of every file operation and of every export is chosen afresh in each step. A send on a
  full channel blocks, which is the phase \<open>Sending\<close>. That an update of a diagnostics file checks for the
  file and then replaces it is one step here; neither thread is taken to panic.
\<close>

section \<open>State\<close>

datatype writer_command = Write_Window window_output | Replace_Symbolizer symbolizer

datatype output_error =
  Window_Failed write_error | Worker_Stopped nat | Worker_Gone | Worker_Panicked | Collection_Failed string

text \<open>Where the recording thread is: it records, it waits for room in the channel, it has closed the channel
  and waits for the writer, it waits for the exporter to flush or to be cancelled, it is done.\<close>

datatype phase =
  Recording
| Sending writer_command
| Finishing
| Dropping output_error
| Flushing
| Cancelling output_error
| Finished "output_error + unit"

record session =
  sn_id :: string
  sn_output :: string
  sn_keep :: nat
  sn_config :: "otlp_config option"

record output_state =
  ou_phase :: phase
  ou_index :: nat
  ou_pending :: nat
  ou_queue :: "writer_command list"
  ou_current :: "writer_command option"
  ou_running :: bool
  ou_worker :: worker
  ou_completions :: "write_error option list"
  ou_jobs :: "export_job list"
  ou_exporting :: "export_job option"
  ou_exporter_running :: bool
  ou_stopping :: bool
  ou_reports :: "(export_job \<times> bool) list"

definition start_writer :: "session \<Rightarrow> symbolizer \<Rightarrow> string set \<Rightarrow> output_state" where
  "start_writer sn sz files =
     \<lparr>ou_phase = Recording, ou_index = 0, ou_pending = 0, ou_queue = [], ou_current = None, ou_running = True,
      ou_worker = \<lparr>wk_symbolizer = sz, wk_retained = [], wk_hashes = empty_hash_cache, wk_files = files\<rparr>,
      ou_completions = [], ou_jobs = [], ou_exporting = None, ou_exporter_running = (sn_config sn \<noteq> None),
      ou_stopping = False, ou_reports = []\<rparr>"

section \<open>The recording thread\<close>

text \<open>All completions are read; the first failure is returned.\<close>

fun drain_completions :: "write_error option list \<Rightarrow> nat \<Rightarrow> output_error option \<Rightarrow> nat \<times> output_error option" where
  "drain_completions [] pending first = (pending, first)"
| "drain_completions (c # cs) pending first =
     drain_completions cs (pending - 1)
       (if first = None then map_option Window_Failed c else first)"

definition check_completed :: "output_state \<Rightarrow> (output_error + unit) \<times> output_state" where
  "check_completed s =
     (let (pending, first) = drain_completions (ou_completions s) (ou_pending s) None;
          first' = (if \<not> ou_running s \<and> pending \<noteq> 0 \<and> first = None then Some (Worker_Stopped pending) else first)
      in (case first' of None \<Rightarrow> Inr () | Some e \<Rightarrow> Inl e,
          s\<lparr>ou_completions := [], ou_pending := pending\<rparr>))"

text \<open>What an error does: \<open>record\<close> returns and the writer is dropped.\<close>

definition or_drop :: "(output_error + unit) \<times> output_state \<Rightarrow> (output_state \<Rightarrow> output_state) \<Rightarrow> output_state" where
  "or_drop r f = (case r of (Inl e, s) \<Rightarrow> s\<lparr>ou_phase := Dropping e\<rparr> | (Inr _, s) \<Rightarrow> f s)"

definition submit :: "window_output \<Rightarrow> output_state \<Rightarrow> output_state" where
  "submit win s =
     or_drop (check_completed s) (\<lambda>s.
       s\<lparr>ou_phase := Sending (Write_Window
           (if ou_pending s \<noteq> 0 then shed_derived_outputs (ou_pending s) win else win)),
         ou_index := ou_index s + 1\<rparr>)"

definition replace_symbolizer :: "symbolizer \<Rightarrow> output_state \<Rightarrow> output_state" where
  "replace_symbolizer sz s =
     or_drop (check_completed s) (\<lambda>s. s\<lparr>ou_phase := Sending (Replace_Symbolizer sz)\<rparr>)"

definition is_window :: "writer_command \<Rightarrow> bool" where
  "is_window c = (case c of Write_Window _ \<Rightarrow> True | Replace_Symbolizer _ \<Rightarrow> False)"

text \<open>The channel takes the command once it has room, unless its receiver is gone.\<close>

definition can_send :: "output_state \<Rightarrow> bool" where
  "can_send s \<longleftrightarrow> \<not> ou_running s \<or> length (ou_queue s) < 1"

definition send :: "writer_command \<Rightarrow> output_state \<Rightarrow> output_state" where
  "send c s =
     (if \<not> ou_running s then s\<lparr>ou_phase := Dropping Worker_Gone\<rparr>
      else s\<lparr>ou_phase := Recording, ou_queue := ou_queue s @ [c],
             ou_pending := ou_pending s + (if is_window c then 1 else 0)\<rparr>)"

text \<open>The check of every round of the recording loop.\<close>

definition poll_completed :: "output_state \<Rightarrow> output_state" where
  "poll_completed s = or_drop (check_completed s) id"

text \<open>\<open>finish\<close> after the writer was joined.\<close>

definition finish_writer :: "bool \<Rightarrow> output_state \<Rightarrow> output_state" where
  "finish_writer panicked s =
     or_drop (check_completed s) (\<lambda>s.
       if panicked then s\<lparr>ou_phase := Dropping Worker_Panicked\<rparr>
       else if ou_pending s \<noteq> 0 then s\<lparr>ou_phase := Dropping (Worker_Stopped (ou_pending s))\<rparr>
       else s\<lparr>ou_phase := Flushing\<rparr>)"

definition channel_closed :: "output_state \<Rightarrow> bool" where
  "channel_closed s \<longleftrightarrow> (case ou_phase s of Recording \<Rightarrow> False | Sending _ \<Rightarrow> False | _ \<Rightarrow> True)"

section \<open>The exporter\<close>

definition mark_job :: "otlp_status \<Rightarrow> string option \<Rightarrow> export_job \<Rightarrow> export_job" where
  "mark_job status error job =
     (let d = ej_diagnostics job
      in job\<lparr>ej_diagnostics := d\<lparr>wd_otlp := (wd_otlp d)\<lparr>od_status := status, od_error := error\<rparr>\<rparr>\<rparr>)"

text \<open>\<open>persist_export_diagnostics\<close>: the file is only rewritten when it is there.\<close>

definition persist :: "export_job \<Rightarrow> output_state \<Rightarrow> output_state" where
  "persist job s = s\<lparr>ou_reports := ou_reports s @ [(job, ej_path job \<in> wk_files (ou_worker s))]\<rparr>"

datatype try_send_result = Sent | Full | Disconnected

definition try_send :: "output_state \<Rightarrow> try_send_result" where
  "try_send s =
     (if \<not> ou_exporter_running s then Disconnected else if length (ou_jobs s) < 4 then Sent else Full)"

definition submit_export :: "export_job \<Rightarrow> output_state \<Rightarrow> output_state" where
  "submit_export job s =
     (case try_send s of
        Sent \<Rightarrow> s\<lparr>ou_jobs := ou_jobs s @ [job]\<rparr>
      | Full \<Rightarrow> persist (mark_job Otlp_Dropped (Some ''OTLP export queue is full'') job) s
      | Disconnected \<Rightarrow> persist (mark_job Otlp_Failed (Some ''OTLP exporter stopped'') job) s)"

definition outcome_status :: "export_outcome \<Rightarrow> otlp_status" where
  "outcome_status o' =
     (if \<not> eo_delivered o' then Otlp_Failed
      else if eo_rejected_profiles o' \<noteq> 0 \<or> eo_error o' \<noteq> None then Otlp_Partial else Otlp_Exported)"

definition record_outcome :: "export_outcome \<Rightarrow> export_job \<Rightarrow> export_job" where
  "record_outcome o' job =
     (let d = ej_diagnostics job
      in job\<lparr>ej_diagnostics := d\<lparr>wd_otlp := (wd_otlp d)\<lparr>od_attempts := eo_attempts o',
           od_rejected_profiles := eo_rejected_profiles o', od_error := eo_error o',
           od_status := outcome_status o'\<rparr>\<rparr>\<rparr>)"

text \<open>A job received while the session is stopping is reported as not flushed, any other one is sent.\<close>

definition take_job :: "output_state \<Rightarrow> output_state" where
  "take_job s =
     (case ou_jobs s of
        [] \<Rightarrow> s
      | job # jobs \<Rightarrow>
          if ou_stopping s
          then persist (mark_job Otlp_Failed (Some ''OTLP export was not flushed before shutdown'') job) (s\<lparr>ou_jobs := jobs\<rparr>)
          else s\<lparr>ou_jobs := jobs, ou_exporting := Some job\<rparr>)"

definition finish_job :: "export_outcome \<Rightarrow> output_state \<Rightarrow> output_state" where
  "finish_job o' s =
     (case ou_exporting s of
        None \<Rightarrow> s | Some job \<Rightarrow> persist (record_outcome o' job) (s\<lparr>ou_exporting := None\<rparr>))"

section \<open>The writer\<close>

definition take_command :: "output_state \<Rightarrow> output_state" where
  "take_command s =
     (case ou_queue s of [] \<Rightarrow> s | c # cs \<Rightarrow> s\<lparr>ou_queue := cs, ou_current := Some c\<rparr>)"

definition finish_command :: "session \<Rightarrow> output_env \<Rightarrow> output_state \<Rightarrow> output_state" where
  "finish_command sn env s =
     (case ou_current s of
        None \<Rightarrow> s
      | Some (Replace_Symbolizer sz) \<Rightarrow>
          s\<lparr>ou_current := None, ou_worker := (ou_worker s)\<lparr>wk_symbolizer := sz\<rparr>\<rparr>
      | Some (Write_Window win) \<Rightarrow>
          (case write_window env (sn_keep sn) (sn_config sn) win (ou_worker s) of
             (Inl e, wk) \<Rightarrow>
               s\<lparr>ou_current := None, ou_worker := wk, ou_completions := ou_completions s @ [Some e]\<rparr>
           | (Inr job, wk) \<Rightarrow>
               (let s' = s\<lparr>ou_current := None, ou_worker := wk\<rparr>;
                    s'' = (case job of
                             Some j \<Rightarrow> if sn_config sn = None then s' else submit_export j s'
                           | None \<Rightarrow> s')
                in s''\<lparr>ou_completions := ou_completions s'' @ [None]\<rparr>)))"

section \<open>Steps\<close>

inductive output_step :: "session \<Rightarrow> output_state \<Rightarrow> output_state \<Rightarrow> bool" for sn where
  Submit: "ou_phase s = Recording \<Longrightarrow> wf_session_id facts = sn_id sn \<Longrightarrow> wf_index facts = ou_index s \<Longrightarrow>
    ra_output args = sn_output sn \<Longrightarrow> output_step sn s (submit (plan_window args preflight facts) s)"
| Replace: "ou_phase s = Recording \<Longrightarrow> output_step sn s (replace_symbolizer sz s)"
| Poll: "ou_phase s = Recording \<Longrightarrow> output_step sn s (poll_completed s)"
| Send: "ou_phase s = Sending c \<Longrightarrow> can_send s \<Longrightarrow> output_step sn s (send c s)"
| Finish: "ou_phase s = Recording \<Longrightarrow> output_step sn s (s\<lparr>ou_phase := Finishing\<rparr>)"
| Fail: "ou_phase s = Recording \<Longrightarrow> output_step sn s (s\<lparr>ou_phase := Dropping (Collection_Failed e)\<rparr>)"
| Joined: "ou_phase s = Finishing \<Longrightarrow> \<not> ou_running s \<Longrightarrow> output_step sn s (finish_writer False s)"
| Cancel: "ou_phase s = Dropping e \<Longrightarrow> \<not> ou_running s \<Longrightarrow>
    output_step sn s (s\<lparr>ou_phase := Cancelling e, ou_stopping := True\<rparr>)"
| Flushed: "ou_phase s = Flushing \<Longrightarrow> \<not> ou_exporter_running s \<Longrightarrow> output_step sn s (s\<lparr>ou_phase := Finished (Inr ())\<rparr>)"
| Cancelled: "ou_phase s = Cancelling e \<Longrightarrow> \<not> ou_exporter_running s \<Longrightarrow>
    output_step sn s (s\<lparr>ou_phase := Finished (Inl e)\<rparr>)"
| Take_Command: "ou_running s \<Longrightarrow> ou_current s = None \<Longrightarrow> ou_queue s \<noteq> [] \<Longrightarrow> output_step sn s (take_command s)"
| Finish_Command: "ou_current s \<noteq> None \<Longrightarrow> output_step sn s (finish_command sn env s)"
| Worker_Exit: "ou_running s \<Longrightarrow> ou_current s = None \<Longrightarrow> ou_queue s = [] \<Longrightarrow> channel_closed s \<Longrightarrow>
    output_step sn s (s\<lparr>ou_running := False\<rparr>)"
| Take_Job: "ou_exporter_running s \<Longrightarrow> ou_exporting s = None \<Longrightarrow> ou_jobs s \<noteq> [] \<Longrightarrow> output_step sn s (take_job s)"
| Finish_Job: "ou_exporting s \<noteq> None \<Longrightarrow> output_step sn s (finish_job o' s)"
| Exporter_Exit: "ou_exporter_running s \<Longrightarrow> ou_exporting s = None \<Longrightarrow> ou_jobs s = [] \<Longrightarrow>
    ou_phase s = Flushing \<or> (\<exists>e. ou_phase s = Cancelling e) \<Longrightarrow> output_step sn s (s\<lparr>ou_exporter_running := False\<rparr>)"

inductive output_reachable :: "session \<Rightarrow> output_state \<Rightarrow> bool" for sn where
  Start: "output_reachable sn (start_writer sn sz files)"
| Step: "output_reachable sn s \<Longrightarrow> output_step sn s s' \<Longrightarrow> output_reachable sn s'"

section \<open>The accounts of the writer\<close>

definition command_windows :: "writer_command list \<Rightarrow> window_output list" where
  "command_windows cs = concat (map (\<lambda>c. case c of Write_Window win \<Rightarrow> [win] | Replace_Symbolizer _ \<Rightarrow> []) cs)"

lemma command_windows_simps [simp]:
  "command_windows [] = []" "command_windows (Write_Window win # cs) = win # command_windows cs"
  "command_windows (Replace_Symbolizer sz # cs) = command_windows cs"
  "command_windows (xs @ ys) = command_windows xs @ command_windows ys"
  by (simp_all add: command_windows_def)

lemma command_windows_length: "length (command_windows cs) \<le> length cs"
proof (induction cs)
  case (Cons c cs)
  then show ?case by (cases c) simp_all
qed simp

text \<open>The windows handed over and not yet written, oldest first.\<close>

definition in_flight :: "output_state \<Rightarrow> window_output list" where
  "in_flight s = command_windows ((case ou_current s of None \<Rightarrow> [] | Some c \<Rightarrow> [c]) @ ou_queue s)"

definition accounts :: "output_state \<Rightarrow> bool" where
  "accounts s \<longleftrightarrow>
     ou_pending s = length (in_flight s) + length (ou_completions s) \<and> length (ou_queue s) \<le> 1 \<and>
     (\<not> ou_running s \<longrightarrow> ou_queue s = [] \<and> ou_current s = None \<and> channel_closed s) \<and>
     (\<forall>c. ou_phase s = Sending c \<longrightarrow> ou_pending s \<le> 2) \<and> ou_pending s \<le> 3"

lemma in_flight_bound: "length (ou_queue s) \<le> 1 \<Longrightarrow> length (in_flight s) \<le> 2"
  using command_windows_length [of "(case ou_current s of None \<Rightarrow> [] | Some c \<Rightarrow> [c]) @ ou_queue s"]
  by (cases "ou_current s") (auto simp: in_flight_def)

lemma drain_completions_eq:
  "drain_completions cs pending first =
     (pending - length cs,
      if first = None then map_option (\<lambda>c. Window_Failed (the c)) (List.find (\<lambda>c. c \<noteq> None) cs) else first)"
  by (induction cs arbitrary: pending first) auto

lemma check_completed_step:
  assumes "check_completed s = (r, s')" "accounts s"
  shows "s' = s\<lparr>ou_completions := [], ou_pending := length (in_flight s)\<rparr>"
    "r = Inr () \<Longrightarrow> \<forall>c \<in> set (ou_completions s). c = None"
    "r = Inl e \<Longrightarrow> \<exists>we. e = Window_Failed we"
proof -
  let ?f = "List.find (\<lambda>c. c \<noteq> None) (ou_completions s)"
  have run: "check_completed s =
      (case map_option (\<lambda>c. Window_Failed (the c)) ?f of None \<Rightarrow> Inr () | Some e \<Rightarrow> Inl e,
       s\<lparr>ou_completions := [], ou_pending := length (in_flight s)\<rparr>)"
    using assms(2) by (auto simp: check_completed_def drain_completions_eq accounts_def in_flight_def Let_def)
  show "s' = s\<lparr>ou_completions := [], ou_pending := length (in_flight s)\<rparr>" using run assms(1) by simp
  show "\<forall>c \<in> set (ou_completions s). c = None" if "r = Inr ()"
  proof -
    have "?f = None" using that run assms(1) by (cases ?f) auto
    then show ?thesis by (auto simp: find_None_iff)
  qed
  show "\<exists>we. e = Window_Failed we" if "r = Inl e"
    using that run assms(1) by (cases ?f) auto
qed

text \<open>The operations of the recording thread that begin with the check.\<close>

lemma or_drop_check:
  assumes "accounts s"
  obtains (Failed) we where "or_drop (check_completed s) f =
      s\<lparr>ou_completions := [], ou_pending := length (in_flight s), ou_phase := Dropping (Window_Failed we)\<rparr>"
  | (Checked) "\<forall>c \<in> set (ou_completions s). c = None"
      "or_drop (check_completed s) f = f (s\<lparr>ou_completions := [], ou_pending := length (in_flight s)\<rparr>)"
proof -
  obtain r s' where c: "check_completed s = (r, s')" by (rule prod.exhaust)
  note st = check_completed_step [OF c assms]
  show thesis
  proof (cases r)
    case (Inl e)
    with st(3) obtain we where "e = Window_Failed we" by blast
    with Inl c st(1) have "or_drop (check_completed s) f =
      s\<lparr>ou_completions := [], ou_pending := length (in_flight s), ou_phase := Dropping (Window_Failed we)\<rparr>"
      by (simp add: or_drop_def)
    then show thesis by (rule Failed)
  next
    case (Inr u)
    with c st(1,2) show thesis by (intro Checked) (simp_all add: or_drop_def)
  qed
qed

lemma channel_closed_simps [simp]:
  "channel_closed (s\<lparr>ou_phase := Dropping e\<rparr>)" "channel_closed (s\<lparr>ou_phase := Flushing\<rparr>)"
  "channel_closed (s\<lparr>ou_phase := Finishing\<rparr>)" "channel_closed (s\<lparr>ou_phase := Cancelling e\<rparr>)"
  "channel_closed (s\<lparr>ou_phase := Finished r\<rparr>)"
  by (simp_all add: channel_closed_def)

lemma submit_export_same:
  "ou_phase (submit_export job s) = ou_phase s" "ou_index (submit_export job s) = ou_index s"
  "ou_pending (submit_export job s) = ou_pending s" "ou_queue (submit_export job s) = ou_queue s"
  "ou_current (submit_export job s) = ou_current s" "ou_running (submit_export job s) = ou_running s"
  "ou_worker (submit_export job s) = ou_worker s" "ou_completions (submit_export job s) = ou_completions s"
  "ou_exporting (submit_export job s) = ou_exporting s"
  "ou_exporter_running (submit_export job s) = ou_exporter_running s"
  "ou_stopping (submit_export job s) = ou_stopping s"
  by (simp_all add: submit_export_def persist_def split: try_send_result.split)

text \<open>How the jobs and reports can change when a job is handed on: not at all, one job more in a queue with
  room, or one report with a final status.\<close>

definition final_status :: "export_job \<Rightarrow> bool" where
  "final_status job \<longleftrightarrow>
     od_status (wd_otlp (ej_diagnostics job)) \<in> {Otlp_Exported, Otlp_Partial, Otlp_Failed, Otlp_Dropped}"

lemma final_mark_job: "status \<in> {Otlp_Failed, Otlp_Dropped} \<Longrightarrow> final_status (mark_job status error job)"
  by (auto simp: final_status_def mark_job_def Let_def)

lemma final_record_outcome: "final_status (record_outcome o' job)"
  by (simp add: final_status_def record_outcome_def outcome_status_def Let_def)

definition handed :: "output_state \<Rightarrow> export_job list \<Rightarrow> (export_job \<times> bool) list \<Rightarrow> bool" where
  "handed s jobs reports \<longleftrightarrow>
     jobs = ou_jobs s \<and> reports = ou_reports s \<or>
     ou_exporter_running s \<and> length (ou_jobs s) < 4 \<and> (\<exists>j. jobs = ou_jobs s @ [j]) \<and> reports = ou_reports s \<or>
     jobs = ou_jobs s \<and> (\<exists>j b. final_status j \<and> reports = ou_reports s @ [(j, b)])"

lemma submit_export_handed:
  "\<exists>jobs reports. submit_export j s = s\<lparr>ou_jobs := jobs, ou_reports := reports\<rparr> \<and> handed s jobs reports"
proof (cases "try_send s")
  case Sent
  then have "handed s (ou_jobs s @ [j]) (ou_reports s)" by (auto simp: try_send_def handed_def split: if_splits)
  moreover have "submit_export j s = s\<lparr>ou_jobs := ou_jobs s @ [j], ou_reports := ou_reports s\<rparr>"
    using Sent by (cases s) (simp add: submit_export_def)
  ultimately show ?thesis by blast
next
  case Full
  let ?j = "mark_job Otlp_Dropped (Some ''OTLP export queue is full'') j"
  have "handed s (ou_jobs s) (ou_reports s @ [(?j, ej_path ?j \<in> wk_files (ou_worker s))])"
    using final_mark_job unfolding handed_def by blast
  moreover have "submit_export j s =
      s\<lparr>ou_jobs := ou_jobs s, ou_reports := ou_reports s @ [(?j, ej_path ?j \<in> wk_files (ou_worker s))]\<rparr>"
    using Full by (cases s) (simp add: submit_export_def persist_def)
  ultimately show ?thesis by blast
next
  case Disconnected
  let ?j = "mark_job Otlp_Failed (Some ''OTLP exporter stopped'') j"
  have "handed s (ou_jobs s) (ou_reports s @ [(?j, ej_path ?j \<in> wk_files (ou_worker s))])"
    using final_mark_job unfolding handed_def by blast
  moreover have "submit_export j s =
      s\<lparr>ou_jobs := ou_jobs s, ou_reports := ou_reports s @ [(?j, ej_path ?j \<in> wk_files (ou_worker s))]\<rparr>"
    using Disconnected by (cases s) (simp add: submit_export_def persist_def)
  ultimately show ?thesis by blast
qed

text \<open>What finishing a command does.\<close>

lemma finish_command_cases:
  assumes "ou_current s \<noteq> None"
  obtains (Replaced) sz where "ou_current s = Some (Replace_Symbolizer sz)"
      "finish_command sn env s = s\<lparr>ou_current := None, ou_worker := (ou_worker s)\<lparr>wk_symbolizer := sz\<rparr>\<rparr>"
  | (Failed) win e wk where "ou_current s = Some (Write_Window win)"
      "write_window env (sn_keep sn) (sn_config sn) win (ou_worker s) = (Inl e, wk)"
      "finish_command sn env s =
         s\<lparr>ou_current := None, ou_worker := wk, ou_completions := ou_completions s @ [Some e]\<rparr>"
  | (Written) win job wk jobs reports where "ou_current s = Some (Write_Window win)"
      "write_window env (sn_keep sn) (sn_config sn) win (ou_worker s) = (Inr job, wk)"
      "finish_command sn env s =
         s\<lparr>ou_current := None, ou_worker := wk, ou_jobs := jobs, ou_reports := reports,
           ou_completions := ou_completions s @ [None]\<rparr>"
      "handed s jobs reports"
proof -
  from assms obtain c where cur: "ou_current s = Some c" by blast
  show thesis
  proof (cases c)
    case (Replace_Symbolizer sz)
    with cur show thesis by (intro Replaced) (simp_all add: finish_command_def)
  next
    case (Write_Window win)
    obtain res wk where w: "write_window env (sn_keep sn) (sn_config sn) win (ou_worker s) = (res, wk)"
      by (rule prod.exhaust)
    show thesis
    proof (cases res)
      case (Inl e)
      with cur Write_Window w show thesis by (intro Failed) (simp_all add: finish_command_def)
    next
      case (Inr job)
      define s' where "s' = s\<lparr>ou_current := None, ou_worker := wk\<rparr>"
      have same: "s' = s'\<lparr>ou_jobs := ou_jobs s', ou_reports := ou_reports s'\<rparr>" "handed s' (ou_jobs s') (ou_reports s')"
        by (simp_all add: handed_def)
      have "\<exists>jobs reports. handed s' jobs reports \<and>
          (case job of Some j \<Rightarrow> if sn_config sn = None then s' else submit_export j s' | None \<Rightarrow> s') =
            s'\<lparr>ou_jobs := jobs, ou_reports := reports\<rparr>"
      proof (cases "job = None \<or> sn_config sn = None")
        case True
        then show ?thesis using same by (intro exI [of _ "ou_jobs s'"] exI [of _ "ou_reports s'"]) (auto split: option.split)
      next
        case False
        then obtain j cfg where "job = Some j" "sn_config sn = Some cfg" by auto
        then show ?thesis using submit_export_handed [of j s'] by (simp add: conj_commute)
      qed
      then obtain jobs reports where h: "handed s' jobs reports" and
        st: "(case job of Some j \<Rightarrow> if sn_config sn = None then s' else submit_export j s' | None \<Rightarrow> s') =
          s'\<lparr>ou_jobs := jobs, ou_reports := reports\<rparr>"
        by blast
      have "finish_command sn env s =
          (s'\<lparr>ou_jobs := jobs, ou_reports := reports\<rparr>)\<lparr>ou_completions :=
             ou_completions (s'\<lparr>ou_jobs := jobs, ou_reports := reports\<rparr>) @ [None]\<rparr>"
        using cur Write_Window w Inr unfolding finish_command_def by (simp add: st [unfolded s'_def] s'_def)
      moreover have "handed s jobs reports" using h by (simp add: handed_def s'_def)
      ultimately show thesis using cur Write_Window w Inr by (intro Written) (simp_all add: s'_def)
    qed
  qed
qed

lemma check_accounts:
  assumes "accounts s"
  shows "accounts (s\<lparr>ou_completions := [], ou_pending := length (in_flight s), ou_phase := Dropping e\<rparr>)"
    "accounts (s\<lparr>ou_completions := [], ou_pending := length (in_flight s)\<rparr>)"
    "ou_running s \<Longrightarrow> accounts (s\<lparr>ou_completions := [], ou_pending := length (in_flight s), ou_phase := Sending c\<rparr>)"
  using assms in_flight_bound [of s] by (auto simp: accounts_def in_flight_def channel_closed_def)

lemma recording_runs: "accounts s \<Longrightarrow> ou_phase s = Recording \<Longrightarrow> ou_running s"
  by (auto simp: accounts_def channel_closed_def)

lemma accounts_submit:
  assumes "accounts s" "ou_phase s = Recording"
  shows "accounts (submit win s)"
  unfolding submit_def
proof (cases rule: or_drop_check [OF assms(1), where f = "\<lambda>s. s\<lparr>ou_phase := Sending (Write_Window
           (if ou_pending s \<noteq> 0 then shed_derived_outputs (ou_pending s) win else win)),
         ou_index := ou_index s + 1\<rparr>"])
  case (1 we)
  then show "accounts (or_drop (check_completed s) (\<lambda>s. s\<lparr>ou_phase := Sending (Write_Window
           (if ou_pending s \<noteq> 0 then shed_derived_outputs (ou_pending s) win else win)),
         ou_index := ou_index s + 1\<rparr>))"
    using check_accounts(1) [OF assms(1)] by simp
next
  case 2
  have "accounts (t\<lparr>ou_index := n\<rparr>) = accounts t" for t n
    by (simp add: accounts_def in_flight_def channel_closed_def)
  with 2 check_accounts(3) [OF assms(1) recording_runs [OF assms]] show "accounts (or_drop (check_completed s)
      (\<lambda>s. s\<lparr>ou_phase := Sending (Write_Window
           (if ou_pending s \<noteq> 0 then shed_derived_outputs (ou_pending s) win else win)),
         ou_index := ou_index s + 1\<rparr>))"
    by simp
qed

lemma accounts_replace:
  assumes "accounts s" "ou_phase s = Recording"
  shows "accounts (replace_symbolizer sz s)"
  unfolding replace_symbolizer_def
  using check_accounts [OF assms(1)] recording_runs [OF assms]
  by (rule_tac or_drop_check [OF assms(1), where f = "\<lambda>s. s\<lparr>ou_phase := Sending (Replace_Symbolizer sz)\<rparr>"]) simp_all

lemma accounts_poll:
  assumes "accounts s"
  shows "accounts (poll_completed s)"
  unfolding poll_completed_def
  using check_accounts [OF assms(1)] by (rule_tac or_drop_check [OF assms(1), where f = id]) simp_all

lemma accounts_finish_writer:
  assumes "accounts s" "ou_phase s = Finishing" "\<not> ou_running s"
  shows "accounts (finish_writer False s)"
    "\<exists>e. finish_writer False s = s\<lparr>ou_completions := [], ou_pending := 0, ou_phase := Dropping (Window_Failed e)\<rparr> \<or>
       finish_writer False s = s\<lparr>ou_completions := [], ou_pending := 0, ou_phase := Flushing\<rparr> \<and>
       (\<forall>c \<in> set (ou_completions s). c = None)"
proof -
  have none: "in_flight s = []" using assms by (simp add: accounts_def in_flight_def)
  show ex: "\<exists>e. finish_writer False s = s\<lparr>ou_completions := [], ou_pending := 0, ou_phase := Dropping (Window_Failed e)\<rparr> \<or>
       finish_writer False s = s\<lparr>ou_completions := [], ou_pending := 0, ou_phase := Flushing\<rparr> \<and>
       (\<forall>c \<in> set (ou_completions s). c = None)"
    unfolding finish_writer_def
    by (rule or_drop_check [OF assms(1), where f = "\<lambda>s.
       if False then s\<lparr>ou_phase := Dropping Worker_Panicked\<rparr>
       else if ou_pending s \<noteq> 0 then s\<lparr>ou_phase := Dropping (Worker_Stopped (ou_pending s))\<rparr>
       else s\<lparr>ou_phase := Flushing\<rparr>"]) (auto simp: none)
  from ex assms(1,3) show "accounts (finish_writer False s)"
    by (auto simp: accounts_def in_flight_def channel_closed_def)
qed

lemma accounts_send:
  assumes "accounts s" "ou_phase s = Sending c" "can_send s"
  shows "accounts (send c s)"
  using assms by (cases c) (auto simp: accounts_def in_flight_def channel_closed_def can_send_def send_def is_window_def)

lemma accounts_finish_command:
  assumes "accounts s" "ou_current s \<noteq> None"
  shows "accounts (finish_command sn env s)"
  by (cases rule: finish_command_cases [OF assms(2), of sn env])
    (use assms(1) in \<open>auto simp: accounts_def in_flight_def channel_closed_def\<close>)

lemma accounts_start: "accounts (start_writer sn sz files)"
  by (simp add: accounts_def start_writer_def in_flight_def channel_closed_def)

lemma accounts_step:
  assumes "output_step sn s s'" "accounts s"
  shows "accounts s'"
  using assms
proof (cases rule: output_step.cases)
  case (Take_Command)
  then show ?thesis
    using assms(2) by (cases "ou_queue s") (auto simp: take_command_def accounts_def in_flight_def channel_closed_def)
next
  case Take_Job
  then show ?thesis
    using assms(2)
    by (cases "ou_jobs s") (auto simp: take_job_def persist_def accounts_def in_flight_def channel_closed_def)
next
  case (Finish_Job o')
  then show ?thesis
    using assms(2) by (auto simp: finish_job_def persist_def accounts_def in_flight_def channel_closed_def)
qed (use assms(2) in \<open>auto simp: accounts_submit accounts_replace accounts_poll accounts_send accounts_finish_writer
    accounts_finish_command\<close>, (auto simp: accounts_def in_flight_def channel_closed_def)?)

text \<open>Jobs and reports.\<close>

definition exports :: "output_state \<Rightarrow> bool" where
  "exports s \<longleftrightarrow>
     length (ou_jobs s) \<le> 4 \<and> (\<forall>report \<in> set (ou_reports s). final_status (fst report)) \<and>
     (\<not> ou_exporter_running s \<longrightarrow> ou_jobs s = [] \<and> ou_exporting s = None)"

lemma or_drop_exports:
  assumes "\<And>s. exports s \<Longrightarrow> exports (f s)" "exports s"
  shows "exports (or_drop (check_completed s) f)"
proof -
  obtain r s' where c: "check_completed s = (r, s')" by (rule prod.exhaust)
  then have "\<exists>p. s' = s\<lparr>ou_completions := [], ou_pending := p\<rparr>" by (auto simp: check_completed_def Let_def split: prod.splits)
  then have "exports s'" using assms(2) by (auto simp: exports_def)
  with c assms(1) [of s'] show ?thesis by (cases r) (simp_all add: or_drop_def exports_def)
qed

lemma exports_finish_command:
  assumes "exports s" "ou_current s \<noteq> None"
  shows "exports (finish_command sn env s)"
  by (cases rule: finish_command_cases [OF assms(2), of sn env])
    (use assms(1) in \<open>auto simp: exports_def handed_def\<close>)

lemma exports_step:
  assumes "output_step sn s s'" "exports s"
  shows "exports s'"
  using assms
proof (cases rule: output_step.cases)
  case Take_Job
  then show ?thesis
    using assms(2) by (cases "ou_jobs s") (auto simp: take_job_def persist_def exports_def final_mark_job)
next
  case (Finish_Job o')
  then show ?thesis using assms(2) by (auto simp: finish_job_def persist_def exports_def final_record_outcome)
next
  case (Submit facts args preflight)
  show ?thesis unfolding Submit submit_def by (rule or_drop_exports) (use assms(2) in \<open>simp_all add: exports_def\<close>)
next
  case (Replace sz)
  show ?thesis unfolding Replace replace_symbolizer_def
    by (rule or_drop_exports) (use assms(2) in \<open>simp_all add: exports_def\<close>)
next
  case Poll
  show ?thesis unfolding Poll poll_completed_def by (rule or_drop_exports) (use assms(2) in simp_all)
next
  case Joined
  show ?thesis unfolding Joined finish_writer_def
    by (rule or_drop_exports) (use assms(2) in \<open>simp_all add: exports_def\<close>)
next
  case (Send c)
  then show ?thesis using assms(2) by (simp add: send_def exports_def)
next
  case Take_Command
  then show ?thesis using assms(2) by (cases "ou_queue s") (simp_all add: take_command_def exports_def)
next
  case (Finish_Command env)
  then show ?thesis using assms(2) by (simp add: exports_finish_command)
qed (use assms(2) in \<open>simp_all add: exports_def\<close>)

lemma reachable_accounts:
  assumes "output_reachable sn s"
  shows "accounts s \<and> exports s"
  using assms
proof (induction rule: output_reachable.induct)
  case (Start sz files)
  then show ?case by (simp add: accounts_start) (simp add: exports_def start_writer_def)
next
  case (Step s s')
  then show ?case using accounts_step exports_step by blast
qed

section \<open>The retained windows\<close>

text \<open>The files of a window, and a window as it is submitted with index \<open>i\<close>: planned for the session, and shed
  when the writer is behind.\<close>

definition window_files :: "window_output \<Rightarrow> string list" where
  "window_files win = wd_outputs (wo_diagnostics win)"

definition submitted_as :: "session \<Rightarrow> nat \<Rightarrow> window_output \<Rightarrow> bool" where
  "submitted_as sn i win \<longleftrightarrow>
     (\<exists>args preflight facts n. ra_output args = sn_output sn \<and> wf_session_id facts = sn_id sn \<and> wf_index facts = i \<and>
        win = (if n \<noteq> 0 then shed_derived_outputs n (plan_window args preflight facts)
               else plan_window args preflight facts))"

lemma submitted_files:
  assumes "submitted_as sn i win"
  shows "planned win" "distinct (window_files win)"
    "\<exists>args facts. ra_output args = sn_output sn \<and> wf_session_id facts = sn_id sn \<and> wf_index facts = i \<and>
       set (window_files win) \<subseteq> set (plan_outputs args facts)"
proof -
  from assms obtain args preflight facts n where f: "ra_output args = sn_output sn" "wf_session_id facts = sn_id sn"
    "wf_index facts = i" and win: "win = (if n \<noteq> 0 then shed_derived_outputs n (plan_window args preflight facts)
       else plan_window args preflight facts)" unfolding submitted_as_def by blast
  have outs: "wd_outputs (wo_diagnostics (plan_window args preflight facts)) = plan_outputs args facts"
    by (simp add: plan_window_def plan_diagnostics_def Let_def)
  show "planned win"
    using shed_planned(1) [OF plan_window_planned plan_primary_derived] plan_window_planned by (simp add: win)
  show "distinct (window_files win)"
    using plan_outputs_distinct [of args facts] by (simp add: win window_files_def shed_fields outs)
  have "set (window_files win) \<subseteq> set (plan_outputs args facts)"
    by (auto simp: win window_files_def shed_fields outs)
  with f show "\<exists>args facts. ra_output args = sn_output sn \<and> wf_session_id facts = sn_id sn \<and> wf_index facts = i \<and>
       set (window_files win) \<subseteq> set (plan_outputs args facts)" by blast
qed

lemma submitted_disjoint:
  assumes "submitted_as sn i win" "submitted_as sn j win'" "i \<noteq> j"
  shows "set (window_files win) \<inter> set (window_files win') = {}"
proof -
  from submitted_files(3) [OF assms(1)] obtain args facts where
    a: "ra_output args = sn_output sn" "wf_session_id facts = sn_id sn" "wf_index facts = i"
      "set (window_files win) \<subseteq> set (plan_outputs args facts)" by blast
  from submitted_files(3) [OF assms(2)] obtain args' facts' where
    b: "ra_output args' = sn_output sn" "wf_session_id facts' = sn_id sn" "wf_index facts' = j"
      "set (window_files win') \<subseteq> set (plan_outputs args' facts')" by blast
  from a b plan_outputs_disjoint [of facts facts' args args'] assms(3) show ?thesis by auto
qed

text \<open>A run together with the windows that were submitted in it, in order.\<close>

definition submission :: "output_state \<Rightarrow> output_state \<Rightarrow> window_output list" where
  "submission s s' =
     (if ou_index s' = ou_index s then []
      else case ou_phase s' of Sending c \<Rightarrow> command_windows [c] | _ \<Rightarrow> [])"

inductive output_run :: "session \<Rightarrow> window_output list \<Rightarrow> output_state \<Rightarrow> bool" for sn where
  Begin: "output_run sn [] (start_writer sn sz files)"
| Continue: "output_run sn ws s \<Longrightarrow> output_step sn s s' \<Longrightarrow> output_run sn (ws @ submission s s') s'"

lemma output_reachable_run: "output_reachable sn s \<longleftrightarrow> (\<exists>ws. output_run sn ws s)"
proof
  show "output_reachable sn s \<Longrightarrow> \<exists>ws. output_run sn ws s"
    by (induction rule: output_reachable.induct) (blast intro: output_run.intros)+
  show "\<exists>ws. output_run sn ws s \<Longrightarrow> output_reachable sn s"
  proof (elim exE)
    fix ws assume "output_run sn ws s"
    then show "output_reachable sn s"
      by (induction rule: output_run.induct) (blast intro: output_reachable.intros)+
  qed
qed

definition handed_over :: "output_state \<Rightarrow> window_output list" where
  "handed_over s =
     in_flight s @ (case ou_phase s of Sending c \<Rightarrow> command_windows [c] | _ \<Rightarrow> [])"

text \<open>No window has failed and the session was not given up.\<close>

definition healthy :: "output_state \<Rightarrow> bool" where
  "healthy s \<longleftrightarrow>
     (\<forall>c \<in> set (ou_completions s). c = None) \<and>
     (case ou_phase s of Dropping _ \<Rightarrow> False | Cancelling _ \<Rightarrow> False | Finished (Inl _) \<Rightarrow> False | _ \<Rightarrow> True)"

definition written_windows :: "output_state \<Rightarrow> nat" where
  "written_windows s = ou_index s - length (handed_over s)"

text \<open>The last \<open>keep\<close> of the first \<open>w\<close> windows.\<close>

definition last_windows :: "nat \<Rightarrow> nat \<Rightarrow> window_output list \<Rightarrow> window_output list" where
  "last_windows keep w ws = drop (w - keep) (take w ws)"

definition retention :: "session \<Rightarrow> window_output list \<Rightarrow> nat \<Rightarrow> worker \<Rightarrow> window_output list \<Rightarrow> bool" where
  "retention sn ws w wk windows \<longleftrightarrow>
     w \<le> length ws \<and> windows = drop w ws \<and> wk_retained wk = map window_files (last_windows (sn_keep sn) w ws) \<and>
     (\<forall>fs \<in> set (wk_retained wk). set fs \<subseteq> wk_files wk)"

lemma windows_distinct:
  assumes "\<forall>i < length ws. submitted_as sn i (ws ! i)"
  shows "distinct (concat (map window_files ws))"
  using assms
proof (induction ws rule: rev_induct)
  case Nil
  then show ?case by simp
next
  case (snoc win ws)
  have old: "\<forall>i < length ws. submitted_as sn i (ws ! i)"
    using snoc.prems by (metis length_append_singleton less_SucI nth_append)
  have new: "submitted_as sn (length ws) win"
    using snoc.prems by (metis length_append_singleton lessI nth_append_length)
  have "set (window_files v) \<inter> set (window_files win) = {}" if "v \<in> set ws" for v
  proof -
    from that obtain i where "i < length ws" "v = ws ! i" by (metis in_set_conv_nth)
    with old submitted_disjoint [OF _ new] show ?thesis by (metis less_irrefl)
  qed
  with snoc.IH [OF old] submitted_files(2) [OF new] show ?case by auto
qed

text \<open>A window is written.\<close>

lemma last_windows_Suc:
  assumes "w < length ws"
  shows "kept keep (map window_files (last_windows keep w ws) @ [window_files (ws ! w)]) =
    map window_files (last_windows keep (Suc w) ws)"
proof -
  have "map window_files (last_windows keep w ws) @ [window_files (ws ! w)] =
      map window_files (drop (w - keep) (take (Suc w) ws))"
    using assms by (simp add: last_windows_def take_Suc_conv_app_nth)
  moreover have "length (map window_files (last_windows keep w ws) @ [window_files (ws ! w)]) = Suc w - (w - keep)"
    using assms by (simp add: last_windows_def)
  moreover have "w - keep + (Suc w - (w - keep) - keep) = Suc w - keep" by arith
  ultimately show ?thesis by (simp only: kept_def last_windows_def drop_map drop_drop add.commute)
qed

lemma last_windows_distinct:
  assumes "\<forall>i < length ws. submitted_as sn i (ws ! i)"
  shows "distinct (concat (map window_files (drop m (take n ws))))"
proof -
  have "distinct (concat (map window_files (take m (take n ws) @ drop m (take n ws) @ drop n ws)))"
    using windows_distinct [OF assms] by (metis append_assoc append_take_drop_id)
  then show ?thesis by simp
qed

lemma retention_written:
  assumes inv: "retention sn ws w wk (win # windows)" and ws: "\<forall>i < length ws. submitted_as sn i (ws ! i)"
    and run: "write_window env (sn_keep sn) config win wk = (Inr job, wk')"
  shows "retention sn ws (Suc w) wk' windows"
proof -
  have drops: "drop w ws = win # windows" and old: "\<forall>fs \<in> set (wk_retained wk). set fs \<subseteq> wk_files wk"
    and ret: "wk_retained wk = map window_files (last_windows (sn_keep sn) w ws)"
    using inv by (simp_all add: retention_def)
  have w: "w < length ws" using drops by (metis drop_all list.distinct(1) not_le_imp_less)
  then have win: "win = ws ! w" "windows = drop (Suc w) ws"
    using drops by (simp_all add: Cons_nth_drop_Suc [symmetric])
  note ok = write_window_ok [OF run submitted_files(1) [OF ws [rule_format, OF w], folded win(1)], folded window_files_def]
  have all: "distinct (concat (wk_retained wk @ [window_files win]))"
  proof -
    have "wk_retained wk @ [window_files win] = map window_files (drop (w - sn_keep sn) (take (Suc w) ws))"
      using w by (simp add: ret win(1) last_windows_def take_Suc_conv_app_nth)
    then show ?thesis using last_windows_distinct [OF ws] by simp
  qed
  have "set fs \<subseteq> wk_files wk'" if fs: "fs \<in> set (wk_retained wk')" for fs
  proof -
    have kept: "fs \<in> set (kept (sn_keep sn) (wk_retained wk @ [window_files win]))" using fs ok(2) by simp
    then have "fs \<in> set (wk_retained wk) \<or> fs = window_files win" by (auto simp: kept_def dest: in_set_dropD)
    then have "set fs \<subseteq> wk_files wk \<union> set (window_files win)" using old by auto
    with kept_expired_disjoint [OF all kept] ok(1) show ?thesis by blast
  qed
  moreover have "wk_retained wk' = map window_files (last_windows (sn_keep sn) (Suc w) ws)"
    using last_windows_Suc [OF w] by (simp add: ok(2) ret win(1))
  ultimately show ?thesis using w win(2) by (simp add: retention_def)
qed

definition retains :: "session \<Rightarrow> window_output list \<Rightarrow> output_state \<Rightarrow> bool" where
  "retains sn ws s \<longleftrightarrow>
     length ws = ou_index s \<and> (\<forall>i < length ws. submitted_as sn i (ws ! i)) \<and>
     (healthy s \<longrightarrow> retention sn ws (written_windows s) (ou_worker s) (handed_over s))"

lemma retains_I:
  assumes "length ws = ou_index s" "\<forall>i < length ws. submitted_as sn i (ws ! i)"
    and "healthy s \<Longrightarrow> retention sn ws w (ou_worker s) (handed_over s)"
  shows "retains sn ws s"
proof -
  have "w = written_windows s" if "healthy s"
    using assms(1) assms(3) [OF that] by (simp add: retention_def written_windows_def)
  with assms show ?thesis by (auto simp: retains_def)
qed

lemma retainsD:
  assumes "retains sn ws s"
  shows "length ws = ou_index s" "\<forall>i < length ws. submitted_as sn i (ws ! i)"
    "healthy s \<Longrightarrow> retention sn ws (written_windows s) (ou_worker s) (handed_over s)"
  using assms by (simp_all add: retains_def)

lemma handed_over_Recording: "ou_phase s = Recording \<Longrightarrow> handed_over s = in_flight s"
  by (simp add: handed_over_def)

text \<open>A step that submits nothing.\<close>

lemma retains_unchanged: "retains sn ws s \<Longrightarrow> retains sn ws s' \<Longrightarrow> retains sn (ws @ submission s s') s'"
  by (simp add: retains_def submission_def)

lemma retains_same:
  assumes "retains sn ws s" "healthy s' \<Longrightarrow> healthy s" "ou_worker s' = ou_worker s" "ou_index s' = ou_index s"
    "healthy s' \<Longrightarrow> handed_over s' = handed_over s"
  shows "retains sn ws s'"
  using assms retainsD [OF assms(1)] by (intro retains_I [where w = "written_windows s"]) simp_all

lemma retains_submit:
  assumes "accounts s" "retains sn ws s" "ou_phase s = Recording"
    and win: "wf_session_id facts = sn_id sn" "wf_index facts = ou_index s" "ra_output args = sn_output sn"
  shows "retains sn (ws @ submission s (submit (plan_window args preflight facts) s))
    (submit (plan_window args preflight facts) s)"
proof -
  let ?w = "\<lambda>s :: output_state. if ou_pending s \<noteq> 0
      then shed_derived_outputs (ou_pending s) (plan_window args preflight facts) else plan_window args preflight facts"
  let ?f = "\<lambda>s. s\<lparr>ou_phase := Sending (Write_Window (?w s)), ou_index := ou_index s + 1\<rparr>"
  note inv = retainsD [OF assms(2)]
  show ?thesis unfolding submit_def
  proof (cases rule: or_drop_check [OF assms(1), where f = ?f])
    case (1 we)
    then have "retains sn ws (or_drop (check_completed s) ?f)" using inv(1,2) by (simp add: retains_def healthy_def)
    then show "retains sn (ws @ submission s (or_drop (check_completed s) ?f)) (or_drop (check_completed s) ?f)"
      by (rule retains_unchanged [OF assms(2)])
  next
    case 2
    then have "healthy s" using assms(3) by (simp add: healthy_def)
    then have kept: "retention sn ws (written_windows s) (ou_worker s) (in_flight s)"
      using inv(3) assms(3) by (simp add: handed_over_Recording)
    define sent where "sent = ?w (s\<lparr>ou_completions := [], ou_pending := length (in_flight s)\<rparr>)"
    have sub: "submitted_as sn (ou_index s) sent" using win unfolding submitted_as_def sent_def by auto
    define t where "t = or_drop (check_completed s) ?f"
    have t: "t = s\<lparr>ou_completions := [], ou_pending := length (in_flight s), ou_phase := Sending (Write_Window sent),
          ou_index := Suc (ou_index s)\<rparr>" unfolding t_def 2(2) sent_def by simp
    have "handed_over t = in_flight s @ [sent]" "submission s t = [sent]"
      by (simp_all add: t handed_over_def in_flight_def submission_def)
    moreover have "\<forall>i < length (ws @ [sent]). submitted_as sn i ((ws @ [sent]) ! i)"
      using inv(1,2) sub by (auto simp: nth_append less_Suc_eq)
    moreover have "retention sn (ws @ [sent]) (written_windows s) (ou_worker s) (in_flight s @ [sent])"
      using kept by (simp add: retention_def last_windows_def)
    ultimately show "retains sn (ws @ submission s (or_drop (check_completed s) ?f)) (or_drop (check_completed s) ?f)"
      unfolding t_def [symmetric] using inv(1)
      by (intro retains_I [where w = "written_windows s"]) (simp_all add: t)
  qed
qed

lemma retains_checked:
  assumes "accounts s" "retains sn ws s" "ou_phase s = Recording"
    and "\<And>t. ou_worker (f t) = ou_worker t \<and> ou_index (f t) = ou_index t \<and> in_flight (f t) = in_flight t"
    and "\<And>t. ou_phase t = Recording \<Longrightarrow> handed_over (f t) = in_flight t"
  shows "retains sn ws (or_drop (check_completed s) f)"
proof (cases rule: or_drop_check [OF assms(1), where f = f])
  case (1 we)
  then show ?thesis using retainsD [OF assms(2)] by (simp add: retains_def healthy_def)
next
  case 2
  then have "healthy s" using assms(3) by (simp add: healthy_def)
  then have "retention sn ws (written_windows s) (ou_worker s) (in_flight s)"
    using retainsD(3) [OF assms(2)] assms(3) by (simp add: handed_over_Recording)
  then show ?thesis
    unfolding 2(2) using assms(3,4,5) retainsD(1,2) [OF assms(2)]
    by (intro retains_I [where w = "written_windows s"]) (simp_all add: in_flight_def)
qed

lemma retains_finish_command:
  assumes "retains sn ws s" "ou_current s \<noteq> None"
  shows "retains sn ws (finish_command sn env s)"
proof (cases rule: finish_command_cases [OF assms(2), of sn env])
  case (1 sz)
  have "healthy (finish_command sn env s) = healthy s" using 1 by (simp add: healthy_def)
  moreover have "handed_over (finish_command sn env s) = handed_over s" by (simp add: 1 handed_over_def in_flight_def)
  ultimately show ?thesis
    using retainsD [OF assms(1)]
    by (intro retains_I [where w = "written_windows s"]) (simp_all add: 1 retention_def)
next
  case (2 win e wk)
  then show ?thesis using retainsD [OF assms(1)] by (simp add: retains_def healthy_def)
next
  case (3 win job wk jobs reports)
  have healthy: "healthy (finish_command sn env s) = healthy s" by (simp add: 3 healthy_def)
  have "handed_over s = win # handed_over (finish_command sn env s)"
    by (simp add: 3 handed_over_def in_flight_def split: phase.split)
  then show ?thesis
    using retainsD [OF assms(1)] retention_written [OF _ retainsD(2) [OF assms(1)] 3(2)] healthy
    by (intro retains_I [where w = "Suc (written_windows s)"]) (simp_all add: 3)
qed

lemma exporter_same:
  "ou_phase (take_job s) = ou_phase s" "ou_index (take_job s) = ou_index s" "ou_queue (take_job s) = ou_queue s"
  "ou_current (take_job s) = ou_current s" "ou_worker (take_job s) = ou_worker s"
  "ou_completions (take_job s) = ou_completions s"
  "ou_phase (finish_job o' s) = ou_phase s" "ou_index (finish_job o' s) = ou_index s"
  "ou_queue (finish_job o' s) = ou_queue s" "ou_current (finish_job o' s) = ou_current s"
  "ou_worker (finish_job o' s) = ou_worker s" "ou_completions (finish_job o' s) = ou_completions s"
  by (simp_all add: take_job_def finish_job_def persist_def split: list.split option.split)

lemma retains_exporter:
  "retains sn ws s \<Longrightarrow> retains sn ws (take_job s)" "retains sn ws s \<Longrightarrow> retains sn ws (finish_job o' s)"
  by (erule retains_same; simp add: healthy_def handed_over_def in_flight_def exporter_same)+

lemma retains_step:
  assumes "output_step sn s s'" "accounts s" "retains sn ws s"
  shows "retains sn (ws @ submission s s') s'"
  using assms(1)
proof (cases rule: output_step.cases)
  case (Submit facts args preflight)
  with assms show ?thesis by (simp add: retains_submit)
next
  case (Replace sz)
  show ?thesis unfolding Replace(1) replace_symbolizer_def
    by (rule retains_unchanged [OF assms(3)], rule retains_checked [OF assms(2,3) Replace(2)])
      (simp_all add: in_flight_def handed_over_def)
next
  case Poll
  show ?thesis unfolding Poll(1) poll_completed_def
    by (rule retains_unchanged [OF assms(3)], rule retains_checked [OF assms(2,3) Poll(2)])
      (simp_all add: handed_over_def)
next
  case (Send c)
  show ?thesis unfolding Send(1)
  proof (rule retains_unchanged [OF assms(3)], rule retains_same [OF assms(3)])
    show "healthy (send c s) \<Longrightarrow> healthy s" using Send(2) by (simp add: send_def healthy_def split: if_splits)
    show "handed_over (send c s) = handed_over s" if "healthy (send c s)"
      using that Send(2) by (auto simp: send_def healthy_def handed_over_def in_flight_def split: if_splits)
  qed (simp_all add: send_def)
next
  case Joined
  then obtain e where f: "s' = s\<lparr>ou_completions := [], ou_pending := 0, ou_phase := Dropping (Window_Failed e)\<rparr> \<or>
      s' = s\<lparr>ou_completions := [], ou_pending := 0, ou_phase := Flushing\<rparr> \<and> (\<forall>c \<in> set (ou_completions s). c = None)"
    using accounts_finish_writer(2) [OF assms(2)] by blast
  show ?thesis
    by (rule retains_unchanged [OF assms(3)], rule retains_same [OF assms(3)])
      (use f Joined in \<open>auto simp: healthy_def handed_over_def in_flight_def\<close>)
next
  case Take_Command
  show ?thesis
    by (rule retains_unchanged [OF assms(3)], rule retains_same [OF assms(3)])
      (use Take_Command in \<open>cases "ou_queue s"; auto simp: take_command_def healthy_def handed_over_def in_flight_def\<close>)+
next
  case (Finish_Command env)
  show ?thesis unfolding Finish_Command(1)
    by (rule retains_unchanged [OF assms(3)], rule retains_finish_command [OF assms(3) Finish_Command(2)])
next
  case Take_Job
  show ?thesis unfolding Take_Job(1) by (rule retains_unchanged [OF assms(3)], rule retains_exporter [OF assms(3)])
next
  case (Finish_Job o')
  show ?thesis unfolding Finish_Job(1) by (rule retains_unchanged [OF assms(3)], rule retains_exporter [OF assms(3)])
qed (rule retains_unchanged [OF assms(3)], rule retains_same [OF assms(3)],
  auto simp: healthy_def handed_over_def in_flight_def)+

lemma retains_start: "retains sn [] (start_writer sn sz files)"
  by (simp add: retains_def start_writer_def written_windows_def handed_over_def in_flight_def retention_def
      last_windows_def)

lemma run_retains: "output_run sn ws s \<Longrightarrow> retains sn ws s"
proof (induction rule: output_run.induct)
  case (Begin sz files)
  show ?case by (rule retains_start)
next
  case (Continue ws s s')
  then have "output_reachable sn s" using output_reachable_run by blast
  with Continue show ?case using retains_step reachable_accounts by blast
qed

section \<open>Shutting down\<close>

text \<open>Why a run did not end well: a window failed, or the collection did.\<close>

definition known_error :: "output_error \<Rightarrow> bool" where
  "known_error e \<longleftrightarrow> (\<exists>we. e = Window_Failed we) \<or> (\<exists>msg. e = Collection_Failed msg)"

definition phase_sound :: "output_state \<Rightarrow> bool" where
  "phase_sound s \<longleftrightarrow>
     (case ou_phase s of
        Recording \<Rightarrow> True | Sending _ \<Rightarrow> True | Finishing \<Rightarrow> True
      | Dropping e \<Rightarrow> known_error e
      | Flushing \<Rightarrow> \<not> ou_running s \<and> ou_pending s = 0
      | Cancelling e \<Rightarrow> \<not> ou_running s \<and> known_error e
      | Finished (Inl e) \<Rightarrow> \<not> ou_running s \<and> \<not> ou_exporter_running s \<and> known_error e
      | Finished (Inr _) \<Rightarrow> \<not> ou_running s \<and> \<not> ou_exporter_running s \<and> ou_pending s = 0)"

lemma check_sound:
  assumes "accounts s" "\<And>t. phase_sound (f t)"
  shows "phase_sound (or_drop (check_completed s) f)"
  by (rule or_drop_check [OF assms(1), where f = f]) (use assms(2) in \<open>auto simp: phase_sound_def known_error_def\<close>)

lemma finish_command_phase:
  "ou_phase (finish_command sn env s) = ou_phase s" "ou_running (finish_command sn env s) = ou_running s"
  "ou_exporter_running (finish_command sn env s) = ou_exporter_running s"
  "ou_pending (finish_command sn env s) = ou_pending s"
  by (simp_all add: finish_command_def submit_export_same Let_def split: option.split writer_command.split prod.split sum.split)

lemma phase_step:
  assumes "output_step sn s s'" "accounts s" "phase_sound s"
  shows "phase_sound s'"
  using assms(1)
proof (cases rule: output_step.cases)
  case (Submit facts args preflight)
  show ?thesis unfolding Submit(1) submit_def by (rule check_sound [OF assms(2)]) (simp add: phase_sound_def)
next
  case (Replace sz)
  show ?thesis unfolding Replace(1) replace_symbolizer_def by (rule check_sound [OF assms(2)]) (simp add: phase_sound_def)
next
  case Poll
  show ?thesis unfolding Poll(1) poll_completed_def
    by (rule or_drop_check [OF assms(2), where f = id])
      (use Poll(2) in \<open>auto simp: phase_sound_def known_error_def\<close>)
next
  case (Send c)
  moreover have "ou_running s" using assms(2) Send(2) by (auto simp: accounts_def channel_closed_def)
  ultimately show ?thesis by (simp add: send_def phase_sound_def)
next
  case Joined
  with accounts_finish_writer(2) [OF assms(2)] show ?thesis by (auto simp: phase_sound_def known_error_def)
next
  case Take_Command
  with assms(3) show ?thesis by (cases "ou_queue s") (auto simp: take_command_def phase_sound_def split: phase.splits sum.splits)
next
  case (Finish_Command env)
  with assms(3) show ?thesis by (simp add: phase_sound_def finish_command_phase split: phase.splits sum.splits)
next
  case Take_Job
  with assms(3) show ?thesis
    by (cases "ou_jobs s") (auto simp: take_job_def persist_def phase_sound_def split: phase.splits sum.splits)
next
  case (Finish_Job o')
  with assms(3) show ?thesis by (auto simp: finish_job_def persist_def phase_sound_def split: phase.splits sum.splits)
qed (use assms(3) in \<open>auto simp: phase_sound_def known_error_def split: phase.splits sum.splits\<close>)

lemma reachable_phase: "output_reachable sn s \<Longrightarrow> phase_sound s"
proof (induction rule: output_reachable.induct)
  case (Start sz files)
  show ?case by (simp add: phase_sound_def start_writer_def)
next
  case (Step s s')
  then show ?case using phase_step reachable_accounts by blast
qed

text \<open>What is left to do once the channel is closed.\<close>

definition phase_rank :: "phase \<Rightarrow> nat" where
  "phase_rank ph =
     (case ph of Recording \<Rightarrow> 4 | Sending _ \<Rightarrow> 4 | Finishing \<Rightarrow> 3 | Dropping _ \<Rightarrow> 2 | Flushing \<Rightarrow> 1
      | Cancelling _ \<Rightarrow> 1 | Finished _ \<Rightarrow> 0)"

definition work_left :: "output_state \<Rightarrow> nat" where
  "work_left s =
     phase_rank (ou_phase s) + 5 * length (ou_queue s) + (if ou_current s = None then 0 else 4) +
     (if ou_running s then 1 else 0) + 2 * length (ou_jobs s) + (if ou_exporting s = None then 0 else 1) +
     (if ou_exporter_running s then 1 else 0)"

lemma work_finish_command:
  assumes "ou_current s \<noteq> None"
  shows "work_left (finish_command sn env s) < work_left s"
  by (cases rule: finish_command_cases [OF assms, of sn env])
    (use assms in \<open>auto simp: work_left_def handed_def\<close>)

lemma closed_step:
  assumes "output_step sn s s'" "accounts s" "channel_closed s"
  shows "channel_closed s' \<and> work_left s' < work_left s"
  using assms(1)
proof (cases rule: output_step.cases)
  case (Submit facts args preflight)
  with assms(3) show ?thesis by (simp add: channel_closed_def)
next
  case (Replace sz)
  with assms(3) show ?thesis by (simp add: channel_closed_def)
next
  case Joined
  with accounts_finish_writer(2) [OF assms(2)] show ?thesis
    by (auto simp: channel_closed_def work_left_def phase_rank_def)
next
  case Take_Command
  with assms(3) show ?thesis
    by (cases "ou_queue s") (auto simp: take_command_def channel_closed_def work_left_def split: phase.splits)
next
  case (Finish_Command env)
  with assms(3) work_finish_command [of s sn env] show ?thesis by (simp add: channel_closed_def finish_command_phase)
next
  case Take_Job
  with assms(3) show ?thesis
    by (cases "ou_jobs s") (auto simp: take_job_def persist_def channel_closed_def work_left_def split: phase.splits)
next
  case (Finish_Job o')
  with assms(3) show ?thesis
    by (auto simp: finish_job_def persist_def channel_closed_def work_left_def split: phase.splits)
qed (use assms(3) in \<open>auto simp: channel_closed_def work_left_def phase_rank_def split: phase.splits\<close>)

lemma worker_step:
  assumes "ou_running s" "ou_queue s \<noteq> [] \<or> ou_current s \<noteq> None \<or> channel_closed s"
  shows "\<exists>s'. output_step sn s s'"
proof (cases "ou_current s = None")
  case False
  then show ?thesis using output_step.Finish_Command by blast
next
  case True
  with assms show ?thesis using output_step.Take_Command output_step.Worker_Exit by blast
qed

lemma exporter_step:
  assumes "ou_exporter_running s" "ou_phase s = Flushing \<or> (\<exists>e. ou_phase s = Cancelling e)"
  shows "\<exists>s'. output_step sn s s'"
proof (cases "ou_exporting s = None")
  case False
  then show ?thesis using output_step.Finish_Job by blast
next
  case True
  with assms show ?thesis using output_step.Take_Job output_step.Exporter_Exit by blast
qed

lemma never_stuck:
  assumes "accounts s" "\<And>r. ou_phase s \<noteq> Finished r"
  shows "\<exists>s'. output_step sn s s'"
proof (cases "ou_phase s")
  case Recording
  then show ?thesis using output_step.Finish by blast
next
  case (Sending c)
  show ?thesis
  proof (cases "can_send s")
    case True
    with Sending show ?thesis using output_step.Send by blast
  next
    case False
    then have "ou_running s" "ou_queue s \<noteq> []" by (auto simp: can_send_def)
    then show ?thesis by (simp add: worker_step)
  qed
next
  case Finishing
  show ?thesis
  proof (cases "ou_running s")
    case True
    then show ?thesis using worker_step Finishing by (simp add: channel_closed_def)
  next
    case False
    with Finishing show ?thesis using output_step.Joined by blast
  qed
next
  case (Dropping e)
  show ?thesis
  proof (cases "ou_running s")
    case True
    then show ?thesis using worker_step Dropping by (simp add: channel_closed_def)
  next
    case False
    with Dropping show ?thesis using output_step.Cancel by blast
  qed
next
  case Flushing
  show ?thesis
  proof (cases "ou_exporter_running s")
    case True
    with Flushing show ?thesis by (simp add: exporter_step)
  next
    case False
    with Flushing show ?thesis using output_step.Flushed by blast
  qed
next
  case (Cancelling e)
  show ?thesis
  proof (cases "ou_exporter_running s")
    case True
    with Cancelling show ?thesis by (simp add: exporter_step)
  next
    case False
    with Cancelling show ?thesis using output_step.Cancelled by blast
  qed
qed (use assms(2) in blast)

text \<open>C38: The pipeline is bounded and keeps its books: the pending counter is the number of windows in flight
  plus the completions not yet read and never exceeds three, at most one command waits for the writer
  and at most four jobs for the exporter, and every report on an export carries a final status.\<close>

theorem output_bounded:
  assumes "output_reachable sn s"
  shows "ou_pending s = length (in_flight s) + length (ou_completions s) \<and> ou_pending s \<le> 3 \<and>
    length (ou_queue s) \<le> 1 \<and> length (ou_jobs s) \<le> 4 \<and>
    (\<forall>report \<in> set (ou_reports s). final_status (fst report))"
  using reachable_accounts [OF assms] by (simp add: accounts_def exports_def)

text \<open>C39: As long as no window fails, the output directory holds complete windows in order. The windows submitted
  so far are planned under the indices 0, 1, ...; those not yet written are exactly the last ones; the retained
  windows are, in order, the last \<open>keep_windows\<close> of the written ones, each with its whole list of files as it was
  submitted, which is every profile, flame graph, Firefox and diagnostics file of that window; no two share a
  file, and all of these files are on disk.\<close>

theorem windows_retained:
  assumes "output_run sn ws s" "healthy s"
  shows "length ws = ou_index s \<and> (\<forall>i < length ws. submitted_as sn i (ws ! i)) \<and>
    written_windows s \<le> length ws \<and> handed_over s = drop (written_windows s) ws \<and>
    wk_retained (ou_worker s) = map window_files (last_windows (sn_keep sn) (written_windows s) ws) \<and>
    distinct (concat (wk_retained (ou_worker s))) \<and>
    (\<forall>win \<in> set (last_windows (sn_keep sn) (written_windows s) ws).
       set (window_files win) = window_paths win \<and> window_paths win \<subseteq> wk_files (ou_worker s))"
proof -
  note inv = retainsD [OF run_retains [OF assms(1)]]
  note ret = inv(3) [OF assms(2), unfolded retention_def]
  have "set (window_files win) = window_paths win \<and> window_paths win \<subseteq> wk_files (ou_worker s)"
    if win: "win \<in> set (last_windows (sn_keep sn) (written_windows s) ws)" for win
  proof -
    have "win \<in> set ws" using win unfolding last_windows_def by (metis in_set_dropD in_set_takeD)
    with inv(2) obtain i where "submitted_as sn i win" by (metis in_set_conv_nth)
    from submitted_files(1) [OF this] have "set (window_files win) = window_paths win"
      by (simp add: planned_def window_files_def)
    moreover have "set (window_files win) \<subseteq> wk_files (ou_worker s)" using ret win by simp
    ultimately show ?thesis by simp
  qed
  then show ?thesis
    using inv(1,2) ret last_windows_distinct [OF inv(2)] by (simp add: last_windows_def)
qed

text \<open>C40: The session never deadlocks, and once the recording thread has closed the channel every run ends:
  each step leaves less work, the channel stays closed, and the end finds the writer and the
  exporter idle with nothing queued. It is a success with no window pending, or an error that a
  failed window or the collection caused, never a lost writer.\<close>

theorem shutdown_completes:
  assumes "output_reachable sn s"
  shows "((\<forall>r. ou_phase s \<noteq> Finished r) \<longrightarrow> (\<exists>s'. output_step sn s s')) \<and>
    (channel_closed s \<longrightarrow> (\<forall>s'. output_step sn s s' \<longrightarrow> channel_closed s' \<and> work_left s' < work_left s)) \<and>
    (\<forall>r. ou_phase s = Finished r \<longrightarrow>
       ou_queue s = [] \<and> ou_current s = None \<and> ou_jobs s = [] \<and> ou_exporting s = None \<and>
       (case r of Inr _ \<Rightarrow> ou_pending s = 0 | Inl e \<Rightarrow> known_error e))"
proof (intro conjI allI impI)
  note acc = reachable_accounts [OF assms]
  show "\<exists>s'. output_step sn s s'" if "\<forall>r. ou_phase s \<noteq> Finished r"
    using never_stuck acc that by blast
  fix s' assume "channel_closed s" "output_step sn s s'"
  with closed_step acc show "channel_closed s'" "work_left s' < work_left s" by blast+
next
  fix r assume fin: "ou_phase s = Finished r"
  note acc = reachable_accounts [OF assms]
  have idle: "\<not> ou_running s \<and> \<not> ou_exporter_running s \<and> (case r of Inr _ \<Rightarrow> ou_pending s = 0 | Inl e \<Rightarrow> known_error e)"
    using reachable_phase [OF assms] fin by (auto simp: phase_sound_def split: sum.splits)
  with acc show "ou_queue s = []" "ou_current s = None" "ou_jobs s = []" "ou_exporting s = None"
    "case r of Inr _ \<Rightarrow> ou_pending s = 0 | Inl e \<Rightarrow> known_error e"
    by (simp_all add: accounts_def exports_def)
qed

section \<open>Examples\<close>

definition small_session :: session where
  "small_session = \<lparr>sn_id = ''s'', sn_output = ''out'', sn_keep = 2, sn_config = None\<rparr>"

definition small_start :: output_state where
  "small_start = start_writer small_session small_symbolizer {''other''}"

lemma small_submit: "output_step small_session small_start (submit (small_window 0) small_start)"
  unfolding small_window_def
  by (rule output_step.Submit) (simp_all add: small_start_def start_writer_def small_facts_def small_session_def small_args_def)

lemma small_submitted:
  "submit (small_window 0) small_start = small_start\<lparr>ou_phase := Sending (Write_Window (small_window 0)), ou_index := 1\<rparr>"
  by (simp add: submit_def or_drop_def check_completed_def small_start_def start_writer_def)

theorem output_bounded_witness: "ou_pending (submit (small_window 0) small_start) \<le> 3"
proof -
  have "output_reachable small_session (submit (small_window 0) small_start)"
    using output_reachable.Step [OF output_reachable.Start small_submit [unfolded small_start_def]]
    by (simp add: small_start_def)
  from output_bounded [OF this] show ?thesis by blast
qed

text \<open>A window is submitted, sent, taken and written.\<close>

definition good_env :: output_env where
  "good_env = small_env\<lparr>ov_publish := (\<lambda>_. Published)\<rparr>"

lemma small_parts:
  "wo_heap (small_window index) = None" "wo_off_cpu (small_window index) = None" "wo_firefox (small_window index) = None"
  "\<exists>path svg samples frequency raw. wo_cpu (small_window index) = Some (path, svg, samples, frequency, raw)"
  by (simp_all add: small_window_def plan_window_def plan_files_def small_args_def small_facts_def wants_cpu_def Let_def)
    (rule exI [of _ True], simp)

lemma good_write:
  assumes "wk_retained wk = []"
  shows "\<exists>job wk'. write_window good_env 2 None (small_window index) wk = (Inr job, wk')"
proof -
  have publish: "publish good_env p wk = (Inr (), wk\<lparr>wk_files := insert p (wk_files wk)\<rparr>)" for p wk
    by (simp add: publish_def good_env_def)
  obtain path svg samples frequency raw where
    cpu: "wo_cpu (small_window index) = Some (path, svg, samples, frequency, raw)"
    using small_parts(4) by blast
  show ?thesis
    by (cases svg; cases raw)
      (simp_all add: write_window_def write_inner_def write_cpu_def cpu small_parts write_heap_def write_off_cpu_def
        build_timeline_def write_firefox_def encode_part_def count_jit_def publish publish_optional_def Let_def
        keep_symbolizer_def assms split: option.split)
qed

theorem windows_retained_witness:
  "\<exists>s. output_run small_session [small_window 0] s \<and> written_windows s = 1 \<and>
     wk_retained (ou_worker s) = [window_files (small_window 0)] \<and> length (window_files (small_window 0)) = 3 \<and>
     window_paths (small_window 0) \<subseteq> wk_files (ou_worker s)"
proof -
  let ?s1 = "submit (small_window 0) small_start"
  let ?s2 = "send (Write_Window (small_window 0)) ?s1"
  let ?s3 = "take_command ?s2"
  let ?s4 = "finish_command small_session good_env ?s3"
  have s2: "?s2 = small_start\<lparr>ou_phase := Recording, ou_index := 1, ou_queue := [Write_Window (small_window 0)],
      ou_pending := 1\<rparr>"
    unfolding small_submitted by (simp add: send_def small_start_def start_writer_def is_window_def)
  have s3: "?s3 = small_start\<lparr>ou_phase := Recording, ou_index := 1, ou_current := Some (Write_Window (small_window 0)),
      ou_pending := 1\<rparr>"
    unfolding s2 by (simp add: take_command_def small_start_def start_writer_def)
  obtain job wk where w: "write_window good_env 2 None (small_window 0) (ou_worker small_start) = (Inr job, wk)"
    using good_write [of "ou_worker small_start" 0] by (auto simp: small_start_def start_writer_def)
  have s4: "?s4 = small_start\<lparr>ou_phase := Recording, ou_index := 1, ou_pending := 1, ou_worker := wk,
      ou_current := None, ou_completions := [None]\<rparr>"
  proof -
    have "ou_completions small_start = []" by (simp add: small_start_def start_writer_def)
    then show ?thesis
      unfolding s3 using w by (cases job) (simp_all add: finish_command_def small_session_def Let_def)
  qed
  have "ou_index ?s1 = 1" unfolding small_submitted by simp
  moreover have "ou_index ?s2 = 1" unfolding s2 by simp
  moreover have "ou_index ?s3 = 1" unfolding s3 by simp
  moreover have "ou_index ?s4 = 1" unfolding s4 by simp
  ultimately have none: "submission ?s1 ?s2 = []" "submission ?s2 ?s3 = []" "submission ?s3 ?s4 = []"
    by (simp_all add: submission_def)
  have "output_run small_session [] small_start" unfolding small_start_def by (rule output_run.Begin)
  from output_run.Continue [OF this small_submit]
  have r1: "output_run small_session [small_window 0] ?s1"
    unfolding small_submitted by (simp add: submission_def small_start_def start_writer_def)
  have "output_step small_session ?s1 ?s2"
    unfolding small_submitted by (rule output_step.Send) (simp_all add: can_send_def small_start_def start_writer_def)
  from output_run.Continue [OF r1 this] have r2: "output_run small_session [small_window 0] ?s2"
    by (simp add: none)
  have "output_step small_session ?s2 ?s3"
    unfolding s2 by (rule output_step.Take_Command) (simp_all add: small_start_def start_writer_def)
  from output_run.Continue [OF r2 this] have r3: "output_run small_session [small_window 0] ?s3"
    by (simp add: none)
  have "output_step small_session ?s3 ?s4"
    unfolding s3 by (rule output_step.Finish_Command) simp
  from output_run.Continue [OF r3 this] have r4: "output_run small_session [small_window 0] ?s4"
    by (simp add: none)
  have h: "healthy ?s4" unfolding s4 by (simp add: healthy_def)
  have "written_windows ?s4 = 1"
    unfolding s4 by (simp add: written_windows_def handed_over_def in_flight_def small_start_def start_writer_def)
  moreover have "sn_keep small_session = 2" by (simp add: small_session_def)
  moreover note windows_retained [OF r4 h]
  moreover have "length (window_files (small_window 0)) = 3"
    by (simp add: window_files_def small_window_outputs Let_def)
  ultimately show ?thesis using r4 by (intro exI [of _ ?s4]) (simp add: last_windows_def)
qed

theorem shutdown_completes_witness: "\<exists>s'. output_step small_session (submit (small_window 0) small_start) s'"
proof -
  have r: "output_reachable small_session (submit (small_window 0) small_start)"
    using output_reachable.Step [OF output_reachable.Start small_submit [unfolded small_start_def]]
    by (simp add: small_start_def)
  have "\<forall>r. ou_phase (submit (small_window 0) small_start) \<noteq> Finished r" unfolding small_submitted by simp
  with shutdown_completes [OF r] show ?thesis by blast
qed

end
