(* ===== verification/Heap_Collector.thy ===== *)
theory Heap_Collector
  imports Heap_State Cpu_Window Diagnostics
begin

text \<open>
  The heap collector (\<open>src/src/platform/linux/heap.rs\<close>): raw events of the BPF programs are parsed, a
  stack event is unwound, checked and kept under its token until the allocation event with that token
  arrives, and allocations and frees are applied to the heap state.

  The ring buffer delivers events to a callback with a bounded queue. Parameters: the contents of the
  kernel's maps (statistics, live pointers, pending calls) when they are read, and the DWARF unwinder
  of the process. The pool of recycled buffers has no effect on what is collected.
\<close>

section \<open>State\<close>

definition heap_header_size :: nat where "heap_header_size = 88"
definition heap_stat_count :: nat where "heap_stat_count = 8"
definition heap_queue_capacity :: nat where "heap_queue_capacity = 4096"
definition max_pending_stacks :: nat where "max_pending_stacks = 65536"

definition event_stack :: u32 where "event_stack = 1"
definition event_alloc :: u32 where "event_alloc = 2"
definition event_free :: u32 where "event_free = 3"

text \<open>\<open>KernelStats\<close>: the counters in the order of their indices.\<close>

type_synonym heap_stats = "u64 list"

definition stats_default :: heap_stats where
  "stats_default = replicate heap_stat_count 0"

definition stats_delta :: "heap_stats \<Rightarrow> heap_stats \<Rightarrow> heap_stats" where
  "stats_delta current earlier = map (\<lambda>i. sat_sub (current ! i) (earlier ! i)) [0..<heap_stat_count]"

record heap_collector =
  hc_queue :: "u8 list list"
  hc_userspace_drops :: u64
  hc_pending_stacks :: "(u64, u64 list) table"
  hc_state :: heap_state
  hc_dwarf :: "process_unwinder option"
  hc_allow_partial :: bool
  hc_allocator :: string
  hc_previous_stats :: heap_stats
  hc_stack_failures :: u64
  hc_stack_samples :: u64
  hc_usable_stacks :: u64
  hc_depth_sum :: u64
  hc_fatal_unwind_error :: "unwind_error option"
  hc_executable_ranges :: "addr_range list"
  hc_seen_addresses :: "u64 list"

text \<open>\<open>attach\<close>, once the probes are in place.\<close>

definition new_heap_collector ::
  "nat \<Rightarrow> process_unwinder option \<Rightarrow> bool \<Rightarrow> string \<Rightarrow> heap_stats \<Rightarrow> map_entry list \<Rightarrow> heap_collector" where
  "new_heap_collector max_stacks dwarf allow_partial family stats maps =
     \<lparr>hc_queue = [], hc_userspace_drops = 0, hc_pending_stacks = [], hc_state = with_max_stacks max_stacks,
      hc_dwarf = dwarf, hc_allow_partial = allow_partial, hc_allocator = family, hc_previous_stats = stats,
      hc_stack_failures = 0, hc_stack_samples = 0, hc_usable_stacks = 0, hc_depth_sum = 0,
      hc_fatal_unwind_error = None, hc_executable_ranges = from_maps maps, hc_seen_addresses = []\<rparr>"

text \<open>The callback of the ring buffer: a full queue drops the event and counts it.\<close>

definition queue_event :: "u8 list \<Rightarrow> heap_collector \<Rightarrow> heap_collector" where
  "queue_event bs c =
     (if length (hc_queue c) < heap_queue_capacity then c\<lparr>hc_queue := hc_queue c @ [bs]\<rparr>
      else c\<lparr>hc_userspace_drops := hc_userspace_drops c + 1\<rparr>)"

section \<open>Reading an event\<close>

record heap_header =
  hh_kind :: u32
  hh_unwind_mode :: u32
  hh_token :: u64
  hh_pointer :: u64
  hh_size :: u64
  hh_weight :: u64
  hh_ip :: u64
  hh_sp :: u64
  hh_fp :: u64
  hh_lr :: u64
  hh_stack_length :: i32

definition word_at :: "u8 list \<Rightarrow> nat \<Rightarrow> nat \<Rightarrow> 'a::len word option" where
  "word_at bs off n = map_option word_of_bytes (slice bs off (off + n))"

text \<open>All reads are inside a header that was length checked.\<close>

definition parse_heap_header :: "u8 list \<Rightarrow> heap_header option" where
  "parse_heap_header bs =
     (if length bs < heap_header_size then None
      else Some \<lparr>hh_kind = the (word_at bs 0 4), hh_unwind_mode = the (word_at bs 4 4),
                 hh_token = the (word_at bs 16 8), hh_pointer = the (word_at bs 24 8),
                 hh_size = the (word_at bs 32 8), hh_weight = the (word_at bs 40 8),
                 hh_ip = the (word_at bs 48 8), hh_sp = the (word_at bs 56 8),
                 hh_fp = the (word_at bs 64 8), hh_lr = the (word_at bs 72 8),
                 hh_stack_length = the (word_at bs 80 4)\<rparr>)"

definition captured_bytes :: "heap_header \<Rightarrow> nat \<Rightarrow> u8 list \<Rightarrow> u8 list" where
  "captured_bytes h limit bs =
     take (min (nat (max (sint (hh_stack_length h)) 0)) limit) (drop heap_header_size bs)"

text \<open>\<open>chunks_exact(8)\<close>: a shorter rest is left out.\<close>

fun address_chunks :: "u8 list \<Rightarrow> u64 list" where
  "address_chunks (a # b # c # d # e # f # g # h # rest) =
     word_of_bytes [a, b, c, d, e, f, g, h] # address_chunks rest"
| "address_chunks _ = []"

definition plausible_address :: "u64 \<Rightarrow> bool" where
  "plausible_address a \<longleftrightarrow> a \<noteq> 0 \<and> a < 0xFFFFFFFFFFFFF000"

definition parse_fp_stack :: "u8 list \<Rightarrow> heap_header \<Rightarrow> u64 list" where
  "parse_fp_stack bs h =
     (let fs = filter plausible_address (address_chunks (captured_bytes h (default_max_frames * 8) bs));
          with_ip = (if hh_ip h \<noteq> 0 \<and> (fs = [] \<or> hd fs \<noteq> hh_ip h) then hh_ip h # fs else fs)
      in take default_max_frames with_ip)"

text \<open>A fatal outcome is remembered; \<open>drain\<close> reports it.\<close>

definition unwind_heap_stack :: "u8 list \<Rightarrow> heap_header \<Rightarrow> heap_collector \<Rightarrow> u64 list \<times> heap_collector" where
  "unwind_heap_stack bs h c =
     (case hc_dwarf c of
        None \<Rightarrow> (if hc_allow_partial c then [hh_ip h] else [], c)
      | Some run \<Rightarrow>
          (let o' = run \<lparr>rr_ip = hh_ip h, rr_sp = hh_sp h, rr_fp = hh_fp h, rr_lr = hh_lr h\<rparr>
                      (captured_bytes h (length bs) bs);
               leaf_only = (length (uo_frames o') = 1 \<and> uo_error o' \<noteq> None)
           in if uo_fatal o' then ([], c\<lparr>hc_fatal_unwind_error := uo_error o'\<rparr>)
              else if (uo_frames o' = [] \<or> leaf_only) \<and> hc_allow_partial c \<and> hh_ip h \<noteq> 0 then ([hh_ip h], c)
              else if leaf_only then ([], c)
              else (uo_frames o', c)))"

section \<open>Applying an event\<close>

definition count_failures :: "u64 \<Rightarrow> heap_collector \<Rightarrow> heap_collector" where
  "count_failures n c = c\<lparr>hc_stack_failures := hc_stack_failures c + n\<rparr>"

text \<open>When too many stacks are pending, those with a token below the median are given up.\<close>

definition median_token :: "(u64, u64 list) table \<Rightarrow> u64" where
  "median_token pending = sort (map fst pending) ! (length pending div 2)"

definition evict_stacks :: "heap_collector \<Rightarrow> heap_collector" where
  "evict_stacks c =
     (let pending = hc_pending_stacks c;
          cutoff = median_token pending;
          kept = tab_retain (\<lambda>token. cutoff \<le> token) pending
      in if length pending \<le> max_pending_stacks then c
         else c\<lparr>hc_pending_stacks := kept,
                hc_stack_failures := sat_add (hc_stack_failures c) (word_of_nat (length pending - length kept))\<rparr>)"

definition keep_stack :: "u64 \<Rightarrow> u64 list \<Rightarrow> heap_collector \<Rightarrow> heap_collector" where
  "keep_stack token fs c =
     evict_stacks (c\<lparr>hc_usable_stacks := hc_usable_stacks c + 1,
        hc_depth_sum := sat_add (hc_depth_sum c) (word_of_nat (length fs)),
        hc_pending_stacks := AList.update token fs (hc_pending_stacks c)\<rparr>)"

definition apply_stack_event :: "u8 list \<Rightarrow> heap_header \<Rightarrow> heap_collector \<Rightarrow> heap_collector" where
  "apply_stack_event bs h c0 =
     (let c1 = c0\<lparr>hc_stack_samples := hc_stack_samples c0 + 1\<rparr>;
          (fs, c2) = (if hh_unwind_mode h = 1 then (parse_fp_stack bs h, c1) else unwind_heap_stack bs h c1);
          (cyclic, seen) = has_address_cycle fs (hc_seen_addresses c2);
          c3 = c2\<lparr>hc_seen_addresses := seen\<rparr>;
          invalid = (\<exists>a \<in> set fs. \<not> contains (hc_executable_ranges c3) a)
      in if fs = [] \<or> cyclic \<or> invalid then count_failures 1 c3 else keep_stack (hh_token h) fs c3)"

definition apply_alloc_event :: "heap_header \<Rightarrow> heap_collector \<Rightarrow> heap_collector" where
  "apply_alloc_event h c =
     (case map_of (hc_pending_stacks c) (hh_token h) of
        None \<Rightarrow> count_failures 1 c
      | Some fs \<Rightarrow>
          c\<lparr>hc_pending_stacks := AList.delete (hh_token h) (hc_pending_stacks c),
            hc_state := heap_apply \<lparr>he_kind = Alloc, he_pointer = hh_pointer h, he_size = hh_size h,
              he_weight = hh_weight h, he_frames = fs\<rparr> (hc_state c)\<rparr>)"

definition apply_free_event :: "heap_header \<Rightarrow> heap_collector \<Rightarrow> heap_collector" where
  "apply_free_event h c =
     c\<lparr>hc_state := heap_apply \<lparr>he_kind = Free, he_pointer = hh_pointer h, he_size = 0, he_weight = 0,
         he_frames = []\<rparr> (hc_state c)\<rparr>"

definition apply_raw_event :: "u8 list \<Rightarrow> heap_collector \<Rightarrow> heap_collector" where
  "apply_raw_event bs c =
     (case parse_heap_header bs of
        None \<Rightarrow> count_failures 1 c
      | Some h \<Rightarrow>
          if hh_kind h = event_stack then apply_stack_event bs h c
          else if hh_kind h = event_alloc then apply_alloc_event h c
          else if hh_kind h = event_free then apply_free_event h c
          else c)"

section \<open>Windows\<close>

text \<open>Consuming the ring runs the callback for what it holds and can fail, which leaves the queue as it is; the
  events that the callback got are \<open>queue_event\<close>s before. All queued events are applied before a fatal unwind
  error is reported.\<close>

datatype heap_error = Consume_Failed string | Normalization_Failed unwind_error | Stats_Unavailable string

definition drain_heap :: "string option \<Rightarrow> heap_collector \<Rightarrow> (heap_error + unit) \<times> heap_collector" where
  "drain_heap failure c =
     (case failure of
        Some e \<Rightarrow> (Inl (Consume_Failed e), c)
      | None \<Rightarrow>
          (let c1 = fold apply_raw_event (hc_queue c) (c\<lparr>hc_queue := []\<rparr>)
           in case hc_fatal_unwind_error c1 of
                Some e \<Rightarrow> (Inl (Normalization_Failed e), c1\<lparr>hc_fatal_unwind_error := None\<rparr>)
              | None \<Rightarrow> (Inr (), c1)))"

text \<open>What the kernel's maps hold at the end of a window; reading the statistics (\<open>read_kernel_stats\<close>) can fail.\<close>

record heap_maps =
  hm_stats :: "string + heap_stats"
  hm_live :: "u64 list"
  hm_pending :: nat

definition snapshot_diagnostics ::
  "heap_stats \<Rightarrow> nat \<Rightarrow> heap_aggregation_drops \<Rightarrow> heap_state \<Rightarrow> heap_collector \<Rightarrow> heap_diagnostics" where
  "snapshot_diagnostics delta unfinished drops st c =
     \<lparr>hd_allocator = Some (hc_allocator c), hd_allocation_events = delta ! 4,
      hd_sampled_allocations = delta ! 5, hd_sampled_frees = delta ! 6,
      hd_alloc_objects = 0, hd_alloc_space = 0, hd_inuse_objects = 0, hd_inuse_space = 0,
      hd_dropped_alloc_objects = heap_aggregation_drops.hd_alloc_objects drops,
      hd_dropped_alloc_space = heap_aggregation_drops.hd_alloc_space drops,
      hd_dropped_inuse_objects = heap_aggregation_drops.hd_inuse_objects drops,
      hd_dropped_inuse_space = heap_aggregation_drops.hd_inuse_space drops,
      hd_live_samples = word_of_nat (live_sample_count st),
      hd_ring_buffer_drops = sat_add (delta ! 0) (hc_userspace_drops c),
      hd_map_evictions = delta ! 7, hd_map_update_failures = delta ! 2, hd_pending_overwrites = delta ! 1,
      hd_unfinished_returns = word_of_nat unfinished,
      hd_stack_samples = hc_stack_samples c, hd_usable_stacks = hc_usable_stacks c,
      hd_stack_failures = max (delta ! 3) (hc_stack_failures c),
      hd_average_depth = (if hc_usable_stacks c = 0 then None else Some (hc_depth_sum c, hc_usable_stacks c)),
      hd_symbolized_locations = 0, hd_total_locations = 0, hd_since_attach = True\<rparr>"

definition snapshot_heap_window ::
  "string option \<Rightarrow> heap_maps \<Rightarrow> heap_collector \<Rightarrow>
   (heap_error + (stack, heap_values) table \<times> heap_diagnostics) \<times> heap_collector" where
  "snapshot_heap_window failure maps c =
     (case drain_heap failure c of
        (Inl e, c1) \<Rightarrow> (Inl e, c1)
      | (Inr _, c1) \<Rightarrow> (case hm_stats maps of Inl e \<Rightarrow> (Inl (Stats_Unavailable e), c1) | Inr current \<Rightarrow>
          (let delta = stats_delta current (hc_previous_stats c1);
               st1 = (if delta ! 7 \<noteq> 0 \<or> delta ! 0 \<noteq> 0
                      then retain_live_pointers (\<lambda>p. p \<in> set (hm_live maps)) (hc_state c1) else hc_state c1);
               ((profile, drops), st2) = snapshot_window_with_drops st1;
               diagnostics = snapshot_diagnostics delta (hm_pending maps) drops st2 c1
           in (Inr (profile, diagnostics),
               c1\<lparr>hc_previous_stats := current, hc_state := st2, hc_userspace_drops := 0,
                  hc_stack_samples := 0, hc_usable_stacks := 0, hc_depth_sum := 0,
                  hc_stack_failures := 0\<rparr>))))"

definition clear_for_exec :: "heap_collector \<Rightarrow> heap_collector" where
  "clear_for_exec c = c\<lparr>hc_pending_stacks := [], hc_state := clear_live (hc_state c)\<rparr>"

text \<open>\<open>None\<close> for an unwinder that could not be built: the error is returned after the ranges were set.\<close>

definition refresh_heap_unwinder ::
  "process_unwinder option \<Rightarrow> map_entry list \<Rightarrow> heap_collector \<Rightarrow> bool \<times> heap_collector" where
  "refresh_heap_unwinder rebuilt maps c =
     (let c1 = c\<lparr>hc_executable_ranges := from_maps maps\<rparr>
      in if hc_dwarf c1 = None then (True, c1)
         else case rebuilt of None \<Rightarrow> (False, c1) | Some run \<Rightarrow> (True, c1\<lparr>hc_dwarf := Some run\<rparr>))"

text \<open>\<open>read_kernel_stats\<close>: the values of each counter on all processors, where the map has the index. The map
  may be missing, and the first lookup that fails ends the reading.\<close>

definition counter_total :: "u8 list list \<Rightarrow> u64" where
  "counter_total per_cpu =
     foldl (\<lambda>total value. if length value < 8 then total
                         else sat_add total (word_of_bytes (take 8 value))) 0 per_cpu"

fun read_counters :: "(nat \<Rightarrow> string + u8 list list option) \<Rightarrow> nat list \<Rightarrow> string + heap_stats" where
  "read_counters lookup [] = Inr []"
| "read_counters lookup (i # is) =
     (case lookup i of
        Inl e \<Rightarrow> Inl e
      | Inr found \<Rightarrow>
          map_sum id (\<lambda>rest. (case found of None \<Rightarrow> 0 | Some per_cpu \<Rightarrow> counter_total per_cpu) # rest)
            (read_counters lookup is))"

definition read_kernel_stats :: "(nat \<Rightarrow> string + u8 list list option) option \<Rightarrow> string + heap_stats" where
  "read_kernel_stats stats_map =
     (case stats_map of
        None \<Rightarrow> Inl ''heap BPF stats map is missing''
      | Some lookup \<Rightarrow> read_counters lookup [0..<heap_stat_count])"

definition live_kernel_pointers :: "u8 list list \<Rightarrow> u64 list" where
  "live_kernel_pointers keys = List.map_filter (\<lambda>key. word_at key 0 8) keys"

section \<open>Probes\<close>

type_synonym probe = "string \<times> string \<times> bool"

definition required_probes :: "string \<Rightarrow> probe list option" where
  "required_probes family =
     (if family = ''rust'' then Some
        [(''rust_alloc_enter'', ''__rust_alloc'', False), (''rust_alloc_exit'', ''__rust_alloc'', True),
         (''rust_alloc_zeroed_enter'', ''__rust_alloc_zeroed'', False),
         (''rust_alloc_zeroed_exit'', ''__rust_alloc_zeroed'', True),
         (''rust_realloc_enter'', ''__rust_realloc'', False), (''rust_realloc_exit'', ''__rust_realloc'', True),
         (''rust_dealloc_enter'', ''__rust_dealloc'', False)]
      else if family = ''system'' then Some
        [(''system_malloc_enter'', ''malloc'', False), (''system_malloc_exit'', ''malloc'', True),
         (''system_calloc_enter'', ''calloc'', False), (''system_calloc_exit'', ''calloc'', True),
         (''system_realloc_enter'', ''realloc'', False), (''system_realloc_exit'', ''realloc'', True),
         (''system_free_enter'', ''free'', False)]
      else None)"

text \<open>The first definition of a name counts; a symbol outside every segment has no offset.\<close>

record elf_symbol =
  el_is_text :: bool
  el_address :: u64
  el_name :: "string option"

record elf_segment =
  eg_address :: u64
  eg_size :: u64
  eg_file_offset :: u64

fun segment_offset :: "elf_segment list \<Rightarrow> u64 \<Rightarrow> u64 option" where
  "segment_offset [] a = None"
| "segment_offset (g # gs) a =
     (if eg_address g \<le> a \<and> a < sat_add (eg_address g) (eg_size g)
      then Some (sat_add (eg_file_offset g) (a - eg_address g)) else segment_offset gs a)"

definition add_symbol_offset :: "elf_segment list \<Rightarrow> elf_symbol \<Rightarrow> (string, u64) table \<Rightarrow> (string, u64) table" where
  "add_symbol_offset segments s m =
     (if \<not> el_is_text s \<or> el_address s = 0 then m
      else case (el_name s, segment_offset segments (el_address s)) of
             (Some name, Some off) \<Rightarrow> (if map_of m name = None then AList.update name off m else m)
           | _ \<Rightarrow> m)"

definition symbol_offsets :: "elf_segment list \<Rightarrow> elf_symbol list \<Rightarrow> (string, u64) table" where
  "symbol_offsets segments symbols = fold (add_symbol_offset segments) symbols []"

datatype attach_error = Unsupported_Family string | No_File_Offset string | Attach_Failed string string

definition aligned_probes :: "probe list" where
  "aligned_probes =
     [(''system_aligned_alloc_enter'', ''aligned_alloc'', False),
      (''system_aligned_alloc_exit'', ''aligned_alloc'', True),
      (''system_posix_memalign_enter'', ''posix_memalign'', False),
      (''system_posix_memalign_exit'', ''posix_memalign'', True)]"

text \<open>Attaching is a parameter; the first failure ends it.\<close>

fun attach_each :: "(string \<Rightarrow> u64 \<Rightarrow> bool \<Rightarrow> bool) \<Rightarrow> (string, u64) table \<Rightarrow> probe list \<Rightarrow> attach_error + probe list" where
  "attach_each attach offsets [] = Inr []"
| "attach_each attach offsets ((program, symbol, ret) # ps) =
     (case map_of offsets symbol of
        None \<Rightarrow> Inl (No_File_Offset symbol)
      | Some off \<Rightarrow>
          if \<not> attach program off ret then Inl (Attach_Failed program symbol)
          else (case attach_each attach offsets ps of
                  Inl e \<Rightarrow> Inl e | Inr links \<Rightarrow> Inr ((program, symbol, ret) # links)))"

definition attach_allocator_programs ::
  "(string \<Rightarrow> u64 \<Rightarrow> bool \<Rightarrow> bool) \<Rightarrow> string \<Rightarrow> (string, u64) table \<Rightarrow> attach_error + probe list" where
  "attach_allocator_programs attach family offsets =
     (case required_probes family of
        None \<Rightarrow> Inl (Unsupported_Family family)
      | Some required \<Rightarrow>
          attach_each attach offsets
            (required @ (if family = ''system''
                         then filter (\<lambda>(_, symbol, _). map_of offsets symbol \<noteq> None) aligned_probes else [])))"

section \<open>Attaching\<close>

text \<open>The process, its module's symbols and the kernel as the collector finds them; opening the file of a
  mapping under \<open>map_files\<close> can be denied.\<close>

record heap_env =
  hv_maps :: "map_entry list option"
  hv_map_file :: "map_entry \<Rightarrow> string option"
  hv_root_path :: "string \<Rightarrow> string"
  hv_symbols :: "string \<Rightarrow> (elf_segment list \<times> elf_symbol list) option"
  hv_load :: "u64 \<Rightarrow> unwind_mode \<Rightarrow> bool"
  hv_attach :: "string \<Rightarrow> string \<Rightarrow> u64 \<Rightarrow> bool \<Rightarrow> bool"
  hv_unwinder :: "process_unwinder option"
  hv_stats :: "heap_stats option"

datatype heap_attach_error =
  No_Family | No_Module | No_Maps | No_Symbols string | Probe_Error attach_error | Load_Failed
| No_Unwinder | No_Statistics

definition mapped_module_path :: "heap_env \<Rightarrow> string \<Rightarrow> map_entry option \<Rightarrow> string" where
  "mapped_module_path env path mapping =
     (case mapping of
        None \<Rightarrow> hv_root_path env path
      | Some m \<Rightarrow> (case hv_map_file env m of Some f \<Rightarrow> f | None \<Rightarrow> hv_root_path env path))"

text \<open>The part that checking and attaching share: family, maps, file and offsets of its symbols.\<close>

definition heap_target ::
  "heap_env \<Rightarrow> allocator_report \<Rightarrow> heap_attach_error + string \<times> map_entry list \<times> string \<times> (string, u64) table" where
  "heap_target env report =
     (case ar_detected report of None \<Rightarrow> Inl No_Family | Some family \<Rightarrow>
      case ar_module report of None \<Rightarrow> Inl No_Module | Some path \<Rightarrow>
      case hv_maps env of None \<Rightarrow> Inl No_Maps | Some maps \<Rightarrow>
        (let opened = mapped_module_path env path (List.find (\<lambda>m. me_path m = Some path) maps)
         in case hv_symbols env opened of
              None \<Rightarrow> Inl (No_Symbols opened)
            | Some (segments, symbols) \<Rightarrow> Inr (family, maps, opened, symbol_offsets segments symbols)))"

definition probe_load :: "heap_env \<Rightarrow> allocator_report \<Rightarrow> heap_attach_error + unit" where
  "probe_load env report =
     (case heap_target env report of
        Inl e \<Rightarrow> Inl e
      | Inr (family, _, _, offsets) \<Rightarrow>
          (case required_probes family of
             None \<Rightarrow> Inl (Probe_Error (Unsupported_Family family))
           | Some required \<Rightarrow>
               (case List.find (\<lambda>(_, symbol, _). map_of offsets symbol = None) required of
                  Some (_, symbol, _) \<Rightarrow> Inl (Probe_Error (No_File_Offset symbol))
                | None \<Rightarrow> if hv_load env (512 * 1024) Unwind_Fp then Inr () else Inl Load_Failed)))"

definition attach_heap ::
  "heap_env \<Rightarrow> allocator_report \<Rightarrow> u64 \<Rightarrow> unwind_mode \<Rightarrow> bool \<Rightarrow> nat \<Rightarrow> heap_attach_error + heap_collector" where
  "attach_heap env report interval mode allow_partial max_stacks =
     (case heap_target env report of
        Inl e \<Rightarrow> Inl e
      | Inr (family, maps, path, offsets) \<Rightarrow>
          if \<not> hv_load env interval mode then Inl Load_Failed
          else case attach_allocator_programs (hv_attach env path) family offsets of
            Inl e \<Rightarrow> Inl (Probe_Error e)
          | Inr _ \<Rightarrow>
              if mode = Unwind_Dwarf \<and> hv_unwinder env = None then Inl No_Unwinder
              else (case hv_stats env of
                      None \<Rightarrow> Inl No_Statistics
                    | Some stats \<Rightarrow>
                        Inr (new_heap_collector max_stacks
                          (if mode = Unwind_Dwarf then hv_unwinder env else None) allow_partial family stats maps)))"

text \<open>A target that passes the check can be attached.\<close>

lemma attach_each_all:
  assumes "\<forall>(program, symbol, ret) \<in> set ps. map_of offsets symbol \<noteq> None"
    "\<And>program off ret. attach program off ret"
  shows "attach_each attach offsets ps = Inr ps"
  using assms by (induction attach offsets ps rule: attach_each.induct) (auto split: option.splits)

lemma find_None_all: "List.find P xs = None \<longleftrightarrow> (\<forall>x \<in> set xs. \<not> P x)"
  by (auto simp: find_None_iff)

lemma probe_load_attaches:
  assumes "probe_load env report = Inr ()" "\<And>path program off ret. hv_attach env path program off ret"
    "hv_load env interval mode" "hv_stats env = Some stats" "hv_unwinder env = Some run"
  obtains c where "attach_heap env report interval mode allow_partial max_stacks = Inr c"
proof -
  from assms(1) obtain family maps path offsets required where
    target: "heap_target env report = Inr (family, maps, path, offsets)"
    and req: "required_probes family = Some required"
    and none: "List.find (\<lambda>(_, symbol, _). map_of offsets symbol = None) required = None"
    by (auto simp: probe_load_def split: sum.splits option.splits if_splits)
  have "attach_each (hv_attach env path) offsets
      (required @ (if family = ''system''
         then filter (\<lambda>(_, symbol, _). map_of offsets symbol \<noteq> None) aligned_probes else [])) =
      Inr (required @ (if family = ''system''
         then filter (\<lambda>(_, symbol, _). map_of offsets symbol \<noteq> None) aligned_probes else []))"
    by (rule attach_each_all) (use none assms(2) in \<open>auto simp: find_None_all\<close>)
  then have "\<exists>c. attach_heap env report interval mode allow_partial max_stacks = Inr c"
    using assms(3-5) by (simp add: attach_heap_def target attach_allocator_programs_def req)
  then show thesis using that by blast
qed

section \<open>Pairing stacks with allocations\<close>

text \<open>What a stack event contributes, whatever the collector has seen before.\<close>

definition usable_frames :: "heap_collector \<Rightarrow> u8 list \<Rightarrow> heap_header \<Rightarrow> u64 list option" where
  "usable_frames c bs h =
     (let fs = (if hh_unwind_mode h = 1 then parse_fp_stack bs h else fst (unwind_heap_stack bs h c))
      in if fs = [] \<or> \<not> distinct fs \<or> (\<exists>a \<in> set fs. \<not> contains (hc_executable_ranges c) a) then None
         else Some fs)"

definition alloc_event :: "heap_header \<Rightarrow> u64 list \<Rightarrow> heap_event" where
  "alloc_event h fs =
     \<lparr>he_kind = Alloc, he_pointer = hh_pointer h, he_size = hh_size h, he_weight = hh_weight h, he_frames = fs\<rparr>"

definition free_event :: "heap_header \<Rightarrow> heap_event" where
  "free_event h = \<lparr>he_kind = Free, he_pointer = hh_pointer h, he_size = 0, he_weight = 0, he_frames = []\<rparr>"

text \<open>The contract: an allocation takes the last usable stack that was recorded under its token and is still
  kept, and is ignored without one; frees always count. At most \<open>max_pending_stacks\<close> stacks are kept: with
  one more, those with at least half of the kept tokens below theirs stay.\<close>

definition keep_room :: "(u64 \<Rightarrow> 'a option) \<Rightarrow> u64 \<Rightarrow> 'a option" where
  "keep_room m =
     (if card (dom m) \<le> max_pending_stacks then m
      else m |` {t. card (dom m) div 2 \<le> card {u \<in> dom m. u < t}})"

fun paired_events ::
  "(u8 list \<Rightarrow> heap_header \<Rightarrow> u64 list option) \<Rightarrow> (u64 \<Rightarrow> u64 list option) \<Rightarrow> u8 list list \<Rightarrow> heap_event list" where
  "paired_events V m [] = []"
| "paired_events V m (bs # rest) =
     (case parse_heap_header bs of
        None \<Rightarrow> paired_events V m rest
      | Some h \<Rightarrow>
          if hh_kind h = event_stack then
            paired_events V (case V bs h of None \<Rightarrow> m | Some fs \<Rightarrow> keep_room (m(hh_token h \<mapsto> fs))) rest
          else if hh_kind h = event_alloc then
            (case m (hh_token h) of
               None \<Rightarrow> paired_events V m rest
             | Some fs \<Rightarrow> alloc_event h fs # paired_events V (m(hh_token h := None)) rest)
          else if hh_kind h = event_free then free_event h # paired_events V m rest
          else paired_events V m rest)"

section \<open>Laws\<close>

text \<open>The settings that decide what a stack event contributes.\<close>

definition same_settings :: "heap_collector \<Rightarrow> heap_collector \<Rightarrow> bool" where
  "same_settings c c' \<longleftrightarrow>
     hc_dwarf c' = hc_dwarf c \<and> hc_allow_partial c' = hc_allow_partial c \<and>
     hc_executable_ranges c' = hc_executable_ranges c"

lemma usable_frames_settings: "same_settings c c' \<Longrightarrow> usable_frames c' = usable_frames c"
  by (auto simp: fun_eq_iff usable_frames_def unwind_heap_stack_def same_settings_def Let_def split: option.split)

lemma unwind_heap_stack_frame:
  "unwind_heap_stack bs h c = (fs, c') \<Longrightarrow>
     \<exists>e. c' = c\<lparr>hc_fatal_unwind_error := e\<rparr>"
  by (cases c) (auto simp: unwind_heap_stack_def Let_def split: option.splits if_splits)

lemma apply_stack_event_cases:
  obtains (Unusable) seen e where "usable_frames c bs h = None"
      "apply_stack_event bs h c = c\<lparr>hc_stack_samples := hc_stack_samples c + 1, hc_fatal_unwind_error := e,
         hc_seen_addresses := seen, hc_stack_failures := hc_stack_failures c + 1\<rparr>"
  | (Usable) fs seen e where "usable_frames c bs h = Some fs"
      "apply_stack_event bs h c = keep_stack (hh_token h) fs (c\<lparr>hc_stack_samples := hc_stack_samples c + 1,
         hc_fatal_unwind_error := e, hc_seen_addresses := seen\<rparr>)"
proof -
  define c1 where "c1 = c\<lparr>hc_stack_samples := hc_stack_samples c + 1\<rparr>"
  obtain fs c2 where un: "(if hh_unwind_mode h = 1 then (parse_fp_stack bs h, c1) else unwind_heap_stack bs h c1) = (fs, c2)"
    by (rule prod.exhaust)
  have "\<exists>e. c2 = c1\<lparr>hc_fatal_unwind_error := e\<rparr>"
  proof (cases "hh_unwind_mode h = 1")
    case True
    then have "c2 = c1\<lparr>hc_fatal_unwind_error := hc_fatal_unwind_error c1\<rparr>" using un by simp
    then show ?thesis by blast
  next
    case False
    then show ?thesis using un unwind_heap_stack_frame [of bs h c1 fs c2] by simp
  qed
  then obtain e where c2: "c2 = c\<lparr>hc_stack_samples := hc_stack_samples c + 1, hc_fatal_unwind_error := e\<rparr>"
    by (auto simp: c1_def)
  obtain cyclic seen where cy: "has_address_cycle fs (hc_seen_addresses c2) = (cyclic, seen)" by (rule prod.exhaust)
  have cyc: "cyclic = (\<not> distinct fs)" using has_address_cycle_iff [of fs "hc_seen_addresses c2"] cy by simp
  have fs: "(if hh_unwind_mode h = 1 then parse_fp_stack bs h else fst (unwind_heap_stack bs h c1)) = fs"
    using un by (auto split: if_splits)
  have "usable_frames c1 bs h =
      (if fs = [] \<or> \<not> distinct fs \<or> (\<exists>a \<in> set fs. \<not> contains (hc_executable_ranges c) a) then None else Some fs)"
    unfolding usable_frames_def fs Let_def by (simp add: c1_def)
  then have uf: "usable_frames c bs h =
      (if fs = [] \<or> \<not> distinct fs \<or> (\<exists>a \<in> set fs. \<not> contains (hc_executable_ranges c) a) then None else Some fs)"
    using usable_frames_settings [of c c1] by (simp add: same_settings_def c1_def)
  have run: "apply_stack_event bs h c =
      (if fs = [] \<or> cyclic \<or> (\<exists>a \<in> set fs. \<not> contains (hc_executable_ranges c) a)
       then count_failures 1 (c2\<lparr>hc_seen_addresses := seen\<rparr>) else keep_stack (hh_token h) fs (c2\<lparr>hc_seen_addresses := seen\<rparr>))"
    using un cy by (simp add: apply_stack_event_def c1_def [symmetric] Let_def) (auto simp: c2)
  show thesis
  proof (cases "usable_frames c bs h")
    case None
    then have "apply_stack_event bs h c = count_failures 1 (c2\<lparr>hc_seen_addresses := seen\<rparr>)"
      using uf run cyc by (auto split: if_splits)
    with None show thesis by (intro Unusable) (simp_all add: count_failures_def c2)
  next
    case (Some fs')
    then have "fs' = fs" "apply_stack_event bs h c = keep_stack (hh_token h) fs (c2\<lparr>hc_seen_addresses := seen\<rparr>)"
      using uf run cyc by (auto split: if_splits)
    with Some show thesis by (intro Usable) (simp_all add: c2)
  qed
qed

lemma length_pending_update: "length (AList.update k v m) \<le> Suc (length m)"
  by (simp add: length_update)

lemma length_delete_le: "length (AList.delete k m) \<le> length m"
  by (simp add: AList.delete_eq)

text \<open>Batches: events that arrive between two drains.\<close>

definition collect_batch :: "u8 list list \<Rightarrow> heap_collector \<Rightarrow> heap_collector" where
  "collect_batch batch c = snd (drain_heap None (fold queue_event batch c))"

lemma queue_events:
  assumes "length (hc_queue c) \<le> heap_queue_capacity"
  shows "fold queue_event batch c =
    c\<lparr>hc_queue := hc_queue c @ take (heap_queue_capacity - length (hc_queue c)) batch,
      hc_userspace_drops := hc_userspace_drops c +
        word_of_nat (length batch - (heap_queue_capacity - length (hc_queue c)))\<rparr>"
  using assms
proof (induction batch arbitrary: c)
  case (Cons b bs)
  show ?case
  proof (cases "length (hc_queue c) < heap_queue_capacity")
    case True
    then have "Suc (heap_queue_capacity - Suc (length (hc_queue c))) = heap_queue_capacity - length (hc_queue c)" by simp
    with True Cons.IH [of "queue_event b c"] show ?thesis
      by (simp add: queue_event_def take_Cons' Suc_diff_le)
  next
    case False
    with Cons.prems Cons.IH [of "queue_event b c"] show ?thesis by (simp add: queue_event_def)
  qed
qed simp

lemma snd_drain:
  "snd (drain_heap None c) = (fold apply_raw_event (hc_queue c) (c\<lparr>hc_queue := []\<rparr>))\<lparr>hc_fatal_unwind_error := None\<rparr>"
proof -
  have "x = x\<lparr>hc_fatal_unwind_error := None\<rparr>" if "hc_fatal_unwind_error x = None" for x :: heap_collector
    using that by simp
  then show ?thesis by (auto simp: drain_heap_def Let_def split: option.split)
qed

lemma apply_raw_event_frame:
  "same_settings c (apply_raw_event bs c)" "hc_queue (apply_raw_event bs c) = hc_queue c"
  "hc_userspace_drops (apply_raw_event bs c) = hc_userspace_drops c"
proof -
  have stack: "same_settings c (apply_stack_event bs h c) \<and> hc_queue (apply_stack_event bs h c) = hc_queue c \<and>
      hc_userspace_drops (apply_stack_event bs h c) = hc_userspace_drops c" for h
    by (rule apply_stack_event_cases [of c bs h])
      (simp_all add: same_settings_def keep_stack_def evict_stacks_def Let_def)
  show "same_settings c (apply_raw_event bs c)" "hc_queue (apply_raw_event bs c) = hc_queue c"
    "hc_userspace_drops (apply_raw_event bs c) = hc_userspace_drops c"
    using stack
    by (auto simp: apply_raw_event_def apply_alloc_event_def apply_free_event_def count_failures_def same_settings_def
        split: option.split)
qed

lemma fold_apply_frame:
  "same_settings c (fold apply_raw_event es c) \<and> hc_queue (fold apply_raw_event es c) = hc_queue c \<and>
   hc_userspace_drops (fold apply_raw_event es c) = hc_userspace_drops c"
proof (induction es arbitrary: c)
  case (Cons bs es)
  then show ?case
    using apply_raw_event_frame [where c = c and bs = bs] Cons [of "apply_raw_event bs c"] by (simp add: same_settings_def)
qed (simp add: same_settings_def)

text \<open>Neither the fatal error nor the scratch set of addresses matters to what is applied.\<close>

definition essential :: "heap_collector \<Rightarrow> heap_collector" where
  "essential c = c\<lparr>hc_fatal_unwind_error := None, hc_seen_addresses := []\<rparr>"

lemma essential_fields:
  "hc_stack_samples (essential c) = hc_stack_samples c" "hc_stack_failures (essential c) = hc_stack_failures c"
  "hc_pending_stacks (essential c) = hc_pending_stacks c" "hc_state (essential c) = hc_state c"
  "hc_queue (essential c) = hc_queue c" "hc_userspace_drops (essential c) = hc_userspace_drops c"
  by (simp_all add: essential_def)

lemma keep_stack_essential:
  "essential (keep_stack t fs (c\<lparr>hc_stack_samples := n, hc_fatal_unwind_error := e, hc_seen_addresses := s\<rparr>)) =
   keep_stack t fs ((essential c)\<lparr>hc_stack_samples := n\<rparr>)"
  by (simp add: essential_def keep_stack_def evict_stacks_def Let_def)

lemma usable_frames_essential: "usable_frames (essential c) = usable_frames c"
  by (rule usable_frames_settings) (simp add: same_settings_def essential_def)

lemma stack_event_essential:
  "essential (apply_stack_event bs h c) =
     (case usable_frames c bs h of
        None \<Rightarrow> (essential c)\<lparr>hc_stack_samples := hc_stack_samples c + 1, hc_stack_failures := hc_stack_failures c + 1\<rparr>
      | Some fs \<Rightarrow> keep_stack (hh_token h) fs ((essential c)\<lparr>hc_stack_samples := hc_stack_samples c + 1\<rparr>))"
  by (rule apply_stack_event_cases [of c bs h]; simp add: keep_stack_essential) (simp add: essential_def)

lemma other_events_essential:
  "essential (count_failures 1 c) = count_failures 1 (essential c)"
  "essential (apply_alloc_event h c) = apply_alloc_event h (essential c)"
  "essential (apply_free_event h c) = apply_free_event h (essential c)"
  by (simp_all add: essential_def count_failures_def apply_alloc_event_def apply_free_event_def split: option.split)

lemma apply_raw_event_essential:
  assumes "essential c = essential d"
  shows "essential (apply_raw_event bs c) = essential (apply_raw_event bs d)"
proof -
  have "usable_frames c = usable_frames d" "hc_stack_samples c = hc_stack_samples d"
    "hc_stack_failures c = hc_stack_failures d"
    using assms usable_frames_essential essential_fields by metis+
  with assms show ?thesis
    by (simp add: apply_raw_event_def stack_event_essential other_events_essential split: option.split)
qed

lemma fold_apply_essential:
  "essential c = essential d \<Longrightarrow> essential (fold apply_raw_event es c) = essential (fold apply_raw_event es d)"
proof (induction es arbitrary: c d)
  case (Cons bs es)
  from Cons.IH [OF apply_raw_event_essential [OF Cons.prems]] show ?case by simp
qed simp

text \<open>Nor does the number of dropped events.\<close>

lemma apply_raw_event_drops:
  "essential (apply_raw_event bs (c\<lparr>hc_userspace_drops := n\<rparr>)) =
   (essential (apply_raw_event bs c))\<lparr>hc_userspace_drops := n\<rparr>"
proof -
  have usable: "usable_frames (c\<lparr>hc_userspace_drops := n\<rparr>) = usable_frames c"
    by (rule usable_frames_settings) (simp add: same_settings_def)
  have keep: "keep_stack t fs (x\<lparr>hc_userspace_drops := n, hc_stack_samples := m\<rparr>) =
      (keep_stack t fs (x\<lparr>hc_stack_samples := m\<rparr>))\<lparr>hc_userspace_drops := n\<rparr>" for t fs m and x :: heap_collector
    by (simp add: keep_stack_def evict_stacks_def Let_def)
  have swap: "essential (x\<lparr>hc_userspace_drops := n\<rparr>) = (essential x)\<lparr>hc_userspace_drops := n\<rparr>" for x
    by (simp add: essential_def)
  have stack: "essential (apply_stack_event bs h (c\<lparr>hc_userspace_drops := n\<rparr>)) =
      (essential (apply_stack_event bs h c))\<lparr>hc_userspace_drops := n\<rparr>" for h
  proof (cases "usable_frames c bs h")
    case None
    then show ?thesis by (simp add: stack_event_essential usable swap)
  next
    case (Some fs)
    then show ?thesis by (simp add: stack_event_essential usable swap keep)
  qed
  have other: "apply_alloc_event h (c\<lparr>hc_userspace_drops := n\<rparr>) = (apply_alloc_event h c)\<lparr>hc_userspace_drops := n\<rparr>"
    "apply_free_event h (c\<lparr>hc_userspace_drops := n\<rparr>) = (apply_free_event h c)\<lparr>hc_userspace_drops := n\<rparr>"
    "count_failures 1 (c\<lparr>hc_userspace_drops := n\<rparr>) = (count_failures 1 c)\<lparr>hc_userspace_drops := n\<rparr>" for h
    by (simp_all add: apply_alloc_event_def apply_free_event_def count_failures_def split: option.split)
  show ?thesis
    by (cases "parse_heap_header bs") (simp_all add: apply_raw_event_def stack other swap)
qed

lemma fold_apply_drops:
  "essential (fold apply_raw_event es (c\<lparr>hc_userspace_drops := n\<rparr>)) =
   (essential (fold apply_raw_event es c))\<lparr>hc_userspace_drops := n\<rparr>"
proof (induction es arbitrary: c)
  case Nil
  then show ?case by (simp add: essential_def)
next
  case (Cons bs es)
  have "essential (apply_raw_event bs (c\<lparr>hc_userspace_drops := n\<rparr>)) =
      essential ((apply_raw_event bs c)\<lparr>hc_userspace_drops := n\<rparr>)"
    unfolding apply_raw_event_drops by (simp add: essential_def)
  from fold_apply_essential [OF this] Cons.IH [of "apply_raw_event bs c"] show ?case by simp
qed

definition dropped_events :: "u8 list list list \<Rightarrow> nat" where
  "dropped_events batches = (\<Sum>b \<leftarrow> batches. length b - heap_queue_capacity)"

lemma collect_batches:
  assumes "hc_queue c = []"
  shows "essential (fold collect_batch batches c) =
    (essential (fold apply_raw_event (concat (map (take heap_queue_capacity) batches)) c))
      \<lparr>hc_userspace_drops := hc_userspace_drops c + word_of_nat (dropped_events batches)\<rparr>"
  using assms
proof (induction batches arbitrary: c)
  case (Cons b bs)
  let ?b = "take heap_queue_capacity b" and ?n = "word_of_nat (length b - heap_queue_capacity) :: u64"
  let ?d = "c\<lparr>hc_userspace_drops := hc_userspace_drops c + ?n\<rparr>"
  have "fold queue_event b c = ?d\<lparr>hc_queue := ?b\<rparr>" using queue_events [of c b] Cons.prems by simp
  moreover have "?d\<lparr>hc_queue := []\<rparr> = ?d" using Cons.prems by simp
  ultimately have one: "collect_batch b c = (fold apply_raw_event ?b ?d)\<lparr>hc_fatal_unwind_error := None\<rparr>"
    by (simp add: collect_batch_def snd_drain)
  have frame: "hc_queue (collect_batch b c) = []" "hc_userspace_drops (collect_batch b c) = hc_userspace_drops c + ?n"
    using one fold_apply_frame [of ?d ?b] Cons.prems by simp_all
  have "essential (fold collect_batch bs (collect_batch b c)) =
      (essential (fold apply_raw_event (concat (map (take heap_queue_capacity) bs)) (collect_batch b c)))
        \<lparr>hc_userspace_drops := hc_userspace_drops c + ?n + word_of_nat (dropped_events bs)\<rparr>"
    using Cons.IH [OF frame(1)] frame(2) by simp
  also have "essential (fold apply_raw_event (concat (map (take heap_queue_capacity) bs)) (collect_batch b c)) =
      essential (fold apply_raw_event (concat (map (take heap_queue_capacity) bs)) (fold apply_raw_event ?b ?d))"
    by (rule fold_apply_essential) (simp add: one essential_def)
  also have "\<dots> = essential (fold apply_raw_event (concat (map (take heap_queue_capacity) (b # bs))) ?d)" by simp
  also have "\<dots> = (essential (fold apply_raw_event (concat (map (take heap_queue_capacity) (b # bs))) c))
      \<lparr>hc_userspace_drops := hc_userspace_drops c + ?n\<rparr>"
    by (rule fold_apply_drops)
  finally show ?case by (simp add: dropped_events_def add.assoc)
qed (simp add: dropped_events_def essential_def)

lemma heap_run_apply: "heap_run st (map Apply evs) = fold heap_apply evs st"
  by (induction evs arbitrary: st) (simp_all add: heap_run_def)

section \<open>The bound of the pending stacks\<close>

lemma sorted_filter_ge:
  fixes xs :: "'a::linorder list"
  assumes "sorted xs" "distinct xs" "k < length xs"
  shows "filter (\<lambda>x. xs ! k \<le> x) xs = drop k xs"
proof -
  have "filter (\<lambda>x. xs ! k \<le> x) (take k xs) = []"
  proof -
    have "\<not> xs ! k \<le> x" if "x \<in> set (take k xs)" for x
    proof -
      from that obtain i where i: "i < k" "x = xs ! i" using assms(3) by (auto simp: in_set_conv_nth)
      then have "x \<le> xs ! k" "x \<noteq> xs ! k" using assms
        by (auto simp: sorted_iff_nth_mono nth_eq_iff_index_eq)
      then show ?thesis by simp
    qed
    then show ?thesis by (simp add: filter_empty_conv)
  qed
  moreover have "filter (\<lambda>x. xs ! k \<le> x) (drop k xs) = drop k xs"
  proof -
    have "xs ! k \<le> x" if "x \<in> set (drop k xs)" for x
    proof -
      from that obtain i where "x = xs ! (k + i)" "k + i < length xs" using assms(3) by (auto simp: in_set_conv_nth)
      then show ?thesis using assms(1) by (simp add: sorted_nth_mono)
    qed
    then show ?thesis by simp
  qed
  ultimately show ?thesis by (metis append_Nil append_take_drop_id filter_append)
qed

lemma median_retain_length:
  assumes "tab_wf m" "m \<noteq> []"
  shows "length (tab_retain (\<lambda>t. median_token m \<le> t) m) = length m - length m div 2"
proof -
  let ?ks = "sort (map fst m)"
  have "length (tab_retain (\<lambda>t. median_token m \<le> t) m) = length (filter (\<lambda>t. median_token m \<le> t) (map fst m))"
    by (simp add: tab_retain_def filter_map comp_def split_def)
  also have "\<dots> = length (filter (\<lambda>t. median_token m \<le> t) ?ks)"
    by (metis filter_sort length_sort)
  also have "\<dots> = length (drop (length m div 2) ?ks)"
    unfolding median_token_def using assms by (subst sorted_filter_ge) (auto)
  finally show ?thesis by simp
qed

definition pending_ok :: "heap_collector \<Rightarrow> bool" where
  "pending_ok c \<longleftrightarrow> tab_wf (hc_pending_stacks c) \<and> length (hc_pending_stacks c) \<le> max_pending_stacks"

lemma pending_ok_evict:
  assumes "tab_wf (hc_pending_stacks c)" "length (hc_pending_stacks c) \<le> Suc max_pending_stacks"
  shows "pending_ok (evict_stacks c)"
proof (cases "length (hc_pending_stacks c) \<le> max_pending_stacks")
  case True
  with assms show ?thesis by (simp add: evict_stacks_def pending_ok_def Let_def)
next
  case False
  then have "hc_pending_stacks c \<noteq> []" by auto
  from median_retain_length [OF assms(1) this] assms False show ?thesis
    by (auto simp: evict_stacks_def pending_ok_def Let_def tab_retain_def distinct_map_filter max_pending_stacks_def)
qed

lemma pending_ok_keep:
  assumes "pending_ok c"
  shows "pending_ok (keep_stack t fs c)"
proof -
  have "length (AList.update t fs (hc_pending_stacks c)) \<le> Suc max_pending_stacks"
    using assms length_pending_update [of t fs "hc_pending_stacks c"] by (simp add: pending_ok_def)
  with assms show ?thesis unfolding keep_stack_def by (intro pending_ok_evict) (simp_all add: pending_ok_def)
qed

lemma pending_ok_apply:
  assumes "pending_ok c"
  shows "pending_ok (apply_raw_event bs c)"
proof -
  have "pending_ok (apply_stack_event bs h c)" for h
  proof (cases rule: apply_stack_event_cases [of c bs h])
    case (Unusable seen e)
    with assms show ?thesis by (simp add: pending_ok_def)
  next
    case (Usable fs seen e)
    have "pending_ok (c\<lparr>hc_stack_samples := hc_stack_samples c + 1, hc_fatal_unwind_error := e,
        hc_seen_addresses := seen\<rparr>)"
      using assms by (simp add: pending_ok_def)
    from pending_ok_keep [OF this] Usable show ?thesis by simp
  qed
  moreover have "pending_ok (apply_alloc_event h c)" for h
    using assms length_delete_le [of "hh_token h" "hc_pending_stacks c"]
    by (auto simp: apply_alloc_event_def pending_ok_def count_failures_def split: option.split)
  ultimately show ?thesis
    using assms
    by (simp add: apply_raw_event_def apply_free_event_def count_failures_def pending_ok_def split: option.split)
qed

section \<open>Pairing\<close>

lemma median_rank:
  assumes "tab_wf p" "t \<in> fst ` set p"
  shows "median_token p \<le> t \<longleftrightarrow> length p div 2 \<le> card {u \<in> fst ` set p. u < t}"
proof -
  let ?ks = "sort (map fst p)"
  have ks: "sorted ?ks" "distinct ?ks" "set ?ks = fst ` set p" "length ?ks = length p" using assms(1) by simp_all
  then obtain i where i: "i < length p" "t = ?ks ! i" using assms(2) by (metis in_set_conv_nth)
  have ordered: "sorted_wrt (<) ?ks" using ks(1,2) by (simp add: strict_sorted_iff)
  have less: "?ks ! j < ?ks ! k \<longleftrightarrow> j < k" if "j < length p" "k < length p" for j k
  proof (cases j k rule: linorder_cases)
    case less
    with sorted_wrt_nth_less [OF ordered, of j k] that ks(4) show ?thesis by simp
  next
    case equal
    then show ?thesis by simp
  next
    case greater
    then have "?ks ! k < ?ks ! j" using sorted_wrt_nth_less [OF ordered, of k j] that ks(4) by simp
    with greater show ?thesis by (metis order_less_not_sym)
  qed
  have "{u \<in> fst ` set p. u < t} = set (take i ?ks)"
  proof -
    show ?thesis
    proof (intro set_eqI iffI)
      fix u
      assume "u \<in> {u \<in> fst ` set p. u < t}"
      then have "u \<in> set ?ks" "u < t" unfolding ks(3) by blast+
      then obtain j where "j < length p" "u = ?ks ! j" "?ks ! j < ?ks ! i" using i ks(4) by (metis in_set_conv_nth)
      with less [of j i] i show "u \<in> set (take i ?ks)" by (auto simp: in_set_conv_nth ks(4))
    next
      fix u
      assume "u \<in> set (take i ?ks)"
      then obtain j where j: "j < i" "u = ?ks ! j" by (auto simp: in_set_conv_nth)
      have "?ks ! j < ?ks ! i" using less [of j i] i j by simp
      moreover have "?ks ! j \<in> fst ` set p" unfolding ks(3) [symmetric] using i j ks(4) by (intro nth_mem) simp
      ultimately show "u \<in> {u \<in> fst ` set p. u < t}" unfolding i(2) j(2) by blast
    qed
  qed
  then have rank: "card {u \<in> fst ` set p. u < t} = i"
    using ks i by (simp add: distinct_card)
  have "?ks ! (length p div 2) \<le> ?ks ! i \<longleftrightarrow> length p div 2 \<le> i"
  proof -
    have "length p div 2 < length p" using i(1) by simp
    from less [OF i(1) this] show ?thesis by (metis not_less)
  qed
  with i(2) rank show ?thesis by (simp add: median_token_def)
qed

lemma map_of_evict:
  assumes "tab_wf (hc_pending_stacks c)"
  shows "map_of (hc_pending_stacks (evict_stacks c)) = keep_room (map_of (hc_pending_stacks c))"
proof -
  let ?p = "hc_pending_stacks c"
  have dom: "dom (map_of ?p) = fst ` set ?p" by (rule dom_map_of_conv_image_fst)
  have card: "card (dom (map_of ?p)) = length ?p"
    using assms unfolding dom by (metis distinct_card length_map set_map)
  show ?thesis
  proof (cases "length ?p \<le> max_pending_stacks")
    case True
    then show ?thesis by (simp add: keep_room_def card evict_stacks_def Let_def)
  next
    case False
    have "map_of (tab_retain (\<lambda>t. median_token ?p \<le> t) ?p) t =
        (map_of ?p |` {t. length ?p div 2 \<le> card {u \<in> fst ` set ?p. u < t}}) t" for t
    proof (cases "t \<in> fst ` set ?p")
      case True
      then show ?thesis by (simp add: map_of_retain median_rank [OF assms] restrict_map_def)
    next
      case False
      then have "map_of ?p t = None" by (simp add: map_of_eq_None_iff)
      then show ?thesis by (simp add: map_of_retain restrict_map_def)
    qed
    with False show ?thesis
      by (simp add: keep_room_def card evict_stacks_def Let_def fun_eq_iff) (simp add: dom)
  qed
qed

text \<open>The heap state is driven by exactly the paired events.\<close>

lemma apply_events_paired:
  assumes "pending_ok c"
  shows "hc_state (fold apply_raw_event es c) =
    fold heap_apply (paired_events (usable_frames c) (map_of (hc_pending_stacks c)) es) (hc_state c)"
  using assms
proof (induction es arbitrary: c)
  case (Cons bs es)
  let ?c' = "apply_raw_event bs c"
  note IH = Cons.IH [OF pending_ok_apply [OF Cons.prems], of bs,
    unfolded usable_frames_settings [OF apply_raw_event_frame(1) [of c bs]]]
  have wf: "tab_wf (hc_pending_stacks c)" using Cons.prems by (simp add: pending_ok_def)
  show ?case
  proof (cases "parse_heap_header bs")
    case None
    then have "?c' = count_failures 1 c" by (simp add: apply_raw_event_def)
    with IH None show ?thesis by (simp add: count_failures_def)
  next
    case (Some h)
    consider (stack) "hh_kind h = event_stack" | (alloc) "hh_kind h = event_alloc" "hh_kind h \<noteq> event_stack"
      | (free) "hh_kind h = event_free" "hh_kind h \<noteq> event_stack" "hh_kind h \<noteq> event_alloc"
      | (other) "hh_kind h \<noteq> event_stack" "hh_kind h \<noteq> event_alloc" "hh_kind h \<noteq> event_free" by blast
    then show ?thesis
    proof cases
      case stack
      then have c': "?c' = apply_stack_event bs h c" using Some by (simp add: apply_raw_event_def)
      show ?thesis
      proof (cases rule: apply_stack_event_cases [of c bs h])
        case (Unusable seen e)
        with IH Some stack show ?thesis by (simp add: c')
      next
        case (Usable fs seen e)
        have "map_of (hc_pending_stacks ?c') = keep_room ((map_of (hc_pending_stacks c))(hh_token h \<mapsto> fs))"
          unfolding c' Usable(2) keep_stack_def using wf by (subst map_of_evict) (simp_all add: map_of_update)
        moreover have "hc_state ?c' = hc_state c"
          by (simp add: c' Usable(2) keep_stack_def evict_stacks_def Let_def)
        ultimately show ?thesis using IH Some stack Usable(1) by simp
      qed
    next
      case alloc
      then have c': "?c' = apply_alloc_event h c" using Some by (simp add: apply_raw_event_def)
      have "fold apply_raw_event (bs # es) c = fold apply_raw_event es ?c'" by simp
      then show ?thesis
        using IH Some alloc
        by (cases "map_of (hc_pending_stacks c) (hh_token h)")
          (simp_all add: c' apply_alloc_event_def count_failures_def alloc_event_def fun_upd_def
            del: map_of_eq_None_iff)
    next
      case free
      then have "?c' = apply_free_event h c" using Some by (simp add: apply_raw_event_def)
      with IH Some free show ?thesis by (simp add: apply_free_event_def free_event_def)
    next
      case other
      then have "?c' = c" using Some by (simp add: apply_raw_event_def)
      with IH Some other show ?thesis by simp
    qed
  qed
qed simp

section \<open>Driven states\<close>

text \<open>The heap state of a collector is one that the operations of \<open>HeapState\<close> lead to.\<close>

definition driven :: "nat \<Rightarrow> heap_collector \<Rightarrow> bool" where
  "driven n c \<longleftrightarrow> (\<exists>ops. hc_state c = heap_run (with_max_stacks n) ops)"

lemma driven_step: "driven n c \<Longrightarrow> hc_state c' = heap_step (hc_state c) op \<Longrightarrow> driven n c'"
  unfolding driven_def by (metis foldl_append foldl_Cons foldl_Nil heap_run_def)

lemma driven_same: "driven n c \<Longrightarrow> hc_state c' = hc_state c \<Longrightarrow> driven n c'"
  by (simp add: driven_def)

lemma evict_state: "hc_state (evict_stacks c) = hc_state c"
  by (simp add: evict_stacks_def Let_def)

lemma stack_event_state: "hc_state (apply_stack_event bs h c) = hc_state c"
  by (rule apply_stack_event_cases [of c bs h]) (simp_all add: keep_stack_def evict_state)

lemma driven_apply:
  assumes "driven n c"
  shows "driven n (apply_raw_event bs c)"
proof (cases "parse_heap_header bs")
  case None
  with assms show ?thesis by (simp add: apply_raw_event_def count_failures_def driven_def)
next
  case (Some h)
  have "driven n (apply_alloc_event h c)"
    using driven_step [OF assms, of "apply_alloc_event h c" "Apply (alloc_event h (the (map_of (hc_pending_stacks c) (hh_token h))))"]
      driven_same [OF assms, of "apply_alloc_event h c"]
    by (cases "map_of (hc_pending_stacks c) (hh_token h)")
      (simp_all add: apply_alloc_event_def count_failures_def alloc_event_def del: map_of_eq_None_iff)
  moreover have "driven n (apply_free_event h c)"
    using driven_step [OF assms, of "apply_free_event h c" "Apply (free_event h)"]
    by (simp add: apply_free_event_def free_event_def)
  moreover have "driven n (apply_stack_event bs h c)"
    using driven_same [OF assms] stack_event_state by blast
  ultimately show ?thesis using assms Some by (simp add: apply_raw_event_def)
qed

section \<open>Sessions\<close>

datatype collector_op =
  Arrive "u8 list"
| Drain_Heap "string option"
| End_Window "string option" heap_maps
| Exec
| Remap "process_unwinder option" "map_entry list"

fun collector_step :: "heap_collector \<Rightarrow> collector_op \<Rightarrow> heap_collector" where
  "collector_step c (Arrive bs) = queue_event bs c"
| "collector_step c (Drain_Heap failure) = snd (drain_heap failure c)"
| "collector_step c (End_Window failure maps) = snd (snapshot_heap_window failure maps c)"
| "collector_step c Exec = clear_for_exec c"
| "collector_step c (Remap rebuilt maps) = snd (refresh_heap_unwinder rebuilt maps c)"

definition collector_inv :: "nat \<Rightarrow> heap_collector \<Rightarrow> bool" where
  "collector_inv n c \<longleftrightarrow> pending_ok c \<and> driven n c \<and> length (hc_queue c) \<le> heap_queue_capacity"

lemma collector_inv_drain: "collector_inv n c \<Longrightarrow> collector_inv n (snd (drain_heap failure c))"
proof (cases failure)
  case (Some e)
  then show "collector_inv n c \<Longrightarrow> collector_inv n (snd (drain_heap failure c))" by (simp add: drain_heap_def)
next
  case None
  have "pending_ok (fold apply_raw_event es c) \<and> driven n (fold apply_raw_event es c)"
    if "pending_ok c" "driven n c" for es and c :: heap_collector
    using that by (induction es arbitrary: c) (simp_all add: pending_ok_apply driven_apply)
  moreover assume "collector_inv n c"
  moreover have "pending_ok (c\<lparr>hc_queue := []\<rparr>) = pending_ok c" "driven n (c\<lparr>hc_queue := []\<rparr>) = driven n c" for c
    by (simp_all add: pending_ok_def driven_def)
  ultimately have "pending_ok (fold apply_raw_event (hc_queue c) (c\<lparr>hc_queue := []\<rparr>)) \<and>
      driven n (fold apply_raw_event (hc_queue c) (c\<lparr>hc_queue := []\<rparr>))"
    unfolding collector_inv_def by blast
  then show ?thesis
    using fold_apply_frame [of "c\<lparr>hc_queue := []\<rparr>" "hc_queue c"]
    by (simp add: None snd_drain collector_inv_def pending_ok_def driven_def)
qed

lemma collector_inv_snapshot: "collector_inv n c \<Longrightarrow> collector_inv n (snd (snapshot_heap_window failure maps c))"
proof -
  assume inv: "collector_inv n c"
  obtain r c1 where d: "drain_heap failure c = (r, c1)" by (rule prod.exhaust)
  have inv1: "collector_inv n c1" using collector_inv_drain [OF inv, of failure] d by simp
  show ?thesis
  proof (cases r)
    case (Inl e)
    with d inv1 show ?thesis by (simp add: snapshot_heap_window_def)
  next
    case (Inr u)
    show ?thesis
    proof (cases "hm_stats maps")
      case (Inl e)
      with d Inr inv1 show ?thesis by (simp add: snapshot_heap_window_def)
    next
      case current: (Inr current)
    obtain st1 where st1: "hc_state (snd (snapshot_heap_window failure maps c)) = snd (snapshot_window_with_drops st1)"
      "st1 = hc_state c1 \<or> st1 = retain_live_pointers (\<lambda>p. p \<in> set (hm_live maps)) (hc_state c1)"
      by (simp add: snapshot_heap_window_def d Inr current Let_def split_beta)
    from st1(2) have "driven n (c1\<lparr>hc_state := st1\<rparr>)"
    proof
      assume "st1 = retain_live_pointers (\<lambda>p. p \<in> set (hm_live maps)) (hc_state c1)"
      then show ?thesis
        using inv1 driven_step [of n c1 "c1\<lparr>hc_state := st1\<rparr>" "Retain_Live (hm_live maps)"]
        by (simp add: collector_inv_def)
    qed (use inv1 in \<open>auto simp: collector_inv_def\<close>)
    then have "driven n (snd (snapshot_heap_window failure maps c))"
      by (rule driven_step [where op = Snapshot]) (simp add: st1)
    moreover have "hc_pending_stacks (snd (snapshot_heap_window failure maps c)) = hc_pending_stacks c1"
      "hc_queue (snd (snapshot_heap_window failure maps c)) = hc_queue c1"
      by (simp_all add: snapshot_heap_window_def d Inr current Let_def split_beta)
    ultimately show ?thesis using inv1 by (simp add: collector_inv_def pending_ok_def)
    qed
  qed
qed

lemma collector_inv_step: "collector_inv n c \<Longrightarrow> collector_inv n (collector_step c op)"
proof (cases op)
  case (Arrive bs)
  then show "collector_inv n c \<Longrightarrow> ?thesis"
    by (simp add: queue_event_def collector_inv_def pending_ok_def driven_def)
next
  case Exec
  show "collector_inv n c \<Longrightarrow> ?thesis"
    using driven_step [of n c "clear_for_exec c" Clear_Live]
    by (simp add: Exec clear_for_exec_def collector_inv_def pending_ok_def)
next
  case (Remap rebuilt maps)
  then show "collector_inv n c \<Longrightarrow> ?thesis"
    by (simp add: refresh_heap_unwinder_def collector_inv_def pending_ok_def driven_def Let_def split: option.split)
qed (simp_all add: collector_inv_drain collector_inv_snapshot)

lemma essential_cong: "essential c = essential d \<Longrightarrow> hc_state c = hc_state d \<and> hc_userspace_drops c = hc_userspace_drops d"
  by (metis essential_fields(4,6))

text \<open>C5: Collecting is pairing. In whatever batches the events arrive, the heap state is the one that the paired
  events lead to, in order: each allocation with the last usable stack kept under its token, each free,
  nothing else. This is for the maps that the collector was made with, and while the ring can be consumed. Of a
  batch the first 4096 events count, and what exceeds them is counted as dropped; at most 65536 stacks wait, and
  when there would be one more, the half with the lower tokens goes (\<open>keep_room\<close>).\<close>

theorem heap_events_paired:
  "hc_state (fold collect_batch batches (new_heap_collector n dwarf allow_partial family stats maps)) =
     heap_run (with_max_stacks n) (map Apply (paired_events
       (usable_frames (new_heap_collector n dwarf allow_partial family stats maps)) Map.empty
       (concat (map (take heap_queue_capacity) batches)))) \<and>
   hc_userspace_drops (fold collect_batch batches (new_heap_collector n dwarf allow_partial family stats maps)) =
     word_of_nat (\<Sum>b \<leftarrow> batches. length b - heap_queue_capacity)"
proof -
  let ?c = "new_heap_collector n dwarf allow_partial family stats maps"
  let ?es = "concat (map (take heap_queue_capacity) batches)"
  have init: "hc_queue ?c = []" "hc_pending_stacks ?c = []" "hc_state ?c = with_max_stacks n" "hc_userspace_drops ?c = 0"
    by (simp_all add: new_heap_collector_def)
  have run: "essential (fold collect_batch batches ?c) = (essential (fold apply_raw_event ?es ?c))
      \<lparr>hc_userspace_drops := word_of_nat (dropped_events batches)\<rparr>"
    using collect_batches [of ?c batches] init by simp
  have same: "hc_state (fold collect_batch batches ?c) = hc_state (fold apply_raw_event ?es ?c)"
    "hc_userspace_drops (fold collect_batch batches ?c) = word_of_nat (dropped_events batches)"
    using arg_cong [OF run, of hc_state] arg_cong [OF run, of hc_userspace_drops] by (simp_all add: essential_fields)
  have "pending_ok ?c" by (simp add: pending_ok_def init)
  from apply_events_paired [OF this, of ?es] show ?thesis
    by (simp add: same init heap_run_apply dropped_events_def)
qed

text \<open>A stack, its allocation, an allocation without a stack and the free of what was allocated, in two batches,
  with an executable mapping around the stack's address.\<close>

definition example_event :: "u8 \<Rightarrow> u8 \<Rightarrow> u8 list" where
  "example_event kind token =
     [kind, 0, 0, 0, 1, 0, 0, 0, 0, 0, 0, 0, 0, 0, 0, 0, token, 0, 0, 0, 0, 0, 0, 0, 64, 0, 0, 0, 0, 0, 0, 0,
      16, 0, 0, 0, 0, 0, 0, 0, 16, 0, 0, 0, 0, 0, 0, 0, 0, 16, 0, 0, 0, 0, 0, 0,
      0, 0, 0, 0, 0, 0, 0, 0, 0, 0, 0, 0, 0, 0, 0, 0, 0, 0, 0, 0, 0, 0, 0, 0, 0, 0, 0, 0, 0, 0, 0, 0]"

definition example_batches :: "u8 list list list" where
  "example_batches = [[example_event 1 7, example_event 2 7], [example_event 2 8, example_event 3 0]]"

definition example_collector :: heap_collector where
  "example_collector = new_heap_collector 5 None False ''system'' stats_default
     [\<lparr>me_start = 4096, me_end = 8192, me_offset = 0, me_permissions = ''r-xp'', me_device = ''08:01'',
       me_inode = 42, me_path = Some ''/opt/app''\<rparr>]"

definition example_header :: "u32 \<Rightarrow> u64 \<Rightarrow> heap_header" where
  "example_header kind token =
     \<lparr>hh_kind = kind, hh_unwind_mode = 1, hh_token = token, hh_pointer = 64, hh_size = 16, hh_weight = 16,
      hh_ip = 4096, hh_sp = 0, hh_fp = 0, hh_lr = 0, hh_stack_length = 0\<rparr>"

lemma example_parsed:
  "parse_heap_header (example_event 1 7) = Some (example_header 1 7)"
  "parse_heap_header (example_event 2 7) = Some (example_header 2 7)"
  "parse_heap_header (example_event 2 8) = Some (example_header 2 8)"
  "parse_heap_header (example_event 3 0) = Some (example_header 3 0)"
  by (simp_all add: parse_heap_header_def heap_header_size_def word_at_def slice_def word_of_bytes_def
      example_event_def example_header_def)

lemma example_usable: "usable_frames example_collector (example_event 1 7) (example_header 1 7) = Some [4096]"
  by (simp add: usable_frames_def example_header_def example_collector_def new_heap_collector_def parse_fp_stack_def
      captured_bytes_def default_max_frames_def contains_def from_maps_def is_executable_def merge_range_def
      partition_point_def)

lemma example_paired:
  "paired_events (usable_frames example_collector) Map.empty (concat example_batches) =
     [alloc_event (example_header 2 7) [4096], free_event (example_header 3 0)]"
proof -
  have fields: "hh_kind (example_header k t) = k" "hh_token (example_header k t) = t" for k t
    by (simp_all add: example_header_def)
  have room: "keep_room [7 \<mapsto> [4096]] = [7 \<mapsto> [4096 :: u64]]" by (simp add: keep_room_def max_pending_stacks_def)
  show ?thesis
    by (simp add: example_batches_def example_parsed example_usable fields room event_stack_def event_alloc_def
        event_free_def)
qed

text \<open>C6: Whatever arrives and whenever windows end, the program is replaced or mapped anew, the queue, the
  stacks that wait for their allocation and the window's table stay within their bounds, and the live
  totals are exactly those of the live allocations.\<close>

theorem heap_collector_bounded:
  "let c = foldl collector_step (new_heap_collector n dwarf allow_partial family stats maps) ops
   in length (hc_queue c) \<le> heap_queue_capacity \<and>
      distinct (map fst (hc_pending_stacks c)) \<and> length (hc_pending_stacks c) \<le> max_pending_stacks \<and>
      length (hs_window_allocations (hc_state c)) \<le> n \<and>
      live_ok (hs_live (hc_state c)) \<and> totals_ok (hs_live_totals (hc_state c)) (hs_live (hc_state c))"
proof -
  let ?c = "new_heap_collector n dwarf allow_partial family stats maps"
  have "hc_state ?c = heap_run (with_max_stacks n) []" by (simp add: new_heap_collector_def heap_run_def)
  then have "driven n ?c" unfolding driven_def by blast
  then have "collector_inv n ?c" by (simp add: collector_inv_def pending_ok_def new_heap_collector_def)
  then have inv: "collector_inv n (foldl collector_step ?c ops)"
    by (induction ops rule: rev_induct) (simp_all add: collector_inv_step)
  then obtain hops where st: "hc_state (foldl collector_step ?c ops) = heap_run (with_max_stacks n) hops"
    by (auto simp: collector_inv_def driven_def)
  have "heap_inv (heap_run (with_max_stacks n) hops)" by (rule heap_inv_run [OF heap_inv_init])
  moreover have "hs_max_stacks (heap_run (with_max_stacks n) hops) = n"
    by (simp add: heap_max_stacks_run with_max_stacks_def heap_state_default_def)
  ultimately show ?thesis
    using inv by (simp add: Let_def st collector_inv_def pending_ok_def heap_inv_def)
qed

end
