(* ===== verification/Flame.thy ===== *)
theory Flame
  imports Pprof Complex_Main "HOL-Library.List_Lexorder" "HOL-Library.Char_ord" "HOL-Library.Log_Nat"
    "HOL-Library.Sublist"
begin

text \<open>
  Flame graphs (\<open>src/src/svg.rs\<close>): samples are merged into a tree of frames of bounded size, the tree is
  laid out and written as SVG.

  The numbers of the layout are \<open>f64\<close>. All of them are zero or between \<open>2 ^ -64\<close> and \<open>2 ^ 80\<close>, so an
  operation is the exact one on \<^typ>\<open>rat\<close> followed by \<open>round_f64\<close>, rounding to 53 bits with ties to even;
  \<open>show_fixed\<close> prints with a number of decimals as \<open>{:.n}\<close> does. Texts are UTF-8 bytes; characters outside
  ASCII matter in three places: control characters, counting, and cutting.
\<close>

section \<open>Numbers\<close>

definition round_half_even :: "rat \<Rightarrow> int" where
  "round_half_even x =
     (let n = \<lfloor>x\<rfloor>; r = x - of_int n
      in if r < 1/2 then n else if r > 1/2 then n + 1 else if even n then n else n + 1)"

text \<open>The exponent that gives the scaled number 53 bits.\<close>

definition f64_exponent :: "rat \<Rightarrow> int" where
  "f64_exponent x =
     (let (a, b) = quotient_of x;
          e = bitlen a - bitlen b - 53
      in if 2 ^ 53 \<le> x / 2 powi e then e + 1 else e)"

definition round_f64 :: "rat \<Rightarrow> rat" where
  "round_f64 x =
     (if x \<le> 0 then 0
      else let e = f64_exponent x in of_int (round_half_even (x / 2 powi e)) * 2 powi e)"

definition f64_of_u64 :: "u64 \<Rightarrow> rat" where
  "f64_of_u64 v = round_f64 (of_nat (unat v))"

fun show_places :: "nat \<Rightarrow> nat \<Rightarrow> string" where
  "show_places 0 n = []"
| "show_places (Suc k) n = show_places k (n div 10) @ [show_digit (n mod 10)]"

definition show_fixed :: "nat \<Rightarrow> rat \<Rightarrow> string" where
  "show_fixed places x =
     (let n = nat (round_half_even (x * 10 ^ places))
      in show_nat (n div 10 ^ places) @ (if places = 0 then [] else ''.'' @ show_places places n))"

section \<open>The tree\<close>

datatype flame_unit = Nanoseconds | Bytes

datatype 'l flame_node =
  Flame_Node (flame_value: u64) (flame_children: "('l \<times> 'l flame_node) list")

definition flame_default :: "'l flame_node" where
  "flame_default = Flame_Node 0 []"

definition max_svg_nodes :: nat where
  "max_svg_nodes = 100000"

definition bump :: "u64 \<Rightarrow> 'l flame_node \<Rightarrow> 'l flame_node" where
  "bump value node = Flame_Node (sat_add (flame_value node) value) (flame_children node)"

text \<open>The walk of \<open>insert_sample\<close> below a node: the tree, the number of nodes and whether it was cut.\<close>

fun insert_below ::
  "'l::linorder list \<Rightarrow> u64 \<Rightarrow> 'l flame_node \<Rightarrow> nat \<Rightarrow> bool \<Rightarrow> 'l flame_node \<times> nat \<times> bool" where
  "insert_below [] value node count truncated = (node, count, truncated)"
| "insert_below (label # rest) value node count truncated =
     (case map_of (flame_children node) label of
        Some child \<Rightarrow>
          (let (child', count', truncated') = insert_below rest value (bump value child) count truncated
           in (Flame_Node (flame_value node) (bt_put label child' (flame_children node)), count', truncated'))
      | None \<Rightarrow>
          if max_svg_nodes \<le> count then (node, count, True)
          else (let (child', count', truncated') =
                  insert_below rest value (bump value flame_default) (count + 1) truncated
                in (Flame_Node (flame_value node) (bt_put label child' (flame_children node)), count', truncated')))"

definition insert_sample ::
  "'l::linorder list \<times> u64 \<Rightarrow> 'l flame_node \<times> nat \<times> bool \<Rightarrow> 'l flame_node \<times> nat \<times> bool" where
  "insert_sample s st =
     (case (s, st) of ((fs, value), (tree, count, truncated)) \<Rightarrow>
        insert_below fs value (bump value tree) count truncated)"

definition build_flame :: "('l::linorder list \<times> u64) list \<Rightarrow> 'l flame_node \<times> nat \<times> bool" where
  "build_flame samples = fold insert_sample samples (flame_default, 0, False)"

fun tree_depth :: "'l flame_node \<Rightarrow> nat" where
  "tree_depth (Flame_Node v cs) = fold max (map (\<lambda>(_, c). 1 + tree_depth c) cs) 0"

section \<open>Samples\<close>

text \<open>Collecting into a \<open>HashMap\<close>: the last location or function with an id counts.\<close>

definition locations_by_id :: "pprof \<Rightarrow> nat \<Rightarrow> pp_location option" where
  "locations_by_id p = map_of (rev (map (\<lambda>l. (po_id l, l)) (pp_locations p)))"

definition functions_by_id :: "pprof \<Rightarrow> nat \<Rightarrow> pp_function option" where
  "functions_by_id p = map_of (rev (map (\<lambda>f. (pf_id f, f)) (pp_functions p)))"

definition show_address :: "u64 \<Rightarrow> string" where
  "show_address a = ''0x'' @ show_radix 16 (unat a)"

definition line_label :: "pprof \<Rightarrow> pp_location \<Rightarrow> pp_line \<Rightarrow> string" where
  "line_label p l line =
     (case functions_by_id p (pl_function_id line) of
        None \<Rightarrow> show_address (po_address l)
      | Some f \<Rightarrow>
          if pf_name f < length (pp_strings p) \<and> pp_strings p ! pf_name f \<noteq> []
          then pp_strings p ! pf_name f else show_address (po_address l))"

definition location_labels :: "pprof \<Rightarrow> nat \<Rightarrow> string list" where
  "location_labels p i =
     (case locations_by_id p i of
        None \<Rightarrow> []
      | Some l \<Rightarrow>
          if po_line l = [] then [show_address (po_address l)]
          else map (line_label p l) (rev (po_line l)))"

definition sample_frames :: "pprof \<Rightarrow> pp_sample \<Rightarrow> string list" where
  "sample_frames p s = concat (map (location_labels p) (rev (ps_location_id s)))"

text \<open>Samples without a positive value are skipped.\<close>

definition flame_samples :: "pprof \<Rightarrow> nat \<Rightarrow> (string list \<times> u64) list" where
  "flame_samples p index =
     map (\<lambda>s. (sample_frames p s, ps_value s ! index))
       (filter (\<lambda>s. index < length (ps_value s) \<and> 0 < sint (ps_value s ! index)) (pp_samples p))"

section \<open>Writing\<close>

text \<open>A control character of two bytes is \<open>0xC2\<close> followed by a byte below \<open>0xA0\<close>.\<close>

definition replacement :: string where
  "replacement = [CHR 0xEF, CHR 0xBF, CHR 0xBD]"

definition escape_byte :: "char \<Rightarrow> string" where
  "escape_byte c =
     (if c = CHR ''&'' then ''&amp;''
      else if c = CHR ''<'' then ''&lt;''
      else if c = CHR ''>'' then ''&gt;''
      else if c = CHR 0x22 then ''&quot;''
      else if c = CHR 0x27 then ''&apos;''
      else if ((of_char c :: nat) < 32 \<or> of_char c = (127 :: nat)) \<and> c \<notin> {CHR 0x09, CHR 0x0A, CHR 0x0D}
      then replacement else [c])"

fun escape_xml :: "string \<Rightarrow> string" where
  "escape_xml [] = []"
| "escape_xml [c] = escape_byte c"
| "escape_xml (c # d # rest) =
     (if c = CHR 0xC2 \<and> 128 \<le> (of_char d :: nat) \<and> of_char d < (160 :: nat)
      then replacement @ escape_xml rest else escape_byte c @ escape_xml (d # rest))"

definition is_continuation :: "char \<Rightarrow> bool" where
  "is_continuation c \<longleftrightarrow> 128 \<le> (of_char c :: nat) \<and> of_char c < (192 :: nat)"

definition count_chars :: "string \<Rightarrow> nat" where
  "count_chars s = length (filter (\<lambda>c. \<not> is_continuation c) s)"

text \<open>The longest prefix with at most \<open>n\<close> characters.\<close>

fun take_chars :: "nat \<Rightarrow> string \<Rightarrow> string" where
  "take_chars n [] = []"
| "take_chars n (c # cs) =
     (if is_continuation c then c # take_chars n cs
      else case n of 0 \<Rightarrow> [] | Suc m \<Rightarrow> c # take_chars m cs)"

definition fitted_label :: "string \<Rightarrow> rat \<Rightarrow> string option" where
  "fitted_label label width =
     (let capacity = nat \<lfloor>round_f64 (width / 7)\<rfloor>
      in if capacity < 3 then None
         else if count_chars label \<le> capacity then Some label
         else Some (take_chars (capacity - 1) label @ [CHR 0xE2, CHR 0x80, CHR 0xA6]))"

definition hex2 :: "u32 \<Rightarrow> string" where
  "hex2 v = [show_digit (unat v div 16 mod 16), show_digit (unat v mod 16)]"

definition frame_hash :: "string \<Rightarrow> u32" where
  "frame_hash label = fold (\<lambda>c hash. (hash * 16777619) XOR word_of_nat (of_char c)) label 2166136261"

definition frame_color :: "string \<Rightarrow> string" where
  "frame_color label =
     (let hash = frame_hash label
      in ''#'' @ hex2 (210 + hash mod 35) @ hex2 (80 + (drop_bit 8 hash) mod 95) @ hex2 (55 + (drop_bit 16 hash) mod 45))"

definition format_scaled :: "u64 \<Rightarrow> nat \<Rightarrow> string \<Rightarrow> string" where
  "format_scaled value scale unit = show_fixed 2 (round_f64 (f64_of_u64 value / of_nat scale)) @ unit"

fun format_value :: "u64 \<Rightarrow> flame_unit \<Rightarrow> string" where
  "format_value value Nanoseconds =
     (if 1000000000 \<le> value then format_scaled value 1000000000 '' s''
      else if 1000000 \<le> value then format_scaled value 1000000 '' ms''
      else if 1000 \<le> value then format_scaled value 1000 ([CHR '' '', CHR 0xC2, CHR 0xB5] @ ''s'')
      else show_nat (unat value) @ '' ns'')"
| "format_value value Bytes =
     (if 1073741824 \<le> value then format_scaled value 1073741824 '' GiB''
      else if 1048576 \<le> value then format_scaled value 1048576 '' MiB''
      else if 1024 \<le> value then format_scaled value 1024 '' KiB''
      else show_nat (unat value) @ '' B'')"

text \<open>One frame: its group with the tooltip and the rectangle, and its text where it fits.\<close>

definition frame_text :: "string \<Rightarrow> u64 \<Rightarrow> nat \<Rightarrow> rat \<Rightarrow> rat \<Rightarrow> u64 \<Rightarrow> flame_unit \<Rightarrow> string" where
  "frame_text label value y child_x child_width overall unit =
     ''<g><title>'' @
     escape_xml (label @ [CHR '' '', CHR 0xE2, CHR 0x80, CHR 0x94, CHR '' ''] @ format_value value unit @ '' ('' @
       show_fixed 2 (round_f64 (round_f64 (f64_of_u64 value * 100) / f64_of_u64 overall)) @ ''%)'') @
     ''</title><rect x=\"'' @ show_fixed 2 child_x @ ''\" y=\"'' @ show_fixed 2 (of_nat y) @
     ''\" width=\"'' @ show_fixed 2 child_width @ ''\" height=\"17.00\" fill=\"'' @ frame_color label @
     ''\"/>'' @ [CHR 0x0A] @
     (case fitted_label label child_width of
        None \<Rightarrow> ''</g>'' @ [CHR 0x0A]
      | Some fitted \<Rightarrow>
          ''<text x=\"'' @ show_fixed 2 (round_f64 (child_x + 3)) @ ''\" y=\"'' @
          show_fixed 2 (of_nat y + 25/2) @ ''\" font-size=\"11\">'' @ escape_xml fitted @
          ''</text></g>'' @ [CHR 0x0A])"

text \<open>\<open>render_children\<close> and its loop, which carries the cursor.\<close>

function (sequential) render_children ::
    "string flame_node \<Rightarrow> nat \<Rightarrow> nat \<Rightarrow> rat \<Rightarrow> rat \<Rightarrow> u64 \<Rightarrow> flame_unit \<Rightarrow> string"
  and render_frames ::
    "(string \<times> string flame_node) list \<Rightarrow> u64 \<Rightarrow> nat \<Rightarrow> nat \<Rightarrow> rat \<Rightarrow> rat \<Rightarrow> u64 \<Rightarrow> flame_unit \<Rightarrow> string" where
  "render_children (Flame_Node value cs) depth max_depth x width overall unit =
     (if value = 0 then [] else render_frames cs value depth max_depth x width overall unit)"
| "render_frames [] value depth max_depth cursor width overall unit = []"
| "render_frames ((label, child) # cs) value depth max_depth cursor width overall unit =
     (let child_width = round_f64 (round_f64 (width * f64_of_u64 (flame_value child)) / f64_of_u64 value);
          after = round_f64 (cursor + child_width);
          y = 54 + (max_depth - depth - 1) * 18
      in (if child_width \<le> round_f64 (1/100) then []
          else frame_text label (flame_value child) y cursor child_width overall unit @
               render_children child (depth + 1) max_depth cursor child_width overall unit) @
         render_frames cs value depth max_depth after width overall unit)"
  by pat_completeness auto
termination
  by (relation "measure (case_sum (\<lambda>(n, _). 2 * size n)
        (\<lambda>(cs, _). 2 * size_list (\<lambda>(_, n). Suc (size n)) cs))")
    (auto simp: size_prod_def)

definition svg_style :: string where
  "svg_style =
     ''<style>text{font-family:ui-monospace,SFMono-Regular,Menlo,Consolas,monospace;fill:#172033}'' @
     ''.heading{font:600 18px system-ui,sans-serif}.summary{font:12px system-ui,sans-serif;fill:#536078}'' @
     ''rect{stroke:#fff;stroke-width:.5}</style>''"

definition svg_head :: "string \<Rightarrow> string \<Rightarrow> string \<Rightarrow> string \<Rightarrow> string" where
  "svg_head height title overall truncation =
     ''<svg xmlns=\"http://www.w3.org/2000/svg\" viewBox=\"0 0 1200 '' @ height @ ''\" width=\"1200\" height=\"'' @
     height @ ''\" role=\"img\" aria-labelledby=\"title description\">'' @ [CHR 0x0A] @
     ''<title id=\"title\">'' @ title @ ''</title>'' @ [CHR 0x0A] @
     ''<desc id=\"description\">Flame graph with total '' @ overall @ truncation @ ''</desc>'' @ [CHR 0x0A] @
     svg_style @ [CHR 0x0A] @
     ''<rect width=\"100%\" height=\"100%\" fill=\"#f7f8fb\"/>'' @ [CHR 0x0A] @
     ''<text class=\"heading\" x=\"8\" y=\"22\">'' @ title @ ''</text>'' @ [CHR 0x0A] @
     ''<text class=\"summary\" x=\"8\" y=\"42\">Total: '' @ overall @ truncation @ ''</text>'' @ [CHR 0x0A]"

definition flame_document :: "string flame_node \<Rightarrow> bool \<Rightarrow> string \<Rightarrow> flame_unit \<Rightarrow> string" where
  "flame_document tree truncated title unit =
     (let depth = max (tree_depth tree) 1
      in svg_head (show_fixed 0 (of_nat (54 + depth * 18 + 8))) (escape_xml title)
           (format_value (flame_value tree) unit)
           (if truncated then ''; visualization limited to 100000 frames'' else []) @
         (if flame_value tree = 0
          then ''<text class=\"summary\" x=\"8\" y=\"72\">No positive samples in this window</text>'' @ [CHR 0x0A]
          else render_children tree 0 depth 0 1200 (flame_value tree) unit) @
         ''</svg>'' @ [CHR 0x0A])"

definition render_flamegraph :: "pprof \<Rightarrow> nat \<Rightarrow> string \<Rightarrow> flame_unit \<Rightarrow> string" where
  "render_flamegraph p index title unit =
     (case build_flame (flame_samples p index) of
        (tree, _, truncated) \<Rightarrow> flame_document tree truncated title unit)"

section \<open>What the tree stands for\<close>

fun flame_lookup :: "'l list \<Rightarrow> 'l flame_node \<Rightarrow> u64 option" where
  "flame_lookup [] t = Some (flame_value t)"
| "flame_lookup (l # ls) t =
     (case map_of (flame_children t) l of None \<Rightarrow> None | Some c \<Rightarrow> flame_lookup ls c)"

fun flame_wf :: "'l::linorder flame_node \<Rightarrow> bool" where
  "flame_wf (Flame_Node v cs) \<longleftrightarrow> bt_wf cs \<and> (\<forall>p \<in> set cs. flame_wf (snd p))"

fun flame_size :: "'l flame_node \<Rightarrow> nat" where
  "flame_size (Flame_Node v cs) = (\<Sum>p \<leftarrow> cs. Suc (flame_size (snd p)))"

lemma flame_size_tab: "flame_size t = tab_sum (\<lambda>c. Suc (flame_size c)) (flame_children t)"
  by (cases t) (simp add: tab_sum_def split_def)

lemma flame_wf_iff:
  "flame_wf t \<longleftrightarrow> bt_wf (flame_children t) \<and> (\<forall>p \<in> set (flame_children t). flame_wf (snd p))"
  by (cases t) simp

lemma bump_simps [simp]:
  "flame_value (bump v t) = sat_add (flame_value t) v" "flame_children (bump v t) = flame_children t"
  "flame_wf (bump v t) = flame_wf t" "flame_size (bump v t) = flame_size t"
  by (cases t; simp add: bump_def)+

lemma flame_default_simps [simp]:
  "flame_value flame_default = 0" "flame_children flame_default = []" "flame_wf flame_default"
  "flame_size flame_default = 0"
  by (simp_all add: flame_default_def)

lemma tab_sum_bt_put:
  "bt_wf m \<Longrightarrow> tab_sum g (bt_put k v m) + opt_measure g (map_of m k) = tab_sum g m + g v"
proof (induction m)
  case (Cons p m)
  have "map_of m k = None" if "k < fst p"
    using Cons.prems that by (auto simp: map_of_eq_None_keys dest: order.asym less_trans)
  with Cons show ?case by (cases p) auto
qed simp

lemma flame_wf_put:
  assumes "flame_wf t" "flame_wf c"
  shows "flame_wf (Flame_Node v (bt_put l c (flame_children t)))"
proof -
  have "set (bt_put l c m) \<subseteq> insert (l, c) (set m)" for m by (induction m) auto
  moreover have "bt_wf (flame_children t) \<and> (\<forall>p \<in> set (flame_children t). flame_wf (snd p))"
    using assms(1) by (cases t) simp
  ultimately show ?thesis using assms(2) by fastforce
qed

lemma flame_size_put:
  assumes "flame_wf t"
  shows "flame_size (Flame_Node v (bt_put l c (flame_children t))) +
      (case map_of (flame_children t) l of None \<Rightarrow> 0 | Some d \<Rightarrow> Suc (flame_size d)) =
    flame_size t + Suc (flame_size c)"
proof -
  have "bt_wf (flame_children t)" using assms by (cases t) simp
  from tab_sum_bt_put [OF this, of "\<lambda>c. Suc (flame_size c)" l c] show ?thesis
    by (cases "map_of (flame_children t) l"; subst (1 2) flame_size_tab; simp)
qed

definition looked_up :: "'l list \<Rightarrow> 'l flame_node \<Rightarrow> u64" where
  "looked_up p t = (case flame_lookup p t of None \<Rightarrow> 0 | Some v \<Rightarrow> v)"

text \<open>One insertion below a node.\<close>

lemma insert_below_spec:
  assumes "flame_wf t" "insert_below fs v t n b = (t', n', b')"
  shows "flame_wf t' \<and> flame_value t' = flame_value t \<and> n' + flame_size t = n + flame_size t' \<and>
    (n \<le> max_svg_nodes \<longrightarrow> n' \<le> max_svg_nodes) \<and> n \<le> n' \<and> (b \<longrightarrow> b') \<and> (b' \<longrightarrow> b \<or> max_svg_nodes \<le> n') \<and>
    (\<not> b' \<longrightarrow> (\<forall>p. p \<noteq> [] \<longrightarrow> flame_lookup p t' =
       (if prefix p fs then Some (sat_add (looked_up p t) v) else flame_lookup p t)))"
  using assms
proof (induction fs v t n b arbitrary: t' n' b' rule: insert_below.induct)
  case (1 v t n b)
  then show ?case by simp
next
  case step: (2 l ls v t n b)
  let ?old = "map_of (flame_children t) l"
  show ?case
  proof (cases "?old = None \<and> max_svg_nodes \<le> n")
    case True
    with step.prems show ?thesis by simp
  next
    case False
    define c where "c = (case ?old of None \<Rightarrow> flame_default | Some d \<Rightarrow> d)"
    define m where "m = (if ?old = None then n + 1 else n)"
    have wfc: "flame_wf c"
    proof (cases ?old)
      case None
      then show ?thesis by (simp add: c_def del: map_of_eq_None_iff)
    next
      case (Some d)
      from bspec [OF conjunct2 [OF step.prems(1) [unfolded flame_wf_iff [of t]]] map_of_SomeD [OF Some]] Some
      show ?thesis by (simp add: c_def)
    qed
    define c' n1 b1 where "c' = fst (insert_below ls v (bump v c) m b)"
      and "n1 = fst (snd (insert_below ls v (bump v c) m b))" and "b1 = snd (snd (insert_below ls v (bump v c) m b))"
    then have below: "insert_below ls v (bump v c) m b = (c', n1, b1)" by simp
    have res: "t' = Flame_Node (flame_value t) (bt_put l c' (flame_children t))" "n' = n1" "b' = b1"
    proof -
      have "(t', n', b') = (Flame_Node (flame_value t) (bt_put l c' (flame_children t)), n1, b1)"
      proof (cases ?old)
        case None
        then show ?thesis using step.prems(2) False below by (simp add: c_def m_def del: map_of_eq_None_iff)
      next
        case (Some d)
        then show ?thesis using step.prems(2) below by (simp add: c_def m_def)
      qed
      then show "t' = Flame_Node (flame_value t) (bt_put l c' (flame_children t))" "n' = n1" "b' = b1" by simp_all
    qed
    have IH: "flame_wf c' \<and> flame_value c' = flame_value (bump v c) \<and> n1 + flame_size (bump v c) = m + flame_size c' \<and>
        (m \<le> max_svg_nodes \<longrightarrow> n1 \<le> max_svg_nodes) \<and> m \<le> n1 \<and> (b \<longrightarrow> b1) \<and> (b1 \<longrightarrow> b \<or> max_svg_nodes \<le> n1) \<and>
        (\<not> b1 \<longrightarrow> (\<forall>p. p \<noteq> [] \<longrightarrow> flame_lookup p c' =
           (if prefix p ls then Some (sat_add (looked_up p (bump v c)) v) else flame_lookup p (bump v c))))"
    proof (cases ?old)
      case None
      then show ?thesis using step False below wfc by (simp add: c_def m_def) auto
    next
      case (Some d)
      then show ?thesis using step below wfc by (simp add: c_def m_def) auto
    qed
    have size: "flame_size t' + (case ?old of None \<Rightarrow> 0 | Some d \<Rightarrow> Suc (flame_size d)) = flame_size t + Suc (flame_size c')"
      using flame_size_put [OF step.prems(1)] by (simp add: res)
    have count: "n' + flame_size t = n + flame_size t'"
      using size IH by (cases ?old) (simp_all add: c_def m_def res)
    have look: "flame_lookup p t' = (if prefix p (l # ls) then Some (sat_add (looked_up p t) v) else flame_lookup p t)"
      if "\<not> b1" "p \<noteq> []" for p
    proof (cases p)
      case Nil
      with that show ?thesis by simp
    next
      case (Cons k q)
      have put: "map_of (bt_put l c' (flame_children t)) = (map_of (flame_children t))(l \<mapsto> c')"
        using step.prems(1) by (cases t) simp
      show ?thesis
      proof (cases "k = l")
        case False
        then show ?thesis by (simp add: Cons res put)
      next
        case True
        show ?thesis
        proof (cases "q = []")
          case True
          then show ?thesis
            using IH \<open>k = l\<close> by (cases ?old) (simp_all add: Cons res put looked_up_def c_def)
        next
          case False
          have below_q: "flame_lookup q (bump v c) = flame_lookup q c" "looked_up q (bump v c) = looked_up q c"
            using False by (cases q; simp add: looked_up_def)+
          have none: "flame_lookup q flame_default = None"
            using False by (cases q) simp_all
          show ?thesis
            using IH \<open>\<not> b1\<close> False \<open>k = l\<close>
            by (cases ?old) (simp_all add: Cons res put below_q, simp_all add: looked_up_def c_def none)
        qed
      qed
    qed
    have bounds: "(n \<le> max_svg_nodes \<longrightarrow> n' \<le> max_svg_nodes) \<and> n \<le> n'"
      using IH False by (cases ?old) (simp_all add: res m_def del: map_of_eq_None_iff)
    show ?thesis
    proof (intro conjI)
      show "flame_wf t'" using IH flame_wf_put [OF step.prems(1)] by (simp add: res(1) del: flame_wf.simps)
      show "\<not> b' \<longrightarrow> (\<forall>p. p \<noteq> [] \<longrightarrow> flame_lookup p t' =
          (if prefix p (l # ls) then Some (sat_add (looked_up p t) v) else flame_lookup p t))"
        using look res(3) by blast
    qed (use IH count bounds res in simp_all)
  qed
qed

text \<open>All samples: the value of a path is the saturated sum of the samples that go through it.\<close>

definition path_sum :: "'l list \<Rightarrow> ('l list \<times> u64) list \<Rightarrow> nat" where
  "path_sum p samples = (\<Sum>s \<leftarrow> filter (\<lambda>s. prefix p (fst s)) samples. unat (snd s))"

definition path_seen :: "'l list \<Rightarrow> ('l list \<times> u64) list \<Rightarrow> bool" where
  "path_seen p samples \<longleftrightarrow> (\<exists>s \<in> set samples. prefix p (fst s))"

definition flame_spec :: "('l::linorder list \<times> u64) list \<Rightarrow> 'l flame_node \<times> nat \<times> bool \<Rightarrow> bool" where
  "flame_spec samples st \<longleftrightarrow>
     (case st of (tree, count, truncated) \<Rightarrow>
        flame_wf tree \<and> count = flame_size tree \<and> count \<le> max_svg_nodes \<and>
        (truncated \<longrightarrow> count = max_svg_nodes) \<and>
        unat (flame_value tree) = min (path_sum [] samples) (2 ^ 64 - 1) \<and>
        (\<not> truncated \<longrightarrow> (\<forall>p. p \<noteq> [] \<longrightarrow> map_option unat (flame_lookup p tree) =
           (if path_seen p samples then Some (min (path_sum p samples) (2 ^ 64 - 1)) else None))))"

lemma path_sum_unseen: "\<not> path_seen p samples \<Longrightarrow> path_sum p samples = 0"
  by (auto simp: path_sum_def path_seen_def filter_empty_conv intro!: sum_list_0)

lemma flame_spec_insert:
  assumes "flame_spec samples st"
  shows "flame_spec (samples @ [s]) (insert_sample s st)"
proof -
  obtain tree n b where st: "st = (tree, n, b)" by (rule prod_cases3)
  obtain fs v where s: "s = (fs, v)" by (rule prod.exhaust)
  obtain tree' n' b' where run: "insert_below fs v (bump v tree) n b = (tree', n', b')" by (rule prod_cases3)
  have spec: "flame_wf tree" "n = flame_size tree" "n \<le> max_svg_nodes" "b \<longrightarrow> n = max_svg_nodes"
    "unat (flame_value tree) = min (path_sum [] samples) (2 ^ 64 - 1)"
    "\<not> b \<Longrightarrow> p \<noteq> [] \<Longrightarrow> map_option unat (flame_lookup p tree) =
       (if path_seen p samples then Some (min (path_sum p samples) (2 ^ 64 - 1)) else None)" for p
    using assms unfolding flame_spec_def st by (simp_all only: prod.case) blast+
  have ins: "flame_wf tree' \<and> flame_value tree' = sat_add (flame_value tree) v \<and> n' + flame_size tree = n + flame_size tree' \<and>
    (n \<le> max_svg_nodes \<longrightarrow> n' \<le> max_svg_nodes) \<and> n \<le> n' \<and> (b \<longrightarrow> b') \<and> (b' \<longrightarrow> b \<or> max_svg_nodes \<le> n') \<and>
    (\<not> b' \<longrightarrow> (\<forall>p. p \<noteq> [] \<longrightarrow> flame_lookup p tree' =
       (if prefix p fs then Some (sat_add (looked_up p (bump v tree)) v) else flame_lookup p (bump v tree))))"
    using insert_below_spec [OF _ run] spec(1) by simp
  have sum: "path_sum p (samples @ [s]) = path_sum p samples + (if prefix p fs then unat v else 0)"
    "path_seen p (samples @ [s]) = (path_seen p samples \<or> prefix p fs)" for p
    by (auto simp: path_sum_def path_seen_def s)
  have look: "map_option unat (flame_lookup p tree') =
      (if path_seen p (samples @ [s]) then Some (min (path_sum p (samples @ [s])) (2 ^ 64 - 1)) else None)"
    if "\<not> b'" "p \<noteq> []" for p
  proof -
    have "\<not> b" using ins that(1) by blast
    note old = spec(6) [OF this that(2)]
    have same: "flame_lookup p (bump v tree) = flame_lookup p tree" using that(2) by (cases p) simp_all
    have "unat (looked_up p tree) = min (path_sum p samples) (2 ^ 64 - 1)"
      using old path_sum_unseen [of p samples]
      by (cases "flame_lookup p tree") (auto simp: looked_up_def split: if_splits)
    moreover have "flame_lookup p tree' =
        (if prefix p fs then Some (sat_add (looked_up p tree) v) else flame_lookup p tree)"
      using ins that by (simp add: same looked_up_def)
    ultimately show ?thesis using old by (cases "prefix p fs") (simp_all add: sum unat_sat_add)
  qed
  have val: "unat (flame_value tree') = min (path_sum [] (samples @ [s])) (2 ^ 64 - 1)"
    using ins spec(5) by (simp add: sum unat_sat_add)
  have count: "n' = flame_size tree'" "n' \<le> max_svg_nodes" "b' \<longrightarrow> n' = max_svg_nodes"
    using ins spec(2-4) by auto
  have step: "insert_sample s st = (tree', n', b')" by (simp add: insert_sample_def st s run)
  show ?thesis
    unfolding flame_spec_def step prod.case using ins count val look by blast
qed

section \<open>Markup\<close>

definition is_markup :: "char \<Rightarrow> bool" where
  "is_markup c \<longleftrightarrow> c \<in> {CHR ''<'', CHR ''>'', CHR 0x22, CHR 0x27}"

abbreviation markup :: "string \<Rightarrow> string" where
  "markup \<equiv> filter is_markup"

lemma markup_escape_byte: "markup (escape_byte c) = []"
  by (simp add: escape_byte_def is_markup_def replacement_def)

lemma markup_replacement: "markup replacement = []"
  by (simp add: replacement_def is_markup_def)

lemma markup_escape: "markup (escape_xml s) = []"
  by (induction s rule: escape_xml.induct) (simp_all add: markup_escape_byte markup_replacement)

lemma digit_no_markup: "d < 36 \<Longrightarrow> \<not> is_markup (show_digit d)"
proof
  assume d: "d < 36" and m: "is_markup (show_digit d)"
  have "digit_value (show_digit d) = None" using m by (auto simp: is_markup_def digit_value_def)
  with digit_value_show [OF d] show False by simp
qed

lemma markup_show_radix: "2 \<le> b \<Longrightarrow> b \<le> 36 \<Longrightarrow> markup (show_radix b n) = []"
  unfolding filter_empty_conv by (metis digit_no_markup less_le_trans show_radix_chars)

lemma markup_show_places: "markup (show_places k n) = []"
  by (induction k arbitrary: n) (simp_all add: digit_no_markup)

lemma markup_show_fixed: "markup (show_fixed k x) = []"
  by (simp add: show_fixed_def Let_def markup_show_radix markup_show_places) (simp add: is_markup_def)

lemma markup_format_value: "markup (format_value v u) = []"
proof -
  have units: "markup '' s'' = []" "markup '' ms'' = []" "markup ([CHR '' '', CHR 0xC2, CHR 0xB5] @ ''s'') = []"
    "markup '' ns'' = []" "markup '' GiB'' = []" "markup '' MiB'' = []" "markup '' KiB'' = []" "markup '' B'' = []"
    by (simp_all add: is_markup_def)
  have scaled: "markup (format_scaled v k s) = markup s" for k s
    by (simp add: format_scaled_def markup_show_fixed)
  have plain: "markup (show_nat (unat v) @ s) = markup s" for s
    by (simp add: markup_show_radix)
  show ?thesis
    by (cases u) (simp_all only: format_value.simps if_distrib [of markup] units scaled plain if_cancel)
qed

lemma markup_frame_color: "markup (frame_color label) = []"
proof -
  have "markup (hex2 v) = []" for v by (simp add: hex2_def digit_no_markup)
  then show ?thesis by (simp add: frame_color_def Let_def) (simp add: is_markup_def)
qed

lemmas markup_parts = markup_escape markup_show_fixed markup_format_value markup_frame_color

lemma fitted_label_None: "fitted_label l w = None \<longleftrightarrow> fitted_label l' w = None"
  by (simp add: fitted_label_def Let_def)

lemma markup_frame_text:
  "markup (frame_text l v y x w t u) = markup (frame_text l' v y x w t u)"
proof (cases "fitted_label l w")
  case None
  then have "fitted_label l' w = None" using fitted_label_None by blast
  with None show ?thesis by (simp only: frame_text_def filter_append markup_parts append_Nil option.case)
next
  case (Some a)
  then obtain b where "fitted_label l' w = Some b" using fitted_label_None [of l w l'] by (cases "fitted_label l' w") auto
  with Some show ?thesis by (simp only: frame_text_def filter_append markup_parts append_Nil option.case)
qed

lemma flame_value_map [simp]: "flame_value (map_flame_node f t) = flame_value t"
  by (rule flame_node.map_sel)

lemma tree_depth_map: "tree_depth (map_flame_node f t) = tree_depth t"
proof (induction t)
  case (Flame_Node v cs)
  then have "tree_depth (map_flame_node f (snd p)) = tree_depth (snd p)" if "p \<in> set cs" for p
    using that by (cases p) auto
  then have "map (\<lambda>p. Suc (tree_depth (map_flame_node f (snd p)))) cs = map (\<lambda>p. Suc (tree_depth (snd p))) cs"
    by (simp cong: map_cong)
  from arg_cong [OF this, of "\<lambda>xs. fold max xs 0"] show ?case by (simp add: comp_def split_def)
qed

lemma markup_render:
  "markup (render_children (map_flame_node f t) d md x w v0 u) = markup (render_children t d md x w v0 u)"
  "markup (render_frames (map (map_prod f (map_flame_node f)) cs) v d md x w v0 u) =
   markup (render_frames cs v d md x w v0 u)"
proof (induction t d md x w v0 u and cs v d md x w v0 u rule: render_children_render_frames.induct)
  case (3 l c cs v d md x w v0 u)
  then show ?case
    using markup_frame_text [of "f l" _ _ _ _ _ _ l] by (simp add: Let_def)
qed simp_all

section \<open>Flame graphs\<close>

text \<open>C19: The tree never has more than 100000 frames and its total is the saturated sum of the samples;
  while nothing was cut, exactly the paths of the samples are in it, each with the saturated sum of the
  samples that go through it, and it is cut only when it is full.\<close>

theorem flame_tree_denotes:
  assumes "build_flame samples = (tree, count, truncated)"
  shows "flame_wf tree \<and> count = flame_size tree \<and> count \<le> 100000 \<and> (truncated \<longrightarrow> count = 100000) \<and>
    unat (flame_value tree) = min (\<Sum>s \<leftarrow> samples. unat (snd s)) (2 ^ 64 - 1) \<and>
    (\<not> truncated \<longrightarrow> (\<forall>p. p \<noteq> [] \<longrightarrow> map_option unat (flame_lookup p tree) =
       (if \<exists>s \<in> set samples. prefix p (fst s)
        then Some (min (\<Sum>s \<leftarrow> filter (\<lambda>s. prefix p (fst s)) samples. unat (snd s)) (2 ^ 64 - 1)) else None)))"
proof -
  have "flame_spec samples (build_flame samples)"
  proof (induction samples rule: rev_induct)
    case Nil
    have "flame_lookup p (flame_default :: 'a flame_node) = None" if "p \<noteq> []" for p
      using that by (cases p) simp_all
    then show ?case by (simp add: flame_spec_def build_flame_def path_sum_def path_seen_def)
  next
    case (snoc s samples)
    from flame_spec_insert [OF this, of s] show ?case by (simp add: build_flame_def)
  qed
  moreover have "path_sum [] samples = (\<Sum>s \<leftarrow> samples. unat (snd s))"
    by (simp add: path_sum_def)
  ultimately show ?thesis
    unfolding assms flame_spec_def prod.case path_seen_def path_sum_def max_svg_nodes_def by simp blast
qed

definition example_samples :: "(nat list \<times> u64) list" where
  "example_samples = [([1, 2], 3), ([1], 4), ([2], 5)]"

theorem flame_tree_denotes_witness:
  "map_option unat (flame_lookup [1] (fst (build_flame example_samples))) = Some 7"
proof -
  obtain tree n b where run: "build_flame example_samples = (tree, n, b)" by (rule prod_cases3)
  have "\<not> snd (snd (build_flame example_samples))"
    by (simp add: example_samples_def build_flame_def insert_sample_def flame_default_def bump_def max_svg_nodes_def)
  then have "\<not> b" by (simp add: run)
  with flame_tree_denotes [OF run] have "\<forall>p. p \<noteq> [] \<longrightarrow> map_option unat (flame_lookup p tree) =
      (if \<exists>s \<in> set example_samples. prefix p (fst s)
       then Some (min (\<Sum>s \<leftarrow> filter (\<lambda>s. prefix p (fst s)) example_samples. unat (snd s)) (2 ^ 64 - 1)) else None)"
    by blast
  from this [rule_format, of "[1]"] have "map_option unat (flame_lookup [1] tree) = Some 7"
    by (simp add: example_samples_def del: flame_lookup.simps One_nat_def)
  then show ?thesis by (simp only: run fst_conv)
qed

text \<open>C20: No frame label and no title can change the markup of the document: however labels and title are
  replaced, the brackets and quotes stay the same.\<close>

theorem flame_labels_inert:
  "markup (flame_document (map_flame_node f tree) truncated title' unit) =
   markup (flame_document tree truncated title unit)"
  by (simp only: flame_document_def svg_head_def Let_def tree_depth_map flame_value_map filter_append markup_parts
      markup_render if_distrib [of markup])

end
