(* ===== verification/Gallery.thy ===== *)
theory Gallery
  imports Window_Output Docker Flame
begin

text \<open>
  The gallery of Firefox profiles (\<open>src/src/platform/linux/serve_gallery.rs\<close>): listing the windows of a
  directory, finding one by its id, and decoding one, in JSON or in JSON with binary slabs, into the tables
  of the viewer, within limits on files, nesting, values, stacks, functions, threads and samples.

  Parameters (\<open>gallery_env\<close>): the directory, the size and contents of files, inflating, the JSON parser, the
  slab container and SHA-256. A JSON number is an integer or an \<open>f64\<close>, a rational that is finite; sums of
  \<open>f64\<close> are rounded as in \<open>Flame\<close>, and a sum of \<open>2 ^ 1024\<close> or more is infinite.
\<close>

section \<open>Data\<close>

datatype json_number = Pos_Int u64 | Neg_Int i64 | Float rat

datatype json =
  JNull
| JBool bool
| JNumber json_number
| JString string
| JArray "json list"
| JObject "(string \<times> json) list"

datatype slab_type =
  Slab_Int8 | Slab_Uint8 | Slab_Int16 | Slab_Uint16 | Slab_Int32 | Slab_Uint32 | Slab_Int64 | Slab_Uint64
| Slab_Float32 | Slab_Float64 | Slab_Json

record slab =
  sl_type :: slab_type
  sl_bytes :: "u8 list"
  sl_count :: nat

record slab_file =
  sf_root :: "u8 list"
  sf_slab :: "nat \<Rightarrow> slab option"

datatype gallery_source = One_Profile string | Profile_Directory string

record profile_entry =
  pe_id :: string
  pe_filename :: string
  pe_session :: string
  pe_window_index :: "u64 option"
  pe_started :: "i64 option"
  pe_format :: string
  pe_compressed_bytes :: u64
  pe_samples :: "u64 option"
  pe_dropped_samples :: "u64 option"
  pe_path :: string

record viewer_thread =
  vh_pid :: string
  vh_tid :: string
  vh_name :: string
  vh_times :: "rat list"
  vh_weights :: "i64 list"
  vh_cpu_deltas :: "rat list"
  vh_stack_indices :: "nat option list"

record viewer_profile =
  vp_profile :: profile_entry
  vp_start_time :: "rat option"
  vp_interval :: "rat option"
  vp_functions :: "string list"
  vp_stacks :: "nat list list"
  vp_threads :: "viewer_thread list"
  vp_sample_count :: nat
  vp_truncated :: bool

datatype gallery_error =
  Not_Readable string | Too_Large string | Name_Not_Utf8 | Gunzip_Failed string | Inflated_Too_Large
| Slab_File_Invalid | Json_Malformed | Nesting_Exceeded | Budget_Exceeded | Bad_Placeholder
| Cyclic_Placeholder nat | No_Slab nat | Float_Not_Finite | Missing_Field string | Wrong_Type string
| Too_Many string | Negative_Delta | Time_Overflow

record dir_item =
  dt_path :: string
  dt_is_file :: bool

record gallery_env =
  ge_directory :: "string \<Rightarrow> dir_item option list option"
  ge_size :: "string \<Rightarrow> u64 option"
  ge_diagnostics :: "string \<Rightarrow> u8 list option"
  ge_gunzip :: "string \<Rightarrow> nat \<Rightarrow> u8 list option"
  ge_json :: "u8 list \<Rightarrow> json option"
  ge_magic :: "u8 list"
  ge_slab_file :: "u8 list \<Rightarrow> slab_file option"
  ge_hash :: "string \<Rightarrow> string"
  ge_show_float :: "rat \<Rightarrow> string"

definition max_profile_bytes :: u64 where "max_profile_bytes = 536870912"
definition max_decoded_bytes :: nat where "max_decoded_bytes = 134217728"
definition max_diagnostic_bytes :: nat where "max_diagnostic_bytes = 1048576"
definition max_directory_entries :: nat where "max_directory_entries = 16384"
definition max_gallery_profiles :: nat where "max_gallery_profiles = 4096"
definition max_expanded_values :: nat where "max_expanded_values = 4000000"
definition max_viewer_samples :: nat where "max_viewer_samples = 65536"
definition max_viewer_stacks :: nat where "max_viewer_stacks = 65536"
definition max_viewer_functions :: nat where "max_viewer_functions = 262144"
definition max_viewer_threads :: nat where "max_viewer_threads = 4096"
definition max_stack_depth :: nat where "max_stack_depth = 512"

section \<open>Values\<close>

definition json_int :: "int \<Rightarrow> json" where
  "json_int i = JNumber (if i < 0 then Neg_Int (word_of_int i) else Pos_Int (word_of_int i))"

fun as_u64 :: "json \<Rightarrow> u64 option" where
  "as_u64 (JNumber (Pos_Int n)) = Some n"
| "as_u64 _ = None"

fun as_i64 :: "json \<Rightarrow> i64 option" where
  "as_i64 (JNumber (Pos_Int n)) = (if unat n < 2 ^ 63 then Some n else None)"
| "as_i64 (JNumber (Neg_Int n)) = Some n"
| "as_i64 _ = None"

definition f64_of_int :: "int \<Rightarrow> rat" where
  "f64_of_int i = (if i < 0 then - round_f64 (of_int (- i)) else round_f64 (of_int i))"

fun as_f64 :: "json \<Rightarrow> rat option" where
  "as_f64 (JNumber (Pos_Int n)) = Some (f64_of_int (uint n))"
| "as_f64 (JNumber (Neg_Int n)) = Some (f64_of_int (sint n))"
| "as_f64 (JNumber (Float x)) = Some x"
| "as_f64 _ = None"

fun as_str :: "json \<Rightarrow> string option" where
  "as_str (JString s) = Some s"
| "as_str _ = None"

fun as_array :: "json \<Rightarrow> json list option" where
  "as_array (JArray xs) = Some xs"
| "as_array _ = None"

fun as_object :: "json \<Rightarrow> (string, json) table option" where
  "as_object (JObject kvs) = Some kvs"
| "as_object _ = None"

definition json_get :: "json \<Rightarrow> string \<Rightarrow> json option" where
  "json_get v k = (case as_object v of None \<Rightarrow> None | Some kvs \<Rightarrow> map_of kvs k)"

text \<open>Collecting results: the first failure is the result.\<close>

fun collect_results :: "('e + 'a) list \<Rightarrow> 'e + 'a list" where
  "collect_results [] = Inr []"
| "collect_results (Inl e # rs) = Inl e"
| "collect_results (Inr x # rs) =
     (case collect_results rs of Inl e \<Rightarrow> Inl e | Inr xs \<Rightarrow> Inr (x # xs))"

text \<open>The question mark operator.\<close>

definition then_ok :: "'e + 'a \<Rightarrow> ('a \<Rightarrow> 'e + 'b) \<Rightarrow> 'e + 'b" where
  "then_ok r f = (case r of Inl e \<Rightarrow> Inl e | Inr x \<Rightarrow> f x)"

definition ok_or :: "'e \<Rightarrow> 'a option \<Rightarrow> 'e + 'a" where
  "ok_or e x = (case x of None \<Rightarrow> Inl e | Some a \<Rightarrow> Inr a)"

text \<open>\<open>from_le_bytes\<close> of floats; \<open>None\<close> for infinities and NaN.\<close>

definition float_of_bits :: "nat \<Rightarrow> nat \<Rightarrow> nat \<Rightarrow> rat option" where
  "float_of_bits ebits mbits n =
     (let m = n mod 2 ^ mbits;
          e = n div 2 ^ mbits mod 2 ^ ebits;
          s = n div 2 ^ (mbits + ebits);
          bias = int (2 ^ (ebits - 1)) - 1;
          magnitude =
            (if e = 0 then of_nat m * 2 powi (1 - bias - int mbits)
             else of_nat (2 ^ mbits + m) * 2 powi (int e - bias - int mbits))
      in if e = 2 ^ ebits - 1 then None else Some (if s = 1 then - magnitude else magnitude))"

function chunks_exact :: "nat \<Rightarrow> 'a list \<Rightarrow> 'a list list" where
  "chunks_exact n xs = (if n = 0 \<or> length xs < n then [] else take n xs # chunks_exact n (drop n xs))"
  by pat_completeness auto
termination by (relation "measure (length \<circ> snd)") auto

declare chunks_exact.simps [simp del]

definition signed_chunk :: "nat \<Rightarrow> u8 list \<Rightarrow> json" where
  "signed_chunk w bs =
     (let n = int (nat_of_bytes bs) in json_int (if n < 2 ^ (w - 1) then n else n - 2 ^ w))"

definition unsigned_chunk :: "u8 list \<Rightarrow> json" where
  "unsigned_chunk bs = json_int (int (nat_of_bytes bs))"

definition float_chunk :: "nat \<Rightarrow> nat \<Rightarrow> u8 list \<Rightarrow> gallery_error + json" where
  "float_chunk ebits mbits bs =
     map_sum id (JNumber \<circ> Float) (ok_or Float_Not_Finite (float_of_bits ebits mbits (nat_of_bytes bs)))"

text \<open>\<open>Slab_Json\<close> does not reach this point.\<close>

fun slab_values :: "slab_type \<Rightarrow> u8 list \<Rightarrow> gallery_error + json list" where
  "slab_values Slab_Int8 bs = Inr (map (signed_chunk 8) (chunks_exact 1 bs))"
| "slab_values Slab_Uint8 bs = Inr (map unsigned_chunk (chunks_exact 1 bs))"
| "slab_values Slab_Int16 bs = Inr (map (signed_chunk 16) (chunks_exact 2 bs))"
| "slab_values Slab_Uint16 bs = Inr (map unsigned_chunk (chunks_exact 2 bs))"
| "slab_values Slab_Int32 bs = Inr (map (signed_chunk 32) (chunks_exact 4 bs))"
| "slab_values Slab_Uint32 bs = Inr (map unsigned_chunk (chunks_exact 4 bs))"
| "slab_values Slab_Int64 bs = Inr (map (signed_chunk 64) (chunks_exact 8 bs))"
| "slab_values Slab_Uint64 bs = Inr (map unsigned_chunk (chunks_exact 8 bs))"
| "slab_values Slab_Float32 bs = collect_results (map (float_chunk 8 23) (chunks_exact 4 bs))"
| "slab_values Slab_Float64 bs = collect_results (map (float_chunk 11 52) (chunks_exact 8 bs))"
| "slab_values Slab_Json bs = Inr []"

section \<open>Expanding slabs\<close>

definition consume :: "nat \<Rightarrow> nat \<Rightarrow> gallery_error + nat" where
  "consume n budget = (if n \<le> budget then Inr (budget - n) else Inl Budget_Exceeded)"

definition placeholder :: "json \<Rightarrow> json option" where
  "placeholder v =
     (case v of JObject [(k, x)] \<Rightarrow> (if k = ''$s'' then Some x else None) | _ \<Rightarrow> None)"

text \<open>A placeholder is active while it is expanded; the set is as before afterwards, and is passed down.
  The budget is threaded.\<close>

function (sequential) expand_slabs ::
    "(u8 list \<Rightarrow> json option) \<Rightarrow> slab_file \<Rightarrow> json \<Rightarrow> nat \<Rightarrow> nat list \<Rightarrow> nat \<Rightarrow> gallery_error + json \<times> nat"
  and expand_all ::
    "(u8 list \<Rightarrow> json option) \<Rightarrow> slab_file \<Rightarrow> json list \<Rightarrow> nat \<Rightarrow> nat list \<Rightarrow> nat \<Rightarrow> gallery_error + json list \<times> nat"
where
  "expand_slabs parse sf v depth active budget =
     (if 64 < depth then Inl Nesting_Exceeded
      else case placeholder v of
        Some x \<Rightarrow>
          (case as_u64 x of
             None \<Rightarrow> Inl Bad_Placeholder
           | Some w \<Rightarrow>
               if unat w \<in> set active then Inl (Cyclic_Placeholder (unat w))
               else case sf_slab sf (unat w) of
                 None \<Rightarrow> Inl (No_Slab (unat w))
               | Some s \<Rightarrow>
                   if sl_type s = Slab_Json then
                     (case parse (sl_bytes s) of
                        None \<Rightarrow> Inl Json_Malformed
                      | Some sub \<Rightarrow> expand_slabs parse sf sub (depth + 1) (unat w # active) budget)
                   else
                     (case consume (sl_count s) budget of
                        Inl e \<Rightarrow> Inl e
                      | Inr budget' \<Rightarrow> map_sum id (\<lambda>xs. (JArray xs, budget')) (slab_values (sl_type s) (sl_bytes s))))
      | None \<Rightarrow>
          (case v of
             JObject kvs \<Rightarrow>
               (case consume (length kvs) budget of
                  Inl e \<Rightarrow> Inl e
                | Inr budget' \<Rightarrow>
                    map_sum id (\<lambda>(xs, b). (JObject (zip (map fst kvs) xs), b))
                      (expand_all parse sf (map snd kvs) (depth + 1) active budget'))
           | JArray xs \<Rightarrow>
               (case consume (length xs) budget of
                  Inl e \<Rightarrow> Inl e
                | Inr budget' \<Rightarrow> map_sum id (\<lambda>(xs, b). (JArray xs, b)) (expand_all parse sf xs (depth + 1) active budget'))
           | _ \<Rightarrow> map_sum id (\<lambda>b. (v, b)) (consume 1 budget)))"
| "expand_all parse sf [] depth active budget = Inr ([], budget)"
| "expand_all parse sf (x # xs) depth active budget =
     (case expand_slabs parse sf x depth active budget of
        Inl e \<Rightarrow> Inl e
      | Inr (y, budget') \<Rightarrow>
          (case expand_all parse sf xs depth active budget' of
             Inl e \<Rightarrow> Inl e | Inr (ys, budget'') \<Rightarrow> Inr (y # ys, budget'')))"
  by pat_completeness auto
termination
  by (relation "measures [case_sum (\<lambda>(_, _, _, d, _). 66 - d) (\<lambda>(_, _, _, d, _). 66 - d),
      case_sum (\<lambda>_. 0) (\<lambda>(_, _, xs, _). Suc (length xs))]") auto

declare expand_slabs.simps [simp del]

text \<open>The same limits for plain JSON.\<close>

function (sequential) validate_budget :: "json \<Rightarrow> nat \<Rightarrow> nat \<Rightarrow> gallery_error + nat"
  and validate_all :: "json list \<Rightarrow> nat \<Rightarrow> nat \<Rightarrow> gallery_error + nat" where
  "validate_budget v depth budget =
     (if 64 < depth then Inl Nesting_Exceeded
      else case v of
        JObject kvs \<Rightarrow>
          (case consume (length kvs) budget of
             Inl e \<Rightarrow> Inl e | Inr b \<Rightarrow> validate_all (map snd kvs) (depth + 1) b)
      | JArray xs \<Rightarrow>
          (case consume (length xs) budget of Inl e \<Rightarrow> Inl e | Inr b \<Rightarrow> validate_all xs (depth + 1) b)
      | _ \<Rightarrow> consume 1 budget)"
| "validate_all [] depth budget = Inr budget"
| "validate_all (x # xs) depth budget =
     (case validate_budget x depth budget of Inl e \<Rightarrow> Inl e | Inr b \<Rightarrow> validate_all xs depth b)"
  by pat_completeness auto
termination
  by (relation "measures [case_sum (\<lambda>(_, d, _). 66 - d) (\<lambda>(_, d, _). 66 - d),
      case_sum (\<lambda>_. 0) (\<lambda>(xs, _). Suc (length xs))]") auto

declare validate_budget.simps [simp del]

section \<open>Decoding a profile\<close>

definition json_field :: "(string, json) table \<Rightarrow> string \<Rightarrow> gallery_error + json" where
  "json_field kvs name = ok_or (Missing_Field name) (map_of kvs name)"

definition object_map :: "(string, json) table \<Rightarrow> string \<Rightarrow> gallery_error + (string, json) table" where
  "object_map kvs name =
     (case json_field kvs name of Inl e \<Rightarrow> Inl e | Inr v \<Rightarrow> ok_or (Wrong_Type name) (as_object v))"

definition column :: "(json \<Rightarrow> 'a option) \<Rightarrow> json \<Rightarrow> gallery_error + 'a list" where
  "column as v =
     (case as_array v of
        None \<Rightarrow> Inl (Wrong_Type ''column'')
      | Some xs \<Rightarrow> collect_results (map (\<lambda>x. ok_or (Wrong_Type ''value'') (as x)) xs))"

abbreviation string_array where "string_array \<equiv> column as_str"
abbreviation integer_array where "integer_array \<equiv> column as_i64"
abbreviation float_array where "float_array \<equiv> column as_f64"

definition optional_i64 :: "json \<Rightarrow> i64 option option" where
  "optional_i64 v = (if v = JNull then Some None else map_option Some (as_i64 v))"

definition field_column ::
  "(json \<Rightarrow> 'a option) \<Rightarrow> (string, json) table \<Rightarrow> string \<Rightarrow> gallery_error + 'a list" where
  "field_column as kvs name = (case json_field kvs name of Inl e \<Rightarrow> Inl e | Inr v \<Rightarrow> column as v)"

text \<open>\<open>usize::try_from\<close> of an \<open>i64\<close>.\<close>

definition usize_of :: "i64 \<Rightarrow> nat option" where
  "usize_of i = (if 0 \<le> sint i then Some (nat (sint i)) else None)"

definition nth_opt :: "'a list \<Rightarrow> nat \<Rightarrow> 'a option" where
  "nth_opt xs i = (if i < length xs then Some (xs ! i) else None)"

definition function_name :: "string list \<Rightarrow> i64 \<Rightarrow> string" where
  "function_name strings i =
     (case usize_of i of
        None \<Rightarrow> ''<unknown>''
      | Some n \<Rightarrow> (case nth_opt strings n of None \<Rightarrow> ''<unknown>'' | Some s \<Rightarrow> s))"

record stack_tables =
  sb_offsets :: "i64 list"
  sb_frames :: "i64 list"
  sb_functions :: "i64 list"

definition frame_at :: "stack_tables \<Rightarrow> nat \<Rightarrow> nat option" where
  "frame_at t i = (case nth_opt (sb_frames t) i of None \<Rightarrow> None | Some f \<Rightarrow> usize_of f)"

definition function_at :: "stack_tables \<Rightarrow> nat \<Rightarrow> nat option" where
  "function_at t f = (case nth_opt (sb_functions t) f of None \<Rightarrow> None | Some g \<Rightarrow> usize_of g)"

definition parent_of :: "stack_tables \<Rightarrow> nat \<Rightarrow> nat option" where
  "parent_of t i =
     (let offset = sint (sb_offsets t ! i)
      in if 0 < offset \<and> nat offset \<le> i then Some (i - nat offset) else None)"

text \<open>The loop over the prefixes of a stack, leaf first.\<close>

function walk_stack :: "stack_tables \<Rightarrow> nat \<Rightarrow> nat list \<Rightarrow> nat list \<Rightarrow> nat list" where
  "walk_stack t i reversed seen =
     (if length reversed = max_stack_depth \<or> i \<in> set seen then reversed
      else case frame_at t i of
        None \<Rightarrow> reversed
      | Some f \<Rightarrow>
          (let reversed' = (case function_at t f of None \<Rightarrow> reversed | Some g \<Rightarrow> reversed @ [g])
           in case parent_of t i of
                None \<Rightarrow> reversed'
              | Some j \<Rightarrow> walk_stack t j reversed' (i # seen)))"
  by pat_completeness auto
termination
  by (relation "measure (\<lambda>(_, i, _). i)") (auto simp: parent_of_def Let_def split: if_splits)

declare walk_stack.simps [simp del]

definition stack_functions :: "stack_tables \<Rightarrow> nat \<Rightarrow> nat list" where
  "stack_functions t i = rev (walk_stack t i [] [])"

text \<open>Sample times: each delta is added, negative deltas and sums that are not finite are errors.\<close>

fun sample_times :: "rat \<Rightarrow> rat list \<Rightarrow> gallery_error + rat list" where
  "sample_times elapsed [] = Inr []"
| "sample_times elapsed (d # ds) =
     (if d < 0 then Inl Negative_Delta
      else let t = round_f64 (elapsed + d)
           in if 2 ^ 1024 \<le> t then Inl Time_Overflow
              else case sample_times t ds of Inl e \<Rightarrow> Inl e | Inr ts \<Rightarrow> Inr (t # ts))"

definition display_id :: "gallery_env \<Rightarrow> json option \<Rightarrow> string" where
  "display_id env v =
     (case v of
        Some (JString s) \<Rightarrow> s
      | Some (JNumber (Pos_Int n)) \<Rightarrow> show_nat (unat n)
      | Some (JNumber (Neg_Int n)) \<Rightarrow> show_int (sint n)
      | Some (JNumber (Float x)) \<Rightarrow> ge_show_float env x
      | _ \<Rightarrow> ''?'')"

definition build_thread ::
  "gallery_env \<Rightarrow> nat \<Rightarrow> (string, json) table \<Rightarrow> i64 option list \<Rightarrow> i64 list \<Rightarrow> rat list \<Rightarrow> rat list \<Rightarrow>
   gallery_error + viewer_thread \<times> nat \<times> bool" where
  "build_thread env so_far thread stacks weights deltas cpu =
     (let available = min (min (length stacks) (length weights)) (length deltas);
          n = min available (max_viewer_samples - so_far)
      in then_ok (sample_times 0 (take n deltas)) (\<lambda>elapsed.
         Inr (\<lparr>vh_pid = display_id env (map_of thread ''pid''), vh_tid = display_id env (map_of thread ''tid''),
               vh_name = (case Option.bind (map_of thread ''name'') as_str of
                  Some s \<Rightarrow> s | None \<Rightarrow> ''Unnamed thread''),
               vh_times = elapsed, vh_weights = take n weights, vh_cpu_deltas = take n cpu,
               vh_stack_indices = map (\<lambda>i. Option.bind i usize_of) (take n stacks)\<rparr>,
              n, n < available)))"

definition decode_thread ::
  "gallery_env \<Rightarrow> nat \<Rightarrow> json \<Rightarrow> gallery_error + viewer_thread \<times> nat \<times> bool" where
  "decode_thread env so_far v =
     then_ok (ok_or (Wrong_Type ''thread'') (as_object v)) (\<lambda>thread.
     then_ok (object_map thread ''samples'') (\<lambda>samples.
     then_ok (field_column optional_i64 samples ''stack'') (\<lambda>stacks.
     then_ok (field_column as_i64 samples ''weight'') (\<lambda>weights.
     then_ok (field_column as_f64 samples ''timeDeltas'') (\<lambda>deltas.
     then_ok (case map_of samples ''threadCPUDelta'' of None \<Rightarrow> Inr [] | Some c \<Rightarrow> float_array c) (\<lambda>cpu.
     build_thread env so_far thread stacks weights deltas cpu))))))"

text \<open>The loop over the threads; it ends early when the sample limit is reached.\<close>

fun decode_threads ::
  "gallery_env \<Rightarrow> nat \<Rightarrow> bool \<Rightarrow> json list \<Rightarrow> gallery_error + viewer_thread list \<times> nat \<times> bool" where
  "decode_threads env so_far truncated [] = Inr ([], so_far, truncated)"
| "decode_threads env so_far truncated (v # vs) =
     (case decode_thread env so_far v of
        Inl e \<Rightarrow> Inl e
      | Inr (th, n, part) \<Rightarrow>
          if so_far + n = max_viewer_samples
          then Inr ([th], so_far + n, truncated \<or> part \<or> vs \<noteq> [])
          else case decode_threads env (so_far + n) (truncated \<or> part) vs of
                 Inl e \<Rightarrow> Inl e
               | Inr (ths, n', tr) \<Rightarrow> Inr (th # ths, n', tr))"

definition build_viewer ::
  "gallery_env \<Rightarrow> profile_entry \<Rightarrow> (string, json) table \<Rightarrow> string list \<Rightarrow> stack_tables \<Rightarrow> i64 list \<Rightarrow>
   gallery_error + viewer_profile" where
  "build_viewer env entry doc strings tables names =
     (if max_viewer_stacks < length (sb_offsets tables) then Inl (Too_Many ''stacks'')
      else if max_viewer_functions < length names then Inl (Too_Many ''functions'')
      else then_ok (json_field doc ''threads'') (\<lambda>ts.
      then_ok (ok_or (Wrong_Type ''threads'') (as_array ts)) (\<lambda>threads.
      if max_viewer_threads < length threads then Inl (Too_Many ''threads'')
      else then_ok (decode_threads env 0 False threads) (\<lambda>(ths, n, truncated).
      (let meta = Option.bind (map_of doc ''meta'') as_object;
           meta_f64 = (\<lambda>k. Option.bind meta (\<lambda>m. Option.bind (map_of m k) as_f64))
       in Inr \<lparr>vp_profile = entry, vp_start_time = meta_f64 ''startTime'', vp_interval = meta_f64 ''interval'',
               vp_functions = map (function_name strings) names,
               vp_stacks = map (stack_functions tables)
                 [0..<min (length (sb_offsets tables)) (length (sb_frames tables))],
               vp_threads = ths, vp_sample_count = n, vp_truncated = truncated\<rparr>)))))"

definition decode_root :: "gallery_env \<Rightarrow> profile_entry \<Rightarrow> json \<Rightarrow> gallery_error + viewer_profile" where
  "decode_root env entry v =
     then_ok (ok_or (Wrong_Type ''root'') (as_object v)) (\<lambda>doc.
     then_ok (object_map doc ''shared'') (\<lambda>shared.
     then_ok (field_column as_str shared ''stringArray'') (\<lambda>strings.
     then_ok (object_map shared ''stackTable'') (\<lambda>stack_table.
     then_ok (object_map shared ''frameTable'') (\<lambda>frame_table.
     then_ok (object_map shared ''funcTable'') (\<lambda>func_table.
     then_ok (field_column as_i64 stack_table ''prefixOffset'') (\<lambda>offsets.
     then_ok (field_column as_i64 stack_table ''frame'') (\<lambda>frames.
     then_ok (field_column as_i64 frame_table ''func'') (\<lambda>funcs.
     then_ok (field_column as_i64 func_table ''name'') (\<lambda>names.
     build_viewer env entry doc strings \<lparr>sb_offsets = offsets, sb_frames = frames, sb_functions = funcs\<rparr> names))))))))))"

definition read_gzip_bounded :: "gallery_env \<Rightarrow> string \<Rightarrow> gallery_error + u8 list" where
  "read_gzip_bounded env path =
     (case ge_gunzip env path (max_decoded_bytes + 1) of
        None \<Rightarrow> Inl (Gunzip_Failed path)
      | Some bs \<Rightarrow> if max_decoded_bytes < length bs then Inl Inflated_Too_Large else Inr bs)"

definition decode_value :: "gallery_env \<Rightarrow> u8 list \<Rightarrow> gallery_error + json" where
  "decode_value env bs =
     (if take (length (ge_magic env)) bs = ge_magic env then
        (case ge_slab_file env bs of None \<Rightarrow> Inl Slab_File_Invalid | Some sf \<Rightarrow>
         case ge_json env (sf_root sf) of None \<Rightarrow> Inl Json_Malformed | Some v \<Rightarrow>
         map_sum id fst (expand_slabs (ge_json env) sf v 0 [] max_expanded_values))
      else
        (case ge_json env bs of None \<Rightarrow> Inl Json_Malformed | Some v \<Rightarrow>
         map_sum id (\<lambda>_. v) (validate_budget v 0 max_expanded_values)))"

definition gallery_decode :: "gallery_env \<Rightarrow> profile_entry \<Rightarrow> gallery_error + viewer_profile" where
  "gallery_decode env entry =
     (case read_gzip_bounded env (pe_path entry) of Inl e \<Rightarrow> Inl e | Inr bs \<Rightarrow>
      case decode_value env bs of Inl e \<Rightarrow> Inl e | Inr v \<Rightarrow> decode_root env entry v)"

section \<open>Listing\<close>

definition rsplit_once :: "char \<Rightarrow> string \<Rightarrow> (string \<times> string) option" where
  "rsplit_once c s = map_option (\<lambda>(a, b). (rev b, rev a)) (split_once c (rev s))"

text \<open>The stem of a window: prefix and suffix are stripped, without a known suffix nothing is.\<close>

definition profile_stem :: "string \<Rightarrow> string" where
  "profile_stem filename =
     (let rest = (case strip_prefix ''firefox-'' filename of Some r \<Rightarrow> r | None \<Rightarrow> filename)
      in case strip_suffix ''.json.gz'' rest of
           Some s \<Rightarrow> s
         | None \<Rightarrow> (case strip_suffix ''.jslb.gz'' rest of Some s \<Rightarrow> s | None \<Rightarrow> filename))"

text \<open>\<open>rsplitn(3, '-')\<close>: start time, window index and session.\<close>

definition stem_parts :: "string \<Rightarrow> i64 option \<times> u64 option \<times> string" where
  "stem_parts stem =
     (case rsplit_once (CHR ''-'') stem of
        None \<Rightarrow> (map_option word_of_int (parse_signed 64 10 stem), None, stem)
      | Some (before, started) \<Rightarrow>
          (case rsplit_once (CHR ''-'') before of
             None \<Rightarrow> (map_option word_of_int (parse_signed 64 10 started), parse_radix 10 before, stem)
           | Some (session, index) \<Rightarrow>
               (map_option word_of_int (parse_signed 64 10 started), parse_radix 10 index, session)))"

definition sibling :: "string \<Rightarrow> string \<Rightarrow> string" where
  "sibling path name =
     (if CHR ''/'' \<in> set (strip_slashes path) then join_name (parent_dir path) name else name)"

definition diagnostics_path :: "string \<Rightarrow> string \<Rightarrow> string" where
  "diagnostics_path path stem = sibling path (''diagnostics-'' @ stem @ ''.json'')"

definition sample_counts :: "gallery_env \<Rightarrow> string \<Rightarrow> string \<Rightarrow> u64 option \<times> u64 option" where
  "sample_counts env path stem =
     (case ge_diagnostics env (diagnostics_path path stem) of
        None \<Rightarrow> (None, None)
      | Some bs \<Rightarrow>
          if max_diagnostic_bytes < length bs then (None, None)
          else (case ge_json env bs of
                  None \<Rightarrow> (None, None)
                | Some v \<Rightarrow>
                    (let number = (\<lambda>k. Option.bind (json_get v ''firefox'') (\<lambda>f. Option.bind (json_get f k) as_u64))
                     in (number ''samples'', number ''dropped_samples''))))"

definition entry_for :: "gallery_env \<Rightarrow> string \<Rightarrow> gallery_error + profile_entry" where
  "entry_for env path =
     (case ge_size env path of
        None \<Rightarrow> Inl (Not_Readable path)
      | Some n \<Rightarrow>
          if max_profile_bytes < n then Inl (Too_Large path)
          else case path_file_name path of
            None \<Rightarrow> Inl Name_Not_Utf8
          | Some filename \<Rightarrow>
              if \<not> valid_utf8 filename then Inl Name_Not_Utf8
              else (let stem = profile_stem filename;
                        (started, index, session) = stem_parts stem;
                        (samples, dropped) = sample_counts env path stem
                    in Inr \<lparr>pe_id = ge_hash env filename, pe_filename = filename, pe_session = session,
                            pe_window_index = index, pe_started = started,
                            pe_format = (if ends_with ''.jslb.gz'' path then ''jslb'' else ''json''),
                            pe_compressed_bytes = n, pe_samples = samples, pe_dropped_samples = dropped,
                            pe_path = path\<rparr>))"

definition is_firefox_profile :: "string \<Rightarrow> bool" where
  "is_firefox_profile path =
     (case path_file_name path of
        None \<Rightarrow> False
      | Some name \<Rightarrow>
          valid_utf8 name \<and> starts_with ''firefox-'' name \<and>
          (ends_with ''.json.gz'' name \<or> ends_with ''.jslb.gz'' name))"

definition directory_entry :: "gallery_env \<Rightarrow> dir_item option \<Rightarrow> profile_entry option" where
  "directory_entry env item =
     (case item of
        None \<Rightarrow> None
      | Some it \<Rightarrow>
          if dt_is_file it \<and> is_firefox_profile (dt_path it)
          then (case entry_for env (dt_path it) of Inl _ \<Rightarrow> None | Inr entry \<Rightarrow> Some entry)
          else None)"

definition started_key :: "profile_entry \<Rightarrow> int" where
  "started_key entry = (case pe_started entry of None \<Rightarrow> - (2 ^ 63) - 1 | Some t \<Rightarrow> sint t)"

text \<open>A stable sort, latest start first, then by name descending.\<close>

definition sort_entries :: "profile_entry list \<Rightarrow> profile_entry list" where
  "sort_entries es = rev (sort_key started_key (sort_key pe_filename (rev es)))"

definition gallery_entries :: "gallery_env \<Rightarrow> gallery_source \<Rightarrow> gallery_error + profile_entry list" where
  "gallery_entries env source =
     map_sum id (\<lambda>es. take max_gallery_profiles (sort_entries es))
       (case source of
          One_Profile path \<Rightarrow> map_sum id (\<lambda>e. [e]) (entry_for env path)
        | Profile_Directory directory \<Rightarrow>
            (case ge_directory env directory of
               None \<Rightarrow> Inl (Not_Readable directory)
             | Some items \<Rightarrow> Inr (List.map_filter (directory_entry env) (take max_directory_entries items))))"

definition gallery_find :: "gallery_env \<Rightarrow> gallery_source \<Rightarrow> string \<Rightarrow> gallery_error + profile_entry option" where
  "gallery_find env source i = map_sum id (List.find (\<lambda>e. pe_id e = i)) (gallery_entries env source)"

text \<open>The files that listing touches, in order: the directory is read, each candidate is inspected, and once its
  size and name are accepted the diagnostics file beside it is opened.\<close>

datatype gallery_access = Read_Directory string | Inspect_Profile string | Read_Diagnostics string

definition entry_accesses :: "gallery_env \<Rightarrow> string \<Rightarrow> gallery_access list" where
  "entry_accesses env path =
     Inspect_Profile path #
       (case ge_size env path of
          None \<Rightarrow> []
        | Some n \<Rightarrow>
            if max_profile_bytes < n then []
            else case path_file_name path of
              None \<Rightarrow> []
            | Some filename \<Rightarrow>
                if \<not> valid_utf8 filename then []
                else [Read_Diagnostics (diagnostics_path path (profile_stem filename))])"

definition item_accesses :: "gallery_env \<Rightarrow> dir_item option \<Rightarrow> gallery_access list" where
  "item_accesses env item =
     (case item of
        None \<Rightarrow> []
      | Some it \<Rightarrow>
          if dt_is_file it \<and> is_firefox_profile (dt_path it) then entry_accesses env (dt_path it) else [])"

definition listing_accesses :: "gallery_env \<Rightarrow> gallery_source \<Rightarrow> gallery_access list" where
  "listing_accesses env source =
     (case source of
        One_Profile path \<Rightarrow> entry_accesses env path
      | Profile_Directory directory \<Rightarrow>
          Read_Directory directory #
            (case ge_directory env directory of
               None \<Rightarrow> []
             | Some items \<Rightarrow> concat (map (item_accesses env) (take max_directory_entries items))))"

section \<open>Laws\<close>

text \<open>The accesses are all that listing depends on: where two file systems agree on them, the listing and its
  accesses are the same.\<close>

definition agree_on :: "gallery_env \<Rightarrow> gallery_env \<Rightarrow> gallery_access \<Rightarrow> bool" where
  "agree_on env env' a =
     (case a of
        Read_Directory d \<Rightarrow> ge_directory env' d = ge_directory env d
      | Inspect_Profile p \<Rightarrow> ge_size env' p = ge_size env p
      | Read_Diagnostics p \<Rightarrow> ge_diagnostics env' p = ge_diagnostics env p)"

lemma agree_on_simps [simp]:
  "agree_on env env' (Read_Directory d) \<longleftrightarrow> ge_directory env' d = ge_directory env d"
  "agree_on env env' (Inspect_Profile p) \<longleftrightarrow> ge_size env' p = ge_size env p"
  "agree_on env env' (Read_Diagnostics p) \<longleftrightarrow> ge_diagnostics env' p = ge_diagnostics env p"
  by (simp_all add: agree_on_def)

lemma entry_local:
  assumes "ge_json env' = ge_json env" "ge_hash env' = ge_hash env" "\<forall>a \<in> set (entry_accesses env path). agree_on env env' a"
  shows "entry_for env' path = entry_for env path \<and> entry_accesses env' path = entry_accesses env path"
proof -
  have size: "ge_size env' path = ge_size env path" using assms(3) by (simp add: entry_accesses_def)
  have "sample_counts env' path (profile_stem filename) = sample_counts env path (profile_stem filename)"
    if "ge_size env path = Some n" "\<not> max_profile_bytes < n" "path_file_name path = Some filename" "valid_utf8 filename"
    for n filename
  proof -
    have "ge_diagnostics env' (diagnostics_path path (profile_stem filename)) =
        ge_diagnostics env (diagnostics_path path (profile_stem filename))"
      using assms(3) that by (simp add: entry_accesses_def)
    then show ?thesis by (simp only: sample_counts_def assms(1))
  qed
  then show ?thesis
    by (auto simp: entry_for_def entry_accesses_def size assms(2) Let_def split: option.split)
qed

lemma item_local:
  assumes "ge_json env' = ge_json env" "ge_hash env' = ge_hash env" "\<forall>a \<in> set (item_accesses env item). agree_on env env' a"
  shows "directory_entry env' item = directory_entry env item \<and> item_accesses env' item = item_accesses env item"
  using assms entry_local [OF assms(1, 2)]
  by (cases item) (auto simp: directory_entry_def item_accesses_def split: sum.split if_splits)

lemma listing_local:
  assumes "ge_json env' = ge_json env" "ge_hash env' = ge_hash env"
    and "\<forall>a \<in> set (listing_accesses env source). agree_on env env' a"
  shows "gallery_entries env' source = gallery_entries env source \<and>
    listing_accesses env' source = listing_accesses env source"
proof (cases source)
  case (One_Profile path)
  with assms entry_local [OF assms(1, 2)] show ?thesis by (simp add: gallery_entries_def listing_accesses_def)
next
  case (Profile_Directory directory)
  with assms(3) have dir: "ge_directory env' directory = ge_directory env directory"
    by (simp add: listing_accesses_def)
  show ?thesis
  proof (cases "ge_directory env directory")
    case None
    with Profile_Directory dir show ?thesis by (simp add: gallery_entries_def listing_accesses_def)
  next
    case (Some items)
    have "directory_entry env' it = directory_entry env it \<and> item_accesses env' it = item_accesses env it"
      if "it \<in> set (take max_directory_entries items)" for it
      using assms(3) that by (intro item_local [OF assms(1, 2)]) (auto simp: Profile_Directory Some listing_accesses_def)
    then have maps: "map (directory_entry env') (take max_directory_entries items) =
        map (directory_entry env) (take max_directory_entries items)"
      "map (item_accesses env') (take max_directory_entries items) =
        map (item_accesses env) (take max_directory_entries items)"
      by (auto intro!: map_cong)
    have filters: "List.map_filter f xs = List.map_filter id (map f xs)"
      for f :: "dir_item option \<Rightarrow> profile_entry option" and xs
      by (induction xs) (simp_all add: List.map_filter_def)
    show ?thesis
      using dir by (simp only: gallery_entries_def listing_accesses_def Profile_Directory Some
          gallery_source.case option.case maps filters [of "directory_entry env'"] filters [of "directory_entry env"])
  qed
qed

text \<open>The candidates of a source, and what listing may touch: the source, the candidates, and beside each the
  diagnostics file of its name.\<close>

definition candidates :: "gallery_env \<Rightarrow> gallery_source \<Rightarrow> string set" where
  "candidates env source =
     (case source of
        One_Profile path \<Rightarrow> {path}
      | Profile_Directory directory \<Rightarrow>
          {dt_path it |it items. ge_directory env directory = Some items \<and>
             Some it \<in> set (take 16384 items) \<and> dt_is_file it \<and> is_firefox_profile (dt_path it)})"

definition access_allowed :: "gallery_env \<Rightarrow> gallery_source \<Rightarrow> gallery_access \<Rightarrow> bool" where
  "access_allowed env source a =
     (case a of
        Read_Directory d \<Rightarrow> source = Profile_Directory d
      | Inspect_Profile p \<Rightarrow> p \<in> candidates env source
      | Read_Diagnostics p \<Rightarrow>
          (\<exists>q \<in> candidates env source. \<exists>name. path_file_name q = Some name \<and>
             p = sibling q (''diagnostics-'' @ profile_stem name @ ''.json'')))"

lemma entry_accesses_allowed:
  "a \<in> set (entry_accesses env q) \<Longrightarrow> q \<in> candidates env source \<Longrightarrow> access_allowed env source a"
  unfolding entry_accesses_def access_allowed_def diagnostics_path_def
  by (fastforce simp del: append.simps append_assoc split: option.splits if_splits)

lemma listing_allowed: "a \<in> set (listing_accesses env source) \<Longrightarrow> access_allowed env source a"
proof (cases source)
  case (One_Profile path)
  assume "a \<in> set (listing_accesses env source)"
  with One_Profile show ?thesis
    by (intro entry_accesses_allowed [where q = path]) (simp_all add: listing_accesses_def candidates_def)
next
  case (Profile_Directory directory)
  assume a: "a \<in> set (listing_accesses env source)"
  show ?thesis
  proof (cases "a = Read_Directory directory")
    case True
    with Profile_Directory show ?thesis by (simp add: access_allowed_def)
  next
    case False
    with a obtain items item where items: "ge_directory env directory = Some items"
      "item \<in> set (take max_directory_entries items)" "a \<in> set (item_accesses env item)"
      by (force simp: listing_accesses_def Profile_Directory split: option.splits)
    then obtain it where it: "item = Some it" "dt_is_file it" "is_firefox_profile (dt_path it)"
      "a \<in> set (entry_accesses env (dt_path it))"
      by (auto simp: item_accesses_def split: option.splits if_splits)
    have "dt_path it \<in> candidates env source"
      using items it by (auto simp: candidates_def Profile_Directory max_directory_entries_def)
    with it(4) show ?thesis by (rule entry_accesses_allowed)
  qed
qed

text \<open>The stack of an entry of the table, root first, without the limit.\<close>

function stack_path :: "stack_tables \<Rightarrow> nat \<Rightarrow> nat list" where
  "stack_path t i =
     (case frame_at t i of
        None \<Rightarrow> []
      | Some f \<Rightarrow>
          (case parent_of t i of None \<Rightarrow> [] | Some j \<Rightarrow> stack_path t j) @
          (case function_at t f of None \<Rightarrow> [] | Some g \<Rightarrow> [g]))"
  by pat_completeness auto
termination
  by (relation "measure snd") (auto simp: parent_of_def Let_def split: if_splits)

declare stack_path.simps [simp del]

lemma parent_of_less: "parent_of t i = Some j \<Longrightarrow> j < i"
  by (auto simp: parent_of_def Let_def split: if_splits)

lemma walk_stack_path:
  assumes "\<forall>k \<in> set seen. i < k" "length reversed \<le> max_stack_depth"
  shows "walk_stack t i reversed seen = take max_stack_depth (reversed @ rev (stack_path t i))"
  using assms
proof (induction t i reversed seen rule: walk_stack.induct)
  case (1 t i reversed seen)
  have fresh: "i \<notin> set seen" using "1.prems"(1) by blast
  show ?case
  proof (cases "length reversed = max_stack_depth")
    case True
    then show ?thesis by (subst walk_stack.simps) simp
  next
    case room: False
    show ?thesis
    proof (cases "frame_at t i")
      case None
      then show ?thesis using fresh room "1.prems"(2)
        by (subst walk_stack.simps, subst stack_path.simps) simp
    next
      case (Some f)
      define r' where "r' = (case function_at t f of None \<Rightarrow> reversed | Some g \<Rightarrow> reversed @ [g])"
      have len: "length r' \<le> max_stack_depth"
        using room "1.prems"(2) by (auto simp: r'_def split: option.split)
      show ?thesis
      proof (cases "parent_of t i")
        case None
        then show ?thesis using fresh room Some len
          by (subst walk_stack.simps, subst stack_path.simps) (auto simp: r'_def split: option.splits)
      next
        case (Some j)
        have "\<forall>k \<in> set (i # seen). j < k"
          using "1.prems"(1) parent_of_less [OF Some] by auto
        from "1.IH" [OF _ \<open>frame_at t i = Some f\<close> r'_def Some this len] fresh room
        have "walk_stack t j r' (i # seen) = take max_stack_depth (r' @ rev (stack_path t j))" by simp
        moreover have "r' @ rev (stack_path t j) = reversed @ rev (stack_path t i)"
          by (subst (2) stack_path.simps)
            (simp add: \<open>frame_at t i = Some f\<close> Some r'_def split: option.split)
        ultimately show ?thesis using fresh room \<open>frame_at t i = Some f\<close> Some
          by (subst walk_stack.simps) (simp add: r'_def [symmetric])
      qed
    qed
  qed
qed

lemma length_collect: "collect_results rs = Inr xs \<Longrightarrow> length xs = length rs"
  by (induction rs arbitrary: xs rule: collect_results.induct) (auto split: sum.splits)

lemma length_sample_times: "sample_times e ds = Inr ts \<Longrightarrow> length ts = length ds"
  by (induction e ds arbitrary: ts rule: sample_times.induct) (auto simp: Let_def split: sum.splits if_splits)

lemma then_ok_Inr: "then_ok r f = Inr y \<longleftrightarrow> (\<exists>x. r = Inr x \<and> f x = Inr y)"
  by (cases r) (simp_all add: then_ok_def)

definition thread_samples :: "viewer_thread \<Rightarrow> nat" where
  "thread_samples th = length (vh_times th)"

definition thread_aligned :: "viewer_thread \<Rightarrow> bool" where
  "thread_aligned th \<longleftrightarrow>
     length (vh_weights th) = thread_samples th \<and> length (vh_stack_indices th) = thread_samples th \<and>
     length (vh_cpu_deltas th) \<le> thread_samples th"

lemma build_thread_ok:
  assumes "build_thread env so_far thread stacks weights deltas cpu = Inr (th, n, part)"
  shows "thread_aligned th \<and> thread_samples th = n \<and> n \<le> max_viewer_samples - so_far"
proof -
  define m where "m = min (min (min (length stacks) (length weights)) (length deltas)) (max_viewer_samples - so_far)"
  have m: "m \<le> length stacks" "m \<le> length weights" "m \<le> length deltas" "m \<le> max_viewer_samples - so_far"
    by (simp_all add: m_def)
  obtain elapsed where ts: "sample_times 0 (take m deltas) = Inr elapsed"
    using assms unfolding build_thread_def Let_def m_def [symmetric] then_ok_Inr by (elim exE conjE)
  obtain pid tid name where res: "th = \<lparr>vh_pid = pid, vh_tid = tid, vh_name = name, vh_times = elapsed,
      vh_weights = take m weights, vh_cpu_deltas = take m cpu,
      vh_stack_indices = map (\<lambda>i. Option.bind i usize_of) (take m stacks)\<rparr>" "n = m"
    using assms unfolding build_thread_def Let_def m_def [symmetric] ts then_ok_def sum.case sum.inject prod.inject
    by (elim conjE) metis
  have "length elapsed = m" using length_sample_times [OF ts] m by simp
  then show ?thesis using m by (simp add: thread_aligned_def thread_samples_def res)
qed

lemma decode_thread_ok:
  assumes "decode_thread env so_far v = Inr (th, n, part)"
  shows "thread_aligned th" "thread_samples th = n" "n \<le> max_viewer_samples - so_far"
  using assms build_thread_ok unfolding decode_thread_def then_ok_Inr by blast+

lemma decode_threads_ok:
  assumes "decode_threads env so_far truncated vs = Inr (ths, n, tr)" "so_far \<le> max_viewer_samples"
  shows "(\<forall>th \<in> set ths. thread_aligned th) \<and> n = so_far + (\<Sum>th \<leftarrow> ths. thread_samples th) \<and>
    n \<le> max_viewer_samples \<and> length ths \<le> length vs"
  using assms
proof (induction env so_far truncated vs arbitrary: ths n tr rule: decode_threads.induct)
  case (2 env so_far truncated v vs)
  obtain th m part where one: "decode_thread env so_far v = Inr (th, m, part)"
    using "2.prems"(1) by (auto split: sum.splits)
  note ok = decode_thread_ok [OF one]
  show ?case
  proof (cases "so_far + m = max_viewer_samples")
    case True
    then show ?thesis using "2.prems"(1) one ok by auto
  next
    case False
    then obtain ths' where rest: "decode_threads env (so_far + m) (truncated \<or> part) vs = Inr (ths', n, tr)"
      "ths = th # ths'"
      using "2.prems"(1) one by (auto split: sum.splits)
    have "so_far + m \<le> max_viewer_samples" using ok(3) "2.prems"(2) by simp
    from "2.IH" [OF one refl refl False rest(1) this] show ?thesis using ok by (simp add: rest(2))
  qed
qed simp

text \<open>The values below a value, and how deep they are nested.\<close>

fun json_below :: "json \<Rightarrow> nat" where
  "json_below (JArray xs) = (\<Sum>x \<leftarrow> xs. Suc (json_below x))"
| "json_below (JObject kvs) = (\<Sum>p \<leftarrow> kvs. Suc (json_below (snd p)))"
| "json_below _ = 0"

fun json_depth :: "json \<Rightarrow> nat" where
  "json_depth (JArray xs) = Suc (foldr (\<lambda>x. max (json_depth x)) xs 0)"
| "json_depth (JObject kvs) = Suc (foldr (\<lambda>p. max (json_depth (snd p))) kvs 0)"
| "json_depth _ = 0"

definition all_below :: "json list \<Rightarrow> nat" where
  "all_below xs = (\<Sum>x \<leftarrow> xs. json_below x)"

definition all_depth :: "json list \<Rightarrow> nat" where
  "all_depth xs = foldr (\<lambda>x. max (json_depth x)) xs 0"

lemma all_simps [simp]:
  "all_below [] = 0" "all_below (x # xs) = json_below x + all_below xs"
  "all_depth [] = 0" "all_depth (x # xs) = max (json_depth x) (all_depth xs)"
  by (simp_all add: all_below_def all_depth_def)

lemma json_below_array: "json_below (JArray xs) = length xs + all_below xs"
  by (induction xs) simp_all

lemma json_depth_array: "json_depth (JArray xs) = Suc (all_depth xs)"
  by (simp add: all_depth_def)

lemma json_object_map:
  "json_below (JObject kvs) = length kvs + all_below (map snd kvs)"
  "json_depth (JObject kvs) = Suc (all_depth (map snd kvs))"
  by (induction kvs) simp_all

lemma length_chunks_exact: "0 < n \<Longrightarrow> length (chunks_exact n xs) = length xs div n"
proof (induction n xs rule: chunks_exact.induct)
  case (1 n xs)
  show ?case
  proof (cases "length xs < n")
    case True
    then show ?thesis by (subst chunks_exact.simps) simp
  next
    case False
    then show ?thesis using 1 by (subst chunks_exact.simps) (simp add: le_div_geq)
  qed
qed

definition slab_width :: "slab_type \<Rightarrow> nat" where
  "slab_width k =
     (if k \<in> {Slab_Int8, Slab_Uint8} then 1 else if k \<in> {Slab_Int16, Slab_Uint16} then 2
      else if k \<in> {Slab_Int32, Slab_Uint32, Slab_Float32} then 4 else 8)"

text \<open>What the slab library promises: \<open>element_count\<close> counts the elements.\<close>

definition slab_counts :: "slab_file \<Rightarrow> bool" where
  "slab_counts sf \<longleftrightarrow>
     (\<forall>i s. sf_slab sf i = Some s \<longrightarrow> length (sl_bytes s) div slab_width (sl_type s) \<le> sl_count s)"

lemma scalar_chunks:
  "json_below (signed_chunk w bs) = 0" "json_below (unsigned_chunk bs) = 0"
  "json_depth (signed_chunk w bs) = 0" "json_depth (unsigned_chunk bs) = 0"
  by (simp_all add: signed_chunk_def unsigned_chunk_def json_int_def Let_def)

lemma scalar_maps:
  "all_below (map (signed_chunk w) xs) = 0" "all_below (map unsigned_chunk xs) = 0"
  "all_depth (map (signed_chunk w) xs) = 0" "all_depth (map unsigned_chunk xs) = 0"
  by (induction xs) (simp_all add: scalar_chunks)

lemma float_chunks_scalar:
  "collect_results (map (float_chunk e m) cs) = Inr xs \<Longrightarrow> all_below xs = 0 \<and> all_depth xs = 0 \<and> length xs = length cs"
proof (induction cs arbitrary: xs)
  case (Cons c cs)
  then show ?case
    by (cases "float_of_bits e m (nat_of_bytes c)") (auto simp: float_chunk_def ok_or_def split: sum.splits)
qed simp

lemma slab_values_scalar:
  assumes "slab_values k bs = Inr xs"
  shows "all_below xs = 0 \<and> all_depth xs = 0 \<and> length xs \<le> length bs div slab_width k"
proof (cases k)
  case Slab_Float32
  with assms have "collect_results (map (float_chunk 8 23) (chunks_exact 4 bs)) = Inr xs" by simp
  from float_chunks_scalar [OF this] Slab_Float32 show ?thesis by (simp add: slab_width_def length_chunks_exact)
next
  case Slab_Float64
  with assms have "collect_results (map (float_chunk 11 52) (chunks_exact 8 bs)) = Inr xs" by simp
  from float_chunks_scalar [OF this] Slab_Float64 show ?thesis by (simp add: slab_width_def length_chunks_exact)
qed (use assms in \<open>auto simp: slab_width_def length_chunks_exact scalar_maps\<close>)

lemma consume_Inr: "consume n b = Inr b' \<longleftrightarrow> n \<le> b \<and> b' = b - n"
  by (auto simp: consume_def)

lemma map_sum_Inr: "map_sum id f r = Inr y \<longleftrightarrow> (\<exists>x. r = Inr x \<and> y = f x)"
  by (cases r) auto

lemma placeholder_None_cases:
  "placeholder (JArray xs) = None" "placeholder JNull = None" "placeholder (JBool b) = None"
  "placeholder (JNumber n) = None" "placeholder (JString s) = None"
  by (simp_all add: placeholder_def)

lemma expand_bounded:
  shows "expand_slabs parse sf v depth active b = Inr (w, b') \<Longrightarrow> slab_counts sf \<Longrightarrow>
      json_below w + b' \<le> b \<and> json_depth w + depth \<le> 65"
    and "expand_all parse sf vs depth active b = Inr (ws, b') \<Longrightarrow> slab_counts sf \<Longrightarrow>
      length ws = length vs \<and> all_below ws + b' \<le> b \<and> (ws \<noteq> [] \<longrightarrow> all_depth ws + depth \<le> 65)"
proof (induction parse sf v depth active b and parse sf vs depth active b arbitrary: w b' and ws b'
    rule: expand_slabs_expand_all.induct)
  case (1 parse sf v depth active b)
  have depth: "depth \<le> 64" using "1.prems"(1) by (subst (asm) expand_slabs.simps) (simp split: if_splits)
  show ?case
  proof (cases "placeholder v")
    case ph: (Some x)
    show ?thesis
    proof (cases "as_u64 x")
      case None
      then show ?thesis using "1.prems"(1) depth ph by (subst (asm) expand_slabs.simps) simp
    next
      case index: (Some i)
      have fresh: "unat i \<notin> set active"
        using "1.prems"(1) depth ph index by (subst (asm) expand_slabs.simps) (simp split: if_splits)
      obtain s where s: "sf_slab sf (unat i) = Some s"
        using "1.prems"(1) depth ph index fresh by (subst (asm) expand_slabs.simps) (simp split: option.splits)
      show ?thesis
      proof (cases "sl_type s = Slab_Json")
        case True
        obtain sub where sub: "parse (sl_bytes s) = Some sub"
          using "1.prems"(1) depth ph index fresh s True by (subst (asm) expand_slabs.simps) (simp split: option.splits)
        have run: "expand_slabs parse sf sub (depth + 1) (unat i # active) b = Inr (w, b')"
          using "1.prems"(1) depth ph index fresh s True sub by (subst (asm) expand_slabs.simps) simp
        have "\<not> 64 < depth" using depth by simp
        from "1.IH"(3) [OF this ph index fresh s True sub run "1.prems"(2)] show ?thesis by simp
      next
        case False
        obtain xs where xs: "sl_count s \<le> b" "b' = b - sl_count s" "slab_values (sl_type s) (sl_bytes s) = Inr xs"
          "w = JArray xs"
          using "1.prems"(1) depth ph index fresh s False
          by (subst (asm) expand_slabs.simps) (auto simp: consume_def map_sum_Inr split: if_splits)
        have "length (sl_bytes s) div slab_width (sl_type s) \<le> sl_count s"
          by (rule "1.prems"(2) [unfolded slab_counts_def, rule_format, OF s])
        then have "length xs \<le> sl_count s" using slab_values_scalar [OF xs(3)] by linarith
        then show ?thesis
          using slab_values_scalar [OF xs(3)] xs depth by (simp only: json_below_array json_depth_array) simp
      qed
    qed
  next
    case none: None
    show ?thesis
    proof (cases v)
      case (JArray xs)
      obtain ys b1 where ys: "length xs \<le> b" "expand_all parse sf xs (depth + 1) active (b - length xs) = Inr (ys, b')"
        "w = JArray ys"
        using "1.prems"(1) depth none JArray
        by (subst (asm) expand_slabs.simps) (auto simp: consume_def map_sum_Inr split: if_splits)
      have "\<not> 64 < depth" "consume (length xs) b = Inr (b - length xs)" using depth ys by (simp_all add: consume_def)
      note rest = "1.IH"(1) [OF this(1) none JArray this(2) ys(2) "1.prems"(2)]
      have "length ys + all_below ys + b' \<le> b" using rest ys(1) by linarith
      moreover have "Suc (all_depth ys) + depth \<le> 65" using rest depth by (cases "ys = []") simp_all
      ultimately show ?thesis by (simp only: ys(3) json_below_array json_depth_array)
    next
      case (JObject kvs)
      obtain ys where ys: "length kvs \<le> b" "expand_all parse sf (map snd kvs) (depth + 1) active (b - length kvs) = Inr (ys, b')"
        "w = JObject (zip (map fst kvs) ys)"
        using "1.prems"(1) depth none JObject
        by (subst (asm) expand_slabs.simps) (auto simp: consume_def map_sum_Inr split: if_splits)
      have "\<not> 64 < depth" "consume (length kvs) b = Inr (b - length kvs)" using depth ys by (simp_all add: consume_def)
      note rest = "1.IH"(2) [OF this(1) none JObject this(2) ys(2) "1.prems"(2)]
      have "length ys = length kvs" "all_below ys + b' \<le> b - length kvs" using rest by simp_all
      then have "length ys + all_below ys + b' \<le> b" using ys(1) by linarith
      moreover have "Suc (all_depth ys) + depth \<le> 65" using rest depth by (cases "ys = []") simp_all
      ultimately show ?thesis using rest by (simp add: ys(3) json_object_map del: json_below.simps json_depth.simps)
    qed (use "1.prems"(1) depth none in \<open>subst (asm) expand_slabs.simps; auto simp: consume_def split: if_splits\<close>)+
  qed
next
  case (3 parse sf x xs depth active b)
  obtain y b1 ys where steps: "expand_slabs parse sf x depth active b = Inr (y, b1)"
    "expand_all parse sf xs depth active b1 = Inr (ys, b')" "ws = y # ys"
    using "3.prems"(1) by (auto split: sum.splits)
  from "3.IH"(1) [OF steps(1) "3.prems"(2)] "3.IH"(2) [OF steps(1) refl steps(2) "3.prems"(2)] show ?case
    by (cases "ys = []") (auto simp: steps(3))
qed simp

lemma validate_bounded:
  shows "validate_budget v depth b = Inr b' \<Longrightarrow> json_below v + b' \<le> b \<and> json_depth v + depth \<le> 65"
    and "validate_all vs depth b = Inr b' \<Longrightarrow> all_below vs + b' \<le> b \<and> (vs \<noteq> [] \<longrightarrow> all_depth vs + depth \<le> 65)"
proof (induction v depth b and vs depth b arbitrary: b' and b' rule: validate_budget_validate_all.induct)
  case (1 v depth b)
  have depth: "depth \<le> 64" using "1.prems" by (subst (asm) validate_budget.simps) (simp split: if_splits)
  then have nd: "\<not> 64 < depth" by simp
  show ?case
  proof (cases v)
    case (JArray xs)
    have ok: "length xs \<le> b" "validate_all xs (depth + 1) (b - length xs) = Inr b'"
      using "1.prems" depth JArray by (subst (asm) validate_budget.simps; auto simp: consume_def split: if_splits)+
    have "consume (length xs) b = Inr (b - length xs)" using ok by (simp add: consume_def)
    note rest = "1.IH"(1) [OF nd JArray this ok(2)]
    have "all_below xs + b' \<le> b - length xs" using rest by blast
    then have "length xs + all_below xs + b' \<le> b" using ok(1) by linarith
    moreover have "Suc (all_depth xs) + depth \<le> 65" using rest depth by (cases "xs = []") simp_all
    ultimately show ?thesis by (simp only: JArray json_below_array json_depth_array)
  next
    case (JObject kvs)
    have ok: "length kvs \<le> b" "validate_all (map snd kvs) (depth + 1) (b - length kvs) = Inr b'"
      using "1.prems" depth JObject by (subst (asm) validate_budget.simps; auto simp: consume_def split: if_splits)+
    have "consume (length kvs) b = Inr (b - length kvs)" using ok by (simp add: consume_def)
    note rest = "1.IH"(2) [OF nd JObject this ok(2)]
    have "all_below (map snd kvs) + b' \<le> b - length kvs" using rest by blast
    then have "length kvs + all_below (map snd kvs) + b' \<le> b" using ok(1) by linarith
    moreover have "Suc (all_depth (map snd kvs)) + depth \<le> 65" using rest depth by (cases "kvs = []") simp_all
    ultimately show ?thesis by (simp only: JObject json_object_map)
  qed (use "1.prems" depth in \<open>subst (asm) validate_budget.simps; auto simp: consume_def split: if_splits\<close>)+
next
  case (3 x xs depth b)
  obtain b1 where steps: "validate_budget x depth b = Inr b1" "validate_all xs depth b1 = Inr b'"
    using "3.prems" by (auto split: sum.splits)
  from "3.IH"(1) [OF steps(1)] "3.IH"(2) [OF steps] show ?case by (cases "xs = []") auto
qed simp

lemma split_on_mid: "split_on c (s @ c # t) = split_on c s @ split_on c t"
proof (induction s)
  case (Cons x xs)
  then show ?case by (cases "split_on c xs") (auto split: list.split)
qed simp

lemma path_file_name_join:
  assumes "CHR ''/'' \<notin> set name" "name \<noteq> []" "name \<noteq> ''.''" "name \<noteq> ''..''"
  shows "path_file_name (join_name dir name) = Some name"
proof -
  have one: "path_file_name name = Some name"
    using assms by (simp add: path_file_name_def split_on_none)
  have two: "path_file_name (d @ ''/'' @ name) = Some name" for d
    using assms by (simp add: path_file_name_def split_on_mid split_on_none)
  show ?thesis
  proof (cases "dir = []")
    case True
    with one show ?thesis by (simp add: join_name_def)
  next
    case False
    show ?thesis
    proof (cases "ends_with ''/'' dir")
      case True
      then obtain d where "dir = d @ ''/''" by (auto simp: ends_with_iff)
      with two [of d] True show ?thesis by (simp add: join_name_def)
    next
      case False
      with two [of dir] \<open>dir \<noteq> []\<close> show ?thesis by (simp add: join_name_def)
    qed
  qed
qed

lemma rsplit_once_last: "CHR ''-'' \<notin> set y \<Longrightarrow> rsplit_once (CHR ''-'') (x @ CHR ''-'' # y) = Some (x, y)"
  by (simp add: rsplit_once_def split_once_append)

lemma head_not_sign:
  assumes "parse_digits 10 0 s = Some n" "s \<noteq> []"
  shows "hd s \<noteq> CHR ''+'' \<and> hd s \<noteq> CHR ''-''"
proof -
  obtain c cs where s: "s = c # cs" using assms(2) by (cases s) auto
  then obtain d where d: "to_digit 10 c = Some d" using assms(1) by (auto split: option.splits)
  have "to_digit 10 CHR ''+'' = None" "to_digit 10 CHR ''-'' = None" by (simp_all add: to_digit_def digit_value_def)
  with d s show ?thesis by auto
qed

lemma parse_stem:
  assumes "unat w = index" "0 \<le> sint started"
  shows "stem_parts (window_basename session index started) = (Some started, Some w, session)"
proof -
  have shown: "show_int (sint started) = show_nat (nat (sint started))" using assms(2) by (simp add: show_int_def)
  have nodash: "CHR ''-'' \<notin> set (show_nat (nat (sint started)))" by (rule show_radix_no_char) simp_all
  have first: "rsplit_once (CHR ''-'') (window_basename session index started) =
      Some (session @ CHR ''-'' # pad_index index, show_nat (nat (sint started)))"
    using rsplit_once_last [OF nodash, of "session @ CHR ''-'' # pad_index index"]
    by (simp add: window_basename_def shown)
  have second: "rsplit_once (CHR ''-'') (session @ CHR ''-'' # pad_index index) = Some (session, pad_index index)"
    by (rule rsplit_once_last [OF pad_index_no_dash])
  have digits: "parse_digits 10 0 (show_nat (nat (sint started))) = Some (nat (sint started))"
    by (rule parse_digits_show) simp_all
  have "nat (sint started) < 2 ^ 63" using sint_range_i64(2) [of started] assms(2) by (simp add: nat_less_iff)
  then have started: "parse_signed 64 10 (show_nat (nat (sint started))) = Some (sint started)"
    using head_not_sign [OF digits] assms(2) by (simp add: parse_signed_def digits Let_def)
  have nonempty: "pad_index index \<noteq> []" by (simp add: pad_index_def)
  have idx: "parse_radix 10 (pad_index index) = Some w"
    using head_not_sign [OF parse_pad_index nonempty] nonempty unat_lt_2p [of w] assms(1)
    by (auto simp: parse_radix_def parse_pad_index Let_def)
  show ?thesis by (simp add: stem_parts_def first second started idx)
qed

lemma profile_stem_window:
  assumes "ext \<in> {''.json.gz'', ''.jslb.gz''}"
  shows "profile_stem (''firefox-'' @ base @ ext) = base"
proof -
  have pre: "strip_prefix ''firefox-'' (''firefox-'' @ base @ ext) = Some (base @ ext)"
    unfolding strip_prefix_Some by simp
  show ?thesis
  proof (cases "ext = ''.json.gz''")
    case True
    then have "strip_suffix ''.json.gz'' (base @ ext) = Some base" unfolding strip_suffix_Some by simp
    then show ?thesis by (simp only: profile_stem_def Let_def pre option.case)
  next
    case False
    with assms have ext: "ext = ''.jslb.gz''" by simp
    have "strip_suffix ''.json.gz'' (base @ ext) = None"
      by (simp add: strip_suffix_def ends_with_def ext)
    moreover have "strip_suffix ''.jslb.gz'' (base @ ext) = Some base" unfolding strip_suffix_Some by (simp add: ext)
    ultimately show ?thesis by (simp only: profile_stem_def Let_def pre option.case)
  qed
qed

section \<open>The gallery\<close>

text \<open>C21: A window that the recorder wrote is listed under its session, index and start time: the name of
  the file is taken apart as it was put together, whatever the session is called.\<close>

theorem gallery_entry_roundtrip:
  assumes "path = join_name dir (''firefox-'' @ window_basename session (unat index) started @ ext)"
    and "ext \<in> {''.json.gz'', ''.jslb.gz''}" "CHR ''/'' \<notin> set session" "0 \<le> sint started"
    and "valid_utf8 (''firefox-'' @ window_basename session (unat index) started @ ext)"
    and "ge_size env path = Some n" "n \<le> max_profile_bytes"
  shows "is_firefox_profile path \<and>
    (\<exists>entry. entry_for env path = Inr entry \<and> pe_session entry = session \<and> pe_window_index entry = Some index \<and>
       pe_started entry = Some started \<and> pe_path entry = path \<and>
       pe_format entry = (if ext = ''.jslb.gz'' then ''jslb'' else ''json''))"
proof -
  let ?base = "window_basename session (unat index) started"
  let ?name = "''firefox-'' @ ?base @ ext"
  have "CHR ''/'' \<notin> set (pad_index (unat index))" "CHR ''/'' \<notin> set (show_nat (nat (sint started)))"
    using show_radix_no_char [of 10 "CHR ''/''"] by (simp_all add: pad_index_def)
  then have "CHR ''/'' \<notin> set ?name"
    using assms(2,3,4) by (auto simp: window_basename_def show_int_def)
  then have name: "path_file_name path = Some ?name"
    unfolding assms(1) by (rule path_file_name_join) simp_all
  have "\<exists>d. path = d @ ext" unfolding assms(1) by (simp add: join_name_def)
  then have fmt: "ends_with ''.jslb.gz'' path \<longleftrightarrow> ext = ''.jslb.gz''"
    using assms(2) by (auto simp: ends_with_def)
  have "ends_with ''.json.gz'' ?name \<or> ends_with ''.jslb.gz'' ?name"
    using assms(2) by (auto simp: ends_with_def)
  then have firefox: "is_firefox_profile path"
    using assms(5) by (simp add: is_firefox_profile_def name del: append_assoc)
  obtain e where "entry_for env path = Inr e" "pe_session e = session" "pe_window_index e = Some index"
    "pe_started e = Some started" "pe_path e = path"
    "pe_format e = (if ext = ''.jslb.gz'' then ''jslb'' else ''json'')"
    using assms(5-7)
    by (simp add: entry_for_def name profile_stem_window [OF assms(2)] parse_stem [OF refl assms(4)] fmt Let_def
        split_beta not_less del: append_assoc append.simps)
  with firefox show ?thesis by blast
qed

definition example_env :: gallery_env where
  "example_env =
     \<lparr>ge_directory = (\<lambda>_. None), ge_size = (\<lambda>_. Some 100), ge_diagnostics = (\<lambda>_. None),
      ge_gunzip = (\<lambda>_ _. Some [1]), ge_json = (\<lambda>_. Some (JObject [(''$s'', JNumber (Pos_Int 0))])),
      ge_magic = [1], ge_slab_file = (\<lambda>_. Some \<lparr>sf_root = [],
        sf_slab = (\<lambda>i. if i = 0 then Some \<lparr>sl_type = Slab_Uint8, sl_bytes = [7, 8], sl_count = 2\<rparr> else None)\<rparr>),
      ge_hash = id, ge_show_float = (\<lambda>_. '''')\<rparr>"

theorem gallery_entry_roundtrip_witness:
  "\<exists>entry. entry_for example_env (join_name ''out'' (''firefox-'' @ window_basename ''a-b'' (unat (3::u64)) 5 @ ''.jslb.gz'')) =
     Inr entry \<and> pe_session entry = ''a-b'' \<and> pe_window_index entry = Some 3 \<and> pe_started entry = Some 5"
proof -
  have digits: "pad_index 3 = ''000003''" "show_nat 5 = ''5''"
    by code_simp+
  have "valid_utf8 (''firefox-'' @ window_basename ''a-b'' (unat (3::u64)) 5 @ ''.jslb.gz'')"
    by (simp add: window_basename_def digits show_int_def byte_in_def)
  from gallery_entry_roundtrip [OF refl, where dir = "''out''" and env = example_env and n = 100, OF _ _ _ this]
  show ?thesis by (auto simp: example_env_def max_profile_bytes_def)
qed

text \<open>C22: A file is decoded successfully only to a value with at most 4000000 values below its root, nested at
  most 65 deep, however its slabs refer to each other, if the slab library counts elements correctly; anything
  larger is refused. The JSON text itself is parsed as a whole before it is checked: that value is bounded only by
  the limit on the inflated file.\<close>

theorem gallery_values_bounded:
  assumes "decode_value env bs = Inr v" "\<And>sf. ge_slab_file env bs = Some sf \<Longrightarrow> slab_counts sf"
  shows "json_below v \<le> 4000000 \<and> json_depth v \<le> 65"
proof (cases "take (length (ge_magic env)) bs = ge_magic env")
  case True
  with assms(1) obtain sf u b where "ge_slab_file env bs = Some sf"
    "expand_slabs (ge_json env) sf u 0 [] max_expanded_values = Inr (v, b)"
    by (auto simp: decode_value_def map_sum_Inr split: option.splits)
  with expand_bounded(1) [OF this(2) assms(2) [OF this(1)]] show ?thesis by (simp add: max_expanded_values_def)
next
  case False
  with assms(1) obtain b where "validate_budget v 0 max_expanded_values = Inr b"
    by (auto simp: decode_value_def map_sum_Inr split: option.splits)
  from validate_bounded(1) [OF this] show ?thesis by (simp add: max_expanded_values_def)
qed

theorem gallery_values_bounded_witness:
  "decode_value example_env [1] = Inr (JArray [JNumber (Pos_Int 7), JNumber (Pos_Int 8)]) \<and>
   json_below (JArray [JNumber (Pos_Int 7), JNumber (Pos_Int 8)]) \<le> 4000000"
proof -
  have chunks: "chunks_exact (Suc 0) [7, 8 :: u8] = [[7], [8]]" by (simp add: chunks_exact.simps)
  have run: "decode_value example_env [1] = Inr (JArray [JNumber (Pos_Int 7), JNumber (Pos_Int 8)])"
    by (simp add: decode_value_def example_env_def expand_slabs.simps placeholder_def consume_def max_expanded_values_def
        chunks unsigned_chunk_def json_int_def)
  have "slab_counts sf" if "ge_slab_file example_env [1] = Some sf" for sf
    using that by (auto simp: example_env_def slab_counts_def slab_width_def split: if_splits)
  with gallery_values_bounded [OF run] run show ?thesis by blast
qed

text \<open>A stack of the viewer is the path of its prefixes, root first, cut at the root to 512 functions.\<close>

theorem viewer_stacks_exact:
  "stack_functions t i = drop (length (stack_path t i) - 512) (stack_path t i)"
  by (simp add: stack_functions_def walk_stack_path max_stack_depth_def rev_take)

text \<open>C23: A decoded profile is within the limits of the viewer: functions, stacks and their depth,
  threads and samples; the columns of a thread belong together and the sample count is their sum.\<close>

theorem viewer_profile_bounded:
  assumes "gallery_decode env entry = Inr v"
  shows "length (vp_functions v) \<le> 262144 \<and> length (vp_stacks v) \<le> 65536 \<and>
    (\<forall>s \<in> set (vp_stacks v). length s \<le> 512) \<and> length (vp_threads v) \<le> 4096 \<and>
    (\<forall>th \<in> set (vp_threads v). length (vh_weights th) = length (vh_times th) \<and>
       length (vh_stack_indices th) = length (vh_times th) \<and> length (vh_cpu_deltas th) \<le> length (vh_times th)) \<and>
    vp_sample_count v = (\<Sum>th \<leftarrow> vp_threads v. length (vh_times th)) \<and> vp_sample_count v \<le> 65536 \<and>
    vp_profile v = entry"
proof -
  from assms obtain json where "decode_root env entry json = Inr v"
    by (auto simp: gallery_decode_def split: sum.splits)
  then obtain doc strings tables names where "build_viewer env entry doc strings tables names = Inr v"
    unfolding decode_root_def then_ok_Inr by blast
  then obtain threads n tr where
    limits: "length (sb_offsets tables) \<le> max_viewer_stacks" "length names \<le> max_viewer_functions"
      "length threads \<le> max_viewer_threads"
    and run: "decode_threads env 0 False threads = Inr (vp_threads v, n, tr)"
    and v: "vp_functions v = map (function_name strings) names" "vp_sample_count v = n" "vp_profile v = entry"
      "vp_stacks v = map (stack_functions tables) [0..<min (length (sb_offsets tables)) (length (sb_frames tables))]"
    by (auto simp: build_viewer_def then_ok_Inr Let_def not_less split: if_splits)
  have "length (stack_functions t i) \<le> 512" for t i
    by (simp add: stack_functions_def walk_stack_path max_stack_depth_def)
  moreover note decode_threads_ok [OF run]
  ultimately show ?thesis
    using limits
    by (auto simp: v max_viewer_stacks_def max_viewer_functions_def max_viewer_threads_def max_viewer_samples_def
        thread_aligned_def thread_samples_def)
qed


text \<open>Two functions, a stack of two frames, one thread with one sample.\<close>

definition example_profile :: json where
  "example_profile =
     (let column = (\<lambda>ns. JArray (map (JNumber \<circ> Pos_Int) ns)) in
      JObject [(''shared'', JObject [
        (''stringArray'', JArray [JString ''main'', JString ''work'']),
        (''stackTable'', JObject [(''prefixOffset'', column [0, 1]), (''frame'', column [0, 1])]),
        (''frameTable'', JObject [(''func'', column [0, 1])]),
        (''funcTable'', JObject [(''name'', column [0, 1])])]),
      (''threads'', JArray [JObject [(''samples'', JObject [
        (''stack'', column [1]), (''weight'', column [1]), (''timeDeltas'', column [0])])]])])"

definition example_viewer :: "profile_entry \<Rightarrow> viewer_profile" where
  "example_viewer entry =
     \<lparr>vp_profile = entry, vp_start_time = None, vp_interval = None, vp_functions = [''main'', ''work''],
      vp_stacks = [[0], [0, 1]],
      vp_threads = [\<lparr>vh_pid = ''?'', vh_tid = ''?'', vh_name = ''Unnamed thread'', vh_times = [0], vh_weights = [1],
        vh_cpu_deltas = [], vh_stack_indices = [Some 1]\<rparr>],
      vp_sample_count = 1, vp_truncated = False\<rparr>"

definition example_entry :: profile_entry where
  "example_entry = \<lparr>pe_id = ''0'', pe_filename = ''firefox-s-000001-5.json.gz'', pe_session = ''s'',
     pe_window_index = Some 1, pe_started = Some 5, pe_format = ''json'', pe_compressed_bytes = 100,
     pe_samples = None, pe_dropped_samples = None, pe_path = ''firefox-s-000001-5.json.gz''\<rparr>"

theorem viewer_profile_bounded_witness:
  "gallery_decode (example_env\<lparr>ge_magic := [0], ge_json := (\<lambda>_. Some example_profile)\<rparr>) example_entry =
     Inr (example_viewer example_entry) \<and> length (vp_stacks (example_viewer example_entry)) \<le> 65536"
proof -
  let ?entry = example_entry
  let ?env = "example_env\<lparr>ge_magic := [0], ge_json := (\<lambda>_. Some example_profile)\<rparr>"
  have root: "decode_root ?env ?entry example_profile = Inr (example_viewer ?entry)"
  proof -
    have zero: "round_f64 0 = 0" by (simp add: round_f64_def)
    have walks: "stack_functions \<lparr>sb_offsets = [0, 1], sb_frames = [0, 1], sb_functions = [0, 1]\<rparr> 0 = [0]"
      "stack_functions \<lparr>sb_offsets = [0, 1], sb_frames = [0, 1], sb_functions = [0, 1]\<rparr> (Suc 0) = [0, 1]"
      by (simp_all add: stack_functions_def walk_stack.simps frame_at_def function_at_def parent_of_def nth_opt_def
          usize_of_def max_stack_depth_def)
    show ?thesis
      by (simp add: decode_root_def example_profile_def then_ok_def ok_or_def object_map_def json_field_def
          field_column_def column_def build_viewer_def max_viewer_stacks_def max_viewer_functions_def
          max_viewer_threads_def decode_thread_def build_thread_def optional_i64_def max_viewer_samples_def
          f64_of_int_def zero usize_of_def function_name_def nth_opt_def display_id_def walks upt_rec
          example_viewer_def example_env_def)
  qed
  have "\<exists>b. validate_budget example_profile 0 max_expanded_values = Inr b"
    by (simp add: example_profile_def validate_budget.simps consume_def max_expanded_values_def)
  then obtain b where budget: "validate_budget example_profile 0 max_expanded_values = Inr b" ..
  have "decode_value ?env [1] = Inr example_profile" by (simp add: decode_value_def budget)
  moreover have "read_gzip_bounded ?env path = Inr [1]" for path
    by (simp add: read_gzip_bounded_def example_env_def max_decoded_bytes_def)
  ultimately have run: "gallery_decode ?env ?entry = Inr (example_viewer ?entry)"
    by (simp add: gallery_decode_def root)
  with viewer_profile_bounded [OF run] show ?thesis by blast
qed

end
