(* ===== verification/Serve.thy ===== *)
theory Serve
  imports Gallery
begin

text \<open>
  The HTTP service (\<open>src/src/platform/linux/serve.rs\<close>): the checks before serving, and the answer to a request
  together with its effects, the files that are read, the listings and the symbol queries.

  Parameters (\<open>serve_env\<close>): the file system and decoders of the gallery, reading a whole file, the symbol
  library, the JSON writer, which writes a value in pieces, error texts, and whether a blocking task panics.
  The listener, the connections with their time limit and the HTTP parser belong to libraries.
\<close>

section \<open>Before serving\<close>

record serve_args =
  sa_profile :: "string option"
  sa_directory :: "string option"
  sa_loopback :: bool
  sa_bearer_token :: "string option"
  sa_cors_origin :: "string option"

datatype serve_error =
  Not_A_File string | Profile_Size string | Not_A_Directory string | Token_Required | Runtime_Failed
| Source_Count | Cors_Invalid

text \<open>The file system: \<open>is_file\<close>, the size of a file and \<open>is_dir\<close>; \<open>from_str\<close> of a header value.\<close>

record serve_fs =
  sf_is_file :: "string \<Rightarrow> bool"
  sf_size :: "string \<Rightarrow> u64 option"
  sf_is_dir :: "string \<Rightarrow> bool"
  sf_header_value :: "string \<Rightarrow> bool"

definition serve_checks :: "serve_fs \<Rightarrow> serve_args \<Rightarrow> serve_error + unit" where
  "serve_checks fs args =
     then_ok (case sa_profile args of
         None \<Rightarrow> Inr ()
       | Some p \<Rightarrow>
           if \<not> sf_is_file fs p then Inl (Not_A_File p)
           else (case sf_size fs p of
                   None \<Rightarrow> Inl (Not_A_File p)
                 | Some n \<Rightarrow> if max_profile_bytes < n then Inl (Profile_Size p) else Inr ())) (\<lambda>_.
     then_ok (case sa_directory args of
         None \<Rightarrow> Inr ()
       | Some d \<Rightarrow> if sf_is_dir fs d then Inr () else Inl (Not_A_Directory d)) (\<lambda>_.
     if \<not> sa_loopback args \<and> (sa_bearer_token args = None \<or> sa_bearer_token args = Some [])
     then Inl Token_Required else Inr ()))"

text \<open>What all requests share once \<open>run_async\<close> has started: the source, the profile with its two flags, the
  token and the origin.\<close>

record server =
  sr_source :: gallery_source
  sr_profile :: "(string \<times> bool \<times> bool) option"
  sr_token :: "string option"
  sr_cors :: "string option"

text \<open>\<open>Path::extension\<close> is \<open>gz\<close>: the name has a further character before the dot.\<close>

definition has_gz_extension :: "string \<Rightarrow> bool" where
  "has_gz_extension path =
     (case path_file_name path of
        None \<Rightarrow> False
      | Some name \<Rightarrow> (case strip_suffix ''.gz'' name of None \<Rightarrow> False | Some stem \<Rightarrow> stem \<noteq> []))"

definition start_server :: "serve_fs \<Rightarrow> serve_args \<Rightarrow> serve_error + server" where
  "start_server fs args =
     then_ok (serve_checks fs args) (\<lambda>_.
     then_ok (case (sa_profile args, sa_directory args) of
         (Some p, None) \<Rightarrow> Inr (One_Profile p)
       | (None, Some d) \<Rightarrow> Inr (Profile_Directory d)
       | _ \<Rightarrow> Inl Source_Count) (\<lambda>source.
     then_ok (case sa_cors_origin args of
         None \<Rightarrow> Inr ()
       | Some origin \<Rightarrow> if sf_header_value fs origin then Inr () else Inl Cors_Invalid) (\<lambda>_.
     Inr \<lparr>sr_source = source,
          sr_profile = map_option (\<lambda>p. (p, has_gz_extension p, ends_with ''.jslb.gz'' p)) (sa_profile args),
          sr_token = sa_bearer_token args, sr_cors = sa_cors_origin args\<rparr>)))"

section \<open>Requests\<close>

datatype http_method = Get | Post | Options | Other_Method

text \<open>The body: the upper size hint, and what collecting it under a limit gives, \<open>None\<close> for a longer body or
  a connection that breaks. \<open>rq_authorization\<close> is the header where it is printable.\<close>

record request =
  rq_method :: http_method
  rq_path :: string
  rq_authorization :: "string option"
  rq_size_hint :: "nat option"
  rq_collect :: "nat \<Rightarrow> string option"

record response =
  rs_status :: nat
  rs_headers :: "(string, string) table"
  rs_body :: string

text \<open>What a request touches: the served profile, a file of a listing, the file of an entry, the symbol library.\<close>

datatype serve_effect =
  Read_Profile string | Listing gallery_access | Decode_Profile profile_entry | Query_Symbols string string

record serve_env =
  sv_gallery :: gallery_env
  sv_read :: "string \<Rightarrow> string + string"
  sv_symbols :: "string \<Rightarrow> string \<Rightarrow> string list option"
  sv_entries_json :: "profile_entry list \<Rightarrow> string list"
  sv_profile_json :: "viewer_profile \<Rightarrow> string list"
  sv_show_error :: "gallery_error \<Rightarrow> string"
  sv_viewer :: string

text \<open>At the moment of a request: whether the one decoding job can be had, and, where it panics, the text of the
  panic and the number of accesses it had made.\<close>

record serve_moment =
  sm_job_free :: bool
  sm_panic :: "(string \<times> nat) option"

definition job_effects :: "serve_moment \<Rightarrow> serve_effect list \<Rightarrow> serve_effect list" where
  "job_effects now effs = (case sm_panic now of None \<Rightarrow> effs | Some (_, n) \<Rightarrow> take n effs)"

definition max_request_bytes :: nat where "max_request_bytes = 8388608"
definition max_response_bytes :: nat where "max_response_bytes = 33554432"

definition set_header :: "string \<Rightarrow> string \<Rightarrow> response \<Rightarrow> response" where
  "set_header name v r = r\<lparr>rs_headers := AList.update name v (rs_headers r)\<rparr>"

definition newline :: string where "newline = [CHR 0x0A]"

text \<open>\<open>BoundedBuffer\<close>: a write that would exceed the limit fails, and with it the whole output.\<close>

fun bounded_write :: "nat \<Rightarrow> string \<Rightarrow> string list \<Rightarrow> string option" where
  "bounded_write limit bytes [] = Some bytes"
| "bounded_write limit bytes (piece # pieces) =
     (if limit < length bytes + length piece then None else bounded_write limit (bytes @ piece) pieces)"

definition set_json :: "string list \<Rightarrow> response \<Rightarrow> response" where
  "set_json pieces r =
     (case bounded_write max_response_bytes [] pieces of
        None \<Rightarrow> r\<lparr>rs_status := 500\<rparr>
      | Some out \<Rightarrow>
          set_header ''cache-control'' ''no-store''
            (set_header ''content-type'' ''application/json'' (r\<lparr>rs_body := out\<rparr>)))"

definition set_error :: "nat \<Rightarrow> string \<Rightarrow> response \<Rightarrow> response" where
  "set_error status message r =
     set_header ''content-type'' ''text/plain; charset=utf-8'' (r\<lparr>rs_status := status, rs_body := message @ newline\<rparr>)"

definition set_busy :: "response \<Rightarrow> response" where
  "set_busy r =
     set_header ''content-type'' ''text/plain; charset=utf-8'' (set_header ''retry-after'' ''1''
       (r\<lparr>rs_status := 503, rs_body := ''profile decoder is busy'' @ newline\<rparr>))"

definition authorized :: "string option \<Rightarrow> request \<Rightarrow> bool" where
  "authorized token rq =
     (case token of None \<Rightarrow> True | Some t \<Rightarrow> rq_authorization rq = Some (''Bearer '' @ t))"

definition quoted :: "string \<Rightarrow> string" where
  "quoted w = [CHR 0x27] @ w @ [CHR 0x27]"

definition content_policy :: string where
  "content_policy =
     ''default-src '' @ quoted ''self'' @ ''; connect-src '' @ quoted ''self'' @ ''; img-src '' @ quoted ''none'' @
     ''; object-src '' @ quoted ''none'' @ ''; frame-ancestors '' @ quoted ''none'' @
     ''; style-src '' @ quoted ''unsafe-inline'' @ ''; script-src '' @ quoted ''unsafe-inline''"

definition base_response :: "server \<Rightarrow> response" where
  "base_response srv =
     (let r = set_header ''content-security-policy'' content_policy
                (set_header ''referrer-policy'' ''no-referrer''
                  (set_header ''x-content-type-options'' ''nosniff'' \<lparr>rs_status = 200, rs_headers = [], rs_body = []\<rparr>))
      in case sr_cors srv of None \<Rightarrow> r | Some origin \<Rightarrow> set_header ''access-control-allow-origin'' origin r)"

text \<open>One arm of the match per definition. Each decoding job first takes the permit.\<close>

definition answer_viewer :: "serve_env \<Rightarrow> response \<Rightarrow> response \<times> serve_effect list" where
  "answer_viewer env r =
     (set_header ''cache-control'' ''no-store'' (set_header ''content-type'' ''text/html; charset=utf-8''
        (r\<lparr>rs_body := sv_viewer env\<rparr>)), [])"

definition answer_health :: "response \<Rightarrow> response \<times> serve_effect list" where
  "answer_health r = (set_header ''content-type'' ''text/plain; charset=utf-8'' (r\<lparr>rs_body := ''ok'' @ newline\<rparr>), [])"

definition answer_legacy ::
  "serve_env \<Rightarrow> serve_moment \<Rightarrow> (string \<times> bool \<times> bool) option \<Rightarrow> response \<Rightarrow> response \<times> serve_effect list" where
  "answer_legacy env now profile r =
     (case profile of
        None \<Rightarrow> (r\<lparr>rs_status := 404\<rparr>, [])
      | Some (path, is_gzip, is_jslb) \<Rightarrow>
          if \<not> sm_job_free now then (set_busy r, [])
          else (case sm_panic now of
            Some (e, _) \<Rightarrow> set_error 500 e r
          | None \<Rightarrow>
              (case sv_read env path of
                 Inl e \<Rightarrow> set_error 500 e r
               | Inr contents \<Rightarrow>
                   (let r1 = set_header ''content-type''
                               (if is_jslb then ''application/octet-stream'' else ''application/json'')
                               (r\<lparr>rs_body := contents\<rparr>)
                    in if is_gzip then set_header ''content-encoding'' ''gzip'' r1 else r1)),
            job_effects now [Read_Profile path]))"

definition listing_effects :: "serve_env \<Rightarrow> gallery_source \<Rightarrow> serve_effect list" where
  "listing_effects env source = map Listing (listing_accesses (sv_gallery env) source)"

definition answer_list :: "serve_env \<Rightarrow> serve_moment \<Rightarrow> gallery_source \<Rightarrow> response \<Rightarrow> response \<times> serve_effect list" where
  "answer_list env now source r =
     (if \<not> sm_job_free now then (set_busy r, [])
      else (case sm_panic now of
              Some (e, _) \<Rightarrow> set_error 500 e r
            | None \<Rightarrow>
                (case gallery_entries (sv_gallery env) source of
                   Inl e \<Rightarrow> set_error 500 (sv_show_error env e) r
                 | Inr es \<Rightarrow> set_json (sv_entries_json env es) r),
            job_effects now (listing_effects env source)))"

definition decoding_effects :: "serve_env \<Rightarrow> gallery_source \<Rightarrow> string \<Rightarrow> serve_effect list" where
  "decoding_effects env source i =
     listing_effects env source @
     (case gallery_find (sv_gallery env) source i of Inr (Some entry) \<Rightarrow> [Decode_Profile entry] | _ \<Rightarrow> [])"

definition answer_profile ::
  "serve_env \<Rightarrow> serve_moment \<Rightarrow> gallery_source \<Rightarrow> string \<Rightarrow> response \<Rightarrow> response \<times> serve_effect list" where
  "answer_profile env now source i r =
     (if \<not> sm_job_free now then (set_busy r, [])
      else (case sm_panic now of
              Some (e, _) \<Rightarrow> set_error 500 e r
            | None \<Rightarrow>
                (case gallery_find (sv_gallery env) source i of
                   Inl e \<Rightarrow> set_error 422 (sv_show_error env e) r
                 | Inr None \<Rightarrow> r\<lparr>rs_status := 404\<rparr>
                 | Inr (Some entry) \<Rightarrow>
                     (case gallery_decode (sv_gallery env) entry of
                        Inl e \<Rightarrow> set_error 422 (sv_show_error env e) r
                      | Inr profile \<Rightarrow> set_json (sv_profile_json env profile) r)),
            job_effects now (decoding_effects env source i)))"

definition answer_symbols :: "serve_env \<Rightarrow> request \<Rightarrow> response \<Rightarrow> response \<times> serve_effect list" where
  "answer_symbols env rq r =
     (if (\<exists>n \<in> set_option (rq_size_hint rq). max_request_bytes < n) then (r\<lparr>rs_status := 413\<rparr>, [])
      else case rq_collect rq max_request_bytes of
        None \<Rightarrow> (r\<lparr>rs_status := 413\<rparr>, [])
      | Some body \<Rightarrow>
          if max_request_bytes < length body then (r\<lparr>rs_status := 413\<rparr>, [])
          else if \<not> valid_utf8 body then (r\<lparr>rs_status := 400\<rparr>, [])
          else (case sv_symbols env (rq_path rq) body of
                  None \<Rightarrow> r\<lparr>rs_status := 504\<rparr>
                | Some pieces \<Rightarrow>
                    (case bounded_write max_response_bytes [] [concat pieces] of
                       None \<Rightarrow> r\<lparr>rs_status := 500\<rparr>
                     | Some out \<Rightarrow> set_header ''content-type'' ''application/json'' (r\<lparr>rs_body := out\<rparr>)),
                [Query_Symbols (rq_path rq) body]))"

definition answer_options :: "server \<Rightarrow> response \<Rightarrow> response" where
  "answer_options srv r =
     (if sr_cors srv = None then r\<lparr>rs_status := 405\<rparr>
      else set_header ''access-control-allow-headers'' ''authorization, content-type''
             (set_header ''access-control-allow-methods'' ''GET, POST, OPTIONS'' (r\<lparr>rs_status := 204\<rparr>)))"

definition handle_request ::
  "serve_env \<Rightarrow> server \<Rightarrow> serve_moment \<Rightarrow> request \<Rightarrow> response \<times> serve_effect list" where
  "handle_request env srv now rq =
     (let r = base_response srv; path = rq_path rq
      in if rq_method rq = Options then (answer_options srv r, [])
         else if \<not> authorized (sr_token srv) rq then (r\<lparr>rs_status := 401\<rparr>, [])
         else if rq_method rq = Get \<and> path = ''/'' then answer_viewer env r
         else if rq_method rq = Get \<and> path = ''/healthz'' then answer_health r
         else if rq_method rq = Get \<and> path = ''/profile.json'' then answer_legacy env now (sr_profile srv) r
         else if rq_method rq = Get \<and> path = ''/api/profiles'' then answer_list env now (sr_source srv) r
         else if rq_method rq = Get \<and> starts_with ''/api/profile/'' path
         then answer_profile env now (sr_source srv) (drop (length ''/api/profile/'') path) r
         else if rq_method rq = Post then answer_symbols env rq r
         else (r\<lparr>rs_status := 404\<rparr>, []))"

section \<open>Laws\<close>

lemma set_header_simps [simp]:
  "rs_status (set_header k v r) = rs_status r" "rs_body (set_header k v r) = rs_body r"
  "map_of (rs_headers (set_header k v r)) = (map_of (rs_headers r))(k \<mapsto> v)"
  by (simp_all add: set_header_def)

lemma base_response_simps [simp]: "rs_body (base_response srv) = []" "rs_status (base_response srv) = 200"
  by (simp_all add: base_response_def Let_def split: option.split)

lemma bounded_write_Some:
  "bounded_write limit bytes pieces = Some out \<Longrightarrow> length bytes \<le> limit \<Longrightarrow>
   out = bytes @ concat pieces \<and> length out \<le> limit"
  by (induction limit bytes pieces arbitrary: out rule: bounded_write.induct) (auto split: if_splits)

lemma bounded_write_fits:
  "length bytes + length (concat pieces) \<le> limit \<Longrightarrow> bounded_write limit bytes pieces = Some (bytes @ concat pieces)"
  by (induction limit bytes pieces rule: bounded_write.induct) simp_all

lemma start_server_token:
  "start_server fs args = Inr srv \<Longrightarrow>
   sr_token srv = sa_bearer_token args \<and> (sa_loopback args \<or> (\<exists>t. sr_token srv = Some t \<and> t \<noteq> []))"
  unfolding start_server_def serve_checks_def then_ok_Inr by (auto split: if_splits)

section \<open>The service\<close>

text \<open>C24: A service that can be reached from outside the host has a non-empty token, and without that token a
  request learns and causes nothing: the answer has no body and no file, listing or symbol is touched.\<close>

theorem serve_requires_token:
  assumes "start_server fs args = Inr srv" "\<not> sa_loopback args"
    and "\<And>t. t \<noteq> [] \<Longrightarrow> sa_bearer_token args = Some t \<Longrightarrow> rq_authorization rq \<noteq> Some (''Bearer '' @ t)"
  shows "rs_body (fst (handle_request env srv now rq)) = [] \<and> snd (handle_request env srv now rq) = [] \<and>
    rs_status (fst (handle_request env srv now rq)) \<in> {204, 401, 405}"
proof (cases "rq_method rq = Options")
  case True
  then show ?thesis by (simp add: handle_request_def answer_options_def Let_def)
next
  case False
  obtain t where t: "sr_token srv = Some t" "t \<noteq> []" "sa_bearer_token args = Some t"
    using start_server_token [OF assms(1)] assms(2) by auto
  then have "\<not> authorized (sr_token srv) rq" using assms(3) by (simp add: authorized_def)
  with False show ?thesis by (simp add: handle_request_def Let_def)
qed

definition example_args :: serve_args where
  "example_args = \<lparr>sa_profile = Some ''p.json'', sa_directory = None, sa_loopback = False,
     sa_bearer_token = Some ''secret'', sa_cors_origin = None\<rparr>"

definition example_server :: server where
  "example_server = \<lparr>sr_source = One_Profile ''p.json'', sr_profile = Some (''p.json'', False, False),
     sr_token = Some ''secret'', sr_cors = None\<rparr>"

definition example_request :: "string option \<Rightarrow> request" where
  "example_request auth = \<lparr>rq_method = Get, rq_path = ''/profile.json'', rq_authorization = auth,
     rq_size_hint = None, rq_collect = (\<lambda>_. None)\<rparr>"

definition example_serve_env :: serve_env where
  "example_serve_env = \<lparr>sv_gallery = example_env, sv_read = (\<lambda>_. Inr ''{}''), sv_symbols = (\<lambda>_ _. None),
     sv_entries_json = (\<lambda>_. []), sv_profile_json = (\<lambda>_. []), sv_show_error = (\<lambda>_. []), sv_viewer = []\<rparr>"

definition example_moment :: serve_moment where
  "example_moment = \<lparr>sm_job_free = True, sm_panic = None\<rparr>"

lemma example_server_starts:
  "start_server \<lparr>sf_is_file = (\<lambda>_. True), sf_size = (\<lambda>_. Some 10), sf_is_dir = (\<lambda>_. True), sf_header_value = (\<lambda>_. True)\<rparr>
     example_args = Inr example_server"
proof -
  have "has_gz_extension ''p.json'' = False"
    by (simp add: has_gz_extension_def path_file_name_def strip_suffix_def ends_with_def)
  then show ?thesis
    by (simp add: start_server_def serve_checks_def example_args_def then_ok_def max_profile_bytes_def example_server_def
        ends_with_def)
qed

theorem serve_requires_token_witness:
  "rs_body (fst (handle_request example_serve_env example_server example_moment
     (example_request (Some ''Bearer guess'')))) = []"
proof -
  have "rq_authorization (example_request (Some ''Bearer guess'')) \<noteq> Some (''Bearer '' @ t)"
    if "sa_bearer_token example_args = Some t" for t
    using that by (auto simp: example_args_def example_request_def)
  from serve_requires_token [OF example_server_starts _ this] show ?thesis by (simp add: example_args_def)
qed

text \<open>The effects that a request may have.\<close>

definition effect_allowed :: "serve_env \<Rightarrow> server \<Rightarrow> serve_effect \<Rightarrow> bool" where
  "effect_allowed env srv eff =
     (case eff of
        Read_Profile p \<Rightarrow> map_option fst (sr_profile srv) = Some p
      | Decode_Profile e \<Rightarrow> (\<exists>es. gallery_entries (sv_gallery env) (sr_source srv) = Inr es \<and> e \<in> set es)
      | Listing a \<Rightarrow> access_allowed (sv_gallery env) (sr_source srv) a
      | Query_Symbols path body \<Rightarrow> length body \<le> 8388608)"

lemma effect_allowed_simps [simp]:
  "effect_allowed env srv (Read_Profile p) \<longleftrightarrow> map_option fst (sr_profile srv) = Some p"
  "effect_allowed env srv (Listing a) \<longleftrightarrow> access_allowed (sv_gallery env) (sr_source srv) a"
  "effect_allowed env srv (Query_Symbols path body) \<longleftrightarrow> length body \<le> 8388608"
  by (simp_all add: effect_allowed_def)

lemma find_in_set: "Some e = List.find P xs \<Longrightarrow> e \<in> set xs"
  by (metis find_Some_iff nth_mem)

lemma find_allowed:
  "gallery_find (sv_gallery env) (sr_source srv) i = Inr (Some e) \<Longrightarrow> effect_allowed env srv (Decode_Profile e)"
  by (auto simp: gallery_find_def effect_allowed_def map_sum_Inr dest: find_in_set)

lemma job_effects_allowed:
  assumes "\<forall>eff \<in> set effs. effect_allowed env srv eff"
  shows "\<forall>eff \<in> set (job_effects now effs). effect_allowed env srv eff"
  using assms by (auto simp: job_effects_def dest: in_set_takeD split: option.split)

lemma listing_effects_allowed: "\<forall>eff \<in> set (listing_effects env (sr_source srv)). effect_allowed env srv eff"
  by (simp add: listing_effects_def listing_allowed)

lemma decoding_effects_allowed: "\<forall>eff \<in> set (decoding_effects env (sr_source srv) i). effect_allowed env srv eff"
  using listing_effects_allowed [of env srv] find_allowed [of env srv i]
  by (auto simp: decoding_effects_def split: sum.splits option.splits)

lemma answers_allowed:
  "\<forall>eff \<in> set (snd (answer_profile env now (sr_source srv) i r)). effect_allowed env srv eff"
  "\<forall>eff \<in> set (snd (answer_legacy env now (sr_profile srv) r)). effect_allowed env srv eff"
  "\<forall>eff \<in> set (snd (answer_list env now (sr_source srv) r)). effect_allowed env srv eff"
  "\<forall>eff \<in> set (snd (answer_symbols env rq r)). effect_allowed env srv eff"
  "\<forall>eff \<in> set (snd (answer_viewer env r)). effect_allowed env srv eff"
  "\<forall>eff \<in> set (snd (answer_health r)). effect_allowed env srv eff"
proof -
  show "\<forall>eff \<in> set (snd (answer_profile env now (sr_source srv) i r)). effect_allowed env srv eff"
    using job_effects_allowed [OF decoding_effects_allowed] by (simp add: answer_profile_def)
  show "\<forall>eff \<in> set (snd (answer_list env now (sr_source srv) r)). effect_allowed env srv eff"
    using job_effects_allowed [OF listing_effects_allowed] by (simp add: answer_list_def)
  show "\<forall>eff \<in> set (snd (answer_legacy env now (sr_profile srv) r)). effect_allowed env srv eff"
  proof (cases "sr_profile srv")
    case (Some profile)
    have "\<forall>eff \<in> set (job_effects now [Read_Profile (fst profile)]). effect_allowed env srv eff"
      using Some by (intro job_effects_allowed) simp
    with Some show ?thesis by (cases profile) (simp add: answer_legacy_def)
  qed (simp add: answer_legacy_def)
  show "\<forall>eff \<in> set (snd (answer_symbols env rq r)). effect_allowed env srv eff"
    by (simp add: answer_symbols_def max_request_bytes_def not_less split: option.split)
qed (simp_all add: answer_viewer_def answer_health_def)

text \<open>C25: Whatever path and body a request has, the files it touches are the profile being served, the source
  of the gallery, its candidates (the one profile, or the profiles among the first 16384 items of the directory),
  the file \<open>diagnostics-<stem>.json\<close> beside a candidate, which has the candidate's own name as stem, and the file
  of a listed entry; only bodies of at most 8388608 bytes reach the symbol library; and nothing at all is touched
  for an unauthorized or an \<open>OPTIONS\<close> request.\<close>

theorem serve_reads_only_source:
  assumes "eff \<in> set (snd (handle_request env srv now rq))"
  shows "effect_allowed env srv eff \<and> rq_method rq \<noteq> Options \<and> authorized (sr_token srv) rq"
proof -
  have auth: "rq_method rq \<noteq> Options \<and> authorized (sr_token srv) rq"
    using assms by (auto simp: handle_request_def Let_def split: if_splits)
  have "\<forall>eff \<in> set (snd (handle_request env srv now rq)). effect_allowed env srv eff"
    unfolding handle_request_def Let_def using answers_allowed by (simp split: if_split)
  with assms auth show ?thesis by blast
qed

text \<open>A directory with one profile and a file that is none of its business.\<close>

definition example_gallery_server :: server where
  "example_gallery_server = \<lparr>sr_source = Profile_Directory ''d'', sr_profile = None, sr_token = None, sr_cors = None\<rparr>"

definition example_gallery_env :: serve_env where
  "example_gallery_env = example_serve_env\<lparr>sv_gallery := example_env\<lparr>ge_directory := (\<lambda>_.
     Some [Some \<lparr>dt_path = ''d/firefox-s.json.gz'', dt_is_file = True\<rparr>,
           Some \<lparr>dt_path = ''d/secret'', dt_is_file = True\<rparr>])\<rparr>\<rparr>"

lemma example_listing:
  "listing_effects example_gallery_env (Profile_Directory ''d'') =
     [Listing (Read_Directory ''d''), Listing (Inspect_Profile ''d/firefox-s.json.gz''),
      Listing (Read_Diagnostics ''d/diagnostics-s.json'')]"
  by code_simp

theorem serve_reads_only_source_witness:
  "access_allowed (sv_gallery example_gallery_env) (Profile_Directory ''d'') (Read_Diagnostics ''d/diagnostics-s.json'')"
proof -
  have "Listing (Read_Diagnostics ''d/diagnostics-s.json'') \<in> set (snd (handle_request example_gallery_env
      example_gallery_server example_moment (example_request None\<lparr>rq_path := ''/api/profiles''\<rparr>)))"
    by (simp add: handle_request_def example_gallery_server_def example_request_def authorized_def answer_list_def
        Let_def example_moment_def job_effects_def example_listing)
  from serve_reads_only_source [OF this] show ?thesis by (simp add: example_gallery_server_def)
qed

end
