(* ===== verification/Spec2Isabelle.thy ===== *)
theory Spec2Isabelle
  imports Heap_State Config Event_Sorter Perf_Ring Off_Cpu Symbol Pprof_Laws Publish Target Export_Chain
    Output_Writer Heap_Collector Flame Serve
begin

text \<open>
  rustprofile is a sampling profiler for Linux. It attaches to a process or a container, samples CPU
  stacks through \<open>perf_event\<close>, heap allocations and off-CPU time through BPF, cuts the recording into
  windows, and writes every window as pprof profiles, flame graphs, a Firefox timeline and a JSON report,
  with an export over OTLP. This library models its user-space code and proves what makes it correct.

  \<^bold>\<open>Data.\<close> \<open>Profile\<close> has the stacks and counters of \<open>src/src/profile.rs\<close>; \<open>Config\<close>, \<open>Cli\<close> and
  \<open>Diagnostics\<close> the enumerations, options and reports (\<open>config.rs\<close>, \<open>cli.rs\<close>, \<open>diagnostics.rs\<close>).
  \<open>Prelude\<close>, \<open>Text\<close>, \<open>Tables\<close> and \<open>Ranges\<close> hold what they share: saturating and checked words, texts
  and numbers, the two kinds of map (an association list for \<open>HashMap\<close>, an ordered one for
  \<open>BTreeMap\<close>) with their laws as locales, and interval tables.

  \<^bold>\<open>Reading a process.\<close> \<open>Maps\<close> and \<open>Paths\<close>: \<open>maps.rs\<close>, with the lines that the kernel prints, padded numbers
  and names of every kind, and the grouping of mappings by file. White space is that of Unicode (\<open>Text\<close>). \<open>Unwind\<close>:
  the bounded unwinding loop of \<open>unwind.rs\<close>. \<open>Symbol\<close>: \<open>symbol.rs\<close> with its cache and JIT tables.
  \<open>Docker\<close> and \<open>Target\<close>: \<open>target.rs\<close>, from the container reference to a pid that is never silently
  replaced by another one.

  \<^bold>\<open>Collecting.\<close> \<open>Perf_Sample\<close> and \<open>Perf_Ring\<close>: records and the ring of \<open>platform/linux/perf.rs\<close>.
  \<open>Event_Sorter\<close>: the reorder buffer of \<open>event.rs\<close>. \<open>Off_Cpu\<close>: the interval machine of \<open>off_cpu.rs\<close>.
  \<open>Heap_State\<close>: the live table and totals of \<open>heap/state.rs\<close>; \<open>Heap_Collector\<close>: the events that
  drive it (\<open>platform/linux/heap.rs\<close>), with the bounds of its queue and of the stacks that wait, and the
  failures of the ring and of the kernel's counters. \<open>Cpu_Window\<close>: how samples enter a
  window (\<open>record.rs\<close>), composed with the sorter.

  \<^bold>\<open>Writing.\<close> \<open>Interner\<close> states the contract of the string, location and function tables once, as a
  locale that the pprof builder and the OTLP dictionary interpret. \<open>Pprof\<close> and \<open>Pprof_Laws\<close>: the
  profile builder of \<open>pprof.rs\<close> and what a profile denotes. \<open>Flame\<close>: the flame graphs of \<open>svg.rs\<close>. \<open>Publish\<close>: \<open>atomic_write\<close>. \<open>Otlp_Proto\<close>,
  \<open>Otlp_Dictionary\<close>, \<open>Otlp\<close>, \<open>Otlp_Laws\<close>: \<open>otlp/\<close>, with the retry loop. \<open>Export_Chain\<close> composes the
  symbolizer, the builder and the exporter. \<open>Window_Plan\<close>, \<open>Window_Output\<close> and \<open>Output_Writer\<close>: the
  window that \<open>record\<close> plans, how it is written or rolled back, and the three threads that do it; a run carries
  the windows that were submitted, so that the retained ones are exactly the last of them.

  \<^bold>\<open>Serving.\<close> \<open>Gallery\<close>: listing and decoding the windows of a directory (\<open>serve_gallery.rs\<close>); \<open>Serve\<close>: the
  HTTP service over it (\<open>serve.rs\<close>), with the files and queries that a request causes, among them every file that
  listing inspects or opens.

  \<^bold>\<open>How state corresponds.\<close> A struct is a record with its fields in order; an operation on
  \<open>&mut self\<close> returns the new record. Words keep their width (\<^typ>\<open>64 word\<close> for \<open>u64\<close> and \<open>i64\<close>,
  the latter read by \<open>sint\<close>), saturating operations are written out; lengths and indices (\<open>usize\<close>) are
  \<^typ>\<open>nat\<close>. Strings are byte lists. An error is the left part of a sum with its own datatype. Threads
  interleave through an inductive step relation (\<open>output_step\<close>).

  \<^bold>\<open>What is proved.\<close> Conservation: heap totals, samples, off-CPU time and windows are neither lost nor
  invented, up to what the reports count. Denotation: profiles and export requests, read back through
  their tables, say what was sampled. Round trips of the formats. Bounds of tables, caches, queues and
  retries. Errors: publishing and windows are all or nothing. Refinement: caches are transparent, the
  live table is a map. Liveness: draining, exporting and shutting down end.

  \<^bold>\<open>Bounds and fuel.\<close> Loops are structural or have a measure, with two exceptions. \<open>Perf_Ring.drain_loop\<close>
  has fuel, one round for each byte between tail and head and one more, and is \<open>None\<close> without it;
  \<open>drain_terminates\<close> proves it sufficient for arbitrary bytes in the ring, under the kernel's contract that the
  head is not behind the tail and not within 65536 bytes of \<open>2 ^ 64\<close>. \<open>Unwind.unwind_loop\<close> has the rounds that
  the bound of the source allows (127 frames), and \<open>unwind_loop_fuel\<close> proves that more change nothing. The retry
  loop has its five attempts.

  \<^bold>\<open>Not modelled.\<close> Code outside \<open>src/\<close> is a parameter: the kernel and \<open>/proc\<close>, BPF loading, the
  DWARF unwinder and ELF readers, HTTP, gzip, protobuf and JSON encoding, hashing, the clock. The glue
  that only calls them (opening events, attaching probes, signal handling, the command line, the listener
  and the connections of the service) is listed in the manifest with the reason.
\<close>

end
